(* ===== verification/Prelude.thy ===== *)
theory Prelude
  imports Main "HOL-Library.List_Lexorder" "HOL-Library.Char_ord" "HOL-Library.Product_Lexorder"
begin

text \<open>
  Shared vocabulary of the development. A Rust \<open>String\<close>, \<open>&str\<close> or
  \<open>Vec<u8>\<close> is a \<open>string\<close> whose characters are the bytes (text is its UTF-8
  encoding), so lengths count bytes, comparison is bytewise and every index is a byte
  offset, as in the sources. A \<open>Result\<close> is a sum with the error on the left. The
  operations below are the parts of Rust's standard library the modelled code calls:
  the \<open>is_ascii_*\<close> family, \<open>split\<close>, \<open>split_once\<close>,
  \<open>rfind\<close>, \<open>trim\<close>, \<open>from_utf8\<close>, decimal and hexadecimal
  rendering, and checked \<open>u64\<close> arithmetic on natural numbers.
\<close>

section \<open>Collections of rewrite rules\<close>

named_theorems result_simps \<open>equations of the result type\<close>
named_theorems ascii_simps \<open>unfolding the byte classes\<close>
named_theorems scan_simps \<open>equations of the string scanners\<close>

section \<open>Results\<close>

definition and_then :: "'e + 'a \<Rightarrow> ('a \<Rightarrow> 'e + 'b) \<Rightarrow> 'e + 'b" where
  "and_then r f = (case r of Inl e \<Rightarrow> Inl e | Inr x \<Rightarrow> f x)"

lemma and_then_simps [simp, result_simps]:
  "and_then (Inl e) f = Inl e"
  "and_then (Inr x) f = f x"
  by (simp_all add: and_then_def)

lemma and_then_eq_Inr [result_simps]:
  "and_then r f = Inr y \<longleftrightarrow> (\<exists>x. r = Inr x \<and> f x = Inr y)"
  by (cases r) auto

lemma and_then_eq_Inl [result_simps]:
  "and_then r f = Inl e \<longleftrightarrow> r = Inl e \<or> (\<exists>x. r = Inr x \<and> f x = Inl e)"
  by (cases r) auto

lemma and_then_assoc: "and_then (and_then r f) g = and_then r (\<lambda>x. and_then (f x) g)"
  by (cases r) auto

lemma and_then_cong [fundef_cong]:
  "r = r' \<Longrightarrow> (\<And>x. r' = Inr x \<Longrightarrow> f x = f' x) \<Longrightarrow> and_then r f = and_then r' f'"
  by (cases r') auto

text \<open>Collecting a list of results stops at the first error, as \<open>collect\<close> does.\<close>

fun collect_results :: "('a \<Rightarrow> 'e + 'b) \<Rightarrow> 'a list \<Rightarrow> 'e + 'b list" where
  "collect_results f [] = Inr []"
| "collect_results f (x # xs) =
     and_then (f x) (\<lambda>y. and_then (collect_results f xs) (\<lambda>ys. Inr (y # ys)))"

lemma collect_results_append:
  "collect_results f (xs @ ys) =
     and_then (collect_results f xs) (\<lambda>us. and_then (collect_results f ys) (\<lambda>vs. Inr (us @ vs)))"
  by (induction xs) (auto simp: and_then_assoc and_then_def split: sum.splits)

lemma collect_results_Inr_length: "collect_results f xs = Inr ys \<Longrightarrow> length ys = length xs"
  by (induction xs arbitrary: ys) (auto simp: result_simps)

lemma collect_results_id:
  "(\<And>x. x \<in> set xs \<Longrightarrow> f x = Inr x) \<Longrightarrow> collect_results f xs = Inr xs"
  by (induction xs) auto

lemma collect_results_map_id:
  "(\<And>x. x \<in> set xs \<Longrightarrow> f (g x) = Inr x) \<Longrightarrow> collect_results f (map g xs) = Inr xs"
  by (induction xs) auto

lemma collect_results_set:
  "collect_results f xs = Inr ys \<Longrightarrow> y \<in> set ys \<Longrightarrow> \<exists>x \<in> set xs. f x = Inr y"
  by (induction xs arbitrary: ys) (auto simp: result_simps)

lemma collect_results_ConsD:
  "collect_results f (x # xs) = Inr zs \<Longrightarrow>
     \<exists>y ys. zs = y # ys \<and> f x = Inr y \<and> collect_results f xs = Inr ys"
  by (auto simp: result_simps)

text \<open>\<open>ok_or_else\<close>: an absent value becomes the given error.\<close>

definition ok_or :: "'e \<Rightarrow> 'a option \<Rightarrow> 'e + 'a" where
  "ok_or e v = (case v of None \<Rightarrow> Inl e | Some x \<Rightarrow> Inr x)"

lemma ok_or_simps [simp, result_simps]:
  "ok_or e None = Inl e" "ok_or e (Some x) = Inr x"
  by (simp_all add: ok_or_def)

definition map_err :: "('e \<Rightarrow> 'f) \<Rightarrow> 'e + 'a \<Rightarrow> 'f + 'a" where
  "map_err f r = (case r of Inl e \<Rightarrow> Inl (f e) | Inr x \<Rightarrow> Inr x)"

lemma map_err_simps [simp]: "map_err f (Inl e) = Inl (f e)" "map_err f (Inr x) = Inr x"
  by (simp_all add: map_err_def)

lemma map_err_eq_Inr [simp]: "map_err f r = Inr x \<longleftrightarrow> r = Inr x"
  by (cases r) (auto simp: map_err_def)

section \<open>Bytes\<close>

abbreviation byte_val :: "char \<Rightarrow> nat" where
  "byte_val c \<equiv> of_char c"

lemma byte_val_less [simp]: "byte_val c < 256"
  by simp

lemma byte_val_inject: "byte_val c = byte_val d \<longleftrightarrow> c = d"
  by simp

definition is_ascii_lowercase :: "char \<Rightarrow> bool" where
  [ascii_simps]: "is_ascii_lowercase c \<longleftrightarrow> 97 \<le> byte_val c \<and> byte_val c \<le> 122"

definition is_ascii_uppercase :: "char \<Rightarrow> bool" where
  [ascii_simps]: "is_ascii_uppercase c \<longleftrightarrow> 65 \<le> byte_val c \<and> byte_val c \<le> 90"

definition is_ascii_digit :: "char \<Rightarrow> bool" where
  [ascii_simps]: "is_ascii_digit c \<longleftrightarrow> 48 \<le> byte_val c \<and> byte_val c \<le> 57"

definition is_ascii_alphabetic :: "char \<Rightarrow> bool" where
  [ascii_simps]: "is_ascii_alphabetic c \<longleftrightarrow> is_ascii_lowercase c \<or> is_ascii_uppercase c"

definition is_ascii_alphanumeric :: "char \<Rightarrow> bool" where
  [ascii_simps]: "is_ascii_alphanumeric c \<longleftrightarrow> is_ascii_alphabetic c \<or> is_ascii_digit c"

definition is_ascii_hexdigit :: "char \<Rightarrow> bool" where
  [ascii_simps]: "is_ascii_hexdigit c \<longleftrightarrow> is_ascii_digit c \<or>
     65 \<le> byte_val c \<and> byte_val c \<le> 70 \<or> 97 \<le> byte_val c \<and> byte_val c \<le> 102"

text \<open>\<open>u8::is_ascii_whitespace\<close>: space, tab, line feed, form feed, carriage return.\<close>

definition is_ascii_whitespace :: "char \<Rightarrow> bool" where
  [ascii_simps]: "is_ascii_whitespace c \<longleftrightarrow> byte_val c \<in> {32, 9, 10, 12, 13}"

definition to_lower_byte :: "char \<Rightarrow> char" where
  "to_lower_byte c = (if is_ascii_uppercase c then char_of (byte_val c + 32) else c)"

definition to_upper_byte :: "char \<Rightarrow> char" where
  "to_upper_byte c = (if is_ascii_lowercase c then char_of (byte_val c - 32) else c)"

definition to_ascii_lowercase :: "string \<Rightarrow> string" where
  "to_ascii_lowercase s = map to_lower_byte s"

definition to_ascii_uppercase :: "string \<Rightarrow> string" where
  "to_ascii_uppercase s = map to_upper_byte s"

definition eq_ignore_ascii_case :: "string \<Rightarrow> string \<Rightarrow> bool" where
  "eq_ignore_ascii_case a b \<longleftrightarrow> to_ascii_lowercase a = to_ascii_lowercase b"

lemma byte_val_to_lower:
  "byte_val (to_lower_byte c) = (if is_ascii_uppercase c then byte_val c + 32 else byte_val c)"
  by (auto simp: to_lower_byte_def ascii_simps)

lemma to_lower_byte_idem [simp]: "to_lower_byte (to_lower_byte c) = to_lower_byte c"
  using byte_val_to_lower [of c]
  by (auto simp: to_lower_byte_def [of "to_lower_byte c"] ascii_simps split: if_splits)

lemma to_ascii_lowercase_idem [simp]:
  "to_ascii_lowercase (to_ascii_lowercase s) = to_ascii_lowercase s"
  by (simp add: to_ascii_lowercase_def)

lemma eq_ignore_ascii_case_refl [simp]: "eq_ignore_ascii_case s s"
  by (simp add: eq_ignore_ascii_case_def)

section \<open>Splitting and searching\<close>

text \<open>\<open>str::split(c)\<close>: always at least one part.\<close>

fun split_char :: "char \<Rightarrow> string \<Rightarrow> string list" where
  "split_char d [] = [[]]"
| "split_char d (c # cs) =
     (if c = d then [] # split_char d cs
      else (case split_char d cs of [] \<Rightarrow> [[c]] | p # ps \<Rightarrow> (c # p) # ps))"

lemma split_char_nonempty [simp]: "split_char d s \<noteq> []"
  by (induction s) (auto split: list.splits)

lemma split_char_no_delim:
  "p \<in> set (split_char d s) \<Longrightarrow> d \<notin> set p"
proof (induction s arbitrary: p)
  case Nil
  then show ?case by simp
next
  case (Cons c cs)
  obtain q qs where q: "split_char d cs = q # qs"
    by (metis split_char_nonempty neq_Nil_conv)
  with Cons show ?case by (auto split: if_splits)
qed

lemma split_char_free: "d \<notin> set s \<Longrightarrow> split_char d s = [s]"
  by (induction s) auto

lemma split_char_append_delim:
  "d \<notin> set p \<Longrightarrow> split_char d (p @ d # rest) = p # split_char d rest"
  by (induction p) (auto split: list.splits)

text \<open>Joining with a separator byte, the inverse of \<open>split_char\<close>.\<close>

fun join_char :: "char \<Rightarrow> string list \<Rightarrow> string" where
  "join_char d [] = []"
| "join_char d [p] = p"
| "join_char d (p # q # ps) = p @ d # join_char d (q # ps)"

lemma join_char_Cons: "ps \<noteq> [] \<Longrightarrow> join_char d (p # ps) = p @ d # join_char d ps"
  by (cases ps) auto

lemma join_split [simp]: "join_char d (split_char d s) = s"
proof (induction s)
  case Nil
  then show ?case by simp
next
  case (Cons c cs)
  obtain q qs where q: "split_char d cs = q # qs"
    by (metis split_char_nonempty neq_Nil_conv)
  with Cons show ?case by (cases qs) (auto simp: join_char_Cons)
qed

lemma split_join:
  "ps \<noteq> [] \<Longrightarrow> (\<And>p. p \<in> set ps \<Longrightarrow> d \<notin> set p) \<Longrightarrow> split_char d (join_char d ps) = ps"
proof (induction ps rule: join_char.induct)
  case (1 d)
  then show ?case by simp
next
  case (2 d p)
  then show ?case by (simp add: split_char_free)
next
  case (3 d p q ps)
  then show ?case by (simp add: split_char_append_delim)
qed

text \<open>\<open>str::split_once(c)\<close>: the text before and after the first occurrence.\<close>

fun split_once :: "char \<Rightarrow> string \<Rightarrow> (string \<times> string) option" where
  "split_once d [] = None"
| "split_once d (c # cs) =
     (if c = d then Some ([], cs)
      else (case split_once d cs of None \<Rightarrow> None | Some (a, b) \<Rightarrow> Some (c # a, b)))"

lemma split_once_None_iff: "split_once d s = None \<longleftrightarrow> d \<notin> set s"
  by (induction s) (auto split: option.splits)

lemma split_once_Some:
  "split_once d s = Some (a, b) \<Longrightarrow> s = a @ d # b \<and> d \<notin> set a"
  by (induction s arbitrary: a b) (auto split: option.splits if_splits)

lemma split_once_append: "d \<notin> set a \<Longrightarrow> split_once d (a @ d # b) = Some (a, b)"
  by (induction a) auto

lemma delimited_inject:
  fixes d :: char
  assumes "a @ d # b = a' @ d # b'" "d \<notin> set a" "d \<notin> set a'"
  shows "a = a' \<and> b = b'"
  using arg_cong [OF assms(1), where f = "split_once d"]
  unfolding split_once_append [OF assms(2)] split_once_append [OF assms(3)] by blast

text \<open>\<open>str::rfind(c)\<close>: the byte offset of the last occurrence.\<close>

fun rfind :: "char \<Rightarrow> string \<Rightarrow> nat option" where
  "rfind d [] = None"
| "rfind d (c # cs) =
     (case rfind d cs of Some i \<Rightarrow> Some (Suc i) | None \<Rightarrow> if c = d then Some 0 else None)"

lemma rfind_None_iff: "rfind d s = None \<longleftrightarrow> d \<notin> set s"
  by (induction s) (auto split: option.splits)

lemma rfind_append_free: "d \<notin> set t \<Longrightarrow> rfind d (s @ d # t) = Some (length s)"
  by (induction s) (auto simp: rfind_None_iff split: option.splits)

definition starts_with :: "string \<Rightarrow> string \<Rightarrow> bool" where
  "starts_with s p \<longleftrightarrow> take (length p) s = p"

definition strip_prefix :: "string \<Rightarrow> string \<Rightarrow> string option" where
  "strip_prefix p s = (if starts_with s p then Some (drop (length p) s) else None)"

lemma starts_with_append [simp]: "starts_with (p @ s) p"
  by (simp add: starts_with_def)

lemma starts_with_Nil [simp]: "starts_with s []"
  by (simp add: starts_with_def)

fun contains_str :: "string \<Rightarrow> string \<Rightarrow> bool" where
  "contains_str [] p = (p = [])"
| "contains_str (c # cs) p = (starts_with (c # cs) p \<or> contains_str cs p)"

lemma starts_with_iff: "starts_with s p \<longleftrightarrow> (\<exists>r. s = p @ r)"
  by (metis append_eq_conv_conj append_take_drop_id starts_with_def)

lemma contains_str_iff: "contains_str s p \<longleftrightarrow> (\<exists>a b. s = a @ p @ b)"
proof (induction s)
  case Nil
  then show ?case by simp
next
  case (Cons c cs)
  have "(\<exists>a b. c # cs = a @ p @ b) \<longleftrightarrow> (\<exists>b. c # cs = p @ b) \<or> (\<exists>a b. cs = a @ p @ b)"
    by (metis append_Cons append_Nil list.sel(3) neq_Nil_conv)
  with Cons show ?case by (simp add: starts_with_iff)
qed

lemma contains_str_appendI: "contains_str s p \<Longrightarrow> contains_str (s @ t) p"
  by (auto simp: contains_str_iff) (metis append.assoc)

text \<open>\<open>trim_end_matches(c)\<close> and \<open>trim_matches(c)\<close> for one byte.\<close>

definition trim_start_matches :: "char \<Rightarrow> string \<Rightarrow> string" where
  "trim_start_matches d s = dropWhile (\<lambda>c. c = d) s"

definition trim_end_matches :: "char \<Rightarrow> string \<Rightarrow> string" where
  "trim_end_matches d s = rev (dropWhile (\<lambda>c. c = d) (rev s))"

definition trim_matches :: "char \<Rightarrow> string \<Rightarrow> string" where
  "trim_matches d s = trim_end_matches d (trim_start_matches d s)"

lemma trim_end_matches_Nil [simp]: "trim_end_matches d [] = []"
  by (simp add: trim_end_matches_def)

section \<open>Unicode white space\<close>

text \<open>
  \<open>str::trim\<close> removes leading and trailing characters with the Unicode property
  White\_Space. Over UTF-8 bytes these are one-byte, two-byte (lead C2) and three-byte
  sequences; the helper returns how many bytes the leading white-space character takes,
  zero when there is none.
\<close>

definition ws_len :: "nat list \<Rightarrow> nat" where
  "ws_len bs = (case bs of
       [] \<Rightarrow> 0
     | a # r \<Rightarrow>
        (if 9 \<le> a \<and> a \<le> 13 \<or> a = 32 then 1
         else (case r of
             [] \<Rightarrow> 0
           | b # r' \<Rightarrow>
              (if a = 194 \<and> (b = 133 \<or> b = 160) then 2
               else (case r' of
                   [] \<Rightarrow> 0
                 | c # _ \<Rightarrow>
                    (if a = 225 \<and> b = 154 \<and> c = 128
                        \<or> a = 226 \<and> b = 128 \<and> (128 \<le> c \<and> c \<le> 138 \<or> c = 168 \<or> c = 169 \<or> c = 175)
                        \<or> a = 226 \<and> b = 129 \<and> c = 159
                        \<or> a = 227 \<and> b = 128 \<and> c = 128
                     then 3 else 0))))))"

definition ws_prefix :: "string \<Rightarrow> nat" where
  "ws_prefix s = ws_len (map byte_val (take 3 s))"

definition ws_suffix :: "string \<Rightarrow> nat" where
  "ws_suffix s =
     (let n = length s;
          at = (\<lambda>k. if k \<le> n \<and> ws_len (map byte_val (drop (n - k) s)) = k then k else 0)
      in if at 1 = 1 then 1 else if at 2 = 2 then 2 else if at 3 = 3 then 3 else 0)"

lemma ws_len_le: "ws_len bs \<le> length bs"
  by (simp add: ws_len_def split: list.split)

lemma ws_prefix_le: "ws_prefix s \<le> length s"
  using ws_len_le [of "map byte_val (take 3 s)"] by (simp add: ws_prefix_def)

lemma ws_suffix_le: "ws_suffix s \<le> length s"
  by (auto simp: ws_suffix_def Let_def)

function trim_start :: "string \<Rightarrow> string" where
  "trim_start s = (if ws_prefix s = 0 then s else trim_start (drop (ws_prefix s) s))"
  by pat_completeness auto
termination
proof (relation "measure length")
  fix s :: string
  assume "ws_prefix s \<noteq> 0"
  with ws_prefix_le [of s] show "(drop (ws_prefix s) s, s) \<in> measure length"
    by auto
qed simp

function trim_end :: "string \<Rightarrow> string" where
  "trim_end s = (if ws_suffix s = 0 then s else trim_end (take (length s - ws_suffix s) s))"
  by pat_completeness auto
termination
proof (relation "measure length")
  fix s :: string
  assume "ws_suffix s \<noteq> 0"
  with ws_suffix_le [of s] show "(take (length s - ws_suffix s) s, s) \<in> measure length"
    by auto
qed simp

declare trim_start.simps [simp del] trim_end.simps [simp del]

definition trim :: "string \<Rightarrow> string" where
  "trim s = trim_end (trim_start s)"

lemma trim_start_Nil [simp]: "trim_start [] = []"
  by (simp add: trim_start.simps ws_prefix_def ws_len_def)

lemma trim_end_Nil [simp]: "trim_end [] = []"
  by (simp add: trim_end.simps ws_suffix_def ws_len_def)

lemma trim_Nil [simp]: "trim [] = []"
  by (simp add: trim_def)

text \<open>Text of printable ASCII characters with a line feed after it, as a one-line file holds it.\<close>

definition is_ascii_graphic :: "char \<Rightarrow> bool" where
  "is_ascii_graphic c \<longleftrightarrow> 33 \<le> byte_val c \<and> byte_val c < 127"

lemma trim_start_graphic: "is_ascii_graphic c \<Longrightarrow> trim_start (c # s) = c # s"
  by (subst trim_start.simps)
     (auto simp: is_ascii_graphic_def ws_prefix_def ws_len_def split: list.split)

lemma ws_len_le_3: "ws_len bs \<le> 3"
  by (simp add: ws_len_def split: list.split)

lemma ws_len_graphic:
  assumes "33 \<le> v" "v < 127"
  shows "ws_len (xs @ [v]) \<noteq> Suc (length xs)"
proof -
  consider "xs = []" | a where "xs = [a]" | a b where "xs = [a, b]" | "3 \<le> length xs"
    by (cases xs; cases "tl xs"; cases "tl (tl xs)") auto
  then show ?thesis
  proof cases
    case 4
    then show ?thesis using ws_len_le_3 [of "xs @ [v]"] by linarith
  qed (use assms in \<open>simp_all add: ws_len_def\<close>)
qed

lemma ws_suffix_graphic:
  assumes "is_ascii_graphic c"
  shows "ws_suffix (s @ [c]) = 0"
proof -
  have "ws_len (map byte_val (drop (length (s @ [c]) - Suc k) (s @ [c]))) \<noteq> Suc k"
    if "Suc k \<le> length (s @ [c])" for k
  proof -
    have "map byte_val (drop (length (s @ [c]) - Suc k) (s @ [c])) =
        map byte_val (drop (length s - k) s) @ [byte_val c]"
      using that by simp
    moreover have "length (map byte_val (drop (length s - k) s)) = k" using that by simp
    ultimately show ?thesis
      using ws_len_graphic [of "byte_val c" "map byte_val (drop (length s - k) s)"] assms
      by (simp only: is_ascii_graphic_def) simp
  qed
  from this [of 0] this [of 1] this [of 2] show ?thesis
    by (simp add: ws_suffix_def Let_def numeral_2_eq_2 numeral_3_eq_3)
qed

lemma trim_end_graphic: "is_ascii_graphic c \<Longrightarrow> trim_end (s @ [c]) = s @ [c]"
  by (subst trim_end.simps) (simp add: ws_suffix_graphic)

lemma ws_suffix_newline: "ws_suffix (s @ [CHR 0x0A]) = 1"
  by (simp add: ws_suffix_def ws_len_def)

lemma trim_graphic: "list_all is_ascii_graphic s \<Longrightarrow> trim s = s"
proof (cases s rule: rev_cases)
  case (snoc t c)
  assume s: "list_all is_ascii_graphic s"
  have "s \<noteq> []" using snoc by simp
  with s have "trim_start s = s" by (cases s) (simp_all add: trim_start_graphic snoc [symmetric])
  moreover have "trim_end s = s" using s snoc by (auto simp: trim_end_graphic)
  ultimately show ?thesis by (simp add: trim_def)
qed simp

lemma trim_line: "list_all is_ascii_graphic s \<Longrightarrow> trim (s @ [CHR 0x0A]) = s"
proof (cases s rule: rev_cases)
  case Nil
  then show ?thesis
    by (simp add: trim_def trim_start.simps [of "[CHR 0x0A]"] ws_prefix_def ws_len_def)
next
  case (snoc t c)
  assume s: "list_all is_ascii_graphic s"
  have "s \<noteq> []" using snoc by simp
  with s have "trim_start (s @ [CHR 0x0A]) = s @ [CHR 0x0A]"
    by (cases s) (simp_all add: trim_start_graphic snoc [symmetric])
  moreover have "trim_end (s @ [CHR 0x0A]) = trim_end s"
    by (subst trim_end.simps) (simp add: ws_suffix_newline)
  moreover have "trim_end s = s" using s snoc by (auto simp: trim_end_graphic)
  ultimately show ?thesis by (simp add: trim_def)
qed

text \<open>Trimming twice is trimming once.\<close>

lemma ws_len_first: "ws_len (a # b # c # r) = ws_len [a, b, c]"
  by (simp add: ws_len_def)

lemma ws_len_append:
  assumes "ws_len bs \<noteq> 0"
  shows "ws_len (bs @ cs) \<noteq> 0"
proof -
  consider "bs = []" | a where "bs = [a]" | a b where "bs = [a, b]" | a b c r where "bs = a # b # c # r"
    by (cases bs; cases "tl bs"; cases "tl (tl bs)") auto
  then show ?thesis
  proof cases
    case (4 a b c r)
    then show ?thesis using assms ws_len_first [of a b c r] ws_len_first [of a b c "r @ cs"] by simp
  qed (use assms in \<open>simp_all add: ws_len_def split: if_split_asm list.split\<close>)
qed

lemma ws_prefix_take: "ws_prefix s = 0 \<Longrightarrow> ws_prefix (take k s) = 0"
proof (rule ccontr)
  assume z: "ws_prefix s = 0" and n: "ws_prefix (take k s) \<noteq> 0"
  have "take 3 (take k s) = take (min 3 k) (take 3 s)" by (simp add: min_def)
  then have "take 3 s = take 3 (take k s) @ drop (min 3 k) (take 3 s)" by (simp only: append_take_drop_id)
  then have "map byte_val (take 3 s) = map byte_val (take 3 (take k s)) @ map byte_val (drop (min 3 k) (take 3 s))"
    by (simp only: map_append [symmetric])
  moreover have "ws_len (map byte_val (take 3 (take k s)) @ map byte_val (drop (min 3 k) (take 3 s))) \<noteq> 0"
    using n by (intro ws_len_append) (simp only: ws_prefix_def not_False_eq_True)
  ultimately have "ws_prefix s \<noteq> 0" by (simp only: ws_prefix_def not_False_eq_True)
  with z show False by simp
qed

lemma ws_prefix_trim_start: "ws_prefix (trim_start s) = 0"
proof (induction s rule: trim_start.induct)
  case (1 s)
  then show ?case by (subst trim_start.simps) simp
qed

lemma ws_prefix_trim_end: "ws_prefix s = 0 \<Longrightarrow> ws_prefix (trim_end s) = 0"
proof (induction s rule: trim_end.induct)
  case (1 s)
  then show ?case by (subst trim_end.simps) (simp add: ws_prefix_take)
qed

lemma trim_end_idem: "trim_end (trim_end s) = trim_end s"
proof (induction s rule: trim_end.induct)
  case (1 s)
  show ?case
  proof (cases "ws_suffix s = 0")
    case True
    then have "trim_end s = s" by (subst trim_end.simps) simp
    then show ?thesis by simp
  next
    case False
    then have "trim_end s = trim_end (take (length s - ws_suffix s) s)" by (subst trim_end.simps) simp
    with 1 [OF False] show ?thesis by simp
  qed
qed

lemma trim_idem [simp]: "trim (trim s) = trim s"
proof -
  have "ws_prefix (trim_end (trim_start s)) = 0" by (rule ws_prefix_trim_end [OF ws_prefix_trim_start])
  then have "trim_start (trim s) = trim s" by (subst trim_start.simps) (simp add: trim_def)
  then show ?thesis by (simp add: trim_def trim_end_idem)
qed

section \<open>UTF-8\<close>

text \<open>\<open>String::from_utf8\<close> accepts exactly the well-formed sequences of the Unicode
  standard: no overlong forms, no surrogates, nothing past U+10FFFF.\<close>

definition utf8_cont :: "char \<Rightarrow> bool" where
  "utf8_cont c \<longleftrightarrow> 128 \<le> byte_val c \<and> byte_val c \<le> 191"

fun utf8_valid :: "string \<Rightarrow> bool" where
  "utf8_valid [] = True"
| "utf8_valid (a # r) =
     (let n = byte_val a in
      if n < 128 then utf8_valid r
      else if 194 \<le> n \<and> n \<le> 223 then
        (case r of b # r' \<Rightarrow> utf8_cont b \<and> utf8_valid r' | _ \<Rightarrow> False)
      else if 224 \<le> n \<and> n \<le> 239 then
        (case r of b # c # r' \<Rightarrow>
             utf8_cont b \<and> utf8_cont c \<and> (n = 224 \<longrightarrow> 160 \<le> byte_val b)
               \<and> (n = 237 \<longrightarrow> byte_val b \<le> 159) \<and> utf8_valid r'
         | _ \<Rightarrow> False)
      else if 240 \<le> n \<and> n \<le> 244 then
        (case r of b # c # d # r' \<Rightarrow>
             utf8_cont b \<and> utf8_cont c \<and> utf8_cont d \<and> (n = 240 \<longrightarrow> 144 \<le> byte_val b)
               \<and> (n = 244 \<longrightarrow> byte_val b \<le> 143) \<and> utf8_valid r'
         | _ \<Rightarrow> False)
      else False)"

lemma utf8_valid_ascii: "(\<And>c. c \<in> set s \<Longrightarrow> byte_val c < 128) \<Longrightarrow> utf8_valid s"
  by (induction s) (auto simp: Let_def)

text \<open>\<open>str::chars\<close>: the scalar values of a string, each as the bytes that encode it.
  The length of an encoding is read off its first byte.\<close>

definition utf8_len :: "char \<Rightarrow> nat" where
  "utf8_len c =
     (let n = byte_val c in if n < 192 then 1 else if n < 224 then 2 else if n < 240 then 3 else 4)"

lemma utf8_len_pos [simp]: "0 < utf8_len c" "utf8_len c \<noteq> 0"
  by (simp_all add: utf8_len_def Let_def)

function utf8_chars :: "string \<Rightarrow> string list" where
  "utf8_chars [] = []"
| "utf8_chars (c # s) = take (utf8_len c) (c # s) # utf8_chars (drop (utf8_len c) (c # s))"
  by pat_completeness auto
termination by (relation "measure length") simp_all

lemma concat_utf8_chars [simp]: "concat (utf8_chars s) = s"
  by (induction s rule: utf8_chars.induct) (simp_all del: take_Cons' drop_Cons')

lemma utf8_chars_nonempty: "ch \<in> set (utf8_chars s) \<Longrightarrow> ch \<noteq> []"
  by (induction s rule: utf8_chars.induct) (auto simp: take_Cons' split: if_splits)

text \<open>\<open>char::is_control\<close>: the C0 and C1 controls and DEL.\<close>

definition char_is_control :: "string \<Rightarrow> bool" where
  "char_is_control ch =
     (case ch of
        [a] \<Rightarrow> byte_val a < 32 \<or> byte_val a = 127
      | [a, b] \<Rightarrow> byte_val a = 194 \<and> 128 \<le> byte_val b \<and> byte_val b < 160
      | _ \<Rightarrow> False)"

section \<open>Numbers\<close>

abbreviation u64_max :: nat where
  "u64_max \<equiv> 18446744073709551615"

abbreviation u32_max :: nat where
  "u32_max \<equiv> 4294967295"

definition checked_add_u64 :: "nat \<Rightarrow> nat \<Rightarrow> nat option" where
  "checked_add_u64 a b = (if a + b \<le> u64_max then Some (a + b) else None)"

definition saturating_add_u64 :: "nat \<Rightarrow> nat \<Rightarrow> nat" where
  "saturating_add_u64 a b = min (a + b) u64_max"

lemma checked_add_u64_Some: "checked_add_u64 a b = Some c \<longleftrightarrow> c = a + b \<and> a + b \<le> u64_max"
  by (auto simp: checked_add_u64_def)

text \<open>Decimal rendering, as \<open>Display\<close> of an unsigned integer writes it.\<close>

definition digit_char :: "nat \<Rightarrow> char" where
  "digit_char n = char_of (48 + n)"

fun dec_string :: "nat \<Rightarrow> string" where
  "dec_string n = (if n < 10 then [digit_char n] else dec_string (n div 10) @ [digit_char (n mod 10)])"

declare dec_string.simps [simp del]

lemma dec_string_nonempty [simp]: "dec_string n \<noteq> []"
  by (subst dec_string.simps) simp

lemma digit_char_digit: "n < 10 \<Longrightarrow> is_ascii_digit (digit_char n)"
  by (simp add: digit_char_def ascii_simps)

lemma dec_string_digits: "c \<in> set (dec_string n) \<Longrightarrow> is_ascii_digit c"
proof (induction n arbitrary: c rule: dec_string.induct)
  case (1 n)
  show ?case
  proof (cases "n < 10")
    case True
    with "1.prems" show ?thesis by (simp add: dec_string.simps [of n] digit_char_digit)
  next
    case False
    with "1.prems" have "c \<in> set (dec_string (n div 10)) \<or> c = digit_char (n mod 10)"
      by (auto simp: dec_string.simps [of n])
    with False "1.IH" show ?thesis by (auto intro: digit_char_digit)
  qed
qed

text \<open>The value of a decimal string, the inverse of \<open>dec_string\<close>.\<close>

definition dec_value :: "string \<Rightarrow> nat" where
  "dec_value s = foldl (\<lambda>acc c. 10 * acc + (byte_val c - 48)) 0 s"

lemma dec_value_dec_string [simp]: "dec_value (dec_string n) = n"
proof (induction n rule: dec_string.induct)
  case (1 n)
  show ?case
  proof (cases "n < 10")
    case True
    then show ?thesis by (simp add: dec_string.simps [of n] dec_value_def digit_char_def)
  next
    case False
    with "1.IH" have "dec_value (dec_string (n div 10)) = n div 10" by simp
    moreover have "byte_val (digit_char (n mod 10)) = 48 + n mod 10"
      by (simp add: digit_char_def)
    ultimately show ?thesis using False
      by (simp add: dec_string.simps [of n] dec_value_def)
  qed
qed

lemma dec_string_inject [simp]: "dec_string m = dec_string n \<longleftrightarrow> m = n"
  by (metis dec_value_dec_string)

text \<open>Two lower-case hexadecimal digits, as the format \<open>{:02x}\<close> writes a byte.\<close>

definition hex_lower :: "nat \<Rightarrow> char" where
  "hex_lower n = (if n < 10 then char_of (48 + n) else char_of (87 + n))"

definition hex_byte :: "char \<Rightarrow> string" where
  "hex_byte b = [hex_lower (byte_val b div 16), hex_lower (byte_val b mod 16)]"

lemma byte_val_hex_lower: "n < 16 \<Longrightarrow> byte_val (hex_lower n) = (if n < 10 then 48 + n else 87 + n)"
  by (simp add: hex_lower_def)

lemma hex_lower_inject: "m < 16 \<Longrightarrow> n < 16 \<Longrightarrow> hex_lower m = hex_lower n \<longleftrightarrow> m = n"
proof
  assume "m < 16" "n < 16" "hex_lower m = hex_lower n"
  then have "byte_val (hex_lower m) = byte_val (hex_lower n)" by simp
  with \<open>m < 16\<close> \<open>n < 16\<close> show "m = n"
    by (simp only: byte_val_hex_lower) (auto split: if_splits)
qed simp

lemma hex_byte_inject [simp]: "hex_byte a = hex_byte b \<longleftrightarrow> a = b"
proof
  assume "hex_byte a = hex_byte b"
  then have "byte_val a div 16 = byte_val b div 16" "byte_val a mod 16 = byte_val b mod 16"
    by (auto simp: hex_byte_def hex_lower_inject less_mult_imp_div_less)
  then have "byte_val a = byte_val b" by (metis mult_div_mod_eq)
  then show "a = b" by simp
qed simp

definition hex_string :: "string \<Rightarrow> string" where
  "hex_string bs = concat (map hex_byte bs)"

lemma hex_string_Cons: "hex_string (b # bs) = hex_byte b @ hex_string bs"
  by (simp add: hex_string_def)

lemma length_hex_byte [simp]: "length (hex_byte b) = 2"
  by (simp add: hex_byte_def)

lemma length_hex_string [simp]: "length (hex_string bs) = 2 * length bs"
  by (induction bs) (simp_all add: hex_string_def)

lemma hex_string_inject [simp]: "hex_string as = hex_string bs \<longleftrightarrow> as = bs"
proof (induction as arbitrary: bs)
  case Nil
  then show ?case by (metis length_hex_string length_0_conv mult_is_0 zero_neq_numeral)
next
  case (Cons a as)
  show ?case
  proof (cases bs)
    case Nil
    then show ?thesis by (simp add: hex_string_def hex_byte_def)
  next
    case (Cons b bs')
    with Cons.IH show ?thesis by (simp add: hex_string_Cons)
  qed
qed

text \<open>Reading lower-case hexadecimal back.\<close>

definition unhex_nibble :: "char \<Rightarrow> nat" where
  "unhex_nibble c = (let n = byte_val c in if n < 58 then n - 48 else n - 87)"

fun unhex :: "string \<Rightarrow> string option" where
  "unhex [] = Some []"
| "unhex [c] = None"
| "unhex (h # l # r) =
     map_option (Cons (char_of (unhex_nibble h * 16 + unhex_nibble l))) (unhex r)"

lemma unhex_nibble_hex_lower: "n < 16 \<Longrightarrow> unhex_nibble (hex_lower n) = n"
  by (simp add: unhex_nibble_def byte_val_hex_lower Let_def)

lemma unhex_hex_string [simp]: "unhex (hex_string bs) = Some bs"
proof (induction bs)
  case (Cons b bs)
  have "byte_val b div 16 < 16" using byte_val_less [of b] by linarith
  then have "char_of (unhex_nibble (hex_lower (byte_val b div 16)) * 16
      + unhex_nibble (hex_lower (byte_val b mod 16))) = b"
    by (simp add: unhex_nibble_hex_lower)
  with Cons show ?case by (simp add: hex_string_Cons hex_byte_def)
qed (simp add: hex_string_def)

lemma hex_lower_graphic: "n < 16 \<Longrightarrow> is_ascii_graphic (hex_lower n)"
  by (simp add: is_ascii_graphic_def byte_val_hex_lower)

lemma hex_string_graphic: "list_all is_ascii_graphic (hex_string bs)"
proof (induction bs)
  case (Cons b bs)
  have "byte_val b div 16 < 16" using byte_val_less [of b] by linarith
  with Cons show ?case by (simp add: hex_string_Cons hex_byte_def hex_lower_graphic)
qed (simp add: hex_string_def)

section \<open>Lists\<close>

lemma sort_key_id: "sorted (map f xs) \<Longrightarrow> sort_key f xs = xs"
proof (induction xs)
  case Nil
  then show ?case by simp
next
  case (Cons x xs)
  then have "sort_key f xs = xs" "\<forall>y \<in> set xs. f x \<le> f y" by auto
  then show ?case by (simp add: insort_is_Cons)
qed

text \<open>\<open>u64::from_str\<close> and \<open>i64::from_str\<close>, which accept a leading plus sign, and
  \<open>str::strip_suffix\<close>.\<close>

definition parse_u64 :: "string \<Rightarrow> nat option" where
  "parse_u64 s =
     (let d = (case s of c # r \<Rightarrow> if c = CHR ''+'' then r else s | [] \<Rightarrow> s) in
      if d \<noteq> [] \<and> list_all is_ascii_digit d \<and> dec_value d \<le> u64_max then Some (dec_value d) else None)"

definition parse_i64 :: "string \<Rightarrow> int option" where
  "parse_i64 s =
     (case s of
        [] \<Rightarrow> None
      | c # r \<Rightarrow>
          (let neg = (c = CHR ''-''); d = (if neg \<or> c = CHR ''+'' then r else s);
               v = (if neg then - int (dec_value d) else int (dec_value d))
           in if d \<noteq> [] \<and> list_all is_ascii_digit d \<and> - (2 ^ 63) \<le> v \<and> v < 2 ^ 63 then Some v else None))"

definition strip_suffix :: "string \<Rightarrow> string \<Rightarrow> string option" where
  "strip_suffix suf s = map_option rev (strip_prefix (rev suf) (rev s))"

section \<open>Configuration\<close>

type_synonym config = "string \<Rightarrow> string option"

text \<open>A configured text, trimmed, when something is left of it.\<close>

definition config_nonempty :: "config \<Rightarrow> string \<Rightarrow> string option" where
  "config_nonempty config key =
     (case map_option trim (config key) of None \<Rightarrow> None | Some v \<Rightarrow> if v = [] then None else Some v)"

end
