(* ===== verification/Canonical.thy ===== *)
theory Canonical
  imports Prelude
begin

text \<open>
  Outbound request canonicalization, \<^verbatim>\<open>src/policy/canonical.rs\<close>. The
  definitions of the first section follow the file: byte classes, escapes, the one-pass
  path normaliser over an output buffer with a segment-start offset, the query decoder,
  \<open>CanonicalTarget::parse\<close> and the checker of the fuzz target. The second section
  gives a reference definition that works on whole segments, and shows that the one-pass
  loop computes it; the remaining sections derive the shape of canonical paths and
  idempotence from the reference definition.
\<close>

section \<open>The code\<close>

datatype canonicalize_error =
    AbsoluteUrl | InvalidPercentEncoding | ControlCharacter | InvalidUtf8 | TooLong

definition MAX_TARGET_BYTES :: nat where
  "MAX_TARGET_BYTES = 16 * 1024"

definition is_unreserved :: "char \<Rightarrow> bool" where
  "is_unreserved b \<longleftrightarrow> is_ascii_alphanumeric b \<or> b \<in> {CHR ''-'', CHR ''.'', CHR ''_'', CHR ''~''}"

definition is_pchar :: "char \<Rightarrow> bool" where
  "is_pchar b \<longleftrightarrow> is_unreserved b \<or>
     b \<in> {CHR ''!'', CHR ''$'', CHR ''&'', CHR 0x27, CHR ''('', CHR '')'', CHR ''*'', CHR ''+'',
          CHR '','', CHR '';'', CHR ''='', CHR '':'', CHR ''@''}"

definition hex_value :: "char \<Rightarrow> nat option" where
  "hex_value b =
     (let n = byte_val b in
      if 48 \<le> n \<and> n \<le> 57 then Some (n - 48)
      else if 97 \<le> n \<and> n \<le> 102 then Some (n - 97 + 10)
      else if 65 \<le> n \<and> n \<le> 70 then Some (n - 65 + 10)
      else None)"

definition HEX_UPPER :: string where
  "HEX_UPPER = ''0123456789ABCDEF''"

definition push_escaped :: "string \<Rightarrow> char \<Rightarrow> string" where
  "push_escaped out b =
     out @ [CHR ''%'', HEX_UPPER ! (byte_val b div 16), HEX_UPPER ! (byte_val b mod 16)]"

text \<open>The escape that starts at the head of the remaining bytes.\<close>

definition read_escape :: "string \<Rightarrow> canonicalize_error + char" where
  "read_escape bytes =
     (case (bytes, drop 1 bytes, drop 2 bytes) of
        (_, h # _, l # _) \<Rightarrow>
          (case (hex_value h, hex_value l) of
             (Some high, Some low) \<Rightarrow> Inr (char_of (16 * high + low))
           | _ \<Rightarrow> Inl InvalidPercentEncoding)
      | _ \<Rightarrow> Inl InvalidPercentEncoding)"

definition is_control :: "char \<Rightarrow> bool" where
  "is_control b \<longleftrightarrow> byte_val b < 32 \<or> byte_val b = 127"

text \<open>\<open>close_segment\<close> on the buffer and the offset of the open segment.\<close>

definition close_segment :: "string \<Rightarrow> nat \<Rightarrow> string \<times> nat" where
  "close_segment out segment_start =
     (let segment = drop segment_start out;
          out' =
            (if segment = '''' then out
             else if segment = ''.'' then take segment_start out
             else if segment = ''..'' then
               (let t = take segment_start out in
                if 1 < length t then
                  (let u = butlast t;
                       previous = (case rfind CHR ''/'' u of None \<Rightarrow> 0 | Some at \<Rightarrow> at + 1)
                   in take previous u)
                else t)
             else out @ [CHR ''/''])
      in (out', length out'))"

fun canonical_path_loop ::
  "string \<Rightarrow> string \<Rightarrow> nat \<Rightarrow> canonicalize_error + (string \<times> nat)" where
  "canonical_path_loop [] out segment_start = Inr (out, segment_start)"
| "canonical_path_loop (byte # rest) out segment_start =
     (if byte = CHR ''/'' then
        (case close_segment out segment_start of
           (out', start') \<Rightarrow> canonical_path_loop rest out' start')
      else if is_control byte then Inl ControlCharacter
      else if byte = CHR ''%'' then
        (case read_escape (byte # rest) of
           Inl e \<Rightarrow> Inl e
         | Inr decoded \<Rightarrow>
             canonical_path_loop (drop 2 rest)
               (if is_unreserved decoded then out @ [decoded] else push_escaped out decoded)
               segment_start)
      else
        canonical_path_loop rest
          (if is_pchar byte then out @ [byte] else push_escaped out byte) segment_start)"

definition canonical_path :: "string \<Rightarrow> canonicalize_error + string" where
  "canonical_path raw =
     and_then (canonical_path_loop raw ''/'' 1)
       (\<lambda>(out, segment_start).
          let last_is_real = (drop segment_start out \<notin> {'''', ''.'', ''..''});
              closed = fst (close_segment out segment_start)
          in Inr (if last_is_real then butlast closed else closed))"

fun decode_loop :: "string \<Rightarrow> string \<Rightarrow> canonicalize_error + string" where
  "decode_loop [] decoded = Inr decoded"
| "decode_loop (byte # rest) decoded =
     (if byte = CHR ''%'' then
        (case read_escape (byte # rest) of
           Inl e \<Rightarrow> Inl e
         | Inr b \<Rightarrow> decode_loop (drop 2 rest) (decoded @ [b]))
      else if byte = CHR ''+'' then decode_loop rest (decoded @ [CHR '' ''])
      else if is_control byte then Inl ControlCharacter
      else decode_loop rest (decoded @ [byte]))"

definition decode_component :: "string \<Rightarrow> canonicalize_error + string" where
  "decode_component raw =
     and_then (decode_loop raw '''')
       (\<lambda>decoded. if utf8_valid decoded then Inr decoded else Inl InvalidUtf8)"

definition decode_pair :: "string \<Rightarrow> canonicalize_error + (string \<times> string)" where
  "decode_pair pair =
     (let (key, val) = (case split_once CHR ''='' pair of Some kv \<Rightarrow> kv | None \<Rightarrow> (pair, ''''))
      in and_then (decode_component key)
           (\<lambda>k. and_then (decode_component val) (\<lambda>v. Inr (k, v))))"

definition canonical_query :: "string \<Rightarrow> canonicalize_error + (string \<times> string) list" where
  "canonical_query raw =
     and_then (collect_results decode_pair (filter (\<lambda>p. p \<noteq> '''') (split_char CHR ''&'' raw)))
       (\<lambda>pairs. Inr (sort_key fst pairs))"

definition looks_absolute :: "string \<Rightarrow> bool" where
  "looks_absolute raw_path =
     (case raw_path of
        [] \<Rightarrow> False
      | first # _ \<Rightarrow>
          is_ascii_alphabetic first \<and>
          starts_with
            (dropWhile (\<lambda>b. is_ascii_alphanumeric b \<or> b \<in> {CHR ''+'', CHR ''-'', CHR ''.''}) raw_path)
            ''://'')"

record canonical_target =
  target_path :: string
  target_query :: "(string \<times> string) list"

definition split_target :: "string \<Rightarrow> string \<times> string option" where
  "split_target path_and_query =
     (let without_fragment =
            (case split_once CHR ''#'' path_and_query of
               None \<Rightarrow> path_and_query | Some (before, _) \<Rightarrow> before)
      in case split_once CHR ''?'' without_fragment of
           Some (path, query) \<Rightarrow> (path, Some query)
         | None \<Rightarrow> (without_fragment, None))"

definition parse_target :: "string \<Rightarrow> canonicalize_error + canonical_target" where
  "parse_target path_and_query =
     (if MAX_TARGET_BYTES < length path_and_query then Inl TooLong
      else case split_target path_and_query of
        (raw_path, raw_query) \<Rightarrow>
          if looks_absolute raw_path then Inl AbsoluteUrl
          else and_then (canonical_path raw_path)
            (\<lambda>path. and_then (case raw_query of None \<Rightarrow> Inr [] | Some q \<Rightarrow> canonical_query q)
              (\<lambda>query. Inr \<lparr>target_path = path, target_query = query\<rparr>)))"

text \<open>\<open>CanonicalPath::parse\<close> and \<open>CanonicalPath::root\<close>.\<close>

definition parse_path :: "string \<Rightarrow> canonicalize_error + string" where
  "parse_path path = and_then (parse_target path) (\<lambda>t. Inr (target_path t))"

definition root_path :: string where
  "root_path = ''/''"

fun plain_segments_loop :: "string list \<Rightarrow> string \<Rightarrow> string option" where
  "plain_segments_loop [] out = Some out"
| "plain_segments_loop (segment # segments) out =
     (if segment = '''' \<or> segment = ''.'' \<or> segment = ''..'' \<or> \<not> list_all is_unreserved segment
      then None
      else plain_segments_loop segments (out @ CHR ''/'' # segment))"

definition from_plain_segments :: "string list \<Rightarrow> string option" where
  "from_plain_segments segments =
     (case plain_segments_loop segments '''' of
        None \<Rightarrow> None
      | Some out \<Rightarrow> Some (if out = '''' then ''/'' else out))"

text \<open>
  \<open>url_under\<close>. The serializer of the \<^verbatim>\<open>url\<close> crate,
  \<open>form_urlencoded::Serializer::extend_pairs(..).finish()\<close>, is the parameter
  \<open>form_urlencode\<close>.
\<close>

definition url_under ::
  "((string \<times> string) list \<Rightarrow> string) \<Rightarrow> canonical_target \<Rightarrow> string \<Rightarrow> string" where
  "url_under form_urlencode t base =
     trim_end_matches CHR ''/'' base @ target_path t @
     (if target_query t = [] then '''' else CHR ''?'' # form_urlencode (target_query t))"

text \<open>The loop of \<open>invariants::check\<close> over the bytes of the path; the index stays
  within the path exactly when every escape is complete.\<close>

fun encoding_ok :: "string \<Rightarrow> bool" where
  "encoding_ok [] = True"
| "encoding_ok (byte # rest) =
     (if byte = CHR ''%'' then
        (case rest of
           h # l # rest' \<Rightarrow>
             is_ascii_hexdigit h \<and> is_ascii_hexdigit l
             \<and> \<not> is_ascii_lowercase h \<and> \<not> is_ascii_lowercase l
             \<and> (case read_escape (byte # rest) of Inl _ \<Rightarrow> False | Inr d \<Rightarrow> \<not> is_unreserved d)
             \<and> encoding_ok rest'
         | _ \<Rightarrow> False)
      else if byte = CHR ''/'' then encoding_ok rest
      else is_pchar byte \<and> encoding_ok rest)"

text \<open>\<open>invariants::check\<close>: a panic carries the name of the assertion that failed.\<close>

datatype check_outcome = Passes | Panics string

definition invariants_check ::
  "((string \<times> string) list \<Rightarrow> string) \<Rightarrow> string \<Rightarrow> check_outcome" where
  "invariants_check form_urlencode input =
     (case parse_target input of
        Inl TooLong \<Rightarrow>
          if MAX_TARGET_BYTES < length input then Passes else Panics ''TooLong for a short input''
      | Inl _ \<Rightarrow> Passes
      | Inr t \<Rightarrow>
          (let path = target_path t in
           if \<not> starts_with path ''/'' then Panics ''path must be absolute''
           else if contains_str path ''//'' then Panics ''duplicate slash survived''
           else if \<not> list_all (\<lambda>segment. segment \<noteq> ''.'' \<and> segment \<noteq> ''..'')
                     (filter (\<lambda>segment. segment \<noteq> '''') (split_char CHR ''/'' path))
           then Panics ''dot segment''
           else if CHR ''?'' \<in> set path \<or> CHR ''#'' \<in> set path then Panics ''query/fragment leaked''
           else if \<not> encoding_ok path then Panics ''encoding''
           else if \<not> sorted (map fst (target_query t)) then Panics ''query keys not sorted''
           else (case parse_target (url_under form_urlencode t '''') of
                   Inl _ \<Rightarrow> Panics ''canonical form rejected''
                 | Inr again \<Rightarrow>
                     if again = t then Passes else Panics ''canonicalization is not idempotent'')))"

section \<open>Escapes\<close>

lemma hex_value_HEX_UPPER: "n < 16 \<Longrightarrow> hex_value (HEX_UPPER ! n) = Some n"
  by (auto simp: HEX_UPPER_def hex_value_def less_Suc_eq numeral_eq_Suc)

lemma hex_value_bound: "hex_value b = Some n \<Longrightarrow> n < 16"
  by (auto simp: hex_value_def Let_def split: if_splits)

lemma read_escape_push:
  "read_escape (CHR ''%'' # HEX_UPPER ! (byte_val b div 16) # HEX_UPPER ! (byte_val b mod 16) # r)
     = Inr b"
  by (simp add: read_escape_def hex_value_HEX_UPPER less_mult_imp_div_less)

definition escaped :: "char \<Rightarrow> string" where
  "escaped b = push_escaped [] b"

lemma push_escaped_append: "push_escaped out b = out @ escaped b"
  by (simp add: push_escaped_def escaped_def)

section \<open>Reference definition: whole segments and a stack\<close>

text \<open>One segment (no slash in it) in canonical spelling, or the first error in it.\<close>

fun normalise_segment :: "string \<Rightarrow> canonicalize_error + string" where
  "normalise_segment [] = Inr []"
| "normalise_segment (b # rest) =
     (if is_control b then Inl ControlCharacter
      else if b = CHR ''%'' then
        and_then (read_escape (b # rest))
          (\<lambda>d. and_then (normalise_segment (drop 2 rest))
             (\<lambda>s. Inr ((if is_unreserved d then [d] else escaped d) @ s)))
      else and_then (normalise_segment rest)
             (\<lambda>s. Inr ((if is_pchar b then [b] else escaped b) @ s)))"

text \<open>Dot-segment removal on a stack of kept segments (RFC 3986, 5.2.4).\<close>

definition resolve :: "string list \<Rightarrow> string \<Rightarrow> string list" where
  "resolve stack seg =
     (if seg = '''' \<or> seg = ''.'' then stack
      else if seg = ''..'' then butlast stack else stack @ [seg])"

definition render :: "string list \<Rightarrow> string" where
  "render stack = CHR ''/'' # concat (map (\<lambda>s. s @ [CHR ''/'']) stack)"

definition canonical_path_spec :: "string \<Rightarrow> canonicalize_error + string" where
  "canonical_path_spec raw =
     and_then (collect_results normalise_segment (split_char CHR ''/'' raw))
       (\<lambda>segs. let stack = foldl resolve [] segs in
          Inr (if last segs \<in> {'''', ''.'', ''..''} then render stack else butlast (render stack)))"

subsection \<open>The loop inside one segment\<close>

lemma slash_not_control [simp]: "\<not> is_control CHR ''/''"
  by (simp add: is_control_def)

lemma percent_not_control [simp]: "\<not> is_control CHR ''%''"
  by (simp add: is_control_def)

lemma hex_value_slash [simp]: "hex_value CHR ''/'' = None"
  by (simp add: hex_value_def)

lemma slash_not_pchar [simp]: "\<not> is_pchar CHR ''/''"
  by (simp add: is_pchar_def is_unreserved_def ascii_simps)

lemma slash_not_unreserved [simp]: "\<not> is_unreserved CHR ''/''"
  by (simp add: is_unreserved_def ascii_simps)

lemma read_escape_boundary:
  assumes "r = [] \<or> hd r = CHR ''/''"
  shows "read_escape (b # p @ r) = read_escape (b # p)"
proof (cases p)
  case Nil
  with assms show ?thesis by (cases r) (auto simp: read_escape_def split: list.splits)
next
  case (Cons c p')
  with assms show ?thesis
    by (cases p'; cases r) (auto simp: read_escape_def split: option.splits)
qed

lemma read_escape_ok_length: "read_escape (b # p) = Inr d \<Longrightarrow> 2 \<le> length p"
  by (cases p; cases "tl p") (auto simp: read_escape_def)

lemma loop_segment:
  assumes "CHR ''/'' \<notin> set p" "r = [] \<or> hd r = CHR ''/''"
  shows "canonical_path_loop (p @ r) out k =
           and_then (normalise_segment p) (\<lambda>s. canonical_path_loop r (out @ s) k)"
  using assms(1)
proof (induction p arbitrary: out rule: normalise_segment.induct)
  case 1
  then show ?case by simp
next
  case (2 b rest)
  show ?case
  proof (cases "b = CHR ''%'' \<and> \<not> is_control b")
    case True
    show ?thesis
    proof (cases "read_escape (b # rest)")
      case (Inl e)
      with True read_escape_boundary [OF assms(2), of b rest] show ?thesis by simp
    next
      case (Inr d)
      have len: "2 \<le> length rest" using Inr by (rule read_escape_ok_length)
      have drop: "drop 2 (rest @ r) = drop 2 rest @ r" using len by simp
      have "CHR ''/'' \<notin> set (drop 2 rest)"
        using "2.prems" by (auto dest: in_set_dropD)
      then have IH: "canonical_path_loop (drop 2 rest @ r) out' k =
          and_then (normalise_segment (drop 2 rest)) (\<lambda>s. canonical_path_loop r (out' @ s) k)" for out'
        using "2.IH"(1) [of d] True Inr by simp
      show ?thesis
        using True Inr read_escape_boundary [OF assms(2), of b rest] IH
        by (simp add: drop push_escaped_append and_then_assoc del: drop_append)
    qed
  next
    case False
    have "CHR ''/'' \<notin> set rest" "b \<noteq> CHR ''/''" using "2.prems" by auto
    with False "2.IH"(2) show ?thesis
      by (auto simp: push_escaped_append and_then_assoc)
  qed
qed

lemma HEX_UPPER_nth: "n < 16 \<Longrightarrow> HEX_UPPER ! n \<in> set HEX_UPPER"
  by (rule nth_mem) (simp add: HEX_UPPER_def)

lemma escaped_set: "set (escaped d) \<subseteq> insert CHR ''%'' (set HEX_UPPER)"
  by (simp add: escaped_def push_escaped_def HEX_UPPER_nth less_mult_imp_div_less)

lemma escaped_no_slash [simp]: "CHR ''/'' \<notin> set (escaped d)"
  using escaped_set [of d] by (auto simp: HEX_UPPER_def)

lemma normalise_no_slash:
  "normalise_segment p = Inr s \<Longrightarrow> CHR ''/'' \<notin> set s"
proof (induction p arbitrary: s rule: normalise_segment.induct)
  case 1
  then show ?case by simp
next
  case (2 b rest)
  show ?case
    using 2 by (auto simp: result_simps split: if_splits)
qed

subsection \<open>Closing a segment is a step of the stack\<close>

definition plain_stack :: "string list \<Rightarrow> bool" where
  "plain_stack stack \<longleftrightarrow> (\<forall>s \<in> set stack. CHR ''/'' \<notin> set s \<and> s \<notin> {'''', ''.'', ''..''})"

lemma plain_stack_resolve:
  "plain_stack stack \<Longrightarrow> CHR ''/'' \<notin> set seg \<Longrightarrow> plain_stack (resolve stack seg)"
  by (auto simp: plain_stack_def resolve_def dest: in_set_butlastD)

lemma render_snoc: "render (stack @ [s]) = render stack @ s @ [CHR ''/'']"
  by (simp add: render_def)

lemma render_nonempty [simp]: "render stack \<noteq> []"
  by (simp add: render_def)

lemma render_ends_slash: "\<exists>pre. render stack = pre @ [CHR ''/'']"
  by (cases stack rule: rev_cases) (auto simp: render_def)

lemma length_render_snoc: "1 < length (render (stack @ [s]))"
  by (simp add: render_def)

lemma close_segment_render:
  assumes "plain_stack stack" "CHR ''/'' \<notin> set seg"
  shows "close_segment (render stack @ seg) (length (render stack)) =
           (render (resolve stack seg), length (render (resolve stack seg)))"
proof (cases "seg = ''..''")
  case False
  then show ?thesis
    by (auto simp: close_segment_def resolve_def Let_def render_snoc)
next
  case True
  show ?thesis
  proof (cases stack rule: rev_cases)
    case Nil
    with True show ?thesis by (simp add: close_segment_def resolve_def render_def)
  next
    case (snoc init s)
    have s: "CHR ''/'' \<notin> set s" using assms(1) snoc by (simp add: plain_stack_def)
    obtain pre where pre: "render init = pre @ [CHR ''/'']" using render_ends_slash by blast
    have "rfind CHR ''/'' (butlast (render stack)) = Some (length pre)"
      using snoc s pre by (simp add: render_snoc butlast_append rfind_append_free)
    then show ?thesis
      using True snoc pre length_render_snoc [of init s]
      by (simp add: close_segment_def resolve_def Let_def render_snoc butlast_append)
  qed
qed

text \<open>The whole loop over the segments of the input.\<close>

lemma loop_segments:
  assumes "ps \<noteq> []" "\<And>p. p \<in> set ps \<Longrightarrow> CHR ''/'' \<notin> set p" "plain_stack stack"
  shows "canonical_path_loop (join_char CHR ''/'' ps) (render stack) (length (render stack)) =
           and_then (collect_results normalise_segment ps)
             (\<lambda>segs. let st = foldl resolve stack (butlast segs)
                     in Inr (render st @ last segs, length (render st)))"
  using assms
proof (induction ps arbitrary: stack)
  case Nil
  then show ?case by simp
next
  case (Cons p ps)
  show ?case
  proof (cases ps)
    case Nil
    with Cons.prems show ?thesis
      using loop_segment [of p "[]" "render stack" "length (render stack)"]
      by (simp add: and_then_assoc Let_def)
  next
    case (Cons q qs)
    let ?rest = "CHR ''/'' # join_char CHR ''/'' ps"
    have "canonical_path_loop (join_char CHR ''/'' (p # ps)) (render stack) (length (render stack)) =
        and_then (normalise_segment p)
          (\<lambda>s. canonical_path_loop ?rest (render stack @ s) (length (render stack)))"
      using Cons.prems(2) Cons loop_segment [of p ?rest] by (simp add: join_char_Cons)
    also have "\<dots> = and_then (normalise_segment p)
        (\<lambda>s. canonical_path_loop (join_char CHR ''/'' ps) (render (resolve stack s))
               (length (render (resolve stack s))))"
      using Cons.prems(3)
      by (intro and_then_cong) (auto simp: close_segment_render normalise_no_slash)
    also have "\<dots> = and_then (normalise_segment p)
        (\<lambda>s. and_then (collect_results normalise_segment ps)
           (\<lambda>segs. let st = foldl resolve (resolve stack s) (butlast segs)
                   in Inr (render st @ last segs, length (render st))))"
      using Cons Cons.prems
      by (intro and_then_cong refl Cons.IH) (auto intro: plain_stack_resolve dest: normalise_no_slash)
    also have "\<dots> = and_then (collect_results normalise_segment (p # ps))
             (\<lambda>segs. let st = foldl resolve stack (butlast segs)
                     in Inr (render st @ last segs, length (render st)))"
      using Cons by (auto simp: and_then_assoc result_simps intro!: and_then_cong)
    finally show ?thesis .
  qed
qed

lemma render_Nil: "render [] = ''/''"
  by (simp add: render_def)

lemma foldl_resolve_plain:
  "plain_stack stack \<Longrightarrow> (\<And>s. s \<in> set segs \<Longrightarrow> CHR ''/'' \<notin> set s) \<Longrightarrow>
     plain_stack (foldl resolve stack segs)"
  by (induction segs arbitrary: stack) (auto intro: plain_stack_resolve)

lemma normalised_no_slash:
  "collect_results normalise_segment ps = Inr segs \<Longrightarrow> s \<in> set segs \<Longrightarrow> CHR ''/'' \<notin> set s"
  by (metis collect_results_set normalise_no_slash)

lemma foldl_butlast_last: "xs \<noteq> [] \<Longrightarrow> f (foldl f a (butlast xs)) (last xs) = foldl f a xs"
  by (cases xs rule: rev_cases) auto

lemma canonical_path_eq_spec: "canonical_path raw = canonical_path_spec raw"
proof (cases "collect_results normalise_segment (split_char CHR ''/'' raw)")
  case (Inl e)
  have "canonical_path_loop raw (render []) (length (render [])) = Inl e"
    using loop_segments [of "split_char CHR ''/'' raw" "[]"] Inl
    by (simp add: split_char_no_delim plain_stack_def)
  with Inl show ?thesis
    by (simp add: canonical_path_def canonical_path_spec_def render_Nil)
next
  case (Inr segs)
  let ?st = "foldl resolve [] (butlast segs)"
  have ne: "segs \<noteq> []"
    using Inr collect_results_Inr_length by fastforce
  have plain: "plain_stack ?st"
    using Inr by (intro foldl_resolve_plain)
      (auto simp: plain_stack_def dest: in_set_butlastD normalised_no_slash)
  have last: "CHR ''/'' \<notin> set (last segs)" using Inr ne by (simp add: normalised_no_slash)
  have "canonical_path_loop raw (render []) (length (render [])) =
      Inr (render ?st @ last segs, length (render ?st))"
    using loop_segments [of "split_char CHR ''/'' raw" "[]"] Inr
    by (simp add: split_char_no_delim plain_stack_def Let_def)
  then have "canonical_path raw =
      (let closed = fst (close_segment (render ?st @ last segs) (length (render ?st)))
       in Inr (if last segs \<notin> {[], ''.'', ''..''} then butlast closed else closed))"
    by (simp add: canonical_path_def render_Nil Let_def)
  also have "close_segment (render ?st @ last segs) (length (render ?st)) =
      (render (foldl resolve [] segs), length (render (foldl resolve [] segs)))"
    using close_segment_render [OF plain last] ne by (simp add: foldl_butlast_last)
  finally show ?thesis
    using Inr by (simp add: canonical_path_spec_def Let_def)
qed

section \<open>The shape of canonical paths\<close>

text \<open>Bytes of a canonical segment: \<open>pchar\<close>s and upper-case escapes of bytes that need
  one.\<close>

inductive canonical_bytes :: "string \<Rightarrow> bool" where
  canonical_nil: "canonical_bytes []"
| canonical_escape: "\<not> is_unreserved d \<Longrightarrow> canonical_bytes s \<Longrightarrow> canonical_bytes (escaped d @ s)"
| canonical_pchar: "is_pchar c \<Longrightarrow> canonical_bytes s \<Longrightarrow> canonical_bytes (c # s)"

definition canonical_segment :: "string \<Rightarrow> bool" where
  "canonical_segment s \<longleftrightarrow> canonical_bytes s \<and> s \<notin> {'''', ''.'', ''..''}"

text \<open>A canonical path is the slash-separated list of canonical segments, with at most
  one trailing slash.\<close>

definition is_canonical_path :: "string \<Rightarrow> bool" where
  "is_canonical_path p \<longleftrightarrow>
     (\<exists>stack. list_all canonical_segment stack \<and>
        (p = render stack \<or> stack \<noteq> [] \<and> p = butlast (render stack)))"

lemma percent_not_pchar [simp]: "\<not> is_pchar CHR ''%''"
  by (simp add: is_pchar_def is_unreserved_def ascii_simps)

lemma unreserved_is_pchar: "is_unreserved c \<Longrightarrow> is_pchar c"
  by (simp add: is_pchar_def)

lemma escaped_Cons: "\<exists>h l. escaped d = [CHR ''%'', h, l]"
  by (simp add: escaped_def push_escaped_def)

lemma escaped_not_single [simp]: "escaped d \<noteq> [c]" "[c] \<noteq> escaped d"
  by (auto simp: escaped_def push_escaped_def)

lemma not_pchar_not_unreserved: "\<not> is_pchar c \<Longrightarrow> \<not> is_unreserved c"
  by (simp add: is_pchar_def)

lemma normalise_canonical: "normalise_segment p = Inr s \<Longrightarrow> canonical_bytes s"
proof (induction p arbitrary: s rule: normalise_segment.induct)
  case 1
  then show ?case by (auto intro: canonical_nil)
next
  case (2 b rest)
  then show ?case
    by (auto simp: result_simps canonical_bytes.intros unreserved_is_pchar
        not_pchar_not_unreserved split: if_splits)
qed

lemma resolve_canonical:
  "list_all canonical_segment stack \<Longrightarrow> canonical_bytes seg \<Longrightarrow>
     list_all canonical_segment (resolve stack seg)"
  by (auto simp: resolve_def canonical_segment_def list_all_iff dest: in_set_butlastD)

lemma foldl_resolve_canonical:
  "list_all canonical_segment stack \<Longrightarrow> (\<And>s. s \<in> set segs \<Longrightarrow> canonical_bytes s) \<Longrightarrow>
     list_all canonical_segment (foldl resolve stack segs)"
  by (induction segs arbitrary: stack) (auto intro: resolve_canonical)

lemma canonical_path_is_canonical:
  assumes "canonical_path raw = Inr p"
  shows "is_canonical_path p"
proof -
  obtain segs where segs: "collect_results normalise_segment (split_char CHR ''/'' raw) = Inr segs"
    and p: "p = (if last segs \<in> {'''', ''.'', ''..''} then render (foldl resolve [] segs)
                 else butlast (render (foldl resolve [] segs)))"
    using assms by (auto simp: canonical_path_eq_spec canonical_path_spec_def result_simps Let_def)
  have ne: "segs \<noteq> []"
    using segs collect_results_Inr_length by fastforce
  have all: "list_all canonical_segment (foldl resolve [] segs)"
    using segs by (auto intro!: foldl_resolve_canonical)
      (metis collect_results_set normalise_canonical)
  have "last segs \<notin> {'''', ''.'', ''..''} \<Longrightarrow> foldl resolve [] segs \<noteq> []"
    using ne by (cases segs rule: rev_cases) (auto simp: resolve_def)
  with p all show ?thesis by (auto simp: is_canonical_path_def)
qed

section \<open>Canonical paths are fixed points\<close>

lemma render_join: "render stack = join_char CHR ''/'' ([] # stack @ [[]])"
proof -
  have "concat (map (\<lambda>s. s @ [CHR ''/'']) stack) = join_char CHR ''/'' (stack @ [[]])"
    by (induction stack) (auto simp: join_char_Cons)
  then show ?thesis by (simp add: render_def join_char_Cons)
qed

lemma butlast_render_join:
  "stack \<noteq> [] \<Longrightarrow> butlast (render stack) = join_char CHR ''/'' ([] # stack)"
proof -
  assume "stack \<noteq> []"
  have "butlast (join_char CHR ''/'' (qs @ [[]])) = join_char CHR ''/'' qs" if "qs \<noteq> []" for qs
    using that
  proof (induction qs rule: join_char.induct)
    case (3 d p q ps)
    then have "join_char d (q # ps @ [[]]) \<noteq> []" by (simp add: join_char_Cons)
    with 3 show ?case by (simp add: butlast_append)
  qed (auto simp: butlast_append)
  from this [of "[] # stack"] show ?thesis by (simp add: render_join)
qed

lemma canonical_bytes_no_slash: "canonical_bytes s \<Longrightarrow> CHR ''/'' \<notin> set s"
  by (induction rule: canonical_bytes.induct) auto

lemma read_escape_escaped [simp]: "read_escape (escaped d @ r) = Inr d"
  by (simp add: escaped_def push_escaped_def read_escape_push)

lemma pchar_not_control: "is_pchar c \<Longrightarrow> \<not> is_control c"
  by (auto simp: is_pchar_def is_unreserved_def is_control_def ascii_simps)

lemma normalise_escaped:
  "\<not> is_unreserved d \<Longrightarrow>
     normalise_segment (escaped d @ s) = and_then (normalise_segment s) (\<lambda>t. Inr (escaped d @ t))"
  using read_escape_escaped [of d s] by (auto simp: escaped_def push_escaped_def)

lemma normalise_fixed: "canonical_bytes s \<Longrightarrow> normalise_segment s = Inr s"
  by (induction rule: canonical_bytes.induct) (auto simp: normalise_escaped pchar_not_control)

lemma resolve_empty [simp]: "resolve stack [] = stack"
  by (simp add: resolve_def)

lemma resolve_kept: "canonical_segment seg \<Longrightarrow> resolve stack seg = stack @ [seg]"
  by (simp add: resolve_def canonical_segment_def)

lemma foldl_resolve_kept:
  "list_all canonical_segment segs \<Longrightarrow> foldl resolve stack segs = stack @ segs"
  by (induction segs arbitrary: stack) (simp_all add: resolve_kept)

lemma canonical_segmentD:
  assumes "canonical_segment s"
  shows "canonical_bytes s" "CHR ''/'' \<notin> set s" "normalise_segment s = Inr s"
    "s \<notin> {'''', ''.'', ''..''}"
proof -
  note conj = assms [unfolded canonical_segment_def]
  from conj show b: "canonical_bytes s" by (rule conjunct1)
  from conj show "s \<notin> {'''', ''.'', ''..''}" by (rule conjunct2)
  from b show "CHR ''/'' \<notin> set s" "normalise_segment s = Inr s"
    by (rule canonical_bytes_no_slash, rule normalise_fixed)
qed

lemma canonical_path_of_segments:
  assumes "list_all canonical_segment stack"
  shows "canonical_path (render stack) = Inr (render stack)"
    and "stack \<noteq> [] \<Longrightarrow> canonical_path (butlast (render stack)) = Inr (butlast (render stack))"
proof -
  have seg: "canonical_segment s" if "s \<in> set stack" for s
    using that assms by (simp add: list_all_iff)
  have free: "CHR ''/'' \<notin> set s" if "s \<in> set stack" for s
    using seg [OF that] by (rule canonical_segmentD)
  have norm: "collect_results normalise_segment stack = Inr stack"
    using seg canonical_segmentD(3) by (blast intro: collect_results_id)
  have fold: "foldl resolve [] stack = stack"
    using foldl_resolve_kept [OF assms] by simp
  have "split_char CHR ''/'' (render stack) = [] # stack @ [[]]"
    unfolding render_join using free by (intro split_join) auto
  then show "canonical_path (render stack) = Inr (render stack)"
    by (simp add: canonical_path_eq_spec canonical_path_spec_def collect_results_append norm fold)
  assume ne: "stack \<noteq> []"
  then have "canonical_segment (last stack)" by (simp add: seg)
  then have last: "last stack \<notin> {[], ''.'', ''..''}" by (rule canonical_segmentD)
  have "split_char CHR ''/'' (butlast (render stack)) = [] # stack"
    unfolding butlast_render_join [OF ne] using free by (intro split_join) auto
  then have "canonical_path (butlast (render stack)) =
      (if last stack \<in> {[], ''.'', ''..''} then Inr (render stack) else Inr (butlast (render stack)))"
    using ne by (simp add: canonical_path_eq_spec canonical_path_spec_def norm fold)
  then show "canonical_path (butlast (render stack)) = Inr (butlast (render stack))"
    using last by (simp only: if_False)
qed

lemma canonical_path_fixed: "is_canonical_path p \<Longrightarrow> canonical_path p = Inr p"
  by (auto simp: is_canonical_path_def canonical_path_of_segments)

section \<open>Accepted targets pass the checker\<close>

lemma HEX_UPPER_alphanumeric: "c \<in> set HEX_UPPER \<Longrightarrow> is_ascii_alphanumeric c"
  by (auto simp: HEX_UPPER_def ascii_simps)

lemma HEX_UPPER_pchar: "c \<in> set HEX_UPPER \<Longrightarrow> is_pchar c"
  by (simp add: HEX_UPPER_alphanumeric is_pchar_def is_unreserved_def)

lemma escaped_pchar: "c \<in> set (escaped d) \<Longrightarrow> is_pchar c \<or> c = CHR ''%''"
  using escaped_set [of d] HEX_UPPER_pchar [of c] by blast

lemma canonical_bytes_set: "canonical_bytes s \<Longrightarrow> c \<in> set s \<Longrightarrow> is_pchar c \<or> c = CHR ''%''"
  by (induction rule: canonical_bytes.induct) (auto dest: escaped_pchar)

lemma canonical_path_set:
  assumes "is_canonical_path p" "c \<in> set p"
  shows "is_pchar c \<or> c = CHR ''%'' \<or> c = CHR ''/''"
proof -
  obtain stack where st: "list_all canonical_segment stack"
    and p: "p = render stack \<or> p = butlast (render stack)"
    using assms(1) by (auto simp: is_canonical_path_def)
  have "c \<in> set (render stack)" using p assms(2) by (auto dest: in_set_butlastD)
  then have "c = CHR ''/'' \<or> (\<exists>s \<in> set stack. c \<in> set s)"
    by (auto simp: render_def split: if_splits)
  with st show ?thesis by (auto simp: list_all_iff dest: canonical_segmentD(1) canonical_bytes_set)
qed

lemma separators_not_pchar [simp]: "\<not> is_pchar CHR ''?''" "\<not> is_pchar CHR ''#''"
  by (simp_all add: is_pchar_def is_unreserved_def ascii_simps)

lemma canonical_path_no_separators:
  "is_canonical_path p \<Longrightarrow> CHR ''?'' \<notin> set p \<and> CHR ''#'' \<notin> set p"
  using canonical_path_set [of p "CHR ''?''"] canonical_path_set [of p "CHR ''#''"] by auto

lemma HEX_UPPER_upper: "c \<in> set HEX_UPPER \<Longrightarrow> is_ascii_hexdigit c \<and> \<not> is_ascii_lowercase c"
  by (auto simp: HEX_UPPER_def ascii_simps)

lemma encoding_ok_escaped:
  assumes "\<not> is_unreserved d"
  shows "encoding_ok (escaped d @ r) \<longleftrightarrow> encoding_ok r"
proof -
  obtain h l where e: "escaped d = [CHR ''%'', h, l]" using escaped_Cons by blast
  have digits: "is_ascii_hexdigit (HEX_UPPER ! n) \<and> \<not> is_ascii_lowercase (HEX_UPPER ! n)"
    if "n < 16" for n
    using HEX_UPPER_upper [OF HEX_UPPER_nth [OF that]] .
  have "h = HEX_UPPER ! (byte_val d div 16)" "l = HEX_UPPER ! (byte_val d mod 16)"
    using e by (simp_all add: escaped_def push_escaped_def)
  then have "is_ascii_hexdigit h" "is_ascii_hexdigit l" "\<not> is_ascii_lowercase h"
      "\<not> is_ascii_lowercase l"
    using digits by (simp_all add: less_mult_imp_div_less)
  moreover have "read_escape (CHR ''%'' # h # l # r) = Inr d"
    using read_escape_escaped [of d r] by (simp add: e)
  ultimately show ?thesis using assms by (simp add: e)
qed

lemma encoding_ok_canonical: "canonical_bytes s \<Longrightarrow> encoding_ok (s @ r) \<longleftrightarrow> encoding_ok r"
  by (induction rule: canonical_bytes.induct) (auto simp: encoding_ok_escaped)

lemma encoding_ok_join:
  "(\<And>s. s \<in> set ss \<Longrightarrow> canonical_bytes s) \<Longrightarrow> encoding_ok (join_char CHR ''/'' ss)"
proof (induction ss)
  case Nil
  then show ?case by simp
next
  case (Cons s ss)
  then show ?case
    using encoding_ok_canonical [of s "[]"]
    by (cases "ss = []") (auto simp: join_char_Cons encoding_ok_canonical)
qed

lemma no_double_slash:
  assumes "list_all canonical_segment stack"
  shows "\<not> contains_str (render stack) ''//''"
proof -
  have skip: "contains_str (s @ r) ''//'' = contains_str r ''//''" if "CHR ''/'' \<notin> set s" for s r
    using that by (induction s) (auto simp: starts_with_def)
  have "\<not> contains_str (CHR ''/'' # concat (map (\<lambda>s. s @ [CHR ''/'']) stack)) ''//''"
    using assms
  proof (induction stack)
    case Nil
    then show ?case by (simp add: starts_with_def)
  next
    case (Cons s stack)
    then have "CHR ''/'' \<notin> set s" "s \<noteq> []" by (auto dest: canonical_segmentD)
    with Cons show ?case by (cases s) (auto simp: starts_with_def skip)
  qed
  then show ?thesis by (simp add: render_def)
qed

subsection \<open>The query decoder inverts form encoding\<close>

text \<open>
  The documented behaviour of the serializer (WHATWG URL, 5.2): every pair is rendered as
  \<open>name=value\<close> and pairs are joined by \<open>&\<close>; in both parts an
  alphanumeric byte or one of \<open>*-._\<close> stands for itself, a space is
  \<open>+\<close>, and any other byte is an upper-case escape.
\<close>

definition form_byte :: "char \<Rightarrow> string" where
  "form_byte b =
     (if is_ascii_alphanumeric b \<or> b \<in> {CHR ''*'', CHR ''-'', CHR ''.'', CHR ''_''} then [b]
      else if b = CHR '' '' then ''+'' else escaped b)"

definition form_component :: "string \<Rightarrow> string" where
  "form_component s = concat (map form_byte s)"

definition form_pair :: "string \<times> string \<Rightarrow> string" where
  "form_pair kv = form_component (fst kv) @ CHR ''='' # form_component (snd kv)"

definition form_pairs :: "(string \<times> string) list \<Rightarrow> string" where
  "form_pairs ps = join_char CHR ''&'' (map form_pair ps)"

definition form_urlencode_documented :: "((string \<times> string) list \<Rightarrow> string) \<Rightarrow> bool" where
  "form_urlencode_documented f \<longleftrightarrow> (\<forall>ps. f ps = form_pairs ps)"

lemma form_byte_cases:
  obtains "form_byte b = [b]" "is_pchar b" "b \<noteq> CHR ''%''" "b \<noteq> CHR ''+''" "b \<notin> {CHR ''&'', CHR ''=''}"
  | "form_byte b = [CHR ''+'']" "b = CHR '' ''"
  | "form_byte b = escaped b"
proof (cases "is_ascii_alphanumeric b \<or> b \<in> {CHR ''*'', CHR ''-'', CHR ''.'', CHR ''_''}")
  case True
  have "is_pchar b" using True by (auto simp: is_pchar_def is_unreserved_def)
  moreover have "b \<noteq> CHR ''%''" "b \<noteq> CHR ''+''" "b \<noteq> CHR ''&''" "b \<noteq> CHR ''=''"
    using True by (auto simp: ascii_simps)
  ultimately show thesis using True that(1) by (simp add: form_byte_def)
next
  case False
  then show thesis
    using that(2,3) by (cases "b = CHR '' ''") (simp_all add: form_byte_def)
qed

lemma decode_loop_form_byte: "decode_loop (form_byte b @ r) acc = decode_loop r (acc @ [b])"
proof (cases b rule: form_byte_cases)
  case 1
  then show ?thesis by (simp add: pchar_not_control)
next
  case 2
  then show ?thesis by simp
next
  case 3
  then show ?thesis
    using read_escape_escaped [of b r] by (simp add: escaped_def push_escaped_def)
qed

lemma decode_loop_form_component:
  "decode_loop (form_component s @ r) acc = decode_loop r (acc @ s)"
  by (induction s arbitrary: acc) (auto simp: form_component_def decode_loop_form_byte)

lemma decode_form_component: "utf8_valid s \<Longrightarrow> decode_component (form_component s) = Inr s"
  using decode_loop_form_component [of s "[]" "[]"] by (simp add: decode_component_def)

lemma form_component_free: "{CHR ''&'', CHR ''='', CHR ''#''} \<inter> set (form_component s) = {}"
proof -
  have "CHR ''&'' \<notin> set (form_byte b) \<and> CHR ''='' \<notin> set (form_byte b) \<and> CHR ''#'' \<notin> set (form_byte b)"
    for b
  proof (cases b rule: form_byte_cases)
    case 3
    then show ?thesis using escaped_set [of b] by (auto simp: HEX_UPPER_def)
  qed auto
  then show ?thesis by (auto simp: form_component_def)
qed

lemma decode_form_pair:
  assumes "utf8_valid (fst kv)" "utf8_valid (snd kv)"
  shows "decode_pair (form_pair kv) = Inr kv"
proof -
  have "split_once CHR ''='' (form_pair kv) =
      Some (form_component (fst kv), form_component (snd kv))"
    using form_component_free [of "fst kv"] by (auto simp: form_pair_def intro: split_once_append)
  then show ?thesis using assms by (simp add: decode_pair_def decode_form_component)
qed

lemma form_pairs_free: "CHR ''#'' \<notin> set (form_pairs ps)"
proof -
  have "CHR ''#'' \<notin> set (join_char CHR ''&'' qs)" if "\<forall>q \<in> set qs. CHR ''#'' \<notin> set q" for qs
    using that by (induction "CHR ''&''" qs rule: join_char.induct) auto
  moreover have "CHR ''#'' \<notin> set (form_pair kv)" for kv
    using form_component_free [of "fst kv"] form_component_free [of "snd kv"]
    by (auto simp: form_pair_def)
  ultimately show ?thesis by (simp add: form_pairs_def)
qed

lemma canonical_query_form_pairs:
  assumes "ps \<noteq> []" "\<And>k v. (k, v) \<in> set ps \<Longrightarrow> utf8_valid k \<and> utf8_valid v" "sorted (map fst ps)"
  shows "canonical_query (form_pairs ps) = Inr ps"
proof -
  have "split_char CHR ''&'' (form_pairs ps) = map form_pair ps"
    unfolding form_pairs_def using assms(1) form_component_free
    by (intro split_join) (auto simp: form_pair_def)
  moreover have "filter (\<lambda>p. p \<noteq> []) (map form_pair ps) = map form_pair ps"
    by (auto simp: filter_id_conv form_pair_def)
  moreover have "collect_results decode_pair (map form_pair ps) = Inr ps"
    using assms(2) by (intro collect_results_map_id decode_form_pair) auto
  ultimately show ?thesis using assms(3) by (simp add: canonical_query_def sort_key_id)
qed

subsection \<open>What an accepted target looks like\<close>

lemma decode_component_utf8: "decode_component raw = Inr s \<Longrightarrow> utf8_valid s"
  by (auto simp: decode_component_def result_simps split: if_splits)

lemma decode_pair_utf8: "decode_pair p = Inr (k, v) \<Longrightarrow> utf8_valid k \<and> utf8_valid v"
  by (auto simp: decode_pair_def result_simps decode_component_utf8 Let_def split: prod.splits)

lemma canonical_query_ok:
  assumes "canonical_query q = Inr ps"
  shows "sorted (map fst ps)" "(k, v) \<in> set ps \<Longrightarrow> utf8_valid k \<and> utf8_valid v"
proof -
  obtain pairs where pairs: "collect_results decode_pair
      (filter (\<lambda>p. p \<noteq> '''') (split_char CHR ''&'' q)) = Inr pairs" and ps: "ps = sort_key fst pairs"
    using assms by (auto simp: canonical_query_def result_simps)
  show "sorted (map fst ps)" by (simp add: ps)
  assume "(k, v) \<in> set ps"
  then show "utf8_valid k \<and> utf8_valid v"
    using collect_results_set [OF pairs] by (auto simp: ps dest: decode_pair_utf8)
qed

definition canonical_target_ok :: "canonical_target \<Rightarrow> bool" where
  "canonical_target_ok t \<longleftrightarrow>
     is_canonical_path (target_path t) \<and> sorted (map fst (target_query t)) \<and>
     (\<forall>(k, v) \<in> set (target_query t). utf8_valid k \<and> utf8_valid v)"

lemma parse_target_ok: "parse_target input = Inr t \<Longrightarrow> canonical_target_ok t"
  by (auto simp: parse_target_def canonical_target_ok_def result_simps
      dest: canonical_path_is_canonical canonical_query_ok split: if_splits prod.splits option.splits)

lemma canonical_path_starts:
  assumes "is_canonical_path p"
  shows "\<exists>r. p = CHR ''/'' # r"
proof -
  obtain stack where "p = render stack \<or> stack \<noteq> [] \<and> p = butlast (render stack)"
    using assms by (auto simp: is_canonical_path_def)
  then show ?thesis
    by (cases stack) (auto simp: render_def butlast_append)
qed

lemma parse_wire:
  assumes "canonical_target_ok t" "form_urlencode_documented f"
    "length (url_under f t '''') \<le> MAX_TARGET_BYTES"
  shows "parse_target (url_under f t '''') = Inr t"
proof -
  let ?p = "target_path t" and ?q = "target_query t"
  have path: "is_canonical_path ?p" and f: "f ps = form_pairs ps" for ps
    using assms by (simp_all add: canonical_target_ok_def form_urlencode_documented_def)
  note free = canonical_path_no_separators [OF path]
  obtain r where r: "?p = CHR ''/'' # r" using canonical_path_starts [OF path] by blast
  have split: "split_target (url_under f t '''') =
      (?p, if ?q = [] then None else Some (form_pairs ?q))"
  proof (cases "?q = []")
    case True
    with free show ?thesis
      by (simp add: split_target_def url_under_def split_once_None_iff [THEN iffD2])
  next
    case False
    have "split_once CHR ''#'' (?p @ CHR ''?'' # form_pairs ?q) = None"
      using free form_pairs_free by (simp add: split_once_None_iff)
    with False free show ?thesis
      by (simp add: split_target_def url_under_def f split_once_append)
  qed
  have abs: "\<not> looks_absolute ?p" by (simp add: r looks_absolute_def ascii_simps)
  have "?q \<noteq> [] \<Longrightarrow> canonical_query (form_pairs ?q) = Inr ?q"
    using assms(1) by (intro canonical_query_form_pairs) (auto simp: canonical_target_ok_def)
  then show ?thesis
    using assms(3) split abs canonical_path_fixed [OF path]
    by (auto simp: parse_target_def not_less)
qed

lemma canonical_path_shape:
  assumes "is_canonical_path p"
  shows "starts_with p ''/''" "\<not> contains_str p ''//''" "encoding_ok p"
    "list_all (\<lambda>s. s \<noteq> ''.'' \<and> s \<noteq> ''..'') (filter (\<lambda>s. s \<noteq> '''') (split_char CHR ''/'' p))"
proof -
  obtain stack where st: "list_all canonical_segment stack"
    and p: "p = render stack \<or> stack \<noteq> [] \<and> p = butlast (render stack)"
    using assms by (auto simp: is_canonical_path_def)
  have seg: "canonical_bytes s \<and> CHR ''/'' \<notin> set s \<and> s \<noteq> ''.'' \<and> s \<noteq> ''..''"
    if "s \<in> set stack" for s
    using that st canonical_segmentD [of s] by (simp add: list_all_iff)
  define parts where "parts = (if p = render stack then [] # stack @ [[]] else [] # stack)"
  have join: "p = join_char CHR ''/'' parts"
    using p by (cases "p = render stack") (simp_all add: parts_def render_join [symmetric]
        butlast_render_join [symmetric] del: join_char.simps)
  show "starts_with p ''/''" using canonical_path_starts [OF assms] by (auto simp: starts_with_def)
  have "contains_str p ''//'' \<Longrightarrow> contains_str (render stack) ''//''"
    using p by (metis append_butlast_last_id contains_str_appendI render_nonempty)
  then show "\<not> contains_str p ''//''" using no_double_slash [OF st] by blast
  show "encoding_ok p"
    unfolding join using seg
    by (intro encoding_ok_join) (auto simp: parts_def canonical_nil split: if_splits)
  have "split_char CHR ''/'' p = parts"
    unfolding join using seg by (intro split_join) (auto simp: parts_def split: if_splits)
  then show "list_all (\<lambda>s. s \<noteq> ''.'' \<and> s \<noteq> ''..'') (filter (\<lambda>s. s \<noteq> '''') (split_char CHR ''/'' p))"
    using seg by (auto simp: parts_def list_all_iff split: if_splits)
qed

subsection \<open>Which errors arise where\<close>

lemma collect_results_Inl: "collect_results f xs = Inl e \<Longrightarrow> \<exists>x \<in> set xs. f x = Inl e"
  by (induction xs) (auto simp: result_simps)

lemma read_escape_error: "read_escape s = Inl e \<Longrightarrow> e = InvalidPercentEncoding"
  by (auto simp: read_escape_def split: list.splits option.splits)

lemma normalise_not_TooLong: "normalise_segment p \<noteq> Inl TooLong"
  by (induction p rule: normalise_segment.induct)
     (auto simp: result_simps dest: read_escape_error split: if_splits)

lemma decode_loop_not_TooLong: "decode_loop raw acc \<noteq> Inl TooLong"
  by (induction raw acc rule: decode_loop.induct)
     (auto dest: read_escape_error split: sum.splits)

lemma canonical_query_not_TooLong: "canonical_query q \<noteq> Inl TooLong"
  using decode_loop_not_TooLong
  by (auto simp: canonical_query_def decode_pair_def decode_component_def result_simps
      dest!: collect_results_Inl split: prod.splits if_splits)

lemma parse_target_TooLong: "parse_target input = Inl TooLong \<Longrightarrow> MAX_TARGET_BYTES < length input"
  using normalise_not_TooLong canonical_query_not_TooLong
  by (auto simp: parse_target_def canonical_path_eq_spec canonical_path_spec_def result_simps
      Let_def dest!: collect_results_Inl split: prod.splits if_splits option.splits)

subsection \<open>Requests that grow\<close>

lemma normalise_replicate:
  assumes "\<not> is_pchar c" "\<not> is_control c" "c \<noteq> CHR ''%''"
  shows "normalise_segment (replicate n c) = Inr (concat (replicate n (escaped c)))"
  using assms by (induction n) auto

lemma length_concat_escaped: "length (concat (replicate n (escaped c))) = 3 * n"
  by (induction n) (auto simp: escaped_def push_escaped_def)

lemma quote_path:
  assumes "0 < n"
  shows "canonical_path (replicate n CHR 0x22) =
           Inr (CHR ''/'' # concat (replicate n (escaped CHR 0x22)))"
proof -
  let ?s = "concat (replicate n (escaped CHR 0x22))"
  have "\<not> is_pchar CHR 0x22" "\<not> is_control CHR 0x22"
    by (simp_all add: is_pchar_def is_unreserved_def is_control_def ascii_simps)
  then have norm: "normalise_segment (replicate n CHR 0x22) = Inr ?s"
    by (intro normalise_replicate) auto
  have split: "split_char CHR ''/'' (replicate n CHR 0x22) = [replicate n CHR 0x22]"
    by (rule split_char_free) auto
  have len: "length ?s = 3 * n" by (rule length_concat_escaped)
  then have "length ?s \<noteq> length ''''" "length ?s \<noteq> length ''.''" "length ?s \<noteq> length ''..''"
    using assms by auto
  then have "?s \<noteq> ''''" "?s \<noteq> ''.''" "?s \<noteq> ''..''" by metis+
  with split norm show ?thesis
    by (simp add: canonical_path_eq_spec canonical_path_spec_def resolve_def render_def)
qed

lemma quote_target:
  assumes "0 < n" "n \<le> MAX_TARGET_BYTES"
  shows "parse_target (replicate n CHR 0x22) =
     Inr \<lparr>target_path = CHR ''/'' # concat (replicate n (escaped CHR 0x22)), target_query = []\<rparr>"
proof -
  have "split_once d (replicate n CHR 0x22) = None" if "d \<noteq> CHR 0x22" for d
    using that by (simp add: split_once_None_iff)
  moreover have "\<not> looks_absolute (replicate n CHR 0x22)"
    by (cases n) (simp_all add: looks_absolute_def ascii_simps)
  ultimately show ?thesis
    using assms quote_path [OF assms(1)]
    by (simp add: parse_target_def split_target_def)
qed

subsection \<open>Plain segments\<close>

lemma canonical_bytes_unreserved: "list_all is_unreserved s \<Longrightarrow> canonical_bytes s"
  by (induction s) (auto intro: canonical_bytes.intros unreserved_is_pchar)

lemma plain_segments_loop_Some:
  "plain_segments_loop segs out = Some p \<Longrightarrow>
     list_all canonical_segment segs \<and> p = out @ concat (map (Cons CHR ''/'') segs)"
  by (induction segs arbitrary: out)
     (fastforce simp: canonical_segment_def canonical_bytes_unreserved split: if_splits)+

lemma butlast_render: "segs \<noteq> [] \<Longrightarrow> butlast (render segs) = concat (map (Cons CHR ''/'') segs)"
proof -
  assume "segs \<noteq> []"
  have "CHR ''/'' # join_char CHR ''/'' qs = concat (map (Cons CHR ''/'') qs)" if "qs \<noteq> []" for qs
    using that
  proof (induction qs)
    case (Cons q qs)
    then show ?case by (cases "qs = []") (auto simp: join_char_Cons)
  qed simp
  with \<open>segs \<noteq> []\<close> show ?thesis by (simp add: butlast_render_join join_char_Cons)
qed

section \<open>Properties\<close>

text \<open>C5. The one-pass byte loop of \<open>canonical_path\<close>, which pops dot segments by
  truncating its output buffer, computes on every input, errors included, what splitting at
  the slashes, spelling each segment canonically and resolving dot segments on a stack
  computes.\<close>

theorem canonical_path_refines_segments: "canonical_path raw = canonical_path_spec raw"
  by (rule canonical_path_eq_spec)

text \<open>C7. Every assertion of the fuzz target's checker holds for every input whose wire form is
  within the size limit: the path is absolute, has no empty or dot segment, carries no query
  or fragment delimiter, every escape is upper-case and of a byte that needs it, query keys
  are sorted, and parsing the wire form again gives the same target.\<close>

theorem accepted_targets_pass_checks:
  assumes "form_urlencode_documented f"
    and "\<And>t. parse_target input = Inr t \<Longrightarrow> length (url_under f t '''') \<le> MAX_TARGET_BYTES"
  shows "invariants_check f input = Passes"
proof (cases "parse_target input")
  case (Inl e)
  then show ?thesis
    using parse_target_TooLong by (cases e) (auto simp: invariants_check_def)
next
  case (Inr t)
  then have ok: "canonical_target_ok t" by (rule parse_target_ok)
  then have path: "is_canonical_path (target_path t)" by (simp add: canonical_target_ok_def)
  note shape = canonical_path_shape [OF path] canonical_path_no_separators [OF path]
  have "parse_target (url_under f t '''') = Inr t"
    using parse_wire [OF ok assms(1)] assms(2) [OF Inr] by blast
  with Inr shape ok show ?thesis
    by (simp add: invariants_check_def canonical_target_ok_def)
qed

theorem accepted_targets_pass_checks_witness:
  "invariants_check form_pairs ''/a/./b/../c%41%2f?z=1+2&a=%7e'' = Passes"
proof (rule accepted_targets_pass_checks)
  show "form_urlencode_documented form_pairs" by (simp add: form_urlencode_documented_def)
  have "parse_target ''/a/./b/../c%41%2f?z=1+2&a=%7e'' =
      Inr \<lparr>target_path = ''/a/cA%2F'', target_query = [(''a'', ''~''), (''z'', ''1 2'')]\<rparr>"
    by code_simp
  moreover have "length (url_under form_pairs
      \<lparr>target_path = ''/a/cA%2F'', target_query = [(''a'', ''~''), (''z'', ''1 2'')]\<rparr> '''')
      \<le> MAX_TARGET_BYTES"
    by code_simp
  ultimately show "length (url_under form_pairs t '''') \<le> MAX_TARGET_BYTES"
    if "parse_target ''/a/./b/../c%41%2f?z=1+2&a=%7e'' = Inr t" for t
    using that by simp
qed

text \<open>The checker's idempotence assertion does not hold for every accepted input: escaping can
  make the wire form three times as long as the request, so an accepted request of 6000
  quotation marks has a canonical form that \<open>parse\<close> refuses as too long.\<close>

theorem long_wire_form_fails_check:
  "parse_target (replicate 6000 CHR 0x22) \<noteq> Inl TooLong
   \<and> invariants_check f (replicate 6000 CHR 0x22) = Panics ''canonical form rejected''"
proof -
  let ?t = "\<lparr>target_path = CHR ''/'' # concat (replicate 6000 (escaped CHR 0x22)), target_query = []\<rparr>"
  have t: "parse_target (replicate 6000 CHR 0x22) = Inr ?t"
    by (rule quote_target) (simp_all add: MAX_TARGET_BYTES_def)
  then have path: "is_canonical_path (target_path ?t)"
    using parse_target_ok [OF t] by (simp add: canonical_target_ok_def)
  have "MAX_TARGET_BYTES < length (url_under f ?t '''')"
    by (simp add: url_under_def length_concat_escaped MAX_TARGET_BYTES_def)
  then have "parse_target (url_under f ?t '''') = Inl TooLong"
    by (simp only: parse_target_def if_True)
  with t canonical_path_shape [OF path] canonical_path_no_separators [OF path] show ?thesis
    by (simp only: invariants_check_def) simp
qed

text \<open>\<open>from_plain_segments\<close> cannot produce anything \<open>parse\<close> would not: what
  it returns is a canonical path, so canonicalizing it gives it back.\<close>

theorem from_plain_segments_canonical:
  assumes "from_plain_segments segments = Some p"
  shows "is_canonical_path p \<and> canonical_path p = Inr p"
proof -
  obtain out where out: "plain_segments_loop segments '''' = Some out"
    and p: "p = (if out = '''' then ''/'' else out)"
    using assms by (auto simp: from_plain_segments_def split: option.splits)
  note segs = plain_segments_loop_Some [OF out]
  have "p = (if segments = [] then render [] else butlast (render segments))"
    using segs p by (auto simp: butlast_render render_Nil)
  with segs have "is_canonical_path p"
    by (cases "segments = []") (auto simp: is_canonical_path_def intro: exI [of _ "[]"])
  then show ?thesis by (simp add: canonical_path_fixed)
qed

theorem from_plain_segments_canonical_witness:
  "is_canonical_path ''/api/datasources'' \<and> canonical_path ''/api/datasources'' = Inr ''/api/datasources''"
  by (rule from_plain_segments_canonical [of "[''api'', ''datasources'']"]) code_simp

end
