(* ===== verification/Policy_Types.thy ===== *)
theory Policy_Types
  imports Canonical
begin

text \<open>
  The vocabulary of a policy decision, \<^verbatim>\<open>src/policy/mod.rs\<close>, with the HTTP verbs of
  \<^verbatim>\<open>src/transport/mod.rs\<close>, the handle of \<^verbatim>\<open>src/policy/extractors.rs\<close> and the
  decision-point port of \<^verbatim>\<open>src/ports/policy_decision_point.rs\<close>. A struct is a
  \<open>record\<close>; a field whose name several structs share carries a prefix
  (\<open>det_\<close> for \<open>ActionDetails\<close>, \<open>ctx_\<close> for \<open>ActionContext\<close>, \<open>up_\<close> for
  \<open>UpstreamIdentity\<close>). The digest function of the \<^verbatim>\<open>sha2\<close> crate is the parameter
  \<open>sha256\<close>.
\<close>

section \<open>Verbs and identities\<close>

datatype http_method = Get | Post | Put | Patch | Delete

fun method_str :: "http_method \<Rightarrow> string" where
  "method_str Get = ''GET''"
| "method_str Post = ''POST''"
| "method_str Put = ''PUT''"
| "method_str Patch = ''PATCH''"
| "method_str Delete = ''DELETE''"

datatype principal_authority = Local | Oidc (oidc_issuer: string)

fun authority_issuer :: "principal_authority \<Rightarrow> string option" where
  "authority_issuer Local = None"
| "authority_issuer (Oidc issuer) = Some issuer"

fun authority_label :: "principal_authority \<Rightarrow> string" where
  "authority_label Local = ''local''"
| "authority_label (Oidc issuer) = issuer"

record principal =
  tenant :: string
  subject :: string
  groups :: "string list"
  scopes :: "string list"
  authority :: principal_authority

definition principal_local :: principal where
  "principal_local =
     \<lparr>tenant = ''local'', subject = ''local'', groups = [], scopes = [], authority = Local\<rparr>"

text \<open>\<open>expression_digest\<close> and its public name \<open>opaque_handle\<close>: the first eight
  bytes of the SHA-256 digest in hexadecimal, and the length.\<close>

definition expression_digest :: "(string \<Rightarrow> string) \<Rightarrow> string \<Rightarrow> string" where
  "expression_digest sha256 value =
     ''sha256:'' @ hex_string (take 8 (sha256 value)) @ ''/'' @ dec_string (length value)"

definition opaque_handle :: "(string \<Rightarrow> string) \<Rightarrow> string \<Rightarrow> string" where
  "opaque_handle sha256 value = expression_digest sha256 value"

definition digest_caller_text :: "(string \<Rightarrow> string) \<Rightarrow> string \<Rightarrow> string option" where
  "digest_caller_text sha256 value =
     (let trimmed = trim value in
      if trimmed \<noteq> '''' then Some (opaque_handle sha256 trimmed) else None)"

definition correlation_id :: "(string \<Rightarrow> string) \<Rightarrow> string \<Rightarrow> string" where
  "correlation_id sha256 raw =
     (case digest_caller_text sha256 raw of Some h \<Rightarrow> h | None \<Rightarrow> ''unset'')"

record client_identity =
  client_name :: "string option"
  client_version :: "string option"

definition client_reported ::
  "(string \<Rightarrow> string) \<Rightarrow> string option \<Rightarrow> string option \<Rightarrow> client_identity" where
  "client_reported sha256 name version =
     \<lparr>client_name = Option.bind name (digest_caller_text sha256),
      client_version = Option.bind version (digest_caller_text sha256)\<rparr>"

datatype environment_class = Prod | Staging | Qa | Dev | Unclassified

fun environment_str :: "environment_class \<Rightarrow> string" where
  "environment_str Prod = ''prod''"
| "environment_str Staging = ''staging''"
| "environment_str Qa = ''qa''"
| "environment_str Dev = ''dev''"
| "environment_str Unclassified = ''unclassified''"

definition environment_parse :: "string \<Rightarrow> environment_class option" where
  "environment_parse value =
     (let v = to_ascii_lowercase (trim value) in
      if v = ''prod'' \<or> v = ''production'' then Some Prod
      else if v = ''staging'' then Some Staging
      else if v = ''qa'' then Some Qa
      else if v = ''dev'' \<or> v = ''development'' then Some Dev
      else None)"

datatype upstream_authority = Shared | Delegated

section \<open>Credential labels\<close>

definition LABEL_SEGMENT_MAX_CHARS :: nat where
  "LABEL_SEGMENT_MAX_CHARS = 128"

definition label_segment :: "string \<Rightarrow> string" where
  "label_segment value =
     concat (take LABEL_SEGMENT_MAX_CHARS
       (filter (\<lambda>ch. \<not> char_is_control ch \<and> ch \<noteq> ''/'') (utf8_chars value)))"

definition label_slot :: "string \<Rightarrow> string \<Rightarrow> string" where
  "label_slot slot_vendor slot_key = label_segment slot_vendor @ ''/'' @ label_segment slot_key"

definition label_principal_slot :: "string \<Rightarrow> string \<Rightarrow> string \<Rightarrow> string" where
  "label_principal_slot slot_vendor slot_key p =
     label_segment slot_vendor @ ''/'' @ label_segment slot_key @ ''/'' @ label_segment p"

definition label_unconfigured :: "string \<Rightarrow> string" where
  "label_unconfigured vendor = label_segment vendor @ ''/unconfigured''"

definition label_indeterminate :: "string \<Rightarrow> string" where
  "label_indeterminate vendor = label_segment vendor @ ''/indeterminate''"

record secret_provenance =
  provenance_source :: string
  provenance_version :: string

record upstream_identity =
  up_label :: string
  up_vendor :: string
  up_environment :: environment_class
  up_authority :: upstream_authority
  up_provenance :: "secret_provenance option"

section \<open>Resources and actions\<close>

datatype resource_type =
    VendorResource | Issue | Project | Channel | Datasource | Dashboard | Unknown

datatype normalized_action =
    ReadVendorResource | ReadIssue | SearchIssues | ReadProject | QueryLogs | ListDatasources
  | ReadDatasource | ListChannels | ReadChannel | ReadChannelHistory | ReadThread
  | SearchMessages | Passthrough

datatype request_risk = Read | Write | Destructive

fun risk_str :: "request_risk \<Rightarrow> string" where
  "risk_str Read = ''read''"
| "risk_str Write = ''write''"
| "risk_str Destructive = ''destructive''"

fun risk_from_method :: "http_method \<Rightarrow> request_risk" where
  "risk_from_method Get = Read"
| "risk_from_method Post = Write"
| "risk_from_method Put = Write"
| "risk_from_method Patch = Write"
| "risk_from_method Delete = Destructive"

text \<open>\<open>ResourceScope\<close> wraps a private enum: a value is built by \<open>unscoped\<close>,
  \<open>collection\<close>, \<open>ids\<close> and \<open>id\<close> only.\<close>

datatype resource_scope = Unscoped | Collection | Ids "string list"

definition scope_ids :: "string list \<Rightarrow> resource_scope" where
  "scope_ids ids =
     (let kept = filter (\<lambda>i. trim i \<noteq> '''') ids in
      if kept = [] then Unscoped else Ids (remdups_adj (sort kept)))"

definition scope_id :: "string \<Rightarrow> resource_scope" where
  "scope_id i = scope_ids [i]"

fun is_unscoped :: "resource_scope \<Rightarrow> bool" where
  "is_unscoped Unscoped = True"
| "is_unscoped _ = False"

fun is_collection :: "resource_scope \<Rightarrow> bool" where
  "is_collection Collection = True"
| "is_collection _ = False"

fun id_count :: "resource_scope \<Rightarrow> nat" where
  "id_count (Ids ids) = length ids"
| "id_count _ = 0"

fun all_ids_allowed :: "resource_scope \<Rightarrow> (string \<Rightarrow> bool) \<Rightarrow> bool" where
  "all_ids_allowed (Ids ids) allowed = list_all allowed ids"
| "all_ids_allowed _ allowed = False"

record resource_constraint =
  constraint_type :: resource_type
  constraint_scope :: resource_scope

definition constraint_ids :: "resource_type \<Rightarrow> string list \<Rightarrow> resource_constraint option" where
  "constraint_ids rt ids =
     (let scope = scope_ids ids in
      if 0 < id_count scope then Some \<lparr>constraint_type = rt, constraint_scope = scope\<rparr> else None)"

record action_details =
  det_action :: normalized_action
  det_method :: http_method
  det_path :: string
  det_attributes :: "(string \<times> string) list"
  det_resource_type :: resource_type
  det_scope :: resource_scope
  det_constraint :: "resource_constraint option"
  det_risk :: request_risk

definition details_read ::
  "normalized_action \<Rightarrow> string \<Rightarrow> (string \<times> string) list \<Rightarrow> resource_type \<Rightarrow> resource_scope
     \<Rightarrow> action_details" where
  "details_read action path attributes rt scope =
     \<lparr>det_action = action, det_method = Get, det_path = path, det_attributes = attributes,
      det_resource_type = rt, det_scope = scope, det_constraint = None, det_risk = Read\<rparr>"

record approved_read_downgrade =
  down_method :: http_method
  down_path :: string
  down_action :: normalized_action
  down_resource_type :: resource_type

definition JIRA_SEARCH_JQL :: approved_read_downgrade where
  "JIRA_SEARCH_JQL =
     \<lparr>down_method = Post, down_path = ''/rest/api/3/search/jql'', down_action = SearchIssues,
      down_resource_type = Issue\<rparr>"

definition downgrade_endpoint :: "approved_read_downgrade \<Rightarrow> string" where
  "downgrade_endpoint d = method_str (down_method d) @ '' '' @ down_path d"

definition details_read_downgrade ::
  "approved_read_downgrade \<Rightarrow> (string \<times> string) list \<Rightarrow> resource_scope \<Rightarrow> action_details" where
  "details_read_downgrade d attributes scope =
     \<lparr>det_action = down_action d, det_method = down_method d, det_path = down_path d,
      det_attributes = attributes, det_resource_type = down_resource_type d, det_scope = scope,
      det_constraint = None, det_risk = Read\<rparr>"

definition details_unclassified :: "http_method \<Rightarrow> string \<Rightarrow> action_details" where
  "details_unclassified method path =
     \<lparr>det_action = Passthrough, det_method = method, det_path = path, det_attributes = [],
      det_resource_type = Unknown, det_scope = Unscoped, det_constraint = None,
      det_risk = risk_from_method method\<rparr>"

definition details_unmapped_tool :: "request_risk \<Rightarrow> action_details" where
  "details_unmapped_tool risk =
     (let method = (case risk of Read \<Rightarrow> Get | Write \<Rightarrow> Post | Destructive \<Rightarrow> Delete) in
      \<lparr>det_action = Passthrough, det_method = method, det_path = ''/'', det_attributes = [],
       det_resource_type = Unknown, det_scope = Unscoped, det_constraint = None,
       det_risk = risk\<rparr>)"

text \<open>The seven calls of \<open>parts.next()\<close> see the first six parts and that there is no
  seventh.\<close>

definition mend_summaries_path :: "string \<Rightarrow> bool" where
  "mend_summaries_path path =
     (case split_char CHR ''/'' (trim_matches CHR ''/'' path) of
        [a, b, c, org, d, e] \<Rightarrow>
          a = ''api'' \<and> b = ''v3.0'' \<and> c = ''orgs'' \<and> d = ''projects'' \<and> e = ''summaries''
          \<and> org \<noteq> ''''
      | _ \<Rightarrow> False)"

definition details_native_post_read :: "string \<Rightarrow> string \<Rightarrow> action_details" where
  "details_native_post_read vendor path =
     (let approved = (vendor = ''artifactory'' \<and> path = ''/api/search/aql'')
            \<or> (vendor = ''mend'' \<and> mend_summaries_path path);
          details = details_unclassified Post path
      in if approved
         then details\<lparr>det_risk := Read, det_resource_type := VendorResource,
                      det_action := ReadVendorResource\<rparr>
         else details)"

definition details_constrained_by ::
  "action_details \<Rightarrow> resource_constraint option \<Rightarrow> action_details" where
  "details_constrained_by details c = details\<lparr>det_constraint := c\<rparr>"

definition details_unclassified_with_attributes ::
  "http_method \<Rightarrow> string \<Rightarrow> (string \<times> string) list \<Rightarrow> action_details" where
  "details_unclassified_with_attributes method path attributes =
     (details_unclassified method path)\<lparr>det_attributes := attributes\<rparr>"

section \<open>The context a decision is made on\<close>

record action_context =
  ctx_principal :: principal
  ctx_client :: client_identity
  ctx_vendor :: string
  ctx_vendor_account :: "string option"
  ctx_environment :: environment_class
  ctx_tool_name :: string
  ctx_action :: normalized_action
  ctx_method :: http_method
  ctx_path :: string
  ctx_destination_origin :: "string option"
  ctx_attributes :: "(string \<times> string) list"
  ctx_resource_type :: resource_type
  ctx_scope :: resource_scope
  ctx_constraint :: "resource_constraint option"
  ctx_resource_class :: "string option"
  ctx_upstream :: upstream_identity
  ctx_risk :: request_risk

definition context_assemble ::
  "principal \<Rightarrow> client_identity \<Rightarrow> string option \<Rightarrow> string \<Rightarrow> action_details \<Rightarrow> string option
     \<Rightarrow> upstream_identity \<Rightarrow> action_context" where
  "context_assemble p client vendor_account tool_name details resource_class upstream =
     \<lparr>ctx_principal = p, ctx_client = client, ctx_vendor = up_vendor upstream,
      ctx_vendor_account = vendor_account, ctx_environment = up_environment upstream,
      ctx_tool_name = tool_name, ctx_action = det_action details,
      ctx_method = det_method details, ctx_path = det_path details,
      ctx_destination_origin = None, ctx_attributes = det_attributes details,
      ctx_resource_type = det_resource_type details, ctx_scope = det_scope details,
      ctx_constraint = det_constraint details, ctx_resource_class = resource_class,
      ctx_upstream = upstream, ctx_risk = det_risk details\<rparr>"

text \<open>\<open>set_destination\<close> takes the origin the \<^verbatim>\<open>url\<close> crate serializes.\<close>

definition set_destination :: "string \<Rightarrow> action_context \<Rightarrow> action_context" where
  "set_destination origin c = c\<lparr>ctx_destination_origin := Some origin\<rparr>"

section \<open>Decisions\<close>

datatype policy_effect = Allow | Deny

record policy_decision =
  dec_effect :: policy_effect
  dec_rule_id :: "string option"
  dec_policy_version :: "string option"
  dec_reason :: string

definition decision_local_allow :: policy_decision where
  "decision_local_allow =
     \<lparr>dec_effect = Allow, dec_rule_id = None, dec_policy_version = None,
      dec_reason = ''local mode: no inbound authentication, loopback/stdio trust boundary''\<rparr>"

definition decision_default_deny :: "string \<Rightarrow> policy_decision" where
  "decision_default_deny reason =
     \<lparr>dec_effect = Deny, dec_rule_id = None, dec_policy_version = None, dec_reason = reason\<rparr>"

definition decision_by_rule :: "policy_effect \<Rightarrow> string \<Rightarrow> string \<Rightarrow> policy_decision" where
  "decision_by_rule effect rule_id version =
     (let verb = (case effect of Allow \<Rightarrow> ''allowed'' | Deny \<Rightarrow> ''denied'') in
      \<lparr>dec_effect = effect, dec_rule_id = Some rule_id, dec_policy_version = Some version,
       dec_reason = verb @ '' by rule '' @ rule_id\<rparr>)"

definition decision_default_deny_under :: "string \<Rightarrow> string \<Rightarrow> policy_decision" where
  "decision_default_deny_under version reason =
     \<lparr>dec_effect = Deny, dec_rule_id = None, dec_policy_version = Some version,
      dec_reason = reason\<rparr>"

definition is_allow :: "policy_decision \<Rightarrow> bool" where
  "is_allow d \<longleftrightarrow> dec_effect d = Allow"

text \<open>\<open>AllowAll\<close>, the decision point of local mode.\<close>

definition allow_all_evaluate :: "action_context \<Rightarrow> policy_decision" where
  "allow_all_evaluate c = decision_local_allow"

definition allow_all_enforces :: bool where
  "allow_all_enforces = False"

lemma is_allow_simps [simp]:
  "is_allow decision_local_allow"
  "\<not> is_allow (decision_default_deny reason)"
  "is_allow (decision_by_rule effect rule_id version) \<longleftrightarrow> effect = Allow"
  "\<not> is_allow (decision_default_deny_under version reason)"
  by (simp_all add: is_allow_def decision_local_allow_def decision_default_deny_def
      decision_by_rule_def decision_default_deny_under_def Let_def)

text \<open>The port: every decision of a versioned decision point names the version in force, and one that
  does not enforce allows everything, which is why callers may skip it.\<close>

locale decision_point =
  fixes evaluate :: "action_context \<Rightarrow> policy_decision" and enforces :: bool
    and version :: "string option"
  assumes silent_allows: "\<not> enforces \<Longrightarrow> is_allow (evaluate c)"
    and decision_version: "dec_policy_version (evaluate c) = version"
begin

lemma denial_enforces: "\<not> is_allow (evaluate c) \<Longrightarrow> enforces"
  using silent_allows by blast

end

interpretation allow_all: decision_point allow_all_evaluate allow_all_enforces "None"
  by unfold_locales
     (auto simp: allow_all_evaluate_def allow_all_enforces_def is_allow_def decision_local_allow_def)

section \<open>Scopes are never vacuous\<close>

text \<open>What the private constructors of \<open>ResourceScope\<close> guarantee: an id list is not
  empty, sorted and without repetition, and no id is blank.\<close>

fun scope_wf :: "resource_scope \<Rightarrow> bool" where
  "scope_wf (Ids ids) \<longleftrightarrow> ids \<noteq> [] \<and> sorted ids \<and> distinct ids \<and> list_all (\<lambda>i. trim i \<noteq> '''') ids"
| "scope_wf _ \<longleftrightarrow> True"

definition constraint_wf :: "resource_constraint \<Rightarrow> bool" where
  "constraint_wf c \<longleftrightarrow> scope_wf (constraint_scope c) \<and> (\<exists>ids. constraint_scope c = Ids ids)"

definition details_wf :: "action_details \<Rightarrow> bool" where
  "details_wf d \<longleftrightarrow> scope_wf (det_scope d) \<and> pred_option constraint_wf (det_constraint d)"

definition context_wf :: "action_context \<Rightarrow> bool" where
  "context_wf c \<longleftrightarrow> scope_wf (ctx_scope c) \<and> pred_option constraint_wf (ctx_constraint c)"

lemma sort_eq_Nil [simp]: "sort xs = [] \<longleftrightarrow> xs = []"
  by (metis set_empty set_sort)

lemma distinct_remdups_adj_sorted:
  fixes xs :: "'a :: linorder list"
  shows "sorted xs \<Longrightarrow> distinct (remdups_adj xs)"
  by (induction xs rule: remdups_adj.induct) auto

lemma remdups_adj_sort_eq:
  "sorted (remdups_adj (sort xs)) \<and> distinct (remdups_adj (sort xs))
     \<and> set (remdups_adj (sort xs)) = set xs"
  for xs :: "'a :: linorder list"
  by (simp add: sorted_remdups_adj distinct_remdups_adj_sorted)

lemma scope_ids_wf [simp]: "scope_wf (scope_ids ids)"
  using remdups_adj_sort_eq [of "filter (\<lambda>i. trim i \<noteq> '''') ids"]
  by (auto simp: scope_ids_def Let_def list_all_iff)

lemma scope_ids_cases:
  "scope_ids ids = Unscoped \<and> (\<forall>i \<in> set ids. trim i = '''')
   \<or> (\<exists>js. scope_ids ids = Ids js \<and> js \<noteq> [] \<and> set js = {i \<in> set ids. trim i \<noteq> ''''})"
  using remdups_adj_sort_eq [of "filter (\<lambda>i. trim i \<noteq> '''') ids"]
  by (auto simp: scope_ids_def Let_def filter_empty_conv)

lemma constraint_ids_wf: "constraint_ids rt ids = Some c \<Longrightarrow> constraint_wf c \<and> constraint_type c = rt"
  using scope_ids_wf [of ids]
  by (cases "scope_ids ids") (auto simp: constraint_ids_def constraint_wf_def Let_def split: if_splits)

lemma all_ids_allowed_iff:
  "all_ids_allowed s f \<longleftrightarrow> (\<exists>ids. s = Ids ids \<and> (\<forall>i \<in> set ids. f i))"
  by (cases s) (auto simp: list_all_iff)

lemma details_wf_intros [simp, intro]:
  "scope_wf s \<Longrightarrow> details_wf (details_read a p q rt s)"
  "scope_wf s \<Longrightarrow> details_wf (details_read_downgrade d q s)"
  "details_wf (details_unclassified m p)"
  "details_wf (details_unmapped_tool r)"
  "details_wf (details_native_post_read v p)"
  "details_wf (details_unclassified_with_attributes m p q)"
  by (simp_all add: details_wf_def details_read_def details_read_downgrade_def
      details_unclassified_def details_unmapped_tool_def details_native_post_read_def
      details_unclassified_with_attributes_def Let_def)

lemma details_constrained_wf:
  "details_wf d \<Longrightarrow> pred_option constraint_wf c \<Longrightarrow> details_wf (details_constrained_by d c)"
  by (simp add: details_wf_def details_constrained_by_def)

lemma context_assemble_wf: "details_wf d \<Longrightarrow> context_wf (context_assemble p cl va t d rc u)"
  by (simp add: details_wf_def context_wf_def context_assemble_def)

end
