(* ===== verification/Scope.thy ===== *)
theory Scope
  imports Policy_Types
begin

text \<open>
  The call scope, \<^verbatim>\<open>src/policy/scope.rs\<close>: the bounded log of the egress decisions one
  tool call made, the tickets through which the transport reports what it did with each, and the
  key that owns the artifacts and cache entries of a principal. The log is behind a mutex that is
  held for one push or one update, so each operation is a function from the log to the log; a
  ticket is the index of its record, \<open>None\<close> when the record was only counted.
\<close>

section \<open>The code\<close>

definition MAX_EGRESS_RECORDS :: nat where
  "MAX_EGRESS_RECORDS = 64"

datatype egress_dispatch =
    Denied
  | NotAttempted
  | CacheHit
  | Attempted (attempts: nat) (last_status: "nat option") (failure: "string option")

record egress_record =
  eg_vendor :: string
  eg_method :: http_method
  eg_canonical_target :: string
  eg_destination_origin :: "string option"
  eg_effect :: policy_effect
  eg_rule_id :: "string option"
  eg_dispatch :: egress_dispatch

record egress_log =
  log_records :: "egress_record list"
  log_omitted :: nat

record egress_summary =
  sum_requests :: "egress_record list"
  sum_omitted :: nat

definition empty_log :: egress_log where
  "empty_log = \<lparr>log_records = [], log_omitted = 0\<rparr>"

definition note_egress :: "egress_record \<Rightarrow> egress_log \<Rightarrow> nat option \<times> egress_log" where
  "note_egress r log =
     (if length (log_records log) < MAX_EGRESS_RECORDS
      then (Some (length (log_records log)), log\<lparr>log_records := log_records log @ [r]\<rparr>)
      else (None, log\<lparr>log_omitted := log_omitted log + 1\<rparr>))"

definition ticket_update ::
  "(egress_record \<Rightarrow> egress_record) \<Rightarrow> nat option \<Rightarrow> egress_log \<Rightarrow> egress_log" where
  "ticket_update apply_to ticket log =
     (case ticket of
        None \<Rightarrow> log
      | Some i \<Rightarrow>
          if i < length (log_records log)
          then log\<lparr>log_records := (log_records log)[i := apply_to (log_records log ! i)]\<rparr>
          else log)"

definition ticket_cache_hit :: "nat option \<Rightarrow> egress_log \<Rightarrow> egress_log" where
  "ticket_cache_hit = ticket_update (\<lambda>r. r\<lparr>eg_dispatch := CacheHit\<rparr>)"

definition attempt_dispatch ::
  "nat option \<Rightarrow> string option \<Rightarrow> egress_dispatch \<Rightarrow> egress_dispatch" where
  "attempt_dispatch status fail d =
     (case d of
        Attempted n _ _ \<Rightarrow> Attempted (n + 1) status fail
      | _ \<Rightarrow> Attempted 1 status fail)"

definition ticket_attempted ::
  "nat option \<Rightarrow> string option \<Rightarrow> nat option \<Rightarrow> egress_log \<Rightarrow> egress_log" where
  "ticket_attempted status fail =
     ticket_update (\<lambda>r. r\<lparr>eg_dispatch := attempt_dispatch status fail (eg_dispatch r)\<rparr>)"

definition take_egress :: "egress_log \<Rightarrow> egress_summary option \<times> egress_log" where
  "take_egress log =
     ((if log_records log \<noteq> [] \<or> 0 < log_omitted log
       then Some \<lparr>sum_requests = log_records log, sum_omitted = log_omitted log\<rparr> else None),
      empty_log)"

datatype owner_key = LocalOwner | PrincipalOwner (owner_tenant: string) (owner_subject: string)

definition owner_of :: "principal \<Rightarrow> owner_key" where
  "owner_of p =
     (if authority p = Local then LocalOwner else PrincipalOwner (tenant p) (subject p))"

text \<open>The bytes \<open>OwnerKey::hash_into\<close> feeds to the hasher.\<close>

fun owner_frame :: "owner_key \<Rightarrow> string" where
  "owner_frame LocalOwner = ''owner:local'' @ [CHR 0x00]"
| "owner_frame (PrincipalOwner t s) =
     ''owner:principal'' @ [CHR 0x00] @ t @ [CHR 0x00] @ s @ [CHR 0x00]"

section \<open>The log of one call\<close>

text \<open>The decisions and reports of one call, in the order they happen.\<close>

datatype egress_event =
    Note egress_record
  | ReportHit "nat option"
  | ReportAttempt "nat option" "string option" "nat option"

fun egress_step :: "egress_event \<Rightarrow> egress_log \<Rightarrow> egress_log" where
  "egress_step (Note r) log = snd (note_egress r log)"
| "egress_step (ReportHit ticket) log = ticket_cache_hit ticket log"
| "egress_step (ReportAttempt status fail ticket) log = ticket_attempted status fail ticket log"

fun noted :: "egress_event list \<Rightarrow> egress_record list" where
  "noted [] = []"
| "noted (Note r # steps) = r # noted steps"
| "noted (_ # steps) = noted steps"

text \<open>A record without what the transport reported: the part the decision fixed.\<close>

definition decided :: "egress_record \<Rightarrow> egress_record" where
  "decided r = r\<lparr>eg_dispatch := NotAttempted\<rparr>"

lemma decided_dispatch [simp]: "decided (r\<lparr>eg_dispatch := d\<rparr>) = decided r"
  by (simp add: decided_def)

lemma ticket_update_decided:
  assumes "\<And>r. decided (f r) = decided r"
  shows "map decided (log_records (ticket_update f ticket log)) = map decided (log_records log)"
    and "log_omitted (ticket_update f ticket log) = log_omitted log"
  using assms
  by (auto simp: ticket_update_def map_update list_update_same_conv split: option.splits)

lemma egress_step_log:
  assumes "map decided (log_records log) = map decided (take MAX_EGRESS_RECORDS rs)"
    and "log_omitted log = length rs - MAX_EGRESS_RECORDS"
  shows "map decided (log_records (egress_step s log)) =
           map decided (take MAX_EGRESS_RECORDS (rs @ noted [s]))
       \<and> log_omitted (egress_step s log) = length (rs @ noted [s]) - MAX_EGRESS_RECORDS"
proof (cases s)
  case (Note r)
  have "length (log_records log) = min MAX_EGRESS_RECORDS (length rs)"
    using arg_cong [OF assms(1), where f = length] by (simp add: min.commute)
  with Note assms show ?thesis
    by (auto simp: note_egress_def min_def split: if_splits)
next
  case (ReportHit t)
  with assms show ?thesis by (simp add: ticket_cache_hit_def ticket_update_decided)
next
  case (ReportAttempt st f t)
  with assms show ?thesis by (simp add: ticket_attempted_def ticket_update_decided)
qed

lemma noted_append [simp]: "noted (xs @ ys) = noted xs @ noted ys"
  by (induction xs rule: noted.induct) auto

lemma egress_log_run:
  "map decided (log_records (fold egress_step steps empty_log)) =
     map decided (take MAX_EGRESS_RECORDS (noted steps))
   \<and> log_omitted (fold egress_step steps empty_log) = length (noted steps) - MAX_EGRESS_RECORDS"
proof (induction steps rule: rev_induct)
  case (snoc s steps)
  then show ?case using egress_step_log [of "fold egress_step steps empty_log" "noted steps" s] by simp
qed (simp add: empty_log_def)

section \<open>Owners\<close>

fun owner_nul_free :: "owner_key \<Rightarrow> bool" where
  "owner_nul_free LocalOwner \<longleftrightarrow> True"
| "owner_nul_free (PrincipalOwner t s) \<longleftrightarrow> CHR 0x00 \<notin> set t \<and> CHR 0x00 \<notin> set s"

lemma owner_frame_inject:
  assumes "owner_nul_free (PrincipalOwner t s)" "owner_nul_free (PrincipalOwner t' s')"
    and "owner_frame (PrincipalOwner t s) @ u = owner_frame (PrincipalOwner t' s') @ u'"
  shows "t = t' \<and> s = s' \<and> u = u'"
proof -
  have "t @ CHR 0x00 # (s @ CHR 0x00 # u) = t' @ CHR 0x00 # (s' @ CHR 0x00 # u')"
    using assms(3) by simp
  from delimited_inject [OF this] assms(1,2)
  have t: "t = t'" and rest: "s @ CHR 0x00 # u = s' @ CHR 0x00 # u'" by simp_all
  from delimited_inject [OF rest] assms(1,2) t show ?thesis by simp
qed

lemma owner_frame_kind: "owner_frame LocalOwner @ u \<noteq> owner_frame (PrincipalOwner t s) @ u'"
  by simp

section \<open>Properties\<close>

text \<open>C27. Whatever order decisions and transport reports come in, the summary an outcome record
  carries accounts for every decision the call made: it is absent only when there was none; the
  first 64 are carried in order, each with the vendor, request, effect and rule it was decided
  with, and the rest are counted.\<close>

theorem egress_summary_accounts_for_every_decision:
  "case fst (take_egress (fold egress_step steps empty_log)) of
     None \<Rightarrow> noted steps = []
   | Some s \<Rightarrow>
       map decided (sum_requests s) = map decided (take MAX_EGRESS_RECORDS (noted steps))
       \<and> length (sum_requests s) \<le> MAX_EGRESS_RECORDS
       \<and> length (sum_requests s) + sum_omitted s = length (noted steps)"
proof -
  let ?log = "fold egress_step steps empty_log"
  note run = egress_log_run [of steps]
  have len: "length (log_records ?log) = min MAX_EGRESS_RECORDS (length (noted steps))"
    using arg_cong [OF conjunct1 [OF run], where f = length] by (simp add: min.commute)
  have pos: "0 < MAX_EGRESS_RECORDS" by (simp add: MAX_EGRESS_RECORDS_def)
  show ?thesis
  proof (cases "log_records ?log \<noteq> [] \<or> 0 < log_omitted ?log")
    case True
    then show ?thesis using run len by (simp add: take_egress_def min_def)
  next
    case False
    with len pos have "noted steps = []" by (auto simp: min_def split: if_splits)
    with False show ?thesis by (simp add: take_egress_def)
  qed
qed

text \<open>The owner framing separates owners: for tenants and subjects without NUL bytes, two
  owners whose framed bytes start a common hash input are the same owner, so a cache partition
  belongs to one owner.\<close>

theorem owner_frame_separates:
  assumes "owner_nul_free o1" "owner_nul_free o2"
    and "owner_frame o1 @ rest1 = owner_frame o2 @ rest2"
  shows "o1 = o2 \<and> rest1 = rest2"
proof (cases o1)
  case LocalOwner
  with assms(3) owner_frame_kind show ?thesis by (cases o2) auto
next
  case (PrincipalOwner t s)
  show ?thesis
  proof (cases o2)
    case LocalOwner
    with PrincipalOwner assms(3) owner_frame_kind [of rest2 t s rest1] show ?thesis by (simp only: not_sym)
  next
    case (PrincipalOwner t' s')
    with \<open>o1 = PrincipalOwner t s\<close> assms owner_frame_inject show ?thesis by blast
  qed
qed

theorem owner_frame_separates_witness:
  "PrincipalOwner ''acme'' ''alice'' = PrincipalOwner ''acme'' ''alice'' \<and> ''x'' = ''x''"
  by (rule owner_frame_separates) simp_all

end
