(* ===== verification/Audit_Sink.thy ===== *)
theory Audit_Sink
  imports Scope
begin

text \<open>
  The audit port, \<^verbatim>\<open>src/ports/audit_sink.rs\<close>, and the bounded append of
  \<^verbatim>\<open>src/policy/egress.rs\<close>. The events are records; a sink is a state with an append
  operation that returns the sequence number of the record or an error. The locale
  \<open>sink_contract\<close> states what the trait promises its callers: an acknowledged record is in
  the log under the number returned, numbers grow, and an error leaves what was recorded alone.
  The in-memory sink is shown to keep it here, the journal in the theory of the journal.
\<close>

section \<open>Events\<close>

datatype audit_event_kind = ToolCallIntent | ToolCallOutcome | EgressDecision

record audit_event =
  ev_timestamp :: string
  ev_kind :: audit_event_kind
  ev_request_id :: string
  ev_tool_name :: string
  ev_vendor :: string
  ev_principal :: principal
  ev_client :: client_identity
  ev_decision :: policy_decision
  ev_upstream :: upstream_identity
  ev_action :: "action_context option"
  ev_outcome :: "string option"
  ev_duration_ms :: "nat option"
  ev_egress :: "egress_summary option"

datatype control_event_kind =
    AdminMutation | AdminProposal | AdminApproval | AdminApplication | AdminRejection
  | PolicyLoaded | PolicyChanged | PolicyRejected
  | RevocationLoaded | RevocationChanged | RevocationRejected | RevokedTokenRejected

record signature_status =
  verified :: bool
  key_id :: "string option"

record proposal_record =
  proposal_id :: string
  candidate_digest :: "string option"
  proposal_expires :: "string option"
  proposal_document :: "string option"
  proposal_signature :: "string option"

record control_event =
  ce_timestamp :: string
  ce_kind :: control_event_kind
  ce_principal :: "principal option"
  ce_source :: "string option"
  ce_previous_version :: "string option"
  ce_version :: "string option"
  ce_signature :: "signature_status option"
  ce_reason :: "string option"
  ce_revoked_subjects :: "nat option"
  ce_revoked_tokens :: "nat option"
  ce_not_before :: "string option"
  ce_proposal :: "proposal_record option"
  ce_applied_seq :: "nat option"

text \<open>\<open>ControlEvent::now\<close>, with the clock reading as an argument.\<close>

definition control_event_now :: "string \<Rightarrow> control_event_kind \<Rightarrow> control_event" where
  "control_event_now timestamp kind =
     \<lparr>ce_timestamp = timestamp, ce_kind = kind, ce_principal = None, ce_source = None,
      ce_previous_version = None, ce_version = None, ce_signature = None, ce_reason = None,
      ce_revoked_subjects = None, ce_revoked_tokens = None, ce_not_before = None,
      ce_proposal = None, ce_applied_seq = None\<rparr>"

definition MAX_REASON :: nat where
  "MAX_REASON = 512"

definition is_char_boundary :: "string \<Rightarrow> nat \<Rightarrow> bool" where
  "is_char_boundary s i \<longleftrightarrow> i = 0 \<or> i = length s \<or> (i < length s \<and> \<not> utf8_cont (s ! i))"

text \<open>The loop \<open>while !text.is_char_boundary(cut) \{ cut -= 1; \}\<close>; zero is a boundary.\<close>

fun cut_back :: "string \<Rightarrow> nat \<Rightarrow> nat" where
  "cut_back text 0 = 0"
| "cut_back text (Suc n) =
     (if is_char_boundary text (Suc n) then Suc n else cut_back text n)"

definition ellipsis :: string where
  "ellipsis = [CHR 0xE2, CHR 0x80, CHR 0xA6]"

definition bounded_reason :: "string \<Rightarrow> string" where
  "bounded_reason reason =
     (if MAX_REASON < length reason
      then take (cut_back reason MAX_REASON) reason @ ellipsis else reason)"

definition with_reason :: "string \<Rightarrow> control_event \<Rightarrow> control_event" where
  "with_reason reason e = e\<lparr>ce_reason := Some (bounded_reason reason)\<rparr>"

section \<open>Failures and the bounded wait\<close>

datatype io_kind =
    InvalidData | InvalidInput | BrokenPipe | NotConnected | TimedOut | FileTooLarge | Interrupted | OtherKind

datatype io_error = IoError (io_error_kind: io_kind) (io_message: string)

datatype audit_failure = Storage | Unavailable | Encoding | Poisoned

definition classify :: "io_error \<Rightarrow> audit_failure" where
  "classify e =
     (case io_error_kind e of
        InvalidData \<Rightarrow> Encoding
      | BrokenPipe \<Rightarrow> Unavailable
      | NotConnected \<Rightarrow> Unavailable
      | _ \<Rightarrow> Storage)"

fun audit_failure_str :: "audit_failure \<Rightarrow> string" where
  "audit_failure_str Storage = ''storage''"
| "audit_failure_str Unavailable = ''unavailable''"
| "audit_failure_str Encoding = ''encoding''"
| "audit_failure_str Poisoned = ''poisoned''"

text \<open>
  \<open>append_bounded\<close> and \<open>append_control_bounded\<close>. Whether the acknowledgement comes
  within the bound is the scheduler's choice: \<open>InTime\<close>, or the wait is abandoned after the
  record entered the sink (\<open>LateQueued\<close>) or before (\<open>LateDropped\<close>).
\<close>

datatype ack = InTime | LateQueued | LateDropped

type_synonym ('s, 'e) append_op = "'s \<Rightarrow> 'e \<Rightarrow> (io_error + nat) \<times> 's"

definition bound_elapsed :: io_error where
  "bound_elapsed = IoError TimedOut ''audit append did not acknowledge within the configured bound''"

definition append_bounded :: "('s, 'e) append_op \<Rightarrow> ack \<Rightarrow> ('s, 'e) append_op" where
  "append_bounded app a sink event =
     (case a of
        InTime \<Rightarrow> app sink event
      | LateQueued \<Rightarrow> (Inl bound_elapsed, snd (app sink event))
      | LateDropped \<Rightarrow> (Inl bound_elapsed, sink))"

section \<open>What a sink promises\<close>

locale sink_contract =
  fixes app :: "('s, 'e) append_op"
    and recorded :: "'s \<Rightarrow> (nat \<times> 'e) set"
    and sink_ok :: "'s \<Rightarrow> bool"
  assumes append_ok: "sink_ok s \<Longrightarrow> sink_ok (snd (app s e))"
    and append_acknowledged:
      "sink_ok s \<Longrightarrow> app s e = (Inr n, s') \<Longrightarrow> (n, e) \<in> recorded s'"
    and append_keeps: "sink_ok s \<Longrightarrow> recorded s \<subseteq> recorded (snd (app s e))"
    and append_fresh:
      "sink_ok s \<Longrightarrow> app s e = (Inr n, s') \<Longrightarrow> (m, e') \<in> recorded s \<Longrightarrow> m < n"
begin

lemma bounded_ok: "sink_ok s \<Longrightarrow> sink_ok (snd (append_bounded app a s e))"
  by (cases a) (auto simp: append_bounded_def append_ok)

lemma bounded_keeps:
  "sink_ok s \<Longrightarrow> recorded s \<subseteq> recorded (snd (append_bounded app a s e))"
  using append_keeps by (cases a) (auto simp: append_bounded_def)

lemma bounded_acknowledged:
  "sink_ok s \<Longrightarrow> append_bounded app a s e = (Inr n, s') \<Longrightarrow> (n, e) \<in> recorded s'"
  using append_acknowledged by (cases a) (auto simp: append_bounded_def)

lemma bounded_fresh:
  "sink_ok s \<Longrightarrow> append_bounded app a s e = (Inr n, s') \<Longrightarrow> (m, e') \<in> recorded s \<Longrightarrow> m < n"
  using append_fresh by (cases a) (auto simp: append_bounded_def)

end

section \<open>The in-memory sink\<close>

record 'e memory_sink =
  mem_next_seq :: nat
  mem_events :: "(nat \<times> 'e) list"
  mem_failing :: bool

text \<open>\<open>InMemoryAuditSink::record\<close>; serialization of the events cannot fail.\<close>

definition memory_append :: "('e memory_sink, 'e) append_op" where
  "memory_append sink event =
     (if mem_failing sink then (Inl (IoError OtherKind ''audit sink is failing (test switch)''), sink)
      else (let seq = mem_next_seq sink + 1 in
            (Inr seq, sink\<lparr>mem_next_seq := seq, mem_events := mem_events sink @ [(seq, event)]\<rparr>)))"

definition memory_available :: "'e memory_sink \<Rightarrow> bool" where
  "memory_available sink \<longleftrightarrow> \<not> mem_failing sink"

definition memory_new :: "'e memory_sink" where
  "memory_new = \<lparr>mem_next_seq = 0, mem_events = [], mem_failing = False\<rparr>"

definition memory_ok :: "'e memory_sink \<Rightarrow> bool" where
  "memory_ok sink \<longleftrightarrow> map fst (mem_events sink) = [1..<mem_next_seq sink + 1]"

lemma memory_ok_new: "memory_ok memory_new"
  by (simp add: memory_ok_def memory_new_def)

lemma memory_seq_bound:
  assumes "memory_ok s" "(m, e) \<in> set (mem_events s)"
  shows "m \<le> mem_next_seq s"
proof -
  have "m \<in> set (map fst (mem_events s))" using assms(2) by force
  with assms(1) show ?thesis by (simp only: memory_ok_def) auto
qed

interpretation memory: sink_contract memory_append "\<lambda>s. set (mem_events s)" memory_ok
proof unfold_locales
  fix s :: "'a memory_sink" and e assume "memory_ok s"
  then show "memory_ok (snd (memory_append s e))"
    by (auto simp: memory_ok_def memory_append_def Let_def)
next
  fix s s' :: "'a memory_sink" and n m e e'
  assume "memory_ok s" "memory_append s e = (Inr n, s')" "(m, e') \<in> set (mem_events s)"
  then show "m < n"
    using memory_seq_bound by (fastforce simp: memory_append_def Let_def split: if_splits)
qed (auto simp: memory_append_def Let_def split: if_splits)

section \<open>Reasons stay readable and bounded\<close>

lemma cut_back_le: "cut_back s n \<le> n"
  by (induction n) auto

lemma cut_back_boundary: "is_char_boundary s (cut_back s n)"
  by (induction n) (auto simp: is_char_boundary_def)

lemma is_char_boundary_suffix:
  "is_char_boundary (xs @ ys) (length xs + n) \<Longrightarrow> is_char_boundary ys n"
  by (auto simp: is_char_boundary_def nth_append)

lemma boundary_past_cont:
  assumes "is_char_boundary (a # bs @ ys) n" "0 < n" "list_all utf8_cont bs"
  shows "\<exists>k. n = Suc (length bs + k) \<and> is_char_boundary ys k"
proof -
  have "\<not> n < Suc (length bs)"
  proof
    assume "n < Suc (length bs)"
    with assms(2) have "(a # bs @ ys) ! n = bs ! (n - 1)" "n - 1 < length bs"
      by (auto simp: nth_Cons nth_append split: nat.splits)
    with assms show False by (auto simp: is_char_boundary_def list_all_length)
  qed
  then obtain k where "n = length (a # bs) + k" by (auto simp: not_less le_iff_add)
  with assms(1) is_char_boundary_suffix [of "a # bs" ys k] show ?thesis by auto
qed

lemma utf8_valid_firstE:
  assumes "utf8_valid s" "s \<noteq> []"
  obtains a bs ys where "s = a # bs @ ys" "list_all utf8_cont bs" "utf8_valid ys"
    "\<And>zs. utf8_valid zs \<Longrightarrow> utf8_valid (a # bs @ zs)"
proof -
  obtain a r where s: "s = a # r" using assms(2) by (cases s) auto
  consider "byte_val a < 128" | "194 \<le> byte_val a" "byte_val a \<le> 223"
    | "224 \<le> byte_val a" "byte_val a \<le> 239" | "240 \<le> byte_val a" "byte_val a \<le> 244"
    using assms(1) by (force simp: s Let_def split: if_splits)
  then show thesis
  proof cases
    case 1
    then show thesis using assms(1) that [of a "[]" r] by (simp add: s Let_def)
  next
    case 2
    then obtain b ys where "r = b # ys" using assms(1) by (auto simp: s Let_def split: list.splits)
    then show thesis using 2 assms(1) that [of a "[b]" ys] by (simp add: s Let_def)
  next
    case 3
    then obtain b c ys where "r = b # c # ys" using assms(1) by (auto simp: s Let_def split: list.splits)
    then show thesis using 3 assms(1) that [of a "[b, c]" ys] by (simp add: s Let_def)
  next
    case 4
    then obtain b c d ys where "r = b # c # d # ys"
      using assms(1) by (auto simp: s Let_def split: list.splits)
    then show thesis using 4 assms(1) that [of a "[b, c, d]" ys] by (simp add: s Let_def)
  qed
qed

lemma utf8_valid_append: "utf8_valid s \<Longrightarrow> utf8_valid t \<Longrightarrow> utf8_valid (s @ t)"
proof (induction s rule: length_induct)
  case (1 s)
  show ?case
  proof (cases "s = []")
    case False
    with "1.prems"(1) obtain a bs ys where "s = a # bs @ ys" "utf8_valid ys"
      "\<And>zs. utf8_valid zs \<Longrightarrow> utf8_valid (a # bs @ zs)"
      by (rule utf8_valid_firstE) auto
    with "1.IH" "1.prems"(2) show ?thesis by auto
  qed (use 1 in simp)
qed

lemma utf8_valid_take:
  assumes "utf8_valid s" "is_char_boundary s n"
  shows "utf8_valid (take n s)"
  using assms
proof (induction s arbitrary: n rule: length_induct)
  case (1 s)
  show ?case
  proof (cases "s = [] \<or> n = 0")
    case False
    then obtain a bs ys where s: "s = a # bs @ ys" and cont: "list_all utf8_cont bs"
      and ys: "utf8_valid ys"
      and add: "\<And>zs. utf8_valid zs \<Longrightarrow> utf8_valid (a # bs @ zs)"
      using utf8_valid_firstE [OF "1.prems"(1)] by blast
    obtain k where k: "n = Suc (length bs + k)" "is_char_boundary ys k"
      using boundary_past_cont [OF "1.prems"(2) [unfolded s]] False cont by auto
    have "utf8_valid (take k ys)" using "1.IH" s ys k by auto
    with add s k show ?thesis by simp
  qed auto
qed

section \<open>Properties\<close>

text \<open>A reason written into a control record is bounded and stays valid text: one of at most
  512 bytes is kept as it is, a longer one is cut at a character boundary, marked with an
  ellipsis, and at most 515 bytes long.\<close>

theorem with_reason_bounded:
  assumes "utf8_valid reason"
  shows "\<exists>t. ce_reason (with_reason reason e) = Some t \<and> utf8_valid t
           \<and> length t \<le> MAX_REASON + 3
           \<and> (if length reason \<le> MAX_REASON then t = reason
              else \<exists>k \<le> MAX_REASON. t = take k reason @ ellipsis)"
proof (cases "length reason \<le> MAX_REASON")
  case True
  with assms show ?thesis by (auto simp: with_reason_def bounded_reason_def)
next
  case False
  let ?k = "cut_back reason MAX_REASON"
  have "utf8_valid ellipsis" by (simp add: ellipsis_def utf8_cont_def)
  with assms have "utf8_valid (take ?k reason @ ellipsis)"
    by (intro utf8_valid_append utf8_valid_take cut_back_boundary)
  with False show ?thesis
    using cut_back_le [of reason MAX_REASON]
    by (auto simp: with_reason_def bounded_reason_def ellipsis_def)
qed

theorem with_reason_bounded_witness:
  "\<exists>t. ce_reason (with_reason ''policy does not parse'' (control_event_now ''t'' PolicyRejected)) = Some t
     \<and> utf8_valid t \<and> length t \<le> MAX_REASON + 3
     \<and> (if length ''policy does not parse'' \<le> MAX_REASON then t = ''policy does not parse''
        else \<exists>k \<le> MAX_REASON. t = take k ''policy does not parse'' @ ellipsis)"
  by (rule with_reason_bounded) (simp add: Let_def)

end
