(* ===== verification/Signing.thy ===== *)
theory Signing
  imports Audit_Sink "HOL-Library.Word"
begin

unbundle bit_operations_syntax

text \<open>
  Detached Ed25519 signatures with domain separation, \<^verbatim>\<open>src/policy/signing.rs\<close>. The
  primitives of the \<^verbatim>\<open>sha2\<close>, \<^verbatim>\<open>base64\<close> and
  \<^verbatim>\<open>aws-lc-rs\<close> crates are the fields of the record \<open>crypto\<close>, an argument of
  the definitions; what the proofs use of them is the predicate \<open>crypto_documented\<close>. A key or
  a signature is its bytes; the file system is a record of the answers of the three calls the code
  makes.
\<close>

section \<open>The code\<close>

record crypto =
  cr_sha256 :: "string \<Rightarrow> string"
  cr_base64_decode :: "string \<Rightarrow> string option"
  cr_base64_encode :: "string \<Rightarrow> string"
  cr_public :: "string \<Rightarrow> string"
  cr_sign :: "string \<Rightarrow> string \<Rightarrow> string"
  cr_verify :: "string \<Rightarrow> string \<Rightarrow> string \<Rightarrow> bool"

record file_system =
  fs_len :: "string \<Rightarrow> string + nat"
  fs_read :: "string \<Rightarrow> string + string"
  fs_read_to_string :: "string \<Rightarrow> string + string"

definition SIGNATURE_SUFFIX :: string where
  "SIGNATURE_SUFFIX = ''.sig''"

definition PUBLIC_KEY_LEN :: nat where
  "PUBLIC_KEY_LEN = 32"

definition SIGNATURE_LEN :: nat where
  "SIGNATURE_LEN = 64"

definition MAX_SIGNATURE_FILE_BYTES :: nat where
  "MAX_SIGNATURE_FILE_BYTES = 256"

datatype domain = PolicyBundle | RevocationList | AuditCheckpoint

fun domain_label :: "domain \<Rightarrow> string" where
  "domain_label PolicyBundle = ''mcp-devtools/policy-bundle/v1'' @ [CHR 0x0A]"
| "domain_label RevocationList = ''mcp-devtools/revocation-list/v1'' @ [CHR 0x0A]"
| "domain_label AuditCheckpoint = ''mcp-devtools/audit-checkpoint/v1'' @ [CHR 0x0A]"

definition framed :: "domain \<Rightarrow> string \<Rightarrow> string" where
  "framed d message = domain_label d @ message"

definition sign :: "crypto \<Rightarrow> string \<Rightarrow> domain \<Rightarrow> string \<Rightarrow> string" where
  "sign cr pair d message = cr_sign cr pair (framed d message)"

definition verifying_key :: "crypto \<Rightarrow> string \<Rightarrow> string" where
  "verifying_key cr pair = cr_public cr pair"

definition verifying_key_from_base64 :: "crypto \<Rightarrow> string \<Rightarrow> string + string" where
  "verifying_key_from_base64 cr text =
     (case cr_base64_decode cr (trim text) of
        None \<Rightarrow> Inl ''public key is not base64''
      | Some bytes \<Rightarrow>
          if length bytes = PUBLIC_KEY_LEN then Inr bytes
          else Inl ''public key must be 32 bytes of raw Ed25519 key material'')"

definition verifying_key_id :: "crypto \<Rightarrow> string \<Rightarrow> string" where
  "verifying_key_id cr key = ''ed25519:'' @ hex_string (take 8 (cr_sha256 cr key))"

definition verify :: "crypto \<Rightarrow> string \<Rightarrow> domain \<Rightarrow> string \<Rightarrow> string \<Rightarrow> string + unit" where
  "verify cr key d message signature =
     (if cr_verify cr key (framed d message) signature then Inr () else Inl ''signature does not verify'')"

definition signature_from_base64 :: "crypto \<Rightarrow> string \<Rightarrow> string + string" where
  "signature_from_base64 cr text =
     (case cr_base64_decode cr (trim text) of
        None \<Rightarrow> Inl ''signature is not base64''
      | Some bytes \<Rightarrow>
          if length bytes = SIGNATURE_LEN then Inr bytes else Inl ''signature must be 64 bytes'')"

definition detached_signature_path :: "string \<Rightarrow> string" where
  "detached_signature_path file = file @ SIGNATURE_SUFFIX"

definition read_detached :: "crypto \<Rightarrow> file_system \<Rightarrow> string \<Rightarrow> string + string" where
  "read_detached cr fs file =
     (let path = detached_signature_path file;
          cannot = (\<lambda>error. ''cannot read signature '' @ path @ '': '' @ error)
      in and_then (map_err cannot (fs_len fs path)) (\<lambda>len.
         if MAX_SIGNATURE_FILE_BYTES < len
         then Inl (''signature file '' @ path @ '' is too large to be a signature'')
         else and_then (map_err cannot (fs_read_to_string fs path)) (\<lambda>text.
           map_err (\<lambda>error. ''signature file '' @ path @ '': '' @ error)
             (signature_from_base64 cr text))))"

text \<open>The text \<open>write_detached\<close> puts into the sidecar.\<close>

definition detached_text :: "crypto \<Rightarrow> string \<Rightarrow> string" where
  "detached_text cr signature = cr_base64_encode cr signature @ [CHR 0x0A]"

text \<open>The permission check of \<open>SigningKey::load\<close>: \<open>0o640\<close> is 416, \<open>0o777\<close> is 511.\<close>

definition KEY_FILE_ALLOWED_MODE :: "32 word" where
  "KEY_FILE_ALLOWED_MODE = 416"

definition key_mode_accepted :: "32 word \<Rightarrow> bool" where
  "key_mode_accepted permissions \<longleftrightarrow> (permissions AND 511) AND NOT KEY_FILE_ALLOWED_MODE = 0"

section \<open>What the primitives document\<close>

text \<open>Signing then verifying succeeds, with the sizes of Ed25519 and SHA-256, and base64 decodes
  what it encoded; the encoded text is printable ASCII without spaces.\<close>

definition crypto_documented :: "crypto \<Rightarrow> bool" where
  "crypto_documented cr \<longleftrightarrow>
     (\<forall>pair m. cr_verify cr (cr_public cr pair) m (cr_sign cr pair m))
     \<and> (\<forall>pair m. length (cr_sign cr pair m) = SIGNATURE_LEN)
     \<and> (\<forall>pair. length (cr_public cr pair) = PUBLIC_KEY_LEN)
     \<and> (\<forall>m. length (cr_sha256 cr m) = 32)
     \<and> (\<forall>b. cr_base64_decode cr (cr_base64_encode cr b) = Some b)
     \<and> (\<forall>b. list_all is_ascii_graphic (cr_base64_encode cr b))"

lemma verify_sign: "crypto_documented cr \<Longrightarrow> verify cr (verifying_key cr pair) d m (sign cr pair d m) = Inr ()"
  by (simp add: crypto_documented_def verify_def verifying_key_def sign_def)

lemma framed_inject [simp]: "framed d m = framed d' m' \<longleftrightarrow> d = d' \<and> m = m'"
  by (cases d; cases d') (simp_all add: framed_def)

section \<open>Key files\<close>

lemma bit_mask_95: "bit (95 :: 32 word) n \<longleftrightarrow> n \<in> {0, 1, 2, 3, 4, 6}"
proof (cases "n < 8")
  case True
  then have "n \<in> {0, 1, 2, 3, 4, 5, 6, 7}" by auto
  then show ?thesis by (elim insertE) simp_all
next
  case False
  then obtain k where "n = 8 + k" using le_Suc_ex not_less by blast
  moreover have "drop_bit (8 + k) (95 :: 32 word) = drop_bit k (drop_bit 8 95)"
    by (simp only: drop_bit_drop_bit add.commute)
  then have "\<not> bit (95 :: 32 word) (8 + k)" by (simp add: bit_iff_odd_drop_bit)
  ultimately show ?thesis by auto
qed

lemma key_mode_mask: "key_mode_accepted m \<longleftrightarrow> m AND 95 = 0"
  by (simp add: key_mode_accepted_def KEY_FILE_ALLOWED_MODE_def ac_simps)

section \<open>Properties\<close>

text \<open>A signature written to its sidecar file is read back and verifies under the domain it
  was made for, and under no other use: the bytes the primitive is asked about determine both the
  domain and the message, so a policy signature is never one over a revocation list or a
  checkpoint of the same bytes.\<close>

theorem detached_signature_roundtrip:
  assumes "crypto_documented cr"
    and "fs_len fs (detached_signature_path file) = Inr n" "n \<le> MAX_SIGNATURE_FILE_BYTES"
    and "fs_read_to_string fs (detached_signature_path file) =
           Inr (detached_text cr (sign cr pair d message))"
  shows "read_detached cr fs file = Inr (sign cr pair d message)
    \<and> verify cr (verifying_key cr pair) d message (sign cr pair d message) = Inr ()
    \<and> inj (case_prod framed)"
proof -
  let ?sig = "sign cr pair d message"
  have "signature_from_base64 cr (detached_text cr ?sig) = Inr ?sig"
    using assms(1) trim_line
    by (simp add: signature_from_base64_def detached_text_def crypto_documented_def sign_def)
  with assms show ?thesis by (auto simp: read_detached_def verify_sign intro: injI)
qed

text \<open>A concrete instance of the primitives: hexadecimal for base64, a padding for the digest and
  for the signature.\<close>

definition pad_to :: "nat \<Rightarrow> string \<Rightarrow> string" where
  "pad_to n m = take n (m @ replicate n CHR 0x00)"

definition sample_crypto :: crypto where
  "sample_crypto =
     \<lparr>cr_sha256 = pad_to 32, cr_base64_decode = unhex, cr_base64_encode = hex_string,
      cr_public = pad_to 32, cr_sign = (\<lambda>_. pad_to 64), cr_verify = (\<lambda>_ m s. s = pad_to 64 m)\<rparr>"

lemma length_pad_to [simp]: "length (pad_to n m) = n"
  by (simp add: pad_to_def)

lemma sample_crypto_documented: "crypto_documented sample_crypto"
  by (simp add: crypto_documented_def sample_crypto_def SIGNATURE_LEN_def PUBLIC_KEY_LEN_def
      hex_string_graphic)

definition sample_fs :: "string \<Rightarrow> file_system" where
  "sample_fs text = \<lparr>fs_len = (\<lambda>_. Inr (length text)), fs_read = (\<lambda>_. Inr text),
     fs_read_to_string = (\<lambda>_. Inr text)\<rparr>"

theorem detached_signature_roundtrip_witness:
  "let fs = sample_fs (detached_text sample_crypto (sign sample_crypto ''k'' PolicyBundle ''version: 1'')) in
   read_detached sample_crypto fs ''policy.yaml'' = Inr (sign sample_crypto ''k'' PolicyBundle ''version: 1'')
   \<and> verify sample_crypto (verifying_key sample_crypto ''k'') PolicyBundle ''version: 1''
       (sign sample_crypto ''k'' PolicyBundle ''version: 1'') = Inr ()
   \<and> inj (case_prod framed)"
  unfolding Let_def
  by (rule detached_signature_roundtrip [where n = 129])
     (rule sample_crypto_documented, simp_all add: sample_fs_def detached_text_def sample_crypto_def
       sign_def MAX_SIGNATURE_FILE_BYTES_def)

text \<open>A private key file is accepted exactly when nobody but the owner and, for reading, the
  group has any permission on it: no bit for others, no group write or execute, no owner
  execute.\<close>

theorem key_mode_accepted_iff:
  "key_mode_accepted mode \<longleftrightarrow> {i. i < 9 \<and> bit mode i} \<subseteq> {5, 7, 8}"
proof -
  have "key_mode_accepted mode \<longleftrightarrow> (\<forall>i. \<not> (bit mode i \<and> i \<in> {0, 1, 2, 3, 4, 6}))"
    unfolding key_mode_mask bit_eq_iff [of "mode AND 95" 0] bit_and_iff bit_mask_95
    using bit_imp_le_length [of mode] by auto
  also have "\<dots> \<longleftrightarrow> {i. i < 9 \<and> bit mode i} \<subseteq> {5, 7, 8}"
  proof
    assume clear: "\<forall>i. \<not> (bit mode i \<and> i \<in> {0, 1, 2, 3, 4, 6})"
    have "i \<in> {5, 7, 8}" if "i < 9" "bit mode i" for i
    proof -
      from that(1) have "i \<in> {0, 1, 2, 3, 4, 6} \<union> {5, 7, 8}" by auto
      with that(2) clear show ?thesis by blast
    qed
    then show "{i. i < 9 \<and> bit mode i} \<subseteq> {5, 7, 8}" by blast
  next
    assume only: "{i. i < 9 \<and> bit mode i} \<subseteq> {5, 7, 8}"
    show "\<forall>i. \<not> (bit mode i \<and> i \<in> {0, 1, 2, 3, 4, 6})"
    proof (intro allI notI)
      fix i :: nat assume i: "bit mode i \<and> i \<in> {0, 1, 2, 3, 4, 6}"
      then have "i < 9" "i \<notin> {5, 7, 8}" by auto
      with i only show False by blast
    qed
  qed
  finally show ?thesis .
qed

end
