(* ===== verification/Bundle.thy ===== *)
theory Bundle
  imports Signing
begin

text \<open>
  Signed documents that reload while the process runs, \<^verbatim>\<open>src/policy/bundle.rs\<close>. The
  trait \<open>BundleDocument\<close> is the record \<open>bundle_document\<close> of its constants and methods, an
  argument of every operation of \<open>SignedBundle\<close>; the fields behind locks are the fields of the
  record \<open>signed_bundle\<close>, and the \<open>mutation\<close> lock makes one \<open>tick\<close> one step. The
  audit sink is a state with an append operation, so a tick returns the sink, the bundle and the
  arguments of the change hook if it ran. The locale \<open>bundle_kind\<close> states what a document
  type owes the machinery, and \<open>audited_bundle\<close> joins it with the sink contract.
\<close>

section \<open>The code\<close>

definition MAX_DOCUMENT_BYTES :: nat where
  "MAX_DOCUMENT_BYTES = 4 * 1024 * 1024"

definition digest_label :: "crypto \<Rightarrow> string \<Rightarrow> string" where
  "digest_label cr bytes = ''sha256:'' @ hex_string (take 8 (cr_sha256 cr bytes))"

definition version_label :: "crypto \<Rightarrow> nat \<Rightarrow> string \<Rightarrow> string" where
  "version_label cr version bytes = ''v'' @ dec_string version @ ''+'' @ digest_label cr bytes"

record 'd bundle_document =
  doc_domain :: domain
  doc_noun :: string
  doc_loaded_kind :: control_event_kind
  doc_changed_kind :: control_event_kind
  doc_rejected_kind :: control_event_kind
  doc_compile :: "string \<Rightarrow> string + 'd"
  doc_version :: "'d \<Rightarrow> string"
  doc_describe :: "'d \<Rightarrow> control_event \<Rightarrow> control_event"

record 'd loaded =
  loaded_document :: 'd
  loaded_signature :: "signature_status option"

record 'd staged =
  staged_loaded :: "'d loaded"
  staged_bytes :: string

record bundle_change =
  change_previous_version :: string
  change_version :: string
  change_signature :: "signature_status option"

record rejection =
  rej_digest :: "string option"
  rej_reason :: string

record 'd signed_bundle =
  bundle_path :: string
  bundle_verifier :: "string option"
  bundle_current :: "'d loaded"
  bundle_loaded_bytes :: string
  bundle_reload_error :: "string option"
  bundle_journaled_rejection :: "rejection option"

definition in_document :: "'d bundle_document \<Rightarrow> string \<Rightarrow> string \<Rightarrow> string" where
  "in_document doc path error = doc_noun doc @ '' '' @ path @ '': '' @ error"

definition read_bytes :: "'d bundle_document \<Rightarrow> file_system \<Rightarrow> string \<Rightarrow> string + string" where
  "read_bytes doc fs path =
     and_then
       (map_err (\<lambda>error. ''cannot read '' @ in_document doc path error) (fs_read fs path))
       (\<lambda>bytes. if MAX_DOCUMENT_BYTES < length bytes
                then Inl (doc_noun doc @ '' '' @ path @ '' is too large'') else Inr bytes)"

definition verified_by :: "crypto \<Rightarrow> string \<Rightarrow> signature_status" where
  "verified_by cr verifier = \<lparr>verified = True, key_id = Some (verifying_key_id cr verifier)\<rparr>"

definition verify_bytes ::
  "crypto \<Rightarrow> 'd bundle_document \<Rightarrow> file_system \<Rightarrow> string \<Rightarrow> string \<Rightarrow> string option
     \<Rightarrow> string + signature_status option" where
  "verify_bytes cr doc fs path bytes verifier =
     (case verifier of
        None \<Rightarrow> Inr None
      | Some k \<Rightarrow>
          and_then (map_err (in_document doc path) (read_detached cr fs path)) (\<lambda>signature.
          and_then
            (map_err (\<lambda>error. in_document doc path error @ '' (key '' @ verifying_key_id cr k @ '')'')
              (verify cr k (doc_domain doc) bytes signature)) (\<lambda>_.
          Inr (Some (verified_by cr k)))))"

definition read_document ::
  "crypto \<Rightarrow> 'd bundle_document \<Rightarrow> file_system \<Rightarrow> string \<Rightarrow> string option
     \<Rightarrow> string + (string \<times> signature_status option)" where
  "read_document cr doc fs path verifier =
     and_then (read_bytes doc fs path) (\<lambda>bytes.
     and_then (verify_bytes cr doc fs path bytes verifier) (\<lambda>signature.
     Inr (bytes, signature)))"

definition new_bundle ::
  "string \<Rightarrow> string option \<Rightarrow> 'd \<Rightarrow> signature_status option \<Rightarrow> string \<Rightarrow> 'd signed_bundle" where
  "new_bundle path verifier document signature bytes =
     \<lparr>bundle_path = path, bundle_verifier = verifier,
      bundle_current = \<lparr>loaded_document = document, loaded_signature = signature\<rparr>,
      bundle_loaded_bytes = bytes, bundle_reload_error = None, bundle_journaled_rejection = None\<rparr>"

definition load_with ::
  "crypto \<Rightarrow> 'd bundle_document \<Rightarrow> file_system \<Rightarrow> string \<Rightarrow> string option
     \<Rightarrow> string + 'd signed_bundle" where
  "load_with cr doc fs path verifier =
     and_then (read_document cr doc fs path verifier) (\<lambda>(bytes, signature).
     and_then (map_err (in_document doc path) (doc_compile doc bytes)) (\<lambda>document.
     Inr (new_bundle path verifier document signature bytes)))"

definition from_bytes :: "'d bundle_document \<Rightarrow> string \<Rightarrow> string + 'd signed_bundle" where
  "from_bytes doc bytes =
     (if MAX_DOCUMENT_BYTES < length bytes then Inl (doc_noun doc @ '' document is too large'')
      else and_then (doc_compile doc bytes) (\<lambda>document.
        Inr (new_bundle '''' None document None bytes)))"

text \<open>\<open>stage_candidate\<close> takes an uploaded document and the text of its signature.\<close>

definition stage_candidate ::
  "crypto \<Rightarrow> 'd bundle_document \<Rightarrow> 'd signed_bundle \<Rightarrow> string \<Rightarrow> string \<Rightarrow> string + 'd staged" where
  "stage_candidate cr doc b bytes signature =
     (if MAX_DOCUMENT_BYTES < length bytes then Inl ''document too large''
      else and_then (doc_compile doc bytes) (\<lambda>document.
        and_then (ok_or ''signed bundle required'' (bundle_verifier b)) (\<lambda>verifier.
        and_then (map_err (\<lambda>_. ''invalid signature'') (signature_from_base64 cr signature)) (\<lambda>sig.
        and_then (map_err (\<lambda>_. ''invalid signature'') (verify cr verifier (doc_domain doc) bytes sig)) (\<lambda>_.
        Inr \<lparr>staged_loaded = \<lparr>loaded_document = document,
                              loaded_signature = Some (verified_by cr verifier)\<rparr>,
             staged_bytes = bytes\<rparr>)))))"

definition bundle_version :: "'d bundle_document \<Rightarrow> 'd signed_bundle \<Rightarrow> string" where
  "bundle_version doc b = doc_version doc (loaded_document (bundle_current b))"

definition degraded :: "'d signed_bundle \<Rightarrow> string option" where
  "degraded b = bundle_reload_error b"

definition requires_signature :: "'d signed_bundle \<Rightarrow> bool" where
  "requires_signature b \<longleftrightarrow> bundle_verifier b \<noteq> None"

definition stage_inner ::
  "crypto \<Rightarrow> 'd bundle_document \<Rightarrow> file_system \<Rightarrow> 'd signed_bundle
     \<Rightarrow> (string + 'd staged option) \<times> string option" where
  "stage_inner cr doc fs b =
     (case read_bytes doc fs (bundle_path b) of
        Inl e \<Rightarrow> (Inl e, None)
      | Inr bytes \<Rightarrow>
          (and_then (verify_bytes cr doc fs (bundle_path b) bytes (bundle_verifier b)) (\<lambda>signature.
             if bundle_loaded_bytes b = bytes then Inr None
             else and_then (map_err (in_document doc (bundle_path b)) (doc_compile doc bytes))
               (\<lambda>document. Inr (Some
                  \<lparr>staged_loaded = \<lparr>loaded_document = document, loaded_signature = signature\<rparr>,
                   staged_bytes = bytes\<rparr>))),
           Some (digest_label cr bytes)))"

definition note_reload :: "string + 'd staged option \<Rightarrow> 'd signed_bundle \<Rightarrow> 'd signed_bundle" where
  "note_reload outcome b =
     b\<lparr>bundle_reload_error := (case outcome of Inl e \<Rightarrow> Some e | Inr _ \<Rightarrow> None)\<rparr>"

definition note_failure :: "string \<Rightarrow> 'd signed_bundle \<Rightarrow> 'd signed_bundle" where
  "note_failure reason b = b\<lparr>bundle_reload_error := Some reason\<rparr>"

definition stage_with_digest ::
  "crypto \<Rightarrow> 'd bundle_document \<Rightarrow> file_system \<Rightarrow> 'd signed_bundle
     \<Rightarrow> (string + 'd staged option) \<times> string option \<times> 'd signed_bundle" where
  "stage_with_digest cr doc fs b =
     (case stage_inner cr doc fs b of (outcome, digest) \<Rightarrow> (outcome, digest, note_reload outcome b))"

definition commit ::
  "'d bundle_document \<Rightarrow> 'd staged \<Rightarrow> 'd signed_bundle
     \<Rightarrow> (bundle_change \<times> 'd loaded) \<times> 'd signed_bundle" where
  "commit doc st b =
     (let previous = bundle_current b; now = staged_loaded st in
      ((\<lparr>change_previous_version = doc_version doc (loaded_document previous),
         change_version = doc_version doc (loaded_document now),
         change_signature = loaded_signature now\<rparr>, previous),
       b\<lparr>bundle_current := now, bundle_loaded_bytes := staged_bytes st,
         bundle_journaled_rejection := None\<rparr>))"

definition reload ::
  "crypto \<Rightarrow> 'd bundle_document \<Rightarrow> file_system \<Rightarrow> 'd signed_bundle
     \<Rightarrow> (string + bool) \<times> 'd signed_bundle" where
  "reload cr doc fs b =
     (case stage_with_digest cr doc fs b of
        (Inl e, _, b') \<Rightarrow> (Inl e, b')
      | (Inr None, _, b') \<Rightarrow> (Inr False, b')
      | (Inr (Some st), _, b') \<Rightarrow> (Inr True, snd (commit doc st b')))"

text \<open>The three records of a document's life: loaded, changed, rejected.\<close>

definition loaded_event :: "'d bundle_document \<Rightarrow> string \<Rightarrow> 'd signed_bundle \<Rightarrow> control_event" where
  "loaded_event doc now b =
     doc_describe doc (loaded_document (bundle_current b))
       ((control_event_now now (doc_loaded_kind doc))
          \<lparr>ce_source := Some (bundle_path b), ce_version := Some (bundle_version doc b),
           ce_signature := loaded_signature (bundle_current b)\<rparr>)"

definition changed_event ::
  "'d bundle_document \<Rightarrow> string \<Rightarrow> 'd staged \<Rightarrow> 'd signed_bundle \<Rightarrow> control_event" where
  "changed_event doc now st b =
     doc_describe doc (loaded_document (staged_loaded st))
       ((control_event_now now (doc_changed_kind doc))
          \<lparr>ce_source := Some (bundle_path b), ce_previous_version := Some (bundle_version doc b),
           ce_version := Some (doc_version doc (loaded_document (staged_loaded st))),
           ce_signature := loaded_signature (staged_loaded st)\<rparr>)"

definition rejected_event ::
  "'d bundle_document \<Rightarrow> string \<Rightarrow> rejection \<Rightarrow> 'd signed_bundle \<Rightarrow> control_event" where
  "rejected_event doc now rej b =
     (with_reason (rej_reason rej) (control_event_now now (doc_rejected_kind doc)))
       \<lparr>ce_source := Some (bundle_path b), ce_previous_version := Some (bundle_version doc b),
        ce_version := rej_digest rej\<rparr>"

definition journal_in_force ::
  "'d bundle_document \<Rightarrow> string \<Rightarrow> ('s, control_event) append_op \<Rightarrow> 's \<Rightarrow> 'd signed_bundle
     \<Rightarrow> (io_error + nat) \<times> 's" where
  "journal_in_force doc now app sink b = app sink (loaded_event doc now b)"

text \<open>One poll of the file. A panic inside the blocking reload task, which the code logs as
  \<open>reload task failed\<close> and otherwise ignores, has no counterpart: staging is a total function here.\<close>

definition tick ::
  "crypto \<Rightarrow> 'd bundle_document \<Rightarrow> file_system \<Rightarrow> string \<Rightarrow> ('s, control_event) append_op option
     \<Rightarrow> 's \<Rightarrow> 'd signed_bundle \<Rightarrow> 's \<times> 'd signed_bundle \<times> ('d loaded \<times> 'd loaded) option" where
  "tick cr doc fs now audit sink b0 =
     (case stage_with_digest cr doc fs b0 of
        (Inr None, _, b) \<Rightarrow> (sink, b, None)
      | (Inr (Some st), _, b) \<Rightarrow>
          (case audit of
             None \<Rightarrow>
               (case commit doc st b of ((_, previous), b') \<Rightarrow>
                  (sink, b', Some (previous, bundle_current b')))
           | Some app \<Rightarrow>
               (case app sink (changed_event doc now st b) of
                  (Inl _, sink') \<Rightarrow>
                    (sink', note_failure (doc_noun doc @ '' change could not be journaled; last good ''
                              @ doc_noun doc @ '' in force'') b, None)
                | (Inr _, sink') \<Rightarrow>
                    (case commit doc st b of ((_, previous), b') \<Rightarrow>
                       (sink', b', Some (previous, bundle_current b')))))
      | (Inl error, digest, b) \<Rightarrow>
          (case audit of
             None \<Rightarrow> (sink, b, None)
           | Some app \<Rightarrow>
               (let rej = \<lparr>rej_digest = digest, rej_reason = error\<rparr> in
                if bundle_journaled_rejection b = Some rej then (sink, b, None)
                else (case app sink (rejected_event doc now rej b) of
                        (Inr _, sink') \<Rightarrow> (sink', b\<lparr>bundle_journaled_rejection := Some rej\<rparr>, None)
                      | (Inl _, sink') \<Rightarrow> (sink', b, None)))))"

section \<open>What is in force is verified and compiled\<close>

definition authentic :: "crypto \<Rightarrow> 'd bundle_document \<Rightarrow> string option \<Rightarrow> string \<Rightarrow> 'd loaded \<Rightarrow> bool" where
  "authentic cr doc verifier bytes l \<longleftrightarrow>
     doc_compile doc bytes = Inr (loaded_document l)
     \<and> (case verifier of
          None \<Rightarrow> loaded_signature l = None
        | Some k \<Rightarrow> loaded_signature l = Some (verified_by cr k)
            \<and> (\<exists>signature. verify cr k (doc_domain doc) bytes signature = Inr ()))"

definition bundle_ok :: "crypto \<Rightarrow> 'd bundle_document \<Rightarrow> 'd signed_bundle \<Rightarrow> bool" where
  "bundle_ok cr doc b \<longleftrightarrow>
     authentic cr doc (bundle_verifier b) (bundle_loaded_bytes b) (bundle_current b)"

lemma read_bytes_Inr:
  "read_bytes doc fs path = Inr bytes \<longleftrightarrow> fs_read fs path = Inr bytes \<and> length bytes \<le> MAX_DOCUMENT_BYTES"
  by (cases "fs_read fs path") (auto simp: read_bytes_def)

lemma verify_bytes_Inr:
  "verify_bytes cr doc fs path bytes verifier = Inr signature \<Longrightarrow> doc_compile doc bytes = Inr d \<Longrightarrow>
     authentic cr doc verifier bytes \<lparr>loaded_document = d, loaded_signature = signature\<rparr>"
  by (auto simp: verify_bytes_def authentic_def result_simps split: option.splits)

lemma load_with_ok: "load_with cr doc fs path verifier = Inr b \<Longrightarrow> bundle_ok cr doc b"
  by (auto simp: load_with_def read_document_def result_simps bundle_ok_def new_bundle_def
      verify_bytes_Inr)

lemma from_bytes_ok: "from_bytes doc bytes = Inr b \<Longrightarrow> bundle_ok cr doc b"
  by (auto simp: from_bytes_def result_simps bundle_ok_def new_bundle_def authentic_def
      split: if_splits)

lemma stage_candidate_ok:
  "stage_candidate cr doc b bytes signature = Inr st \<Longrightarrow>
     authentic cr doc (bundle_verifier b) (staged_bytes st) (staged_loaded st) \<and> bundle_verifier b \<noteq> None"
  by (cases "bundle_verifier b")
     (auto simp: stage_candidate_def result_simps authentic_def split: if_splits)

lemma stage_inner_Some:
  assumes "stage_inner cr doc fs b = (Inr (Some st), digest)"
  shows "authentic cr doc (bundle_verifier b) (staged_bytes st) (staged_loaded st)"
    and "fs_read fs (bundle_path b) = Inr (staged_bytes st)"
    and "staged_bytes st \<noteq> bundle_loaded_bytes b"
  using assms
  by (auto simp: stage_inner_def result_simps read_bytes_Inr verify_bytes_Inr split: sum.splits if_splits)

lemma commit_simps [simp]:
  "bundle_current (snd (commit doc st b)) = staged_loaded st"
  "bundle_loaded_bytes (snd (commit doc st b)) = staged_bytes st"
  "bundle_verifier (snd (commit doc st b)) = bundle_verifier b"
  "bundle_path (snd (commit doc st b)) = bundle_path b"
  "bundle_reload_error (snd (commit doc st b)) = bundle_reload_error b"
  "bundle_journaled_rejection (snd (commit doc st b)) = None"
  by (simp_all add: commit_def Let_def)

lemma note_reload_simps [simp]:
  "bundle_current (note_reload r b) = bundle_current b"
  "bundle_loaded_bytes (note_reload r b) = bundle_loaded_bytes b"
  "bundle_verifier (note_reload r b) = bundle_verifier b"
  "bundle_path (note_reload r b) = bundle_path b"
  "bundle_journaled_rejection (note_reload r b) = bundle_journaled_rejection b"
  "bundle_ok cr doc (note_reload r b) = bundle_ok cr doc b"
  "bundle_reload_error (note_reload (Inl e) b) = Some e"
  "bundle_reload_error (note_reload (Inr x) b) = None"
  by (simp_all add: note_reload_def bundle_ok_def)

lemma commit_ok:
  "authentic cr doc (bundle_verifier b) (staged_bytes st) (staged_loaded st) \<Longrightarrow>
     bundle_ok cr doc (snd (commit doc st b))"
  by (simp add: bundle_ok_def)

text \<open>A tick does one of three things: it leaves the document alone, it commits without an audit
  sink, or it commits after the sink acknowledged the record of the change.\<close>

lemma tick_cases:
  assumes "tick cr doc fs now audit sink b = (sink', b', hook)"
  obtains
    (kept) "bundle_current b' = bundle_current b" "bundle_loaded_bytes b' = bundle_loaded_bytes b"
      "hook = None"
  | (unaudited) st digest where "audit = None" "stage_inner cr doc fs b = (Inr (Some st), digest)"
      "b' = snd (commit doc st (note_reload (Inr (Some st)) b))"
      "hook = Some (bundle_current b, bundle_current b')"
  | (journaled) st digest app n where "audit = Some app"
      "stage_inner cr doc fs b = (Inr (Some st), digest)"
      "app sink (changed_event doc now st (note_reload (Inr (Some st)) b))
         = (Inr n, sink')"
      "b' = snd (commit doc st (note_reload (Inr (Some st)) b))"
      "hook = Some (bundle_current b, bundle_current b')"
proof (cases "stage_inner cr doc fs b")
  case (Pair outcome digest)
  show thesis
  proof (cases outcome)
    case (Inl e)
    with Pair assms that(1) show thesis
      by (auto simp: tick_def stage_with_digest_def Let_def split: option.splits if_splits prod.splits sum.splits)
  next
    case (Inr o')
    show thesis
    proof (cases o')
      case None
      with Pair Inr assms that(1) show thesis by (auto simp: tick_def stage_with_digest_def)
    next
      case (Some st)
      with Pair Inr assms that show thesis
        by (auto simp: tick_def stage_with_digest_def note_failure_def commit_def Let_def
            split: option.splits prod.splits sum.splits)
    qed
  qed
qed

lemma tick_ok:
  assumes "tick cr doc fs now audit sink b = (sink', b', hook)" "bundle_ok cr doc b"
  shows "bundle_ok cr doc b'"
proof -
  have keeps: "bundle_verifier b' = bundle_verifier b"
    using assms(1)
    by (auto simp: tick_def stage_with_digest_def note_failure_def commit_def Let_def
        split: prod.splits sum.splits option.splits if_splits)
  from assms(1) show ?thesis
  proof (cases rule: tick_cases)
    case kept
    with assms(2) keeps show ?thesis by (simp add: bundle_ok_def)
  next
    case (unaudited st digest)
    then show ?thesis using stage_inner_Some(1) [OF unaudited(2)] by (simp add: commit_ok)
  next
    case (journaled st digest app n)
    then show ?thesis using stage_inner_Some(1) [OF journaled(2)] by (simp add: commit_ok)
  qed
qed

section \<open>Watching a file\<close>

text \<open>One poll of the watcher over an audited bundle: the file system, the clock and the outcome of
  the wait for the acknowledgement are free.\<close>

inductive watch ::
  "crypto \<Rightarrow> 'd bundle_document \<Rightarrow> ('s, control_event) append_op
     \<Rightarrow> 's \<times> 'd signed_bundle \<Rightarrow> 's \<times> 'd signed_bundle \<Rightarrow> bool"
  for cr doc app where
  watch_tick: "tick cr doc fs now (Some (append_bounded app a)) s b = (s', b', hook) \<Longrightarrow>
     watch cr doc app (s, b) (s', b')"

inductive_cases watchE: "watch cr doc app (s, b) (s', b')"

definition change_recorded ::
  "'d bundle_document \<Rightarrow> (nat \<times> control_event) set \<Rightarrow> 'd loaded \<Rightarrow> bool" where
  "change_recorded doc rs l \<longleftrightarrow>
     (\<exists>(n, e) \<in> rs. ce_kind e = doc_changed_kind doc
        \<and> ce_version e = Some (doc_version doc (loaded_document l))
        \<and> ce_signature e = loaded_signature l)"

lemma change_recorded_mono:
  "change_recorded doc rs l \<Longrightarrow> rs \<subseteq> rs' \<Longrightarrow> change_recorded doc rs' l"
  by (auto simp: change_recorded_def)

text \<open>What a document type owes the machinery: its version label carries the digest of the bytes it
  was compiled from, and its own fields of a control record do not touch those that identify the
  change.\<close>

locale bundle_kind =
  fixes cr :: crypto and doc :: "'d bundle_document"
  assumes compile_version: "doc_compile doc bytes = Inr d \<Longrightarrow> \<exists>n. doc_version doc d = version_label cr n bytes"
    and describe_keeps:
      "ce_kind (doc_describe doc d e) = ce_kind e"
      "ce_version (doc_describe doc d e) = ce_version e"
      "ce_previous_version (doc_describe doc d e) = ce_previous_version e"
      "ce_signature (doc_describe doc d e) = ce_signature e"
begin

lemma version_names_bytes:
  "bundle_ok cr doc b \<Longrightarrow> \<exists>n. bundle_version doc b = version_label cr n (bundle_loaded_bytes b)"
  using compile_version by (auto simp: bundle_ok_def authentic_def bundle_version_def)

end

locale audited_bundle = sink_contract app recorded sink_ok + bundle_kind cr doc
  for app :: "('s, control_event) append_op" and recorded :: "'s \<Rightarrow> (nat \<times> control_event) set"
    and sink_ok :: "'s \<Rightarrow> bool" and cr :: crypto and doc :: "'d bundle_document"
begin

lemma tick_sink:
  assumes "tick cr doc fs now (Some (append_bounded app a)) s b = (s', b', hook)" "sink_ok s"
  shows "sink_ok s' \<and> recorded s \<subseteq> recorded s'"
proof -
  have "s' = s \<or> (\<exists>e. s' = snd (append_bounded app a s e))"
    using assms(1) unfolding tick_def stage_with_digest_def Let_def
    by (auto split: prod.splits sum.splits option.splits if_splits) (metis snd_conv)+
  then show ?thesis using bounded_ok [OF assms(2)] bounded_keeps [OF assms(2)] assms(2) by (elim disjE exE) simp_all
qed

lemma tick_records_change:
  assumes "tick cr doc fs now (Some (append_bounded app a)) s b = (s', b', hook)" "sink_ok s"
  shows "bundle_current b' = bundle_current b \<or> change_recorded doc (recorded s') (bundle_current b')"
  using assms(1)
proof (cases rule: tick_cases)
  case (journaled st digest app' n)
  let ?e = "changed_event doc now st (note_reload (Inr (Some st)) b)"
  have "(n, ?e) \<in> recorded s'"
    using journaled(1,3) bounded_acknowledged [OF assms(2)] by auto
  moreover have "ce_kind ?e = doc_changed_kind doc" "ce_signature ?e = loaded_signature (staged_loaded st)"
    "ce_version ?e = Some (doc_version doc (loaded_document (staged_loaded st)))"
    by (simp_all add: changed_event_def describe_keeps control_event_now_def)
  ultimately show ?thesis using journaled(4) by (auto simp: change_recorded_def)
qed auto

lemma watch_evidence:
  assumes "(watch cr doc app)\<^sup>*\<^sup>* (s0, b0) (s, b)" "sink_ok s0" "bundle_ok cr doc b0"
  shows "sink_ok s \<and> bundle_ok cr doc b
    \<and> (bundle_current b = bundle_current b0 \<or> change_recorded doc (recorded s) (bundle_current b))"
  using assms(1)
proof (induction rule: rtranclp_induct2)
  case refl
  with assms show ?case by simp
next
  case (step s b s' b')
  obtain fs now a hook where t: "tick cr doc fs now (Some (append_bounded app a)) s b = (s', b', hook)"
    using step.hyps(2) by (rule watchE)
  show ?case
    using step.IH tick_ok [OF t] tick_sink [OF t] tick_records_change [OF t] change_recorded_mono
    by metis
qed

end

section \<open>Properties\<close>

lemma stage_inner_rejection [simp]:
  "stage_inner cr doc fs (b\<lparr>bundle_journaled_rejection := r\<rparr>) = stage_inner cr doc fs b"
  "stage_inner cr doc fs (note_reload o' b) = stage_inner cr doc fs b"
  by (simp_all add: stage_inner_def note_reload_def cong: sum.case_cong if_cong)

lemma note_reload_again [simp]:
  "note_reload (Inl e) (note_reload (Inl e) b) = note_reload (Inl e) b"
  "note_reload (Inl e) ((note_reload (Inl e) b)\<lparr>bundle_journaled_rejection := r\<rparr>)
     = (note_reload (Inl e) b)\<lparr>bundle_journaled_rejection := r\<rparr>"
  by (simp_all add: note_reload_def)

text \<open>C13. What one audited poll does, on every branch. A file that cannot be read, verified or
  compiled leaves the last good document in force and reports the reason; an unchanged file
  changes nothing and clears the report; a new document takes effect exactly when the sink
  acknowledged the record of the change, and then the hook runs with the old and the new
  document; otherwise the last good one stays in force and the bundle reports itself degraded.\<close>

theorem tick_outcome:
  "case tick cr doc fs now (Some app) s b of (s', b', hook) \<Rightarrow>
     (case stage_inner cr doc fs b of
        (Inl e, _) \<Rightarrow>
          bundle_current b' = bundle_current b \<and> bundle_loaded_bytes b' = bundle_loaded_bytes b
          \<and> degraded b' = Some e \<and> hook = None
      | (Inr None, _) \<Rightarrow>
          s' = s \<and> bundle_current b' = bundle_current b \<and> degraded b' = None \<and> hook = None
      | (Inr (Some st), _) \<Rightarrow>
          if \<exists>n. fst (app s (changed_event doc now st b)) = Inr n
          then bundle_current b' = staged_loaded st \<and> bundle_loaded_bytes b' = staged_bytes st
            \<and> degraded b' = None \<and> hook = Some (bundle_current b, staged_loaded st)
          else bundle_current b' = bundle_current b \<and> bundle_loaded_bytes b' = bundle_loaded_bytes b
            \<and> degraded b' \<noteq> None \<and> hook = None)"
proof -
  have event: "changed_event doc now st (note_reload r b) = changed_event doc now st b"
    for st r
    by (simp add: changed_event_def bundle_version_def)
  show ?thesis
    by (auto simp: tick_def stage_with_digest_def event degraded_def note_failure_def commit_def
        Let_def split: prod.splits sum.splits option.splits)
qed

text \<open>A file that stays broken is journaled once: when a poll has made the record of a rejection
  durable, polling the same file again appends nothing and changes nothing.\<close>

theorem rejection_journaled_once:
  assumes "stage_inner cr doc fs b = (Inl e, digest)"
    and "tick cr doc fs now (Some app) s b = (s1, b1, hook)"
    and "bundle_journaled_rejection b1 = Some \<lparr>rej_digest = digest, rej_reason = e\<rparr>"
  shows "tick cr doc fs now' (Some app') s1 b1 = (s1, b1, None)"
proof -
  have "b1 = note_reload (Inl e) b
      \<or> (\<exists>r. b1 = (note_reload (Inl e) b)\<lparr>bundle_journaled_rejection := r\<rparr>)"
    using assms(1,2)
    by (auto simp: tick_def stage_with_digest_def Let_def split: prod.splits sum.splits if_splits)
  then show ?thesis
    using assms(1,3) by (auto simp: tick_def stage_with_digest_def Let_def)
qed

definition sample_document :: "string bundle_document" where
  "sample_document =
     \<lparr>doc_domain = PolicyBundle, doc_noun = ''policy'', doc_loaded_kind = PolicyLoaded,
      doc_changed_kind = PolicyChanged, doc_rejected_kind = PolicyRejected,
      doc_compile = (\<lambda>bytes. if bytes = ''broken'' then Inl ''does not parse'' else Inr bytes),
      doc_version = version_label sample_crypto 1, doc_describe = (\<lambda>_ e. e)\<rparr>"

theorem rejection_journaled_once_witness:
  "let b = new_bundle ''p'' None ''good'' None ''good'';
       (s1, b1, hook) = tick sample_crypto sample_document (sample_fs ''broken'') ''t'' (Some memory_append) memory_new b
   in length (mem_events s1) = 1
      \<and> tick sample_crypto sample_document (sample_fs ''broken'') ''u'' (Some memory_append) s1 b1 = (s1, b1, None)"
proof -
  let ?b = "new_bundle ''p'' None ''good'' None ''good''"
  let ?rej = "\<lparr>rej_digest = Some (digest_label sample_crypto ''broken''),
    rej_reason = ''policy p: does not parse''\<rparr>"
  let ?b1 = "(note_reload (Inl ''policy p: does not parse'') ?b)
    \<lparr>bundle_journaled_rejection := Some ?rej\<rparr>"
  have stage: "stage_inner sample_crypto sample_document (sample_fs ''broken'') ?b =
      (Inl ''policy p: does not parse'', Some (digest_label sample_crypto ''broken''))"
    by (simp add: stage_inner_def read_bytes_def sample_fs_def sample_document_def new_bundle_def
        verify_bytes_def in_document_def MAX_DOCUMENT_BYTES_def)
  then obtain s1 where t: "tick sample_crypto sample_document (sample_fs ''broken'') ''t''
      (Some memory_append) memory_new ?b = (s1, ?b1, None)" "length (mem_events s1) = 1"
    by (simp add: tick_def stage_with_digest_def memory_append_def memory_new_def Let_def
        new_bundle_def note_reload_def)
  show ?thesis
    unfolding Let_def t(1) prod.case
    using rejection_journaled_once [OF stage t(1)] t(2) by simp
qed

end
