(* ===== verification/Engine.thy ===== *)
theory Engine
  imports Bundle "HOL-Library.Multiset"
begin

text \<open>
  The file-backed policy engine, \<^verbatim>\<open>src/policy/engine.rs\<close>: the document schema, its
  compilation to typed matchers, the \<open>*\<close>-only glob, evaluation, \<open>explain\<close> and the
  access review. The YAML parser of the \<^verbatim>\<open>serde_norway\<close> crate is the parameter
  \<open>parse_yaml\<close>, from bytes to the typed document; a refusal is a constructor of
  \<open>policy_error\<close>, and \<open>policy_error_text\<close> writes it the way the code does, with the
  \<open>Debug\<close> form of a string as a parameter. The section on globs relates the two-pointer
  matcher to an inductive definition of matching; the later ones derive what an allowed call
  satisfies.
\<close>

section \<open>The code\<close>

subsection \<open>Document schema\<close>

datatype 'a one_or_many = One 'a | Many "'a list"

fun into_vec :: "'a one_or_many \<Rightarrow> 'a list" where
  "into_vec (One x) = [x]"
| "into_vec (Many xs) = xs"

record subjects_document =
  sd_everyone :: "bool option"
  sd_groups :: "string one_or_many option"
  sd_subjects :: "string one_or_many option"
  sd_scopes :: "string one_or_many option"

record constraint_document =
  cd_resource_type :: resource_type
  cd_resource_id :: "string one_or_many"

record match_document =
  md_vendor :: "string one_or_many option"
  md_environment :: "string one_or_many option"
  md_tool_name :: "string one_or_many option"
  md_normalized_action :: "normalized_action one_or_many option"
  md_request_risk :: "request_risk one_or_many option"
  md_resource_type :: "resource_type one_or_many option"
  md_resource_id :: "string one_or_many option"
  md_resource_scope :: "string option"
  md_constrained_by :: "constraint_document option"
  md_upstream_authority :: "upstream_authority one_or_many option"
  md_method :: "string one_or_many option"
  md_canonical_path :: "string one_or_many option"
  md_destination_origin :: "string one_or_many option"

record rule_document =
  rd_id :: string
  rd_effect :: policy_effect
  rd_description :: "string option"
  rd_subjects :: subjects_document
  rd_matcher :: match_document

record policy_document =
  pd_version :: nat
  pd_default :: "string option"
  pd_rules :: "rule_document list"

subsection \<open>Globs\<close>

text \<open>The two loops of \<open>Glob::matches\<close>: \<open>p\<close> and \<open>t\<close> index the pattern and the
  text, \<open>star\<close> remembers the last star and where it started to match.\<close>

fun glob_tail :: "string \<Rightarrow> bool" where
  "glob_tail [] = True"
| "glob_tail (c # cs) = (c = CHR ''*'' \<and> glob_tail cs)"

text \<open>\<open>glob_tail (drop p pattern)\<close> is the closing loop that skips stars from \<open>p\<close> and
  compares with the length.\<close>

text \<open>For the termination argument: the star lies before both positions.\<close>

definition star_settled :: "nat \<Rightarrow> nat \<Rightarrow> (nat \<times> nat) option \<Rightarrow> bool" where
  "star_settled p t star = (case star of None \<Rightarrow> True | Some (sp, st) \<Rightarrow> sp < p \<and> st \<le> t)"

function glob_loop :: "string \<Rightarrow> string \<Rightarrow> nat \<Rightarrow> nat \<Rightarrow> (nat \<times> nat) option \<Rightarrow> bool" where
  "glob_loop pattern text p t star =
     (if t < length text then
        if p < length pattern \<and> pattern ! p = CHR ''*''
        then glob_loop pattern text (p + 1) t (Some (p, t))
        else if p < length pattern \<and> pattern ! p = text ! t
        then glob_loop pattern text (p + 1) (t + 1) star
        else (case star of
                Some (star_p, star_t) \<Rightarrow>
                  glob_loop pattern text (star_p + 1) (star_t + 1) (Some (star_p, star_t + 1))
              | None \<Rightarrow> False)
      else glob_tail (drop p pattern))"
  by pat_completeness auto

termination
proof (relation "measures
    [\<lambda>(pattern, text, p, t, star). if star_settled p t star then 0 else 1,
     \<lambda>(pattern, text, p, t, star). length pattern + 1 - (case star of None \<Rightarrow> 0 | Some (sp, st) \<Rightarrow> sp + 1),
     \<lambda>(pattern, text, p, t, star). length text - (case star of None \<Rightarrow> 0 | Some (sp, st) \<Rightarrow> st),
     \<lambda>(pattern, text, p, t, star). length text - t]")
qed (auto simp: star_settled_def split: option.splits)

declare glob_loop.simps [simp del]

definition glob_matches :: "string \<Rightarrow> string \<Rightarrow> bool" where
  "glob_matches pattern value = glob_loop pattern value 0 0 None"

definition globs :: "string one_or_many option \<Rightarrow> string list option" where
  "globs values = map_option into_vec values"

definition any_glob :: "string list \<Rightarrow> string \<Rightarrow> bool" where
  "any_glob gs value = list_ex (\<lambda>g. glob_matches g value) gs"

subsection \<open>Compiled rules\<close>

record subject_matcher =
  sm_everyone :: bool
  sm_groups :: "string list option"
  sm_subjects :: "string list option"
  sm_scopes :: "string list option"

text \<open>\<open>Option::is_none_or\<close> and the generic \<open>contains\<close>.\<close>

definition is_none_or :: "'a option \<Rightarrow> ('a \<Rightarrow> bool) \<Rightarrow> bool" where
  "is_none_or x f = (case x of None \<Rightarrow> True | Some v \<Rightarrow> f v)"

definition contains_value :: "'a list option \<Rightarrow> 'a \<Rightarrow> bool" where
  "contains_value xs v = is_none_or xs (\<lambda>l. v \<in> set l)"

definition subject_matches :: "subject_matcher \<Rightarrow> principal \<Rightarrow> bool" where
  "subject_matches m pr =
     (if sm_everyone m then True
      else is_none_or (sm_groups m) (\<lambda>gs. list_ex (any_glob gs) (groups pr))
         \<and> is_none_or (sm_subjects m) (\<lambda>gs. any_glob gs (subject pr))
         \<and> is_none_or (sm_scopes m) (\<lambda>gs. list_ex (any_glob gs) (scopes pr)))"

datatype scope_kind = CollectionKind | UnscopedKind

record compiled_rule =
  rule_id :: string
  rule_effect :: policy_effect
  rule_subjects :: subject_matcher
  rule_vendor :: "string list option"
  rule_environment :: "environment_class list option"
  rule_tool_name :: "string list option"
  rule_normalized_action :: "normalized_action list option"
  rule_request_risk :: "request_risk list option"
  rule_resource_type :: "resource_type list option"
  rule_resource_id :: "string list option"
  rule_resource_scope :: "scope_kind option"
  rule_constrained_by :: "(resource_type \<times> string list) option"
  rule_upstream_authority :: "upstream_authority list option"
  rule_method :: "http_method list option"
  rule_canonical_path :: "string list option"
  rule_destination_origin :: "string list option"

text \<open>The first key a context fails, \<open>None\<close> when the rule matches.\<close>

definition mismatch :: "compiled_rule \<Rightarrow> action_context \<Rightarrow> string option" where
  "mismatch r c =
     (if \<not> is_none_or (rule_destination_origin r)
             (\<lambda>origins. case ctx_destination_origin c of
                           None \<Rightarrow> False | Some origin \<Rightarrow> origin \<in> set origins)
      then Some ''destination_origin''
      else if \<not> subject_matches (rule_subjects r) (ctx_principal c) then Some ''subjects''
      else if \<not> contains_value (rule_vendor r) (ctx_vendor c) then Some ''vendor''
      else if \<not> contains_value (rule_environment r) (ctx_environment c) then Some ''environment''
      else if \<not> is_none_or (rule_tool_name r) (\<lambda>gs. any_glob gs (ctx_tool_name c))
      then Some ''tool_name''
      else if \<not> contains_value (rule_normalized_action r) (ctx_action c)
      then Some ''normalized_action''
      else if \<not> contains_value (rule_request_risk r) (ctx_risk c) then Some ''request_risk''
      else if \<not> contains_value (rule_resource_type r) (ctx_resource_type c)
      then Some ''resource_type''
      else if \<not> contains_value (rule_upstream_authority r) (up_authority (ctx_upstream c))
      then Some ''upstream_authority''
      else if \<not> contains_value (rule_method r) (ctx_method c) then Some ''method''
      else if \<not> is_none_or (rule_canonical_path r) (\<lambda>gs. any_glob gs (ctx_path c))
      then Some ''canonical_path''
      else if \<not> is_none_or (rule_resource_id r) (\<lambda>gs. all_ids_allowed (ctx_scope c) (any_glob gs))
      then Some ''resource_id''
      else if \<not> is_none_or (rule_resource_scope r)
                  (\<lambda>kind. case kind of CollectionKind \<Rightarrow> is_collection (ctx_scope c)
                                      | UnscopedKind \<Rightarrow> is_unscoped (ctx_scope c))
      then Some ''resource_scope''
      else if \<not> is_none_or (rule_constrained_by r)
                  (\<lambda>(rt, gs). case ctx_constraint c of
                      None \<Rightarrow> False
                    | Some k \<Rightarrow> constraint_type k = rt \<and> all_ids_allowed (constraint_scope k) (any_glob gs))
      then Some ''constrained_by''
      else None)"

definition rule_matches :: "compiled_rule \<Rightarrow> action_context \<Rightarrow> bool" where
  "rule_matches r c \<longleftrightarrow> mismatch r c = None"

record compiled_policy =
  policy_version :: string
  policy_rules :: "compiled_rule list"

subsection \<open>Compilation\<close>

datatype policy_error =
    PolicyTooLarge
  | PolicyDoesNotParse string
  | DefaultNotDeny string
  | EmptyRuleId
  | DuplicateRuleId string
  | NoSubjects string
  | EveryoneAndNamed string
  | SubjectsEmpty string string
  | UnknownEnvironment string string
  | UnknownResourceType string
  | BadResourceScope string string
  | UnknownConstraintType string
  | EmptyConstraint string
  | UnknownMethod string string
  | EmptyResourceId string

definition policy_error_text :: "(string \<Rightarrow> string) \<Rightarrow> policy_error \<Rightarrow> string" where
  "policy_error_text debug e =
     (let in_rule = (\<lambda>i message. ''rule '' @ debug i @ '': '' @ message) in
      case e of
        PolicyTooLarge \<Rightarrow> ''policy document is too large''
      | PolicyDoesNotParse error \<Rightarrow> ''policy does not parse: '' @ error
      | DefaultNotDeny d \<Rightarrow>
          ''`default` may only be `deny`, got '' @ debug d @ ''; there is no permissive default''
      | EmptyRuleId \<Rightarrow> ''a rule has an empty `id`''
      | DuplicateRuleId i \<Rightarrow> ''duplicate rule id '' @ debug i
      | NoSubjects i \<Rightarrow> in_rule i
          (''`subjects` must name `groups`, `subjects`, or `scopes`, or say `everyone: true`; a rule ''
           @ ''that applies to nobody is a mistake, and one that applies to everybody must say so'')
      | EveryoneAndNamed i \<Rightarrow> in_rule i ''`everyone: true` cannot be combined with named subjects''
      | SubjectsEmpty i label \<Rightarrow> in_rule i (''`subjects.'' @ label @ ''` is empty'')
      | UnknownEnvironment i v \<Rightarrow>
          in_rule i (''unknown environment '' @ debug v @ '' (prod, staging, qa, dev)'')
      | UnknownResourceType i \<Rightarrow> in_rule i
          (''`resource_type: unknown` cannot be matched '' @ [CHR 0xE2, CHR 0x80, CHR 0x94]
           @ '' unclassified calls are always denied'')
      | BadResourceScope i v \<Rightarrow>
          in_rule i (''`resource_scope` must be `collection` or `unscoped`, got '' @ debug v)
      | UnknownConstraintType i \<Rightarrow>
          in_rule i ''`constrained_by.resource_type: unknown` is not a constraint''
      | EmptyConstraint i \<Rightarrow> in_rule i ''`constrained_by.resource_id` is empty''
      | UnknownMethod i v \<Rightarrow> in_rule i (''unknown HTTP method '' @ debug v)
      | EmptyResourceId i \<Rightarrow> in_rule i ''`resource_id` is empty'')"

definition parse_method :: "string \<Rightarrow> string + http_method" where
  "parse_method value =
     (let v = to_ascii_uppercase value in
      if v = ''GET'' then Inr Get
      else if v = ''POST'' then Inr Post
      else if v = ''PUT'' then Inr Put
      else if v = ''PATCH'' then Inr Patch
      else if v = ''DELETE'' then Inr Delete
      else Inl v)"

text \<open>\<open>Option<Result<T, E>>::transpose\<close>.\<close>

definition transpose :: "('e + 'a) option \<Rightarrow> 'e + 'a option" where
  "transpose x = (case x of None \<Rightarrow> Inr None | Some r \<Rightarrow> and_then r (\<lambda>v. Inr (Some v)))"

definition parse_environments ::
  "string \<Rightarrow> string one_or_many option \<Rightarrow> policy_error + environment_class list option" where
  "parse_environments i values =
     transpose (map_option (\<lambda>vs. collect_results
       (\<lambda>v. ok_or (UnknownEnvironment i v) (environment_parse v)) (into_vec vs)) values)"

definition parse_methods ::
  "string \<Rightarrow> string one_or_many option \<Rightarrow> policy_error + http_method list option" where
  "parse_methods i values =
     transpose (map_option (\<lambda>vs. collect_results
       (\<lambda>v. map_err (UnknownMethod i) (parse_method v)) (into_vec vs)) values)"

definition compile_subjects :: "string \<Rightarrow> subjects_document \<Rightarrow> policy_error + subject_matcher" where
  "compile_subjects i sd =
     (let everyone = (case sd_everyone sd of None \<Rightarrow> False | Some e \<Rightarrow> e);
          compiled = \<lparr>sm_everyone = everyone, sm_groups = globs (sd_groups sd),
                      sm_subjects = globs (sd_subjects sd), sm_scopes = globs (sd_scopes sd)\<rparr>;
          named = sm_groups compiled \<noteq> None \<or> sm_subjects compiled \<noteq> None \<or> sm_scopes compiled \<noteq> None
      in if \<not> everyone \<and> \<not> named then Inl (NoSubjects i)
         else if everyone \<and> named then Inl (EveryoneAndNamed i)
         else if sm_groups compiled = Some [] then Inl (SubjectsEmpty i ''groups'')
         else if sm_subjects compiled = Some [] then Inl (SubjectsEmpty i ''subjects'')
         else if sm_scopes compiled = Some [] then Inl (SubjectsEmpty i ''scopes'')
         else Inr compiled)"

definition parse_resource_scope :: "string \<Rightarrow> string option \<Rightarrow> policy_error + scope_kind option" where
  "parse_resource_scope i value =
     transpose (map_option (\<lambda>v.
       if v = ''collection'' then Inr CollectionKind
       else if v = ''unscoped'' then Inr UnscopedKind
       else Inl (BadResourceScope i v)) value)"

definition compile_constraint ::
  "string \<Rightarrow> constraint_document option \<Rightarrow> policy_error + (resource_type \<times> string list) option" where
  "compile_constraint i k =
     (case k of
        None \<Rightarrow> Inr None
      | Some cd \<Rightarrow>
          if cd_resource_type cd = Unknown then Inl (UnknownConstraintType i)
          else if into_vec (cd_resource_id cd) = [] then Inl (EmptyConstraint i)
          else Inr (Some (cd_resource_type cd, into_vec (cd_resource_id cd))))"

definition compile_rule :: "rule_document \<Rightarrow> policy_error + compiled_rule" where
  "compile_rule rd =
     (let i = rd_id rd; m = rd_matcher rd; resource_type = map_option into_vec (md_resource_type m) in
      and_then (compile_subjects i (rd_subjects rd)) (\<lambda>subjects.
      and_then (parse_environments i (md_environment m)) (\<lambda>environment.
      if is_none_or resource_type (\<lambda>ts. Unknown \<notin> set ts) then
        and_then (parse_resource_scope i (md_resource_scope m)) (\<lambda>resource_scope.
        and_then (compile_constraint i (md_constrained_by m)) (\<lambda>constrained_by.
        and_then (parse_methods i (md_method m)) (\<lambda>method.
        if globs (md_resource_id m) = Some [] then Inl (EmptyResourceId i)
        else Inr
          \<lparr>rule_id = i, rule_effect = rd_effect rd, rule_subjects = subjects,
           rule_vendor = map_option (\<lambda>vs. map to_ascii_lowercase (into_vec vs)) (md_vendor m),
           rule_environment = environment, rule_tool_name = globs (md_tool_name m),
           rule_normalized_action = map_option into_vec (md_normalized_action m),
           rule_request_risk = map_option into_vec (md_request_risk m),
           rule_resource_type = resource_type, rule_resource_id = globs (md_resource_id m),
           rule_resource_scope = resource_scope, rule_constrained_by = constrained_by,
           rule_upstream_authority = map_option into_vec (md_upstream_authority m),
           rule_method = method, rule_canonical_path = globs (md_canonical_path m),
           rule_destination_origin = map_option into_vec (md_destination_origin m)\<rparr>)))
      else Inl (UnknownResourceType i))))"

text \<open>The first pass of \<open>compile\<close> over the rules, with the ids seen so far.\<close>

fun check_rule_ids :: "string list \<Rightarrow> rule_document list \<Rightarrow> policy_error + unit" where
  "check_rule_ids seen [] = Inr ()"
| "check_rule_ids seen (rd # rds) =
     (if trim (rd_id rd) = '''' then Inl EmptyRuleId
      else if rd_id rd \<in> set seen then Inl (DuplicateRuleId (rd_id rd))
      else check_rule_ids (seen @ [rd_id rd]) rds)"

definition compile ::
  "crypto \<Rightarrow> (string \<Rightarrow> string + policy_document) \<Rightarrow> string \<Rightarrow> policy_error + compiled_policy" where
  "compile cr parse_yaml bytes =
     (if MAX_DOCUMENT_BYTES < length bytes then Inl PolicyTooLarge
      else and_then (map_err PolicyDoesNotParse (parse_yaml bytes)) (\<lambda>document.
        if is_none_or (pd_default document) (\<lambda>d. eq_ignore_ascii_case d ''deny'') then
          and_then (check_rule_ids [] (pd_rules document)) (\<lambda>_.
          and_then (collect_results compile_rule (pd_rules document)) (\<lambda>rules.
          Inr \<lparr>policy_version = version_label cr (pd_version document) bytes, policy_rules = rules\<rparr>))
        else Inl (DefaultNotDeny (the (pd_default document)))))"

text \<open>The policy as a bundle document.\<close>

definition policy_bundle ::
  "crypto \<Rightarrow> (string \<Rightarrow> string) \<Rightarrow> (string \<Rightarrow> string + policy_document)
     \<Rightarrow> compiled_policy bundle_document" where
  "policy_bundle cr debug parse_yaml =
     \<lparr>doc_domain = PolicyBundle, doc_noun = ''policy'', doc_loaded_kind = PolicyLoaded,
      doc_changed_kind = PolicyChanged, doc_rejected_kind = PolicyRejected,
      doc_compile = (\<lambda>bytes. map_err (policy_error_text debug) (compile cr parse_yaml bytes)),
      doc_version = policy_version, doc_describe = (\<lambda>_ e. e)\<rparr>"

subsection \<open>Evaluation\<close>

fun evaluate_loop ::
  "string \<Rightarrow> action_context \<Rightarrow> compiled_rule option \<Rightarrow> compiled_rule list \<Rightarrow> policy_decision" where
  "evaluate_loop version c allowed_by [] =
     (case allowed_by of
        Some r \<Rightarrow> decision_by_rule Allow (rule_id r) version
      | None \<Rightarrow> decision_default_deny_under version ''no rule allows this call; default deny'')"
| "evaluate_loop version c allowed_by (r # rs) =
     (if \<not> rule_matches r c then evaluate_loop version c allowed_by rs
      else (case rule_effect r of
              Deny \<Rightarrow> decision_by_rule Deny (rule_id r) version
            | Allow \<Rightarrow>
                evaluate_loop version c (case allowed_by of None \<Rightarrow> Some r | Some _ \<Rightarrow> allowed_by) rs))"

definition evaluate :: "compiled_policy \<Rightarrow> action_context \<Rightarrow> policy_decision" where
  "evaluate policy c =
     (if ctx_resource_type c = Unknown
      then decision_default_deny_under (policy_version policy)
        ''the call's resource could not be classified; unclassified calls are always denied''
      else evaluate_loop (policy_version policy) c None (policy_rules policy))"

record rule_trace =
  trace_id :: string
  trace_effect :: policy_effect
  trace_mismatch :: "string option"
  trace_decisive :: bool

record explanation =
  expl_decision :: policy_decision
  expl_unclassified :: bool
  expl_rules :: "rule_trace list"

text \<open>\<open>rules.iter_mut().find(..)\<close> marks the first trace with the id.\<close>

fun mark_decisive :: "string \<Rightarrow> rule_trace list \<Rightarrow> rule_trace list" where
  "mark_decisive i [] = []"
| "mark_decisive i (t # ts) =
     (if trace_id t = i then t\<lparr>trace_decisive := True\<rparr> # ts else t # mark_decisive i ts)"

definition explain :: "compiled_policy \<Rightarrow> action_context \<Rightarrow> explanation" where
  "explain policy c =
     (let unclassified = (ctx_resource_type c = Unknown);
          rules = map (\<lambda>r. \<lparr>trace_id = rule_id r, trace_effect = rule_effect r,
                            trace_mismatch = mismatch r c, trace_decisive = False\<rparr>)
                    (policy_rules policy);
          decision = evaluate policy c
      in \<lparr>expl_decision = decision, expl_unclassified = unclassified,
          expl_rules =
            (if unclassified then rules
             else case dec_rule_id decision of None \<Rightarrow> rules | Some i \<Rightarrow> mark_decisive i rules)\<rparr>)"

subsection \<open>Descriptions\<close>

record subjects_description =
  sdesc_everyone :: bool
  sdesc_groups :: "string list"
  sdesc_subjects :: "string list"
  sdesc_scopes :: "string list"

record rule_description =
  rdesc_id :: string
  rdesc_effect :: policy_effect
  rdesc_subjects :: subjects_description
  rdesc_matches :: "string \<rightharpoonup> string list"

fun resource_type_label :: "resource_type \<Rightarrow> string" where
  "resource_type_label VendorResource = ''vendor_resource''"
| "resource_type_label Issue = ''issue''"
| "resource_type_label Project = ''project''"
| "resource_type_label Channel = ''channel''"
| "resource_type_label Datasource = ''datasource''"
| "resource_type_label Dashboard = ''dashboard''"
| "resource_type_label Unknown = ''unknown''"

fun action_label :: "normalized_action \<Rightarrow> string" where
  "action_label ReadVendorResource = ''read_vendor_resource''"
| "action_label ReadIssue = ''read_issue''"
| "action_label SearchIssues = ''search_issues''"
| "action_label ReadProject = ''read_project''"
| "action_label QueryLogs = ''query_logs''"
| "action_label ListDatasources = ''list_datasources''"
| "action_label ReadDatasource = ''read_datasource''"
| "action_label ListChannels = ''list_channels''"
| "action_label ReadChannel = ''read_channel''"
| "action_label ReadChannelHistory = ''read_channel_history''"
| "action_label ReadThread = ''read_thread''"
| "action_label SearchMessages = ''search_messages''"
| "action_label Passthrough = ''passthrough''"

fun upstream_authority_label :: "upstream_authority \<Rightarrow> string" where
  "upstream_authority_label Shared = ''shared''"
| "upstream_authority_label Delegated = ''delegated''"

definition unwrap_or_nil :: "'a list option \<Rightarrow> 'a list" where
  "unwrap_or_nil x = (case x of None \<Rightarrow> [] | Some xs \<Rightarrow> xs)"

definition put_key ::
  "string \<Rightarrow> string list \<Rightarrow> (string \<rightharpoonup> string list) \<Rightarrow> (string \<rightharpoonup> string list)" where
  "put_key key values m = (if values = [] then m else m(key \<mapsto> values))"

definition describe_rule :: "compiled_rule \<Rightarrow> rule_description" where
  "describe_rule r =
     (let m0 = put_key ''vendor'' (unwrap_or_nil (rule_vendor r)) Map.empty;
          m1 = put_key ''environment'' (map environment_str (unwrap_or_nil (rule_environment r))) m0;
          m2 = put_key ''tool_name'' (unwrap_or_nil (rule_tool_name r)) m1;
          m3 = put_key ''normalized_action''
                 (map action_label (unwrap_or_nil (rule_normalized_action r))) m2;
          m4 = put_key ''request_risk'' (map risk_str (unwrap_or_nil (rule_request_risk r))) m3;
          m5 = put_key ''resource_type''
                 (map resource_type_label (unwrap_or_nil (rule_resource_type r))) m4;
          m6 = put_key ''resource_id'' (unwrap_or_nil (rule_resource_id r)) m5;
          m7 = put_key ''resource_scope''
                 (case rule_resource_scope r of
                    None \<Rightarrow> []
                  | Some CollectionKind \<Rightarrow> [''collection'']
                  | Some UnscopedKind \<Rightarrow> [''unscoped'']) m6;
          m8 = (case rule_constrained_by r of
                  None \<Rightarrow> m7
                | Some (rt, gs) \<Rightarrow>
                    put_key ''constrained_by'' (map (\<lambda>g. resource_type_label rt @ '':'' @ g) gs) m7);
          m9 = put_key ''upstream_authority''
                 (map upstream_authority_label (unwrap_or_nil (rule_upstream_authority r))) m8;
          m10 = put_key ''method'' (map method_str (unwrap_or_nil (rule_method r))) m9;
          m11 = put_key ''canonical_path'' (unwrap_or_nil (rule_canonical_path r)) m10;
          m12 = put_key ''destination_origin'' (unwrap_or_nil (rule_destination_origin r)) m11;
          s = rule_subjects r
      in \<lparr>rdesc_id = rule_id r, rdesc_effect = rule_effect r,
          rdesc_subjects = \<lparr>sdesc_everyone = sm_everyone s, sdesc_groups = unwrap_or_nil (sm_groups s),
            sdesc_subjects = unwrap_or_nil (sm_subjects s), sdesc_scopes = unwrap_or_nil (sm_scopes s)\<rparr>,
          rdesc_matches = m12\<rparr>)"

definition describe_rules :: "compiled_policy \<Rightarrow> rule_description list" where
  "describe_rules policy = map describe_rule (policy_rules policy)"

definition rules_for :: "compiled_policy \<Rightarrow> principal \<Rightarrow> rule_description list" where
  "rules_for policy pr =
     map describe_rule (filter (\<lambda>r. subject_matches (rule_subjects r) pr) (policy_rules policy))"

section \<open>The two-pointer matcher\<close>

inductive glob_match :: "string \<Rightarrow> string \<Rightarrow> bool" where
  glob_end: "glob_match [] []"
| glob_star: "glob_match p t \<Longrightarrow> glob_match (CHR ''*'' # p) (s @ t)"
| glob_byte: "c \<noteq> CHR ''*'' \<Longrightarrow> glob_match p t \<Longrightarrow> glob_match (c # p) (c # t)"

inductive_simps glob_match_simps [simp]: "glob_match [] t" "glob_match (c # p) []"

lemma glob_match_star:
  "glob_match (CHR ''*'' # p) t \<longleftrightarrow> (\<exists>k \<le> length t. glob_match p (drop k t))"
proof
  assume "glob_match (CHR ''*'' # p) t"
  then obtain s t' where "t = s @ t'" "glob_match p t'" by (auto elim: glob_match.cases)
  then show "\<exists>k \<le> length t. glob_match p (drop k t)" by (intro exI [of _ "length s"]) auto
next
  assume "\<exists>k \<le> length t. glob_match p (drop k t)"
  then show "glob_match (CHR ''*'' # p) t" using glob_star by (metis append_take_drop_id)
qed

lemma glob_match_byte:
  "c \<noteq> CHR ''*'' \<Longrightarrow> glob_match (c # p) t \<longleftrightarrow> (\<exists>t'. t = c # t' \<and> glob_match p t')"
  by (auto elim: glob_match.cases intro: glob_byte)

lemma glob_match_literal:
  "CHR ''*'' \<notin> set lit \<Longrightarrow> glob_match (lit @ p) t \<longleftrightarrow> (\<exists>t'. t = lit @ t' \<and> glob_match p t')"
  by (induction lit arbitrary: t) (auto simp: glob_match_byte)

lemma glob_tail_iff: "glob_tail p \<longleftrightarrow> glob_match p []"
  by (induction p) (auto simp: glob_match_star glob_match_byte)

text \<open>Between a star and the pattern position there is literal text only, as long as the text
  consumed since the star started to match.\<close>

definition star_inv :: "string \<Rightarrow> nat \<Rightarrow> nat \<Rightarrow> (nat \<times> nat) option \<Rightarrow> bool" where
  "star_inv pattern p t star =
     (case star of
        None \<Rightarrow> True
      | Some (sp, st) \<Rightarrow>
          sp < p \<and> p \<le> length pattern \<and> t = st + (p - Suc sp)
          \<and> CHR ''*'' \<notin> set (take (p - Suc sp) (drop (Suc sp) pattern)))"

text \<open>What is left to try: the current positions, or the last star taking more of the text.\<close>

definition can_match :: "string \<Rightarrow> string \<Rightarrow> nat \<Rightarrow> nat \<Rightarrow> (nat \<times> nat) option \<Rightarrow> bool" where
  "can_match pattern text p t star \<longleftrightarrow>
     glob_match (drop p pattern) (drop t text)
     \<or> (\<exists>sp st k. star = Some (sp, st) \<and> st < k \<and> k \<le> length text
          \<and> glob_match (drop (Suc sp) pattern) (drop k text))"

lemma star_retry:
  assumes "star_inv pattern p t (Some (sp, st))" "st < k" "k \<le> length text"
    and "glob_match (drop (Suc sp) pattern) (drop k text)"
  shows "\<exists>j. t < j \<and> j \<le> length text \<and> glob_match (drop p pattern) (drop j text)"
proof -
  let ?lit = "take (p - Suc sp) (drop (Suc sp) pattern)"
  have "drop (Suc sp) pattern = ?lit @ drop (p - Suc sp) (drop (Suc sp) pattern)"
    by (simp only: append_take_drop_id)
  also have "drop (p - Suc sp) (drop (Suc sp) pattern) = drop p pattern"
    using assms(1) by (simp add: star_inv_def)
  finally have "glob_match (?lit @ drop p pattern) (drop k text)" using assms(4) by simp
  then obtain t' where t': "drop k text = ?lit @ t'" "glob_match (drop p pattern) t'"
    using glob_match_literal assms(1) by (auto simp: star_inv_def)
  have len: "length ?lit = p - Suc sp" using assms(1) by (simp add: star_inv_def min_absorb2 diff_le_mono)
  have "t' = drop (p - Suc sp + k) text"
    using arg_cong [OF t'(1), where f = "drop (length ?lit)"] len by simp
  moreover have "p - Suc sp + k \<le> length text"
    using arg_cong [OF t'(1), where f = length] len assms(3) by simp
  ultimately show ?thesis
    using t'(2) assms(1,2) by (intro exI [of _ "p - Suc sp + k"]) (auto simp: star_inv_def)
qed

lemma can_match_end:
  assumes "star_inv pattern p t star" "t = length text"
  shows "can_match pattern text p t star \<longleftrightarrow> glob_tail (drop p pattern)"
  using star_retry [of pattern p t _ _ _ "text"] assms
  by (fastforce simp: can_match_def glob_tail_iff)

lemma can_match_star:
  assumes "star_inv pattern p t star" "p < length pattern" "pattern ! p = CHR ''*''" "t \<le> length text"
  shows "can_match pattern text p t star \<longleftrightarrow> can_match pattern text (p + 1) t (Some (p, t))"
proof -
  have here: "drop p pattern = CHR ''*'' # drop (Suc p) pattern"
    using assms(2,3) by (metis Cons_nth_drop_Suc)
  have match: "glob_match (drop p pattern) (drop i text)
      \<longleftrightarrow> (\<exists>k \<ge> i. k \<le> length text \<and> glob_match (drop (Suc p) pattern) (drop k text))"
    if "i \<le> length text" for i
  proof -
    have "(\<exists>k \<le> length text - i. glob_match (drop (Suc p) pattern) (drop (k + i) text))
        \<longleftrightarrow> (\<exists>k \<ge> i. k \<le> length text \<and> glob_match (drop (Suc p) pattern) (drop k text))"
    proof (intro iffI; elim exE conjE)
      fix k assume "k \<le> length text - i" "glob_match (drop (Suc p) pattern) (drop (k + i) text)"
      with that show "\<exists>k \<ge> i. k \<le> length text \<and> glob_match (drop (Suc p) pattern) (drop k text)"
        by (intro exI [of _ "k + i"]) auto
    next
      fix k assume "i \<le> k" "k \<le> length text" "glob_match (drop (Suc p) pattern) (drop k text)"
      then show "\<exists>k \<le> length text - i. glob_match (drop (Suc p) pattern) (drop (k + i) text)"
        by (intro exI [of _ "k - i"]) auto
    qed
    then show ?thesis by (simp add: here glob_match_star)
  qed
  have "glob_match (drop p pattern) (drop t text)"
    if "star = Some (sp, st)" "st < k" "k \<le> length text"
      "glob_match (drop (Suc sp) pattern) (drop k text)" for sp st k
  proof -
    from star_retry [of pattern p t sp st k "text"] assms(1) that
    obtain j where "t < j" "j \<le> length text" "glob_match (drop p pattern) (drop j text)" by blast
    then show ?thesis using match [of t] match [of j] assms(4) by (meson le_trans less_imp_le)
  qed
  then have "can_match pattern text p t star \<longleftrightarrow> glob_match (drop p pattern) (drop t text)"
    by (auto simp: can_match_def)
  also have "\<dots> \<longleftrightarrow> can_match pattern text (p + 1) t (Some (p, t))"
    using match [OF assms(4)] assms(4) by (auto simp: can_match_def le_less)
  finally show ?thesis .
qed

lemma can_match_byte:
  assumes "p < length pattern" "t < length text" "pattern ! p \<noteq> CHR ''*''"
  shows "can_match pattern text p t star \<longleftrightarrow>
     (if pattern ! p = text ! t then can_match pattern text (p + 1) (t + 1) star
      else \<exists>sp st k. star = Some (sp, st) \<and> st < k \<and> k \<le> length text
             \<and> glob_match (drop (Suc sp) pattern) (drop k text))"
proof -
  have "drop p pattern = pattern ! p # drop (Suc p) pattern" "drop t text = text ! t # drop (Suc t) text"
    using assms by (metis Cons_nth_drop_Suc)+
  with assms(3) show ?thesis by (simp add: can_match_def glob_match_byte)
qed

lemma can_match_retry:
  assumes "st < length text" "star = Some (sp, st)"
  shows "(\<exists>sp st k. star = Some (sp, st) \<and> st < k \<and> k \<le> length text
            \<and> glob_match (drop (Suc sp) pattern) (drop k text))
    \<longleftrightarrow> can_match pattern text (sp + 1) (st + 1) (Some (sp, st + 1))"
  using assms by (auto simp: can_match_def intro: Suc_lessD) (metis Suc_lessI)

lemma star_inv_byte:
  assumes "star_inv pattern p t star" "p < length pattern" "pattern ! p \<noteq> CHR ''*''"
  shows "star_inv pattern (p + 1) (t + 1) star"
proof (cases star)
  case (Some s)
  obtain sp st where s: "s = (sp, st)" by (cases s)
  have "take (p - sp) (drop (Suc sp) pattern) =
      take (p - Suc sp) (drop (Suc sp) pattern) @ [pattern ! p]"
    using assms Some s take_Suc_conv_app_nth [of "p - Suc sp" "drop (Suc sp) pattern"]
    by (auto simp: star_inv_def Suc_diff_Suc)
  with assms Some s show ?thesis by (auto simp: star_inv_def)
qed (simp add: star_inv_def)

lemma glob_loop_correct:
  assumes "star_inv pattern p t star" "p \<le> length pattern" "t \<le> length text"
  shows "glob_loop pattern text p t star \<longleftrightarrow> can_match pattern text p t star"
  using assms
proof (induction pattern "text" p t star rule: glob_loop.induct)
  case (1 pattern "text" p t star)
  note unfold = glob_loop.simps [of pattern "text" p t star]
  consider "t = length text"
    | (star) "t < length text" "p < length pattern" "pattern ! p = CHR ''*''"
    | (byte) "t < length text" "p < length pattern" "pattern ! p \<noteq> CHR ''*''" "pattern ! p = text ! t"
    | (retry) "t < length text" "\<not> (p < length pattern \<and> pattern ! p = CHR ''*'')"
        "\<not> (p < length pattern \<and> pattern ! p = text ! t)"
    using "1.prems"(3) by linarith
  then show ?case
  proof cases
    case 1
    then show ?thesis using can_match_end [OF "1.prems"(1) 1] by (subst unfold) simp
  next
    case star
    then have "star_inv pattern (p + 1) t (Some (p, t))" by (simp add: star_inv_def)
    with star "1.IH"(1) "1.prems" show ?thesis
      using can_match_star [OF "1.prems"(1)] by (simp add: unfold)
  next
    case byte
    with star_inv_byte [OF "1.prems"(1)] have "star_inv pattern (p + 1) (t + 1) star" by simp
    with byte "1.IH"(2) show ?thesis using can_match_byte by (simp add: unfold)
  next
    case retry
    have here: "can_match pattern text p t star \<longleftrightarrow> (\<exists>sp st k. star = Some (sp, st) \<and> st < k
        \<and> k \<le> length text \<and> glob_match (drop (Suc sp) pattern) (drop k text))"
      using retry can_match_byte [of p pattern t "text" star]
      by (cases "p < length pattern") (auto simp: can_match_def)
    show ?thesis
    proof (cases star)
      case None
      with retry here show ?thesis by (subst unfold) auto
    next
      case (Some s)
      obtain sp st where s: "star = Some (sp, st)" using Some by (cases s) auto
      then have "star_inv pattern (sp + 1) (st + 1) (Some (sp, st + 1))" "sp + 1 \<le> length pattern"
        "st < length text"
        using "1.prems"(1) retry(1) by (auto simp: star_inv_def)
      with "1.IH"(3) [OF retry(1-3) s refl] here can_match_retry [OF _ s] retry s show ?thesis
        by (subst unfold) auto
    qed
  qed
qed

lemma glob_matches_iff: "glob_matches pattern value \<longleftrightarrow> glob_match pattern value"
  by (simp add: glob_matches_def glob_loop_correct star_inv_def can_match_def)

section \<open>What a rule means\<close>

definition any_match :: "string list \<Rightarrow> string \<Rightarrow> bool" where
  "any_match gs v \<longleftrightarrow> (\<exists>g \<in> set gs. glob_match g v)"

text \<open>At least one id, and every id matched: the reading of the resource keys.\<close>

definition ids_within :: "resource_scope \<Rightarrow> string list \<Rightarrow> bool" where
  "ids_within s gs \<longleftrightarrow> (\<exists>ids. s = Ids ids \<and> ids \<noteq> [] \<and> (\<forall>i \<in> set ids. any_match gs i))"

definition subject_applies :: "subject_matcher \<Rightarrow> principal \<Rightarrow> bool" where
  "subject_applies m pr \<longleftrightarrow> sm_everyone m \<or>
     (\<forall>gs. sm_groups m = Some gs \<longrightarrow> (\<exists>g \<in> set (groups pr). any_match gs g))
     \<and> (\<forall>gs. sm_subjects m = Some gs \<longrightarrow> any_match gs (subject pr))
     \<and> (\<forall>gs. sm_scopes m = Some gs \<longrightarrow> (\<exists>s \<in> set (scopes pr). any_match gs s))"

definition rule_applies :: "compiled_rule \<Rightarrow> action_context \<Rightarrow> bool" where
  "rule_applies r c \<longleftrightarrow>
     subject_applies (rule_subjects r) (ctx_principal c)
     \<and> (\<forall>l. rule_destination_origin r = Some l \<longrightarrow> (\<exists>og \<in> set l. ctx_destination_origin c = Some og))
     \<and> (\<forall>l. rule_vendor r = Some l \<longrightarrow> ctx_vendor c \<in> set l)
     \<and> (\<forall>l. rule_environment r = Some l \<longrightarrow> ctx_environment c \<in> set l)
     \<and> (\<forall>l. rule_tool_name r = Some l \<longrightarrow> any_match l (ctx_tool_name c))
     \<and> (\<forall>l. rule_normalized_action r = Some l \<longrightarrow> ctx_action c \<in> set l)
     \<and> (\<forall>l. rule_request_risk r = Some l \<longrightarrow> ctx_risk c \<in> set l)
     \<and> (\<forall>l. rule_resource_type r = Some l \<longrightarrow> ctx_resource_type c \<in> set l)
     \<and> (\<forall>l. rule_upstream_authority r = Some l \<longrightarrow> up_authority (ctx_upstream c) \<in> set l)
     \<and> (\<forall>l. rule_method r = Some l \<longrightarrow> ctx_method c \<in> set l)
     \<and> (\<forall>l. rule_canonical_path r = Some l \<longrightarrow> any_match l (ctx_path c))
     \<and> (\<forall>l. rule_resource_id r = Some l \<longrightarrow> ids_within (ctx_scope c) l)
     \<and> (rule_resource_scope r = Some CollectionKind \<longrightarrow> ctx_scope c = Collection)
     \<and> (rule_resource_scope r = Some UnscopedKind \<longrightarrow> ctx_scope c = Unscoped)
     \<and> (\<forall>rt l. rule_constrained_by r = Some (rt, l) \<longrightarrow>
          (\<exists>k. ctx_constraint c = Some k \<and> constraint_type k = rt \<and> ids_within (constraint_scope k) l))"

lemma any_glob_iff: "any_glob gs v \<longleftrightarrow> any_match gs v"
  by (simp add: any_glob_def any_match_def glob_matches_iff list_ex_iff)

lemma is_none_or_iff [simp]: "is_none_or x f \<longleftrightarrow> (\<forall>v. x = Some v \<longrightarrow> f v)"
  by (simp add: is_none_or_def split: option.split)

lemma contains_value_iff: "contains_value xs v \<longleftrightarrow> (\<forall>l. xs = Some l \<longrightarrow> v \<in> set l)"
  by (simp add: contains_value_def)

lemma all_ids_within: "scope_wf s \<Longrightarrow> all_ids_allowed s (any_glob gs) \<longleftrightarrow> ids_within s gs"
  by (cases s) (auto simp: ids_within_def list_all_iff any_glob_iff)

lemma subject_matches_iff: "subject_matches m pr \<longleftrightarrow> subject_applies m pr"
  by (auto simp: subject_matches_def subject_applies_def any_glob_iff list_ex_iff)

lemma scope_kind_iff:
  "is_collection s \<longleftrightarrow> s = Collection" "is_unscoped s \<longleftrightarrow> s = Unscoped"
  by (cases s; simp)+

lemma if_eq_None: "(if \<not> b then Some x else y) = None \<longleftrightarrow> b \<and> y = None"
  by simp

lemma rule_matches_iff:
  assumes "context_wf c"
  shows "rule_matches r c \<longleftrightarrow> rule_applies r c"
proof -
  have scope: "all_ids_allowed (ctx_scope c) (any_glob gs) \<longleftrightarrow> ids_within (ctx_scope c) gs" for gs
    using assms by (simp add: context_wf_def all_ids_within)
  have constraint: "all_ids_allowed (constraint_scope k) (any_glob gs) \<longleftrightarrow> ids_within (constraint_scope k) gs"
    if "ctx_constraint c = Some k" for k gs
    using assms that by (simp add: context_wf_def constraint_wf_def all_ids_within)
  have kind: "(\<forall>v. rule_resource_scope r = Some v \<longrightarrow>
        (case v of CollectionKind \<Rightarrow> is_collection (ctx_scope c) | UnscopedKind \<Rightarrow> is_unscoped (ctx_scope c)))
      \<longleftrightarrow> (rule_resource_scope r = Some CollectionKind \<longrightarrow> ctx_scope c = Collection)
        \<and> (rule_resource_scope r = Some UnscopedKind \<longrightarrow> ctx_scope c = Unscoped)"
    by (auto simp: scope_kind_iff split: scope_kind.split)
  have constrained: "(\<forall>v. rule_constrained_by r = Some v \<longrightarrow>
        (case v of (rt, gs) \<Rightarrow> case ctx_constraint c of None \<Rightarrow> False
          | Some k \<Rightarrow> constraint_type k = rt \<and> all_ids_allowed (constraint_scope k) (any_glob gs)))
      \<longleftrightarrow> (\<forall>rt l. rule_constrained_by r = Some (rt, l) \<longrightarrow>
          (\<exists>k. ctx_constraint c = Some k \<and> constraint_type k = rt \<and> ids_within (constraint_scope k) l))"
    by (cases "ctx_constraint c") (auto simp: constraint)
  have origin: "(\<forall>v. rule_destination_origin r = Some v \<longrightarrow>
        (case ctx_destination_origin c of None \<Rightarrow> False | Some origin \<Rightarrow> origin \<in> set v))
      \<longleftrightarrow> (\<forall>l. rule_destination_origin r = Some l \<longrightarrow> (\<exists>og \<in> set l. ctx_destination_origin c = Some og))"
    by (auto split: option.split)
  show ?thesis
    unfolding rule_matches_def mismatch_def rule_applies_def is_none_or_iff contains_value_iff
      any_glob_iff scope kind constrained origin subject_matches_iff
    by (simp only: if_eq_None simp_thms conj_assoc) (rule iffI; elim conjE; intro conjI; assumption)
qed

section \<open>Decisions\<close>

definition applicable :: "policy_effect \<Rightarrow> action_context \<Rightarrow> compiled_rule \<Rightarrow> bool" where
  "applicable effect c r \<longleftrightarrow> rule_matches r c \<and> rule_effect r = effect"

lemma evaluate_loop_find:
  "evaluate_loop v c a rs =
     (case List.find (applicable Deny c) rs of
        Some r \<Rightarrow> decision_by_rule Deny (rule_id r) v
      | None \<Rightarrow>
          (case (case a of Some r \<Rightarrow> Some r | None \<Rightarrow> List.find (applicable Allow c) rs) of
             Some r \<Rightarrow> decision_by_rule Allow (rule_id r) v
           | None \<Rightarrow> decision_default_deny_under v ''no rule allows this call; default deny''))"
proof (induction rs arbitrary: a)
  case (Cons r rs)
  then show ?case
    by (cases "rule_matches r c"; cases "rule_effect r")
       (auto simp: applicable_def split: option.splits)
qed (simp split: option.split)

lemma evaluate_find:
  assumes "ctx_resource_type c \<noteq> Unknown"
  shows "evaluate policy c =
     (case List.find (applicable Deny c) (policy_rules policy) of
        Some r \<Rightarrow> decision_by_rule Deny (rule_id r) (policy_version policy)
      | None \<Rightarrow>
          (case List.find (applicable Allow c) (policy_rules policy) of
             Some r \<Rightarrow> decision_by_rule Allow (rule_id r) (policy_version policy)
           | None \<Rightarrow> decision_default_deny_under (policy_version policy)
                       ''no rule allows this call; default deny''))"
  using assms by (simp add: evaluate_def evaluate_loop_find split: option.split)

lemma decision_simps [simp]:
  "dec_rule_id (decision_by_rule e i v) = Some i"
  "dec_effect (decision_by_rule e i v) = e"
  "dec_policy_version (decision_by_rule e i v) = Some v"
  "dec_rule_id (decision_default_deny_under v reason) = None"
  "dec_effect (decision_default_deny_under v reason) = Deny"
  "dec_policy_version (decision_default_deny_under v reason) = Some v"
  by (simp_all add: decision_by_rule_def decision_default_deny_under_def Let_def)

lemma find_SomeD: "List.find P xs = Some x \<Longrightarrow> x \<in> set xs \<and> P x"
  by (auto simp: find_Some_iff)

text \<open>The rule a decision names is one of the document, it matches, and it has the effect decided.\<close>

lemma decided_rule:
  assumes "dec_rule_id (evaluate policy c) = Some i"
  shows "\<exists>r \<in> set (policy_rules policy). rule_id r = i \<and> rule_matches r c
           \<and> rule_effect r = dec_effect (evaluate policy c) \<and> ctx_resource_type c \<noteq> Unknown"
proof -
  have known: "ctx_resource_type c \<noteq> Unknown" using assms by (auto simp: evaluate_def)
  with assms show ?thesis
    by (auto simp: evaluate_find applicable_def dest!: find_SomeD split: option.splits)
qed

interpretation file_policy: decision_point "evaluate policy" True "Some (policy_version policy)"
  for policy
  by unfold_locales (auto simp: evaluate_def evaluate_loop_find split: option.split)

section \<open>Compiled policies\<close>

definition subject_wf :: "subject_matcher \<Rightarrow> bool" where
  "subject_wf m \<longleftrightarrow>
     (if sm_everyone m then sm_groups m = None \<and> sm_subjects m = None \<and> sm_scopes m = None
      else (sm_groups m \<noteq> None \<or> sm_subjects m \<noteq> None \<or> sm_scopes m \<noteq> None)
        \<and> sm_groups m \<noteq> Some [] \<and> sm_subjects m \<noteq> Some [] \<and> sm_scopes m \<noteq> Some [])"

definition rule_wf :: "compiled_rule \<Rightarrow> bool" where
  "rule_wf r \<longleftrightarrow> trim (rule_id r) \<noteq> '''' \<and> subject_wf (rule_subjects r)
     \<and> is_none_or (rule_resource_type r) (\<lambda>ts. Unknown \<notin> set ts)
     \<and> rule_resource_id r \<noteq> Some []
     \<and> is_none_or (rule_constrained_by r) (\<lambda>(rt, gs). rt \<noteq> Unknown \<and> gs \<noteq> [])"

definition policy_wf :: "compiled_policy \<Rightarrow> bool" where
  "policy_wf policy \<longleftrightarrow> distinct (map rule_id (policy_rules policy)) \<and> list_all rule_wf (policy_rules policy)"

lemma compile_subjects_wf: "compile_subjects i sd = Inr m \<Longrightarrow> subject_wf m"
  by (auto simp: compile_subjects_def subject_wf_def Let_def split: if_splits)

lemma compile_rule_wf:
  assumes "compile_rule rd = Inr r" "trim (rd_id rd) \<noteq> ''''"
  shows "rule_wf r \<and> rule_id r = rd_id rd"
  using assms compile_subjects_wf
  by (auto simp: compile_rule_def Let_def result_simps rule_wf_def compile_constraint_def
      split: if_splits option.splits)

lemma check_rule_ids_Inr:
  "check_rule_ids seen rds = Inr () \<longleftrightarrow>
     distinct (map rd_id rds) \<and> set seen \<inter> set (map rd_id rds) = {} \<and> (\<forall>rd \<in> set rds. trim (rd_id rd) \<noteq> '''')"
  by (induction seen rds rule: check_rule_ids.induct) auto

lemma compile_rules_ids:
  assumes "collect_results compile_rule rds = Inr rs" "\<forall>rd \<in> set rds. trim (rd_id rd) \<noteq> ''''"
  shows "map rule_id rs = map rd_id rds \<and> list_all rule_wf rs"
  using assms
proof (induction rds arbitrary: rs)
  case (Cons rd rds)
  then show ?case using compile_rule_wf by (auto simp: result_simps)
qed simp

lemma compile_policy_wf:
  assumes "compile cr parse_yaml bytes = Inr policy"
  shows "policy_wf policy \<and> length bytes \<le> MAX_DOCUMENT_BYTES
    \<and> (\<exists>n. policy_version policy = version_label cr n bytes)"
  using assms compile_rules_ids
  by (auto simp: compile_def result_simps policy_wf_def check_rule_ids_Inr split: if_splits)

interpretation policy_kind: bundle_kind cr "policy_bundle cr debug parse_yaml"
  for cr debug parse_yaml
  by unfold_locales (auto simp: policy_bundle_def dest: compile_policy_wf)

section \<open>Explanations\<close>

lemma mark_decisive_map:
  "distinct (map trace_id ts) \<Longrightarrow>
     mark_decisive i ts = map (\<lambda>t. if trace_id t = i then t\<lparr>trace_decisive := True\<rparr> else t) ts"
proof (induction i ts rule: mark_decisive.induct)
  case (2 i t ts)
  have "map (\<lambda>t. if trace_id t = i then t\<lparr>trace_decisive := True\<rparr> else t) ts = ts"
    if "trace_id t = i" using that "2.prems" by (intro map_idI) (auto simp: image_iff)
  with 2 show ?case by auto
qed simp

definition trace_of :: "compiled_policy \<Rightarrow> action_context \<Rightarrow> compiled_rule \<Rightarrow> rule_trace" where
  "trace_of policy c r =
     \<lparr>trace_id = rule_id r, trace_effect = rule_effect r, trace_mismatch = mismatch r c,
      trace_decisive = (dec_rule_id (evaluate policy c) = Some (rule_id r))\<rparr>"

lemma explain_traces:
  assumes "policy_wf policy"
  shows "expl_rules (explain policy c) = map (trace_of policy c) (policy_rules policy)"
proof -
  have "dec_rule_id (evaluate policy c) = None" if "ctx_resource_type c = Unknown"
    using that by (simp add: evaluate_def)
  with assms show ?thesis
    by (cases "dec_rule_id (evaluate policy c)")
       (auto simp: explain_def Let_def trace_of_def policy_wf_def mark_decisive_map comp_def)
qed

lemma put_key_apply: "put_key key vs m k = (if k = key \<and> vs \<noteq> [] then Some vs else m k)"
  by (simp add: put_key_def)

lemma is_allow_evaluate:
  assumes "context_wf c"
  shows "is_allow (evaluate policy c) \<longleftrightarrow>
     ctx_resource_type c \<noteq> Unknown
     \<and> (\<exists>r \<in> set (policy_rules policy). rule_effect r = Allow \<and> rule_applies r c)
     \<and> \<not> (\<exists>r \<in> set (policy_rules policy). rule_effect r = Deny \<and> rule_applies r c)"
proof (cases "ctx_resource_type c = Unknown")
  case True
  then show ?thesis by (simp add: evaluate_def)
next
  case False
  then show ?thesis
    using rule_matches_iff [OF assms]
    by (auto simp: evaluate_find applicable_def find_None_iff dest!: find_SomeD split: option.split)
qed

section \<open>Samples\<close>

definition sample_rule :: "string \<Rightarrow> policy_effect \<Rightarrow> string list option \<Rightarrow> compiled_rule" where
  "sample_rule i effect ids =
     \<lparr>rule_id = i, rule_effect = effect,
      rule_subjects = \<lparr>sm_everyone = False, sm_groups = Some [''SRE''], sm_subjects = None,
                       sm_scopes = None\<rparr>,
      rule_vendor = Some [''grafana''], rule_environment = None, rule_tool_name = None,
      rule_normalized_action = None, rule_request_risk = Some [Read],
      rule_resource_type = Some [Datasource], rule_resource_id = ids, rule_resource_scope = None,
      rule_constrained_by = None, rule_upstream_authority = None, rule_method = None,
      rule_canonical_path = None, rule_destination_origin = None\<rparr>"

definition sample_policy :: compiled_policy where
  "sample_policy =
     \<lparr>policy_version = ''v1'', policy_rules =
        [sample_rule ''qa'' Allow (Some [''loki-*'']), sample_rule ''no-prod'' Deny (Some [''*-prod''])]\<rparr>"

definition sample_context :: "string \<Rightarrow> action_context" where
  "sample_context datasource =
     context_assemble
       \<lparr>tenant = ''acme'', subject = ''alice'', groups = [''SRE''], scopes = [],
        authority = Oidc ''https://idp''\<rparr>
       \<lparr>client_name = None, client_version = None\<rparr> None ''grafana_query_logs''
       (details_read QueryLogs ''/'' [] Datasource (scope_ids [datasource])) None
       \<lparr>up_label = ''grafana/TOKEN'', up_vendor = ''grafana'', up_environment = Qa,
        up_authority = Shared, up_provenance = None\<rparr>"

lemma sample_context_wf: "context_wf (sample_context d)"
  by (simp add: sample_context_def context_assemble_wf)

lemma sample_policy_wf: "policy_wf sample_policy"
  by code_simp

section \<open>Properties\<close>

text \<open>C2. The linear two-pointer glob matcher accepts exactly the strings the pattern describes, a
  star standing for any run of bytes and every other byte for itself; it never backtracks past
  the last star, and that loses no match.\<close>

theorem glob_two_pointer_correct: "glob_matches pattern value \<longleftrightarrow> glob_match pattern value"
  by (rule glob_matches_iff)

text \<open>C1. A call is allowed exactly when its resource was classified, some allow rule applies to it
  and no deny rule does: default deny, unclassified calls denied before any rule, and deny over
  allow whatever the order of the rules. A rule applies only if every key it names holds; one
  with a resource key needs at least one id and every id within its patterns.\<close>

theorem allowed_iff:
  assumes "context_wf c"
  shows "is_allow (evaluate policy c) \<longleftrightarrow>
     ctx_resource_type c \<noteq> Unknown
     \<and> (\<exists>r \<in> set (policy_rules policy). rule_effect r = Allow \<and> rule_applies r c)
     \<and> \<not> (\<exists>r \<in> set (policy_rules policy). rule_effect r = Deny \<and> rule_applies r c)"
  by (rule is_allow_evaluate [OF assms])

theorem allowed_iff_witness:
  "is_allow (evaluate sample_policy (sample_context ''loki-qa''))
   \<and> (\<exists>r \<in> set (policy_rules sample_policy). rule_effect r = Allow
        \<and> rule_applies r (sample_context ''loki-qa''))"
proof -
  have "is_allow (evaluate sample_policy (sample_context ''loki-qa''))" by code_simp
  with allowed_iff [OF sample_context_wf] show ?thesis by blast
qed

text \<open>C16. Every decision is attributed: it carries the version of the policy; a denial by rule names
  the first deny rule that matches, an allow the first allow rule that matches, and only a
  default deny names none.\<close>

theorem decision_attribution:
  "dec_policy_version (evaluate policy c) = Some (policy_version policy)
   \<and> dec_rule_id (evaluate policy c) =
       (if ctx_resource_type c = Unknown then None
        else case List.find (applicable Deny c) (policy_rules policy) of
          Some r \<Rightarrow> Some (rule_id r)
        | None \<Rightarrow> map_option rule_id (List.find (applicable Allow c) (policy_rules policy)))"
proof (cases "ctx_resource_type c = Unknown")
  case True
  then show ?thesis by (simp add: evaluate_def)
next
  case False
  then show ?thesis by (simp add: evaluate_find split: option.split)
qed

text \<open>C18. A document that compiles has rules with distinct, non-blank ids; every rule says to whom it
  applies; no rule or constraint names the unknown resource type or an empty list of ids; and
  the version label carries the digest of the exact bytes.\<close>

theorem compiled_policy_wf:
  assumes "compile cr parse_yaml bytes = Inr policy"
  shows "policy_wf policy \<and> length bytes \<le> MAX_DOCUMENT_BYTES
    \<and> (\<exists>n. policy_version policy = version_label cr n bytes)"
  using assms by (rule compile_policy_wf)

theorem compiled_policy_wf_witness:
  "policy_wf \<lparr>policy_version = version_label sample_crypto 3 ''x'', policy_rules = []\<rparr>
   \<and> length ''x'' \<le> MAX_DOCUMENT_BYTES
   \<and> (\<exists>n. policy_version \<lparr>policy_version = version_label sample_crypto 3 ''x'', policy_rules = []\<rparr>
          = version_label sample_crypto n ''x'')"
  by (rule compiled_policy_wf [where parse_yaml =
        "\<lambda>_. Inr \<lparr>pd_version = 3, pd_default = Some ''deny'', pd_rules = []\<rparr>"])
     (simp add: compile_def MAX_DOCUMENT_BYTES_def)

text \<open>\<open>policy explain\<close> tells the truth: it reports the decision evaluation makes, one trace
  per rule in document order, a trace without a mismatch exactly for the rules that match, and
  marks as decisive exactly the rule the decision names, which matches and has the effect
  decided.\<close>

theorem explain_consistent:
  assumes "policy_wf policy"
  shows "expl_decision (explain policy c) = evaluate policy c
    \<and> list_all2 (\<lambda>r t. trace_id t = rule_id r \<and> trace_effect t = rule_effect r
          \<and> (trace_mismatch t = None \<longleftrightarrow> rule_matches r c)
          \<and> (trace_decisive t \<longleftrightarrow> dec_rule_id (evaluate policy c) = Some (rule_id r))
          \<and> (trace_decisive t \<longrightarrow> rule_matches r c \<and> rule_effect r = dec_effect (evaluate policy c)))
        (policy_rules policy) (expl_rules (explain policy c))"
proof -
  have "rule_matches r c \<and> rule_effect r = dec_effect (evaluate policy c)"
    if "r \<in> set (policy_rules policy)" "dec_rule_id (evaluate policy c) = Some (rule_id r)" for r
  proof -
    from decided_rule [OF that(2)] obtain r' where "r' \<in> set (policy_rules policy)"
      "rule_id r' = rule_id r" "rule_matches r' c" "rule_effect r' = dec_effect (evaluate policy c)"
      by blast
    moreover have "inj_on rule_id (set (policy_rules policy))"
      using assms by (simp add: policy_wf_def distinct_map)
    ultimately show ?thesis using that(1) by (auto dest: inj_onD)
  qed
  moreover have "expl_decision (explain policy c) = evaluate policy c"
    by (simp add: explain_def Let_def)
  ultimately show ?thesis
    by (auto simp: explain_traces [OF assms] trace_of_def rule_matches_def list_all2_conv_all_nth)
qed

theorem explain_consistent_witness:
  "expl_decision (explain sample_policy (sample_context ''loki-prod''))
     = evaluate sample_policy (sample_context ''loki-prod'')
   \<and> map trace_decisive (expl_rules (explain sample_policy (sample_context ''loki-prod''))) = [False, True]"
proof -
  have "map trace_decisive (expl_rules (explain sample_policy (sample_context ''loki-prod''))) = [False, True]"
    by code_simp
  with explain_consistent [OF sample_policy_wf] show ?thesis by blast
qed

text \<open>The access review is complete: the rule that decided a call is among the rules the review
  lists for the caller's principal.\<close>

theorem rules_for_complete:
  assumes "dec_rule_id (evaluate policy c) = Some i"
  shows "i \<in> set (map rdesc_id (rules_for policy (ctx_principal c)))"
proof -
  obtain r where r: "r \<in> set (policy_rules policy)" "rule_id r = i" "rule_matches r c"
    using decided_rule [OF assms] by blast
  then have "subject_matches (rule_subjects r) (ctx_principal c)"
    by (auto simp: rule_matches_def mismatch_def split: if_splits)
  with r show ?thesis by (auto simp: rules_for_def describe_rule_def Let_def)
qed

theorem rules_for_complete_witness:
  "''qa'' \<in> set (map rdesc_id (rules_for sample_policy (ctx_principal (sample_context ''loki-qa''))))"
  by (rule rules_for_complete) code_simp

text \<open>A rule whose \<open>vendor\<close> list is empty compiles, matches no call, and is described to the
  access review without the key, as if it matched every vendor.\<close>

theorem empty_vendor_list_described_as_absent:
  "(\<exists>rd r. compile_rule rd = Inr r \<and> rule_vendor r = Some [])
   \<and> (\<forall>(r :: compiled_rule) c. rule_vendor r = Some [] \<longrightarrow>
        \<not> rule_matches r c \<and> rdesc_matches (describe_rule r) ''vendor'' = None)"
proof (intro conjI allI impI)
  let ?m = "\<lparr>md_vendor = Some (Many []), md_environment = None, md_tool_name = None,
    md_normalized_action = None, md_request_risk = None, md_resource_type = None,
    md_resource_id = None, md_resource_scope = None, md_constrained_by = None,
    md_upstream_authority = None, md_method = None, md_canonical_path = None,
    md_destination_origin = None\<rparr>"
  let ?rd = "\<lparr>rd_id = ''r'', rd_effect = Deny, rd_description = None,
    rd_subjects = \<lparr>sd_everyone = Some True, sd_groups = None, sd_subjects = None, sd_scopes = None\<rparr>,
    rd_matcher = ?m\<rparr>"
  show "\<exists>rd r. compile_rule rd = Inr r \<and> rule_vendor r = Some []"
    by (rule exI [of _ ?rd])
       (simp add: compile_rule_def compile_subjects_def parse_environments_def parse_resource_scope_def
         compile_constraint_def parse_methods_def transpose_def globs_def Let_def)
next
  fix r :: compiled_rule and c :: action_context assume "rule_vendor r = Some []"
  then show "\<not> rule_matches r c" by (simp add: rule_matches_def mismatch_def contains_value_def)
next
  fix r :: compiled_rule and c :: action_context assume "rule_vendor r = Some []"
  then show "rdesc_matches (describe_rule r) ''vendor'' = None"
    by (simp add: describe_rule_def put_key_apply unwrap_or_nil_def Let_def
        split: option.split)
qed

theorem empty_vendor_list_described_as_absent_witness:
  "rdesc_matches (describe_rule ((sample_rule ''qa'' Allow None)\<lparr>rule_vendor := Some []\<rparr>)) ''vendor'' = None"
  using empty_vendor_list_described_as_absent by simp

end
