(* ===== verification/Json.thy ===== *)
theory Json
  imports Prelude
begin

text \<open>
  JSON values as \<^verbatim>\<open>serde_json::Value\<close> holds them, with the accessors the code uses. An object is
  the association list of its map, keys distinct; numbers keep serde's three shapes, a float only
  as its text.
\<close>

datatype json =
    JNull
  | JBool bool
  | JUint nat
  | JInt int
  | JFloat string
  | JString string
  | JArray "json list"
  | JObject "(string \<times> json) list"

definition json_get :: "json \<Rightarrow> string \<Rightarrow> json option" where
  "json_get v key = (case v of JObject fields \<Rightarrow> map_of fields key | _ \<Rightarrow> None)"

definition as_str :: "json \<Rightarrow> string option" where
  "as_str v = (case v of JString s \<Rightarrow> Some s | _ \<Rightarrow> None)"

definition as_u64 :: "json \<Rightarrow> nat option" where
  "as_u64 v = (case v of JUint n \<Rightarrow> Some n | _ \<Rightarrow> None)"

definition as_bool :: "json \<Rightarrow> bool option" where
  "as_bool v = (case v of JBool b \<Rightarrow> Some b | _ \<Rightarrow> None)"

definition as_array :: "json \<Rightarrow> json list option" where
  "as_array v = (case v of JArray vs \<Rightarrow> Some vs | _ \<Rightarrow> None)"

definition as_object :: "json \<Rightarrow> (string \<times> json) list option" where
  "as_object v = (case v of JObject fs \<Rightarrow> Some fs | _ \<Rightarrow> None)"

lemma json_accessors [simp]:
  "json_get (JObject fs) key = map_of fs key"
  "as_str (JString s) = Some s"
  "as_u64 (JUint n) = Some n"
  "as_array (JArray vs) = Some vs"
  by (simp_all add: json_get_def as_str_def as_u64_def as_array_def)

lemma as_str_eq_Some: "as_str v = Some s \<longleftrightarrow> v = JString s"
  by (cases v) (auto simp: as_str_def)

lemma as_u64_eq_Some: "as_u64 v = Some n \<longleftrightarrow> v = JUint n"
  by (cases v) (auto simp: as_u64_def)

end
