(* ===== verification/Chain.thy ===== *)
theory Chain
  imports Signing Json
begin

text \<open>
  The hash chain and the signed checkpoints of the audit journal,
  \<^verbatim>\<open>src/audit/checkpoint.rs\<close>. A chain value is its digest bytes. The serializer and
  deserializer that serde derives for a checkpoint are the codec's, in the theory of the journal.
\<close>

section \<open>The code\<close>

definition CHECKPOINT_KIND :: string where
  "CHECKPOINT_KIND = ''checkpoint''"

definition CHAIN_SEED :: string where
  "CHAIN_SEED = ''mcp-devtools/audit-journal/chain/v1''"

definition chain_genesis :: "crypto \<Rightarrow> string" where
  "chain_genesis cr = cr_sha256 cr CHAIN_SEED"

definition chain_extend :: "crypto \<Rightarrow> string \<Rightarrow> string \<Rightarrow> string" where
  "chain_extend cr chain line = cr_sha256 cr (chain @ line)"

definition chain_label :: "string \<Rightarrow> string" where
  "chain_label chain = ''sha256:'' @ hex_string chain"

text \<open>\<open>u8::from_str_radix(text, 16)\<close> on two bytes: a leading plus sign is accepted.\<close>

definition from_str_radix_16 :: "char \<Rightarrow> char \<Rightarrow> char option" where
  "from_str_radix_16 a b =
     (if a = CHR ''+'' then map_option char_of (hex_value b)
      else case (hex_value a, hex_value b) of
             (Some h, Some l) \<Rightarrow> Some (char_of (h * 16 + l))
           | _ \<Rightarrow> None)"

fun parse_hex_pairs :: "string \<Rightarrow> string option" where
  "parse_hex_pairs [] = Some []"
| "parse_hex_pairs [a] = None"
| "parse_hex_pairs (a # b # r) =
     (case from_str_radix_16 a b of
        None \<Rightarrow> None
      | Some c \<Rightarrow> map_option (Cons c) (parse_hex_pairs r))"

definition chain_parse :: "string \<Rightarrow> string option" where
  "chain_parse label =
     (case strip_prefix ''sha256:'' label of
        None \<Rightarrow> None
      | Some hex \<Rightarrow> if length hex \<noteq> 64 then None else parse_hex_pairs hex)"

record checkpoint =
  cp_timestamp :: string
  cp_covers_from :: nat
  cp_covers_to :: nat
  cp_chain :: string
  cp_previous_checkpoint :: "nat option"
  cp_key_id :: "string option"
  cp_signature :: "string option"

definition checkpoint_new :: "nat \<Rightarrow> nat \<Rightarrow> string \<Rightarrow> nat option \<Rightarrow> string \<Rightarrow> checkpoint" where
  "checkpoint_new seq covers_from chain previous timestamp =
     \<lparr>cp_timestamp = timestamp, cp_covers_from = covers_from, cp_covers_to = seq - 1,
      cp_chain = chain_label chain, cp_previous_checkpoint = previous, cp_key_id = None,
      cp_signature = None\<rparr>"

definition push_line :: "string \<Rightarrow> string \<Rightarrow> string" where
  "push_line payload v = payload @ v @ [CHR 0x0A]"

definition signing_payload :: "checkpoint \<Rightarrow> nat \<Rightarrow> string" where
  "signing_payload cp seq =
     (let p0 = ''checkpoint'' @ [CHR 0x0A];
          p1 = push_line p0 (dec_string seq);
          p2 = push_line p1 (dec_string (cp_covers_from cp));
          p3 = push_line p2 (dec_string (cp_covers_to cp));
          p4 = push_line p3 (cp_chain cp);
          p5 = push_line p4 (case cp_previous_checkpoint cp of None \<Rightarrow> '''' | Some s \<Rightarrow> dec_string s)
      in push_line p5 (cp_timestamp cp))"

definition checkpoint_sign :: "crypto \<Rightarrow> nat \<Rightarrow> string \<Rightarrow> checkpoint \<Rightarrow> checkpoint" where
  "checkpoint_sign cr seq pair cp =
     cp\<lparr>cp_key_id := Some (verifying_key_id cr (verifying_key cr pair)),
        cp_signature := Some (cr_base64_encode cr (sign cr pair AuditCheckpoint (signing_payload cp seq)))\<rparr>"

definition checkpoint_verify ::
  "crypto \<Rightarrow> nat \<Rightarrow> string list \<Rightarrow> checkpoint \<Rightarrow> string + string option" where
  "checkpoint_verify cr seq keys cp =
     (case (cp_key_id cp, cp_signature cp) of
        (Some kid, Some signature) \<Rightarrow>
          and_then (ok_or (''signed with unknown key '' @ kid)
                     (List.find (\<lambda>key. verifying_key_id cr key = kid) keys)) (\<lambda>key.
          and_then (map_err (\<lambda>error. ''signature: '' @ error) (signature_from_base64 cr signature)) (\<lambda>s.
          and_then (verify cr key AuditCheckpoint (signing_payload cp seq) s) (\<lambda>_.
          Inr (Some kid))))
      | (None, None) \<Rightarrow> Inr None
      | _ \<Rightarrow> Inl ''checkpoint carries a key id or a signature, not both'')"

section \<open>Labels\<close>

lemma hex_value_hex_lower: "n < 16 \<Longrightarrow> hex_value (hex_lower n) = Some n"
  by (simp add: hex_value_def byte_val_hex_lower Let_def)

lemma hex_lower_not_plus: "n < 16 \<Longrightarrow> hex_lower n \<noteq> CHR ''+''"
  using hex_lower_graphic [of n] byte_val_hex_lower [of n] by (auto split: if_splits)

lemma from_str_radix_hex_byte:
  "from_str_radix_16 (hex_lower (byte_val b div 16)) (hex_lower (byte_val b mod 16)) = Some b"
proof -
  have "byte_val b div 16 < 16" using byte_val_less [of b] by linarith
  then show ?thesis
    by (simp add: from_str_radix_16_def hex_value_hex_lower hex_lower_not_plus)
qed

lemma parse_hex_pairs_hex_string: "parse_hex_pairs (hex_string bs) = Some bs"
  by (induction bs) (simp_all add: hex_string_def hex_byte_def from_str_radix_hex_byte)

lemma chain_parse_label: "length chain = 32 \<Longrightarrow> chain_parse (chain_label chain) = Some chain"
  by (simp add: chain_parse_def chain_label_def strip_prefix_def starts_with_def
      parse_hex_pairs_hex_string)

lemma chain_label_inject [simp]: "chain_label a = chain_label b \<longleftrightarrow> a = b"
  by (simp add: chain_label_def)

section \<open>Signed checkpoints\<close>

lemma checkpoint_verify_sign:
  assumes "crypto_documented cr" "cp_key_id cp = None" "cp_signature cp = None"
    and "verifying_key cr pair \<in> set keys" "inj_on (verifying_key_id cr) (set keys)"
  shows "checkpoint_verify cr seq keys (checkpoint_sign cr seq pair cp)
    = Inr (Some (verifying_key_id cr (verifying_key cr pair)))"
proof -
  have found: "List.find (\<lambda>key. verifying_key_id cr key = verifying_key_id cr (verifying_key cr pair)) keys
      = Some (verifying_key cr pair)"
  proof (cases "List.find (\<lambda>key. verifying_key_id cr key = verifying_key_id cr (verifying_key cr pair)) keys")
    case None
    with assms(4) show ?thesis by (auto simp: find_None_iff)
  next
    case (Some key)
    then have "key \<in> set keys" "verifying_key_id cr key = verifying_key_id cr (verifying_key cr pair)"
      by (auto simp: find_Some_iff)
    with assms(4,5) Some show ?thesis by (auto dest: inj_onD)
  qed
  have payload: "signing_payload (cp\<lparr>cp_key_id := k, cp_signature := s\<rparr>) seq = signing_payload cp seq"
    for k s by (simp add: signing_payload_def)
  have sig: "signature_from_base64 cr (cr_base64_encode cr (sign cr pair AuditCheckpoint m))
      = Inr (sign cr pair AuditCheckpoint m)" for m
    using assms(1) trim_graphic
    by (simp add: signature_from_base64_def crypto_documented_def sign_def)
  show ?thesis
    using verify_sign [OF assms(1)]
    by (simp add: checkpoint_verify_def checkpoint_sign_def payload found sig)
qed

section \<open>The chain binds the lines\<close>

definition chain_of :: "crypto \<Rightarrow> string list \<Rightarrow> string" where
  "chain_of cr lines = foldl (chain_extend cr) (chain_genesis cr) lines"

text \<open>Everything that is hashed while the chain over some lines is computed.\<close>

definition chain_inputs :: "crypto \<Rightarrow> string list \<Rightarrow> string set" where
  "chain_inputs cr lines =
     insert CHAIN_SEED ((\<lambda>i. chain_of cr (take i lines) @ lines ! i) ` {..<length lines})"

definition hash_collision :: "crypto \<Rightarrow> string list \<Rightarrow> string list \<Rightarrow> bool" where
  "hash_collision cr ls ls' \<longleftrightarrow>
     (\<exists>x \<in> chain_inputs cr ls. \<exists>y \<in> chain_inputs cr ls'. x \<noteq> y \<and> cr_sha256 cr x = cr_sha256 cr y)"

definition is_line :: "string \<Rightarrow> bool" where
  "is_line l \<longleftrightarrow> (\<exists>m. l = m @ [CHR 0x0A] \<and> CHR 0x0A \<notin> set m)"

lemma chain_of_simps [simp]:
  "chain_of cr [] = chain_genesis cr"
  "chain_of cr (ls @ [l]) = chain_extend cr (chain_of cr ls) l"
  by (simp_all add: chain_of_def)

lemma chain_inputs_snoc:
  "chain_inputs cr (ls @ [l]) = insert (chain_of cr ls @ l) (chain_inputs cr ls)"
proof -
  have "(\<lambda>i. chain_of cr (take i (ls @ [l])) @ (ls @ [l]) ! i) ` {..<length ls}
      = (\<lambda>i. chain_of cr (take i ls) @ ls ! i) ` {..<length ls}"
    by (rule image_cong) (simp_all add: nth_append)
  then show ?thesis by (simp add: chain_inputs_def lessThan_Suc insert_commute)
qed

lemma chain_length: "crypto_documented cr \<Longrightarrow> length (chain_of cr ls) = 32"
  by (cases ls rule: rev_cases)
     (simp_all add: crypto_documented_def chain_genesis_def chain_extend_def)

lemma seed_not_extended: "length c = 32 \<Longrightarrow> is_line l \<Longrightarrow> CHAIN_SEED \<noteq> c @ l"
proof
  assume c: "length c = 32" and l: "is_line l" and eq: "CHAIN_SEED = c @ l"
  have "last CHAIN_SEED = CHR ''1''" by (simp add: CHAIN_SEED_def)
  moreover have "last (c @ l) = CHR 0x0A" using l by (auto simp: is_line_def)
  ultimately show False using eq by simp
qed

lemma seed_input: "CHAIN_SEED \<in> chain_inputs cr ls"
  by (simp add: chain_inputs_def)

lemma hash_collision_snoc:
  "hash_collision cr ls ls' \<Longrightarrow> hash_collision cr (ls @ [l]) (ls' @ [l'])"
  by (auto simp: hash_collision_def chain_inputs_snoc)

lemma hash_collision_sym: "hash_collision cr ls ls' \<Longrightarrow> hash_collision cr ls' ls"
  by (auto simp: hash_collision_def) (metis+)

lemma genesis_binds:
  assumes "crypto_documented cr" "is_line l" "chain_of cr (ls @ [l]) = chain_genesis cr"
  shows "hash_collision cr (ls @ [l]) []"
proof -
  have "chain_of cr ls @ l \<noteq> CHAIN_SEED"
    using seed_not_extended [OF chain_length [OF assms(1)] assms(2)] by metis
  then show ?thesis
    using assms(3) seed_input
    by (auto simp: hash_collision_def chain_inputs_snoc chain_extend_def chain_genesis_def)
qed

lemma chain_binds:
  assumes "crypto_documented cr" "list_all is_line ls" "list_all is_line ls'"
    and "chain_of cr ls = chain_of cr ls'"
  shows "ls = ls' \<or> hash_collision cr ls ls'"
  using assms(2-)
proof (induction ls arbitrary: ls' rule: rev_induct)
  case Nil
  show ?case
  proof (cases ls' rule: rev_cases)
    case (snoc ks k)
    with Nil genesis_binds [OF assms(1), of k ks] hash_collision_sym show ?thesis by auto
  qed simp
next
  case (snoc l ls)
  show ?case
  proof (cases ls' rule: rev_cases)
    case Nil
    with snoc.prems genesis_binds [OF assms(1), of l ls] show ?thesis by auto
  next
    case (snoc ks k)
    have digest: "cr_sha256 cr (chain_of cr ls @ l) = cr_sha256 cr (chain_of cr ks @ k)"
      using snoc.prems(3) snoc by (simp add: chain_extend_def)
    show ?thesis
    proof (cases "chain_of cr ls @ l = chain_of cr ks @ k")
      case True
      then have "chain_of cr ls = chain_of cr ks \<and> l = k"
        using chain_length [OF assms(1)] by (metis append_eq_append_conv)
      then show ?thesis
        using snoc.IH [of ks] snoc.prems snoc hash_collision_snoc by auto
    next
      case False
      with digest snoc show ?thesis by (auto simp: hash_collision_def chain_inputs_snoc)
    qed
  qed
qed

section \<open>A signature covers every field\<close>

lemma dec_string_no_newline: "CHR 0x0A \<notin> set (dec_string n)"
  using dec_string_digits [of "CHR 0x0A" n] by (auto simp: is_ascii_digit_def)

definition previous_text :: "nat option \<Rightarrow> string" where
  "previous_text p = (case p of None \<Rightarrow> '''' | Some s \<Rightarrow> dec_string s)"

lemma previous_text_no_newline: "CHR 0x0A \<notin> set (previous_text p)"
  by (simp add: previous_text_def dec_string_no_newline split: option.split)

lemma previous_text_inject: "previous_text p = previous_text q \<Longrightarrow> p = q"
  by (cases p; cases q) (auto simp: previous_text_def dest: sym)

lemma signing_payload_eq:
  "signing_payload cp seq = ''checkpoint'' @ CHR 0x0A # dec_string seq @ CHR 0x0A #
     dec_string (cp_covers_from cp) @ CHR 0x0A # dec_string (cp_covers_to cp) @ CHR 0x0A #
     cp_chain cp @ CHR 0x0A # previous_text (cp_previous_checkpoint cp) @ CHR 0x0A #
     cp_timestamp cp @ [CHR 0x0A]"
  by (simp add: signing_payload_def push_line_def previous_text_def)

lemma signing_payload_inject:
  assumes "signing_payload cp seq = signing_payload cp' seq'"
    and "CHR 0x0A \<notin> set (cp_chain cp)" "CHR 0x0A \<notin> set (cp_chain cp')"
  shows "seq = seq' \<and> cp_covers_from cp = cp_covers_from cp' \<and> cp_covers_to cp = cp_covers_to cp'
    \<and> cp_chain cp = cp_chain cp' \<and> cp_previous_checkpoint cp = cp_previous_checkpoint cp'
    \<and> cp_timestamp cp = cp_timestamp cp'"
proof -
  note free = dec_string_no_newline previous_text_no_newline
  from assms(1) have e1: "dec_string seq @ CHR 0x0A # dec_string (cp_covers_from cp) @ CHR 0x0A #
       dec_string (cp_covers_to cp) @ CHR 0x0A # cp_chain cp @ CHR 0x0A #
       previous_text (cp_previous_checkpoint cp) @ CHR 0x0A # cp_timestamp cp @ [CHR 0x0A]
     = dec_string seq' @ CHR 0x0A # dec_string (cp_covers_from cp') @ CHR 0x0A #
       dec_string (cp_covers_to cp') @ CHR 0x0A # cp_chain cp' @ CHR 0x0A #
       previous_text (cp_previous_checkpoint cp') @ CHR 0x0A # cp_timestamp cp' @ [CHR 0x0A]"
    by (simp only: signing_payload_eq same_append_eq list.inject)
  note s1 = delimited_inject [OF e1 free(1) free(1)]
  note s2 = delimited_inject [OF conjunct2 [OF s1] free(1) free(1)]
  note s3 = delimited_inject [OF conjunct2 [OF s2] free(1) free(1)]
  note s4 = delimited_inject [OF conjunct2 [OF s3] assms(2,3)]
  note s5 = delimited_inject [OF conjunct2 [OF s4] free(2) free(2)]
  from s1 s2 s3 s4 s5 show ?thesis by (auto dest: previous_text_inject)
qed

end
