(* ===== verification/Journal.thy ===== *)
theory Journal
  imports Chain
begin

text \<open>
  The durable audit journal, \<^verbatim>\<open>src/audit/journal.rs\<close>: the writer thread that assigns
  sequence numbers, batches, checkpoints and poisons itself, and the recovery that accounts for an
  existing file. The file is its bytes. One iteration of the writer loop is a function of the
  queue; what the operating system decides (whether a write succeeds and how many bytes reach the
  file when it does not, whether an export succeeds, the clock) is the record \<open>environment\<close>.
  \<^verbatim>\<open>serde_json\<close> is the record \<open>codec\<close>, with \<open>codec_documented\<close> for what
  the proofs use of it. Opening and locking the file and directory syncing are not modelled.
\<close>

section \<open>The code\<close>

record codec =
  js_parse :: "string \<Rightarrow> json option"
  js_error :: "string \<Rightarrow> string"
  js_checkpoint_to :: "checkpoint \<Rightarrow> string"
  js_checkpoint_from :: "json \<Rightarrow> string + checkpoint"

definition MAX_BATCH :: nat where
  "MAX_BATCH = 256"

datatype message = Record (record_body: string) | Tick

record checkpoint_policy =
  pol_every_records :: nat
  pol_every_seconds :: nat
  pol_signing_key :: "string option"
  pol_export :: bool

definition policy_unsigned :: checkpoint_policy where
  "policy_unsigned =
     \<lparr>pol_every_records = 256, pol_every_seconds = 60, pol_signing_key = None, pol_export = False\<rparr>"

text \<open>The digit loop of \<open>render_u64\<close>, filling the buffer from its end.\<close>

function render_digits :: "nat \<Rightarrow> string \<Rightarrow> string" where
  "render_digits v digits =
     (let digits' = char_of (48 + v mod 10) # digits; v' = v div 10 in
      if v' = 0 then digits' else render_digits v' digits')"
  by pat_completeness auto
termination by (relation "measure fst") auto

declare render_digits.simps [simp del]

definition render_u64 :: "nat \<Rightarrow> string" where
  "render_u64 v = render_digits v []"

text \<open>The line of a record: the sequence spliced into the object, and a line feed.\<close>

definition SEQ_PREFIX :: string where
  "SEQ_PREFIX = CHR ''{'' # CHR 0x22 # ''seq'' @ CHR 0x22 # '':''"

definition record_line :: "nat \<Rightarrow> string \<Rightarrow> string" where
  "record_line seq body = SEQ_PREFIX @ render_u64 seq @ '','' @ tl body @ [CHR 0x0A]"

definition sequence_exhausted :: io_error where
  "sequence_exhausted =
     IoError OtherKind ''audit journal sequence space exhausted; refusing to reuse sequence numbers''"

text \<open>\<open>write_batch\<close>: one write and one sync. When either fails, some prefix of the buffer is in
  the file.\<close>

datatype write_outcome = Written | WriteFailed io_error nat

fun write_batch :: "write_outcome \<Rightarrow> string \<Rightarrow> string \<Rightarrow> (io_error + unit) \<times> string" where
  "write_batch Written buffer file = (Inr (), file @ buffer)"
| "write_batch (WriteFailed e k) buffer file = (Inl e, file @ take k buffer)"

record environment =
  env_now :: nat
  env_timestamp :: string
  env_batch :: write_outcome
  env_checkpoint :: write_outcome
  env_export :: bool

record writer_state =
  ws_last_seq :: nat
  ws_chain :: string
  ws_last_checkpoint :: "nat option"
  ws_since_checkpoint :: nat
  ws_last_checkpoint_at :: nat

record journal =
  j_file :: string
  j_state :: writer_state
  j_poison :: "io_error option"
  j_exported :: "(nat \<times> string) list"

definition is_available :: "journal \<Rightarrow> bool" where
  "is_available j \<longleftrightarrow> j_poison j = None"

definition build_checkpoint ::
  "crypto \<Rightarrow> checkpoint_policy \<Rightarrow> environment \<Rightarrow> nat \<Rightarrow> writer_state \<Rightarrow> checkpoint" where
  "build_checkpoint cr pol env seq ws =
     (let covers_from = (case ws_last_checkpoint ws of None \<Rightarrow> 1 | Some previous \<Rightarrow> previous + 1);
          cp = checkpoint_new seq covers_from (ws_chain ws) (ws_last_checkpoint ws) (env_timestamp env)
      in case pol_signing_key pol of None \<Rightarrow> cp | Some key \<Rightarrow> checkpoint_sign cr seq key cp)"

definition writer_checkpoint ::
  "crypto \<Rightarrow> codec \<Rightarrow> checkpoint_policy \<Rightarrow> environment \<Rightarrow> journal \<Rightarrow> (io_error + unit) \<times> journal" where
  "writer_checkpoint cr co pol env j =
     (let ws = j_state j in
      case checked_add_u64 (ws_last_seq ws) 1 of
        None \<Rightarrow> (Inl sequence_exhausted, j)
      | Some seq \<Rightarrow>
          (let line = record_line seq (js_checkpoint_to co (build_checkpoint cr pol env seq ws)) in
           case write_batch (env_checkpoint env) line (j_file j) of
             (Inl e, file) \<Rightarrow> (Inl e, j\<lparr>j_file := file\<rparr>)
           | (Inr _, file) \<Rightarrow>
               (Inr (), j\<lparr>j_file := file,
                   j_state := \<lparr>ws_last_seq = seq, ws_chain = chain_extend cr (ws_chain ws) line,
                     ws_last_checkpoint = Some seq, ws_since_checkpoint = 0,
                     ws_last_checkpoint_at = env_now env\<rparr>,
                   j_exported := (if pol_export pol \<and> env_export env
                                  then j_exported j @ [(seq, line)] else j_exported j)\<rparr>)))"

text \<open>\<open>fail_batch\<close>: poison the journal, refuse the records in hand.\<close>

type_synonym acks = "(string \<times> (io_error + nat)) list"

definition fail_batch :: "string list \<Rightarrow> io_error \<Rightarrow> journal \<Rightarrow> acks \<times> journal" where
  "fail_batch batch e j = (map (\<lambda>b. (b, Inl e)) batch, j\<lparr>j_poison := Some e\<rparr>)"

text \<open>The rendering loop over a batch: the lines, and whether the numbers ran out.\<close>

fun render_batch :: "nat \<Rightarrow> string list \<Rightarrow> string list \<times> bool" where
  "render_batch seq [] = ([], False)"
| "render_batch seq (b # bs) =
     (case checked_add_u64 seq 1 of
        None \<Rightarrow> ([record_line seq b], True)
      | Some seq' \<Rightarrow>
          (case render_batch seq' bs of (ls, ex) \<Rightarrow> (record_line seq b # ls, ex)))"

fun ack_batch :: "nat \<Rightarrow> string list \<Rightarrow> acks" where
  "ack_batch acked [] = []"
| "ack_batch acked (b # bs) = (b, Inr acked) # ack_batch (acked + 1) bs"

definition after_checkpoint :: "acks \<Rightarrow> (io_error + unit) \<times> journal \<Rightarrow> acks \<times> journal" where
  "after_checkpoint done r =
     (case r of (Inr _, j) \<Rightarrow> (done, j) | (Inl e, j) \<Rightarrow> (done, snd (fail_batch [] e j)))"

definition writer_batch ::
  "crypto \<Rightarrow> codec \<Rightarrow> checkpoint_policy \<Rightarrow> environment \<Rightarrow> string list \<Rightarrow> journal \<Rightarrow> acks \<times> journal" where
  "writer_batch cr co pol env batch j =
     (case j_poison j of
        Some e \<Rightarrow> (map (\<lambda>b. (b, Inl e)) batch, j)
      | None \<Rightarrow>
          (let ws = j_state j in
           case checked_add_u64 (ws_last_seq ws) 1 of
             None \<Rightarrow> fail_batch batch sequence_exhausted j
           | Some first_seq \<Rightarrow>
               (case render_batch first_seq batch of (ls, exhausted) \<Rightarrow>
                 if exhausted then fail_batch batch sequence_exhausted j
                 else (case write_batch (env_batch env) (concat ls) (j_file j) of
                   (Inl e, file) \<Rightarrow> fail_batch batch e (j\<lparr>j_file := file\<rparr>)
                 | (Inr _, file) \<Rightarrow>
                     (let j' = j\<lparr>j_file := file,
                           j_state := ws\<lparr>ws_chain := foldl (chain_extend cr) (ws_chain ws) ls,
                             ws_last_seq := ws_last_seq ws + length batch,
                             ws_since_checkpoint := ws_since_checkpoint ws + length ls\<rparr>\<rparr>
                      in if pol_every_records pol \<le> ws_since_checkpoint (j_state j')
                         then after_checkpoint (ack_batch first_seq batch) (writer_checkpoint cr co pol env j')
                         else (ack_batch first_seq batch, j'))))))"

text \<open>The inner loop that drains what is queued, up to the records there is room for; a tick it
  drains leaves no trace.\<close>

fun drain :: "nat \<Rightarrow> message list \<Rightarrow> string list \<times> message list" where
  "drain 0 queue = ([], queue)"
| "drain (Suc room) [] = ([], [])"
| "drain (Suc room) (Record b # queue) = (case drain room queue of (bs, q) \<Rightarrow> (b # bs, q))"
| "drain (Suc room) (Tick # queue) = drain (Suc room) queue"

fun writer_iteration ::
  "crypto \<Rightarrow> codec \<Rightarrow> checkpoint_policy \<Rightarrow> environment \<Rightarrow> message list \<Rightarrow> journal
     \<Rightarrow> acks \<times> message list \<times> journal" where
  "writer_iteration cr co pol env [] j = ([], [], j)"
| "writer_iteration cr co pol env (Tick # queue) j =
     (if j_poison j = None \<and> 0 < ws_since_checkpoint (j_state j)
           \<and> pol_every_seconds pol \<le> env_now env - ws_last_checkpoint_at (j_state j)
      then (case after_checkpoint [] (writer_checkpoint cr co pol env j) of (acks, j') \<Rightarrow> (acks, queue, j'))
      else ([], queue, j))"
| "writer_iteration cr co pol env (Record first # queue) j =
     (case drain (MAX_BATCH - 1) queue of (batch, queue') \<Rightarrow>
        (case writer_batch cr co pol env (first # batch) j of (acks, j') \<Rightarrow> (acks, queue', j')))"

text \<open>What the loop does when the channel is closed.\<close>

definition writer_close ::
  "crypto \<Rightarrow> codec \<Rightarrow> checkpoint_policy \<Rightarrow> environment \<Rightarrow> journal \<Rightarrow> journal" where
  "writer_close cr co pol env j =
     (if j_poison j = None \<and> 0 < ws_since_checkpoint (j_state j)
      then snd (writer_checkpoint cr co pol env j) else j)"

text \<open>The check of \<open>enqueue\<close> before a record is handed to the writer.\<close>

definition enqueue_check :: "string \<Rightarrow> io_error + message" where
  "enqueue_check body =
     (if length body < 3 \<or> hd body \<noteq> CHR ''{''
      then Inl (IoError OtherKind ''audit event did not serialize to a JSON object'')
      else Inr (Record body))"

subsection \<open>Recovery\<close>

record recovered =
  rec_last_seq :: nat
  rec_chain :: string
  rec_last_checkpoint :: "nat option"
  rec_since_checkpoint :: nat

definition parse_seq :: "codec \<Rightarrow> string \<Rightarrow> (nat \<times> bool) option" where
  "parse_seq co line =
     (case js_parse co line of
        None \<Rightarrow> None
      | Some v \<Rightarrow>
          (case Option.bind (json_get v ''seq'') as_u64 of
             None \<Rightarrow> None
           | Some seq \<Rightarrow> Some (seq, Option.bind (json_get v ''kind'') as_str = Some CHECKPOINT_KIND)))"

definition corrupt :: "string \<Rightarrow> nat \<Rightarrow> string \<Rightarrow> io_error" where
  "corrupt path at detail =
     IoError InvalidData (''the audit journal at '' @ path @ '' is corrupt at record '' @ dec_string at
       @ '': '' @ detail @ ''. Refusing to start: appending to evidence that cannot be verified ''
       @ ''would hide whatever damaged it. Archive the file and investigate.'')"

text \<open>\<open>read_until(b'\n')\<close>: up to and including the first line feed, and what follows.\<close>

definition read_line :: "string \<Rightarrow> string \<times> string" where
  "read_line s =
     (case split_once CHR 0x0A s of None \<Rightarrow> (s, []) | Some (a, b) \<Rightarrow> (a @ [CHR 0x0A], b))"

lemma read_line_length: "s \<noteq> [] \<Longrightarrow> length (snd (read_line s)) < length s"
  by (auto simp: read_line_def dest: split_once_Some split: option.split)

text \<open>The loop of \<open>recover\<close>; the result carries the length the file is truncated to when its
  last line is torn.\<close>

function recover_loop ::
  "crypto \<Rightarrow> codec \<Rightarrow> string \<Rightarrow> string \<Rightarrow> nat \<Rightarrow> nat \<Rightarrow> string \<Rightarrow> nat option \<Rightarrow> nat
     \<Rightarrow> io_error + (recovered \<times> nat option)" where
  "recover_loop cr co path bytes complete_len expected chain last_checkpoint since =
     (if bytes = [] then
        Inr (\<lparr>rec_last_seq = expected - 1, rec_chain = chain, rec_last_checkpoint = last_checkpoint,
              rec_since_checkpoint = since\<rparr>, None)
      else if last (fst (read_line bytes)) \<noteq> CHR 0x0A then
        Inr (\<lparr>rec_last_seq = expected - 1, rec_chain = chain, rec_last_checkpoint = last_checkpoint,
              rec_since_checkpoint = since\<rparr>, Some complete_len)
      else
        (case parse_seq co (butlast (fst (read_line bytes))) of
           None \<Rightarrow> Inl (corrupt path expected ''record is not a JSON object with a numeric `seq`'')
         | Some (seq, is_checkpoint) \<Rightarrow>
             if seq \<noteq> expected
             then Inl (corrupt path expected (''out-of-order or duplicated sequence '' @ dec_string seq))
             else (case checked_add_u64 expected 1 of
                     None \<Rightarrow> Inl (corrupt path expected ''sequence space exhausted'')
                   | Some expected' \<Rightarrow>
                       recover_loop cr co path (snd (read_line bytes))
                         (complete_len + length (fst (read_line bytes))) expected'
                         (chain_extend cr chain (fst (read_line bytes)))
                         (if is_checkpoint then Some seq else last_checkpoint)
                         (if is_checkpoint then 0 else since + 1))))"
  by pat_completeness auto
termination by (relation "measure (\<lambda>(cr, co, path, bytes, _). length bytes)") (auto simp: read_line_length)

declare recover_loop.simps [simp del]

definition recover :: "crypto \<Rightarrow> codec \<Rightarrow> string \<Rightarrow> string \<Rightarrow> (io_error + recovered) \<times> string" where
  "recover cr co path file =
     (case recover_loop cr co path file 0 1 (chain_genesis cr) None 0 of
        Inl e \<Rightarrow> (Inl e, file)
      | Inr (r, None) \<Rightarrow> (Inr r, file)
      | Inr (r, Some len) \<Rightarrow> (Inr r, take len file))"

text \<open>The state the writer thread starts from.\<close>

definition writer_start :: "nat \<Rightarrow> recovered \<Rightarrow> string \<Rightarrow> journal" where
  "writer_start now r file =
     \<lparr>j_file = file,
      j_state = \<lparr>ws_last_seq = rec_last_seq r, ws_chain = rec_chain r,
        ws_last_checkpoint = rec_last_checkpoint r, ws_since_checkpoint = rec_since_checkpoint r,
        ws_last_checkpoint_at = now\<rparr>,
      j_poison = None, j_exported = []\<rparr>"

section \<open>What the proofs use of the serializer\<close>

text \<open>A body the writer can number: one object on one line, not empty, without a \<open>seq\<close> of
  its own, with its kind.\<close>

definition spliceable :: "codec \<Rightarrow> string \<Rightarrow> (string \<times> json) list \<Rightarrow> string \<Rightarrow> bool" where
  "spliceable co body fs kind \<longleftrightarrow>
     3 \<le> length body \<and> hd body = CHR ''{'' \<and> CHR 0x0A \<notin> set body
     \<and> js_parse co body = Some (JObject fs) \<and> fs \<noteq> [] \<and> map_of fs ''seq'' = None
     \<and> map_of fs ''kind'' = Some (JString kind)"

definition event_body :: "codec \<Rightarrow> string \<Rightarrow> bool" where
  "event_body co body \<longleftrightarrow> (\<exists>fs kind. spliceable co body fs kind \<and> kind \<noteq> CHECKPOINT_KIND)"

text \<open>
  \<^item> A member put in front of those of an object is a member of the object parsed.
  \<^item> A checkpoint serializes to one object on one line that carries its kind and no
    \<open>seq\<close>, and deserializes from it, whatever members it does not know are added.
\<close>

definition codec_documented :: "codec \<Rightarrow> bool" where
  "codec_documented co \<longleftrightarrow>
     (\<forall>n body fs kind. n \<le> u64_max \<longrightarrow> spliceable co body fs kind \<longrightarrow>
        (\<exists>gs. js_parse co (SEQ_PREFIX @ dec_string n @ '','' @ tl body) = Some (JObject gs)
              \<and> map_of gs = (map_of fs)(''seq'' \<mapsto> JUint n)))
   \<and> (\<forall>cp. \<exists>fs. spliceable co (js_checkpoint_to co cp) fs CHECKPOINT_KIND
        \<and> (\<forall>gs n. map_of gs = (map_of fs)(''seq'' \<mapsto> JUint n) \<longrightarrow>
              js_checkpoint_from co (JObject gs) = Inr cp))"

section \<open>Rendering\<close>

lemma render_digits_dec: "render_digits v ds = dec_string v @ ds"
proof (induction v ds rule: render_digits.induct)
  case (1 v ds)
  then show ?case
    by (subst render_digits.simps, subst dec_string.simps)
       (simp add: Let_def digit_char_def div_eq_0_iff)
qed

lemma render_u64_dec [simp]: "render_u64 v = dec_string v"
  by (simp add: render_u64_def render_digits_dec)

lemma dec_string_length: "n < 10 ^ Suc k \<Longrightarrow> length (dec_string n) \<le> Suc k"
proof (induction k arbitrary: n)
  case 0
  then show ?case by (simp add: dec_string.simps)
next
  case (Suc k)
  then have "n div 10 < 10 ^ Suc k" by (simp add: less_mult_imp_div_less)
  from Suc.IH [OF this] show ?case by (subst dec_string.simps) simp
qed

lemma record_line_eq: "record_line n b = (SEQ_PREFIX @ dec_string n @ '','' @ tl b) @ [CHR 0x0A]"
  by (simp add: record_line_def)

lemma butlast_record_line [simp]:
  "butlast (record_line n b) = SEQ_PREFIX @ dec_string n @ '','' @ tl b"
  by (simp only: record_line_eq butlast_snoc)

lemma record_line_is_line:
  assumes "CHR 0x0A \<notin> set b"
  shows "is_line (record_line n b)"
proof -
  have "CHR 0x0A \<notin> set (SEQ_PREFIX @ dec_string n @ '','' @ tl b)"
    using assms dec_string_no_newline by (cases b) (auto simp: SEQ_PREFIX_def)
  then show ?thesis unfolding is_line_def record_line_eq by blast
qed

lemma record_line_inject:
  assumes "record_line n b = record_line n b'" "b \<noteq> []" "b' \<noteq> []" "hd b = hd b'"
  shows "b = b'"
  using assms by (simp add: record_line_eq) (metis list.collapse)

lemma parse_record_line:
  assumes "codec_documented co" "spliceable co b fs kind" "n \<le> u64_max"
  obtains gs where "js_parse co (butlast (record_line n b)) = Some (JObject gs)"
    "map_of gs = (map_of fs)(''seq'' \<mapsto> JUint n)"
    "parse_seq co (butlast (record_line n b)) = Some (n, kind = CHECKPOINT_KIND)"
proof -
  from assms obtain gs where gs: "js_parse co (SEQ_PREFIX @ dec_string n @ '','' @ tl b) = Some (JObject gs)"
    "map_of gs = (map_of fs)(''seq'' \<mapsto> JUint n)"
    unfolding codec_documented_def by blast
  moreover have "map_of fs ''kind'' = Some (JString kind)" using assms(2) by (simp add: spliceable_def)
  ultimately show thesis
    by (intro that [of gs]) (simp_all add: parse_seq_def)
qed

section \<open>The lines a journal holds\<close>

text \<open>What the checkpoints among the lines amount to: the last one, and the records since.\<close>

definition checkpoint_line :: "codec \<Rightarrow> string \<Rightarrow> bool" where
  "checkpoint_line co l \<longleftrightarrow> map_option snd (parse_seq co (butlast l)) = Some True"

fun marks :: "codec \<Rightarrow> nat \<Rightarrow> string list \<Rightarrow> nat option \<times> nat \<Rightarrow> nat option \<times> nat" where
  "marks co n [] m = m"
| "marks co n (l # ls) m =
     marks co (Suc n) ls (if checkpoint_line co l then (Some n, 0) else (fst m, Suc (snd m)))"

lemma marks_append: "marks co n (ls @ ls') m = marks co (n + length ls) ls' (marks co n ls m)"
  by (induction ls arbitrary: n m) auto

definition state_of :: "crypto \<Rightarrow> codec \<Rightarrow> string list \<Rightarrow> writer_state \<Rightarrow> bool" where
  "state_of cr co ls ws \<longleftrightarrow>
     ws_last_seq ws = length ls \<and> ws_chain ws = chain_of cr ls
     \<and> (ws_last_checkpoint ws, ws_since_checkpoint ws) = marks co 1 ls (None, 0)"

text \<open>The contents of a journal, written from its first line on: each line is a numbered record or
  the checkpoint of the lines before it, under one of the checkpoint policies the gateway has had.\<close>

inductive journal_lines :: "crypto \<Rightarrow> codec \<Rightarrow> checkpoint_policy set \<Rightarrow> string list \<Rightarrow> bool"
  for cr co pols where
  journal_empty: "journal_lines cr co pols []"
| journal_record: "journal_lines cr co pols ls \<Longrightarrow> event_body co b \<Longrightarrow> length ls < u64_max \<Longrightarrow>
     journal_lines cr co pols (ls @ [record_line (Suc (length ls)) b])"
| journal_checkpoint: "journal_lines cr co pols ls \<Longrightarrow> state_of cr co ls ws \<Longrightarrow> pol \<in> pols \<Longrightarrow>
     length ls < u64_max \<Longrightarrow>
     journal_lines cr co pols (ls @ [record_line (Suc (length ls))
       (js_checkpoint_to co (build_checkpoint cr pol env (Suc (length ls)) ws))])"

fun numbered :: "codec \<Rightarrow> nat \<Rightarrow> string list \<Rightarrow> bool" where
  "numbered co n [] = True"
| "numbered co n (l # ls) =
     (is_line l \<and> map_option fst (parse_seq co (butlast l)) = Some n \<and> numbered co (Suc n) ls)"

lemma numbered_append: "numbered co n (ls @ ls') \<longleftrightarrow> numbered co n ls \<and> numbered co (n + length ls) ls'"
  by (induction ls arbitrary: n) auto

lemma numbered_is_line: "numbered co n ls \<Longrightarrow> list_all is_line ls"
  by (induction co n ls rule: numbered.induct) auto

lemma event_line:
  assumes "codec_documented co" "event_body co b" "n \<le> u64_max"
  shows "is_line (record_line n b)" "parse_seq co (butlast (record_line n b)) = Some (n, False)"
proof -
  from assms(2) obtain fs kind where b: "spliceable co b fs kind" "kind \<noteq> CHECKPOINT_KIND"
    by (auto simp: event_body_def)
  then show "is_line (record_line n b)" by (simp add: record_line_is_line spliceable_def)
  from b(2) show "parse_seq co (butlast (record_line n b)) = Some (n, False)"
    by (metis (full_types) parse_record_line [OF assms(1) b(1) assms(3)])
qed

lemma checkpoint_body_line:
  assumes "codec_documented co" "n \<le> u64_max"
  shows "is_line (record_line n (js_checkpoint_to co cp))"
    "parse_seq co (butlast (record_line n (js_checkpoint_to co cp))) = Some (n, True)"
proof -
  from assms(1) obtain fs where b: "spliceable co (js_checkpoint_to co cp) fs CHECKPOINT_KIND"
    unfolding codec_documented_def by blast
  then show "is_line (record_line n (js_checkpoint_to co cp))"
    by (simp add: record_line_is_line spliceable_def)
  show "parse_seq co (butlast (record_line n (js_checkpoint_to co cp))) = Some (n, True)"
    by (metis (full_types) parse_record_line [OF assms(1) b assms(2)])
qed

lemma journal_lines_take:
  "journal_lines cr co pols ls \<Longrightarrow> journal_lines cr co pols (take k ls)"
proof (induction rule: journal_lines.induct)
  case (journal_record ls b)
  then show ?case
    using journal_lines.journal_record [of cr co pols ls b] by (cases "k \<le> length ls") simp_all
next
  case (journal_checkpoint ls ws pol env)
  then show ?case
    using journal_lines.journal_checkpoint [of cr co pols ls ws pol env] by (cases "k \<le> length ls") simp_all
qed (simp add: journal_lines.journal_empty)

lemma journal_lines_numbered:
  assumes "codec_documented co" "journal_lines cr co pols ls"
  shows "numbered co 1 ls \<and> length ls \<le> u64_max"
  using assms(2)
proof (induction rule: journal_lines.induct)
  case (journal_record ls b)
  then show ?case using event_line [OF assms(1), of b "Suc (length ls)"] by (simp add: numbered_append)
next
  case (journal_checkpoint ls ws pol env)
  then show ?case
    using checkpoint_body_line [OF assms(1), of "Suc (length ls)"] by (simp add: numbered_append)
qed simp

section \<open>Recovery reads back what was written\<close>

lemma read_line_is_line: "is_line l \<Longrightarrow> read_line (l @ rest) = (l, rest)"
  by (auto simp: is_line_def read_line_def split_once_append)

lemma read_line_torn: "CHR 0x0A \<notin> set torn \<Longrightarrow> read_line torn = (torn, [])"
  by (simp add: read_line_def split_once_None_iff [THEN iffD2])

lemma is_line_last: "is_line l \<Longrightarrow> l \<noteq> [] \<and> last l = CHR 0x0A"
  by (auto simp: is_line_def)

lemma recover_loop_line:
  assumes "is_line l" "parse_seq co (butlast l) = Some (n, c)" "n < u64_max"
  shows "recover_loop cr co path (l @ rest) len n chain lc since =
    recover_loop cr co path rest (len + length l) (Suc n) (chain_extend cr chain l)
      (if c then Some n else lc) (if c then 0 else Suc since)"
  using assms(2,3) is_line_last [OF assms(1)]
  by (subst recover_loop.simps) (simp add: read_line_is_line [OF assms(1)] checked_add_u64_def)

lemma recover_loop_lines:
  assumes "numbered co n ls" "n + length ls \<le> u64_max"
  shows "recover_loop cr co path (concat ls @ rest) len n chain lc since =
    recover_loop cr co path rest (len + length (concat ls)) (n + length ls)
      (foldl (chain_extend cr) chain ls) (fst (marks co n ls (lc, since))) (snd (marks co n ls (lc, since)))"
  using assms
proof (induction ls arbitrary: n len chain lc since)
  case (Cons l ls)
  from Cons.prems obtain c where l: "is_line l" "parse_seq co (butlast l) = Some (n, c)" by auto
  have "checkpoint_line co l = c" using l(2) by (simp add: checkpoint_line_def)
  with Cons.IH [of "Suc n"] Cons.prems recover_loop_line [OF l, of cr path "concat ls @ rest" len chain lc since]
  show ?case by (simp add: add.assoc)
qed simp

lemma recover_loop_end:
  assumes "CHR 0x0A \<notin> set torn"
  shows "recover_loop cr co path torn len n chain lc since =
    Inr (\<lparr>rec_last_seq = n - 1, rec_chain = chain, rec_last_checkpoint = lc, rec_since_checkpoint = since\<rparr>,
         if torn = [] then None else Some len)"
proof (cases "torn = []")
  case False
  then have "last torn \<noteq> CHR 0x0A" using assms last_in_set by metis
  with False show ?thesis
    by (subst recover_loop.simps) (simp add: read_line_torn [OF assms])
qed (simp add: recover_loop.simps)

definition recovered_of :: "crypto \<Rightarrow> codec \<Rightarrow> string list \<Rightarrow> recovered" where
  "recovered_of cr co ls =
     \<lparr>rec_last_seq = length ls, rec_chain = chain_of cr ls,
      rec_last_checkpoint = fst (marks co 1 ls (None, 0)),
      rec_since_checkpoint = snd (marks co 1 ls (None, 0))\<rparr>"

lemma recover_lines:
  assumes "numbered co 1 ls" "length ls < u64_max" "CHR 0x0A \<notin> set torn"
  shows "recover cr co path (concat ls @ torn) = (Inr (recovered_of cr co ls), concat ls)"
  using recover_loop_lines [OF assms(1), of cr path torn 0 "chain_genesis cr" None 0] assms(2)
    recover_loop_end [OF assms(3)]
  by (simp add: recover_def recovered_of_def chain_of_def)

text \<open>A prefix of some lines is the first of them and a torn one.\<close>

lemma take_concat_lines:
  assumes "list_all is_line ls"
  obtains m torn where "take k (concat ls) = concat (take m ls) @ torn" "m \<le> length ls"
    "CHR 0x0A \<notin> set torn"
  using assms
proof (induction ls arbitrary: k thesis)
  case Nil
  from Nil(1) [of 0 "[]"] show ?case by simp
next
  case (Cons l ls)
  show ?case
  proof (cases "k < length l")
    case True
    from Cons.prems(2) obtain b where b: "l = b @ [CHR 0x0A]" "CHR 0x0A \<notin> set b"
      by (auto simp: is_line_def)
    with True have "take k l = take k b" by simp
    then have "CHR 0x0A \<notin> set (take k l)" using b(2) by (auto dest: in_set_takeD)
    with True Cons.prems(1) [of 0 "take k l"] show ?thesis by simp
  next
    case False
    from Cons.prems(2) have "list_all is_line ls" by simp
    from Cons.IH [OF _ this, of "k - length l"] obtain m torn
      where "take (k - length l) (concat ls) = concat (take m ls) @ torn" "m \<le> length ls"
        "CHR 0x0A \<notin> set torn" by blast
    with False Cons.prems(1) [of "Suc m" torn] show ?thesis by simp
  qed
qed

lemma state_of_start: "state_of cr co ls (j_state (writer_start now (recovered_of cr co ls) file))"
  by (simp add: state_of_def writer_start_def recovered_of_def)

section \<open>The complete lines of a file\<close>

function lines_of :: "string \<Rightarrow> string list" where
  "lines_of bytes =
     (if bytes = [] \<or> last (fst (read_line bytes)) \<noteq> CHR 0x0A then []
      else fst (read_line bytes) # lines_of (snd (read_line bytes)))"
  by pat_completeness auto
termination by (relation "measure length") (auto simp: read_line_length)

declare lines_of.simps [simp del]

lemma lines_of_concat:
  assumes "list_all is_line ls" "CHR 0x0A \<notin> set torn"
  shows "lines_of (concat ls @ torn) = ls"
  using assms(1)
proof (induction ls)
  case Nil
  have "torn = [] \<or> last torn \<noteq> CHR 0x0A" using assms(2) last_in_set by metis
  then show ?case by (subst lines_of.simps) (auto simp: read_line_torn [OF assms(2)])
next
  case (Cons l ls)
  then show ?case
    using is_line_last [of l]
    by (subst lines_of.simps) (simp add: read_line_is_line)
qed

section \<open>The writer keeps the journal accounted for\<close>

text \<open>The exported checkpoints are lines of the journal.\<close>

definition exports_kept :: "codec \<Rightarrow> string list \<Rightarrow> (nat \<times> string) list \<Rightarrow> bool" where
  "exports_kept co ls ex \<longleftrightarrow>
     list_all (\<lambda>(n, l). 0 < n \<and> n \<le> length ls \<and> ls ! (n - 1) = l \<and> checkpoint_line co l) ex"

lemma exports_kept_mono: "exports_kept co ls ex \<Longrightarrow> exports_kept co (ls @ new) ex"
  by (fastforce simp: exports_kept_def list_all_iff nth_append)

definition journal_base ::
  "crypto \<Rightarrow> codec \<Rightarrow> checkpoint_policy set \<Rightarrow> string list \<Rightarrow> journal \<Rightarrow> bool" where
  "journal_base cr co pols ls j \<longleftrightarrow>
     journal_lines cr co pols ls \<and> state_of cr co ls (j_state j) \<and> exports_kept co ls (j_exported j)
     \<and> (\<exists>pending k. journal_lines cr co pols (ls @ pending)
          \<and> j_file j = concat ls @ take k (concat pending))"

definition journal_inv ::
  "crypto \<Rightarrow> codec \<Rightarrow> checkpoint_policy set \<Rightarrow> string list \<Rightarrow> journal \<Rightarrow> bool" where
  "journal_inv cr co pols ls j \<longleftrightarrow>
     journal_base cr co pols ls j \<and> (j_poison j = None \<longrightarrow> j_file j = concat ls)"

lemma journal_inv_poison:
  "journal_base cr co pols ls j \<Longrightarrow> journal_inv cr co pols ls (j\<lparr>j_poison := Some e\<rparr>)"
  by (simp add: journal_inv_def journal_base_def)

lemma journal_inv_clean:
  "journal_lines cr co pols ls \<Longrightarrow> state_of cr co ls (j_state j) \<Longrightarrow> j_file j = concat ls \<Longrightarrow>
     exports_kept co ls (j_exported j) \<Longrightarrow> journal_inv cr co pols ls j"
  by (auto simp: journal_inv_def journal_base_def intro!: exI [of _ "[]"])

lemma journal_base_torn:
  assumes "journal_lines cr co pols (ls @ new)" "journal_inv cr co pols ls j" "j_poison j = None"
    and "j_file j' = j_file j @ take k (concat new)" "j_state j' = j_state j" "j_exported j' = j_exported j"
  shows "journal_base cr co pols ls j'"
  using assms by (auto simp: journal_inv_def journal_base_def)

text \<open>A checkpoint.\<close>

lemma state_of_checkpoint:
  assumes "state_of cr co ls ws" "parse_seq co (butlast l) = Some (n, True)" "n = Suc (length ls)"
  shows "state_of cr co (ls @ [l])
    \<lparr>ws_last_seq = n, ws_chain = chain_extend cr (ws_chain ws) l, ws_last_checkpoint = Some n,
     ws_since_checkpoint = 0, ws_last_checkpoint_at = t\<rparr>"
  using assms by (simp add: state_of_def marks_append checkpoint_line_def)

lemma writer_checkpoint_inv:
  assumes doc: "codec_documented co" and j: "journal_inv cr co pols ls j" "j_poison j = None" "pol \<in> pols"
    and w: "writer_checkpoint cr co pol env j = (r, j')"
  shows "j_poison j' = None \<and>
    (case r of
       Inr _ \<Rightarrow> (\<exists>l. journal_inv cr co pols (ls @ [l]) j' \<and> checkpoint_line co l)
     | Inl e \<Rightarrow> journal_base cr co pols ls j')"
proof (cases "length ls < u64_max")
  case False
  have "ws_last_seq (j_state j) = length ls"
    using j(1) by (simp add: journal_inv_def journal_base_def state_of_def)
  with False w j(1,2) show ?thesis
    by (auto simp: writer_checkpoint_def checked_add_u64_def Let_def journal_inv_def)
next
  case True
  let ?n = "Suc (length ls)"
  let ?l = "record_line ?n (js_checkpoint_to co (build_checkpoint cr pol env ?n (j_state j)))"
  have st: "state_of cr co ls (j_state j)" "journal_lines cr co pols ls" "j_file j = concat ls"
    using j(1,2) by (simp_all add: journal_inv_def journal_base_def)
  then have new: "journal_lines cr co pols (ls @ [?l])"
    using True j(3) by (intro journal_checkpoint)
  have p: "parse_seq co (butlast ?l) = Some (?n, True)"
    using True checkpoint_body_line(2) [OF doc] by simp
  then have cl: "checkpoint_line co ?l" by (simp add: checkpoint_line_def)
  have seq: "checked_add_u64 (ws_last_seq (j_state j)) 1 = Some ?n"
    using st(1) True by (simp add: state_of_def checked_add_u64_def)
  show ?thesis
  proof (cases "env_checkpoint env")
    case Written
    have "exports_kept co (ls @ [?l]) (j_exported j)"
      using j(1) by (intro exports_kept_mono) (simp add: journal_inv_def journal_base_def)
    moreover have "exports_kept co (ls @ [?l]) [(?n, ?l)]" using cl by (simp add: exports_kept_def)
    ultimately have "exports_kept co (ls @ [?l]) (j_exported j @ [(?n, ?l)])"
      "exports_kept co (ls @ [?l]) (j_exported j)" by (simp_all add: exports_kept_def)
    then have "journal_inv cr co pols (ls @ [?l]) j'" "r = Inr ()" "j_poison j' = None"
      using w j(2) Written seq st state_of_checkpoint [OF st(1) p refl] new
      by (auto simp: writer_checkpoint_def Let_def intro!: journal_inv_clean)
    with cl show ?thesis by auto
  next
    case (WriteFailed e k)
    have j': "r = Inl e" "j_poison j' = None" "j_state j' = j_state j" "j_exported j' = j_exported j"
      "j_file j' = j_file j @ take k (concat [?l])"
      using w j(2) WriteFailed seq by (auto simp: writer_checkpoint_def Let_def)
    then show ?thesis using journal_base_torn [OF new j(1,2)] by simp
  qed
qed

text \<open>A batch of records.\<close>

fun rec_lines :: "nat \<Rightarrow> string list \<Rightarrow> string list" where
  "rec_lines n [] = []"
| "rec_lines n (b # bs) = record_line n b # rec_lines (Suc n) bs"

lemma length_rec_lines [simp]: "length (rec_lines n bs) = length bs"
  by (induction n bs rule: rec_lines.induct) auto

lemma nth_rec_lines: "i < length bs \<Longrightarrow> rec_lines n bs ! i = record_line (n + i) (bs ! i)"
  by (induction n bs arbitrary: i rule: rec_lines.induct) (auto simp: nth_Cons split: nat.split)

lemma render_batch_ok:
  "render_batch n bs = (ls, False) \<Longrightarrow> n \<le> u64_max \<Longrightarrow> ls = rec_lines n bs \<and> n + length bs \<le> u64_max"
proof (induction bs arbitrary: n ls)
  case (Cons b bs)
  then obtain ls' where *: "Suc n \<le> u64_max" "render_batch (Suc n) bs = (ls', False)"
    "ls = record_line n b # ls'"
    by (auto simp: checked_add_u64_def split: prod.splits if_splits)
  from Cons.IH [OF *(2,1)] *(3) show ?case by simp
qed simp

lemma rec_lines_snoc: "rec_lines n (bs @ [b]) = rec_lines n bs @ [record_line (n + length bs) b]"
  by (induction n bs rule: rec_lines.induct) auto

lemma journal_lines_batch:
  assumes "journal_lines cr co pols ls" "list_all (event_body co) bs" "length ls + length bs \<le> u64_max"
  shows "journal_lines cr co pols (ls @ rec_lines (Suc (length ls)) bs)"
  using assms(2,3)
proof (induction bs rule: rev_induct)
  case (snoc b bs)
  then have "journal_lines cr co pols (ls @ rec_lines (Suc (length ls)) bs)" by simp
  from journal_record [OF this, of b] snoc.prems show ?case by (simp add: rec_lines_snoc)
qed (use assms(1) in simp)

lemma marks_batch:
  assumes "codec_documented co" "list_all (event_body co) bs" "n + length bs \<le> Suc u64_max"
  shows "marks co n (rec_lines n bs) m = (fst m, snd m + length bs)"
  using assms(2,3)
proof (induction bs arbitrary: n m)
  case (Cons b bs)
  then have "\<not> checkpoint_line co (record_line n b)"
    using event_line(2) [OF assms(1), of b n] by (simp add: checkpoint_line_def)
  with Cons show ?case by simp
qed simp

lemma state_of_batch:
  assumes "codec_documented co" "list_all (event_body co) bs" "length ls + length bs \<le> u64_max"
    and "state_of cr co ls ws"
  shows "state_of cr co (ls @ rec_lines (Suc (length ls)) bs)
    (ws\<lparr>ws_chain := foldl (chain_extend cr) (ws_chain ws) (rec_lines (Suc (length ls)) bs),
        ws_last_seq := ws_last_seq ws + length bs,
        ws_since_checkpoint := ws_since_checkpoint ws + length bs\<rparr>)"
proof -
  obtain lc since where m: "marks co 1 ls (None, 0) = (lc, since)" by force
  have "marks co (Suc (length ls)) (rec_lines (Suc (length ls)) bs) (lc, since) = (lc, since + length bs)"
    using marks_batch [OF assms(1,2)] assms(3) by simp
  with assms(4) m show ?thesis by (simp add: state_of_def marks_append chain_of_def)
qed

section \<open>Acknowledgements\<close>

definition acked :: "acks \<Rightarrow> (nat \<times> string) list" where
  "acked acks = concat (map (\<lambda>(b, r). case r of Inr n \<Rightarrow> [(n, b)] | Inl _ \<Rightarrow> []) acks)"

lemma acked_simps [simp]:
  "acked [] = []" "acked (as @ bs) = acked as @ acked bs"
  "acked (map (\<lambda>b. (b, Inl e)) batch) = []"
  by (simp_all add: acked_def)

lemma ack_batch_answers [simp]: "map fst (ack_batch n bs) = bs"
  by (induction n bs rule: ack_batch.induct) auto

lemma acked_ack_batch [simp]: "acked (ack_batch n bs) = zip [n..<n + length bs] bs"
proof (induction n bs rule: ack_batch.induct)
  case (2 n b bs)
  then show ?case by (simp add: acked_def upt_conv_Cons del: upt_Suc)
qed (simp add: acked_def)

text \<open>The acknowledged records are lines of the journal, under strictly growing numbers.\<close>

definition acks_kept :: "string list \<Rightarrow> (nat \<times> string) list \<Rightarrow> bool" where
  "acks_kept ls as \<longleftrightarrow>
     sorted_wrt (<) (map fst as)
     \<and> list_all (\<lambda>(n, b). 0 < n \<and> n \<le> length ls \<and> ls ! (n - 1) = record_line n b) as"

lemma acks_kept_mono: "acks_kept ls as \<Longrightarrow> acks_kept (ls @ new) as"
  by (fastforce simp: acks_kept_def list_all_iff nth_append)

lemma acks_kept_batch:
  assumes "acks_kept ls as"
  shows "acks_kept (ls @ rec_lines (Suc (length ls)) bs @ rest)
    (as @ zip [Suc (length ls)..<Suc (length ls) + length bs] bs)"
proof -
  have "list_all (\<lambda>(n, b). 0 < n \<and> n \<le> length (ls @ rec_lines (Suc (length ls)) bs @ rest)
        \<and> (ls @ rec_lines (Suc (length ls)) bs @ rest) ! (n - 1) = record_line n b)
      (zip [Suc (length ls)..<Suc (length ls) + length bs] bs)"
    by (auto simp: list_all_length nth_append nth_rec_lines simp del: upt_Suc)
  moreover have "sorted_wrt (<) (map fst as @ [Suc (length ls)..<Suc (length ls) + length bs])"
    using assms by (auto simp: acks_kept_def sorted_wrt_append list_all_iff)
  ultimately show ?thesis
    using acks_kept_mono [OF assms, of "rec_lines (Suc (length ls)) bs @ rest"]
    by (auto simp: acks_kept_def simp del: upt_Suc)
qed

lemma after_checkpoint_inv:
  assumes "codec_documented co" "journal_inv cr co pols ls j" "j_poison j = None" "pol \<in> pols"
    and "after_checkpoint as (writer_checkpoint cr co pol env j) = (acks, j')"
  shows "acks = as \<and> (\<exists>new. journal_inv cr co pols (ls @ new) j')"
proof -
  obtain r j1 where w: "writer_checkpoint cr co pol env j = (r, j1)" by force
  note inv = writer_checkpoint_inv [OF assms(1-4) w]
  show ?thesis
  proof (cases r)
    case (Inl e)
    with inv have "journal_inv cr co pols (ls @ []) (j1\<lparr>j_poison := Some e\<rparr>)"
      using journal_inv_poison by simp
    moreover have "acks = as" "j' = j1\<lparr>j_poison := Some e\<rparr>"
      using assms(5) w Inl by (simp_all add: after_checkpoint_def fail_batch_def)
    ultimately show ?thesis by blast
  next
    case (Inr u)
    with inv assms(5) w show ?thesis by (auto simp: after_checkpoint_def)
  qed
qed

text \<open>A batch is written in full and every record of it acknowledged, or refused as a whole.\<close>

lemma batch_written:
  assumes doc: "codec_documented co" and j: "journal_inv cr co pols ls j" "j_poison j = None"
    and pol: "pol \<in> pols" and batch: "list_all (event_body co) batch"
    and len: "length ls + length batch \<le> u64_max" and new: "new = rec_lines (Suc (length ls)) batch"
    and j1: "j1 = j\<lparr>j_file := j_file j @ concat new,
        j_state := j_state j\<lparr>ws_chain := foldl (chain_extend cr) (ws_chain (j_state j)) new,
          ws_last_seq := ws_last_seq (j_state j) + length batch,
          ws_since_checkpoint := ws_since_checkpoint (j_state j) + length new\<rparr>\<rparr>"
    and w: "(if pol_every_records pol \<le> ws_since_checkpoint (j_state j1)
             then after_checkpoint as (writer_checkpoint cr co pol env j1) else (as, j1)) = (acks, j')"
  shows "acks = as \<and> (\<exists>rest. journal_inv cr co pols (ls @ new @ rest) j')"
proof -
  have ls: "journal_lines cr co pols ls" "state_of cr co ls (j_state j)" "j_file j = concat ls"
    "exports_kept co ls (j_exported j)" using j by (simp_all add: journal_inv_def journal_base_def)
  have "state_of cr co (ls @ new) (j_state j1)"
    using state_of_batch [OF doc batch len ls(2)] new j1 by simp
  then have inv: "journal_inv cr co pols (ls @ new) j1"
    using journal_lines_batch [OF ls(1) batch len] ls(3) new j1 exports_kept_mono [OF ls(4)]
    by (intro journal_inv_clean) simp_all
  show ?thesis
  proof (cases "pol_every_records pol \<le> ws_since_checkpoint (j_state j1)")
    case True
    with w after_checkpoint_inv [OF doc inv _ pol, of as env acks j'] j(2) j1 show ?thesis by simp
  next
    case False
    with w inv show ?thesis by (auto intro!: exI [of _ "[]"])
  qed
qed

lemma writer_batch_cases:
  assumes doc: "codec_documented co" and j: "journal_inv cr co pols ls j" and pol: "pol \<in> pols"
    and batch: "list_all (event_body co) batch"
    and w: "writer_batch cr co pol env batch j = (acks, j')"
  obtains (refused) "acked acks = []" "map fst acks = batch" "journal_inv cr co pols ls j'"
  | (written) rest where "acks = ack_batch (Suc (length ls)) batch"
      "journal_inv cr co pols (ls @ rec_lines (Suc (length ls)) batch @ rest) j'"
proof -
  have base: "journal_base cr co pols ls j" using j by (simp add: journal_inv_def)
  have failed: thesis if "fail_batch batch e j1 = (acks, j')" "journal_base cr co pols ls j1" for e j1
    using that refused journal_inv_poison [OF that(2), of e] by (auto simp: fail_batch_def comp_def)
  have seq: "ws_last_seq (j_state j) = length ls" using base by (simp add: journal_base_def state_of_def)
  let ?n = "Suc (length ls)"
  obtain new ex where r: "render_batch ?n batch = (new, ex)" by force
  consider e where "j_poison j = Some e"
    | "j_poison j = None" "length ls < u64_max \<longrightarrow> ex"
    | e k where "j_poison j = None" "length ls < u64_max" "\<not> ex" "env_batch env = WriteFailed e k"
    | "j_poison j = None" "length ls < u64_max" "\<not> ex" "env_batch env = Written"
    by (cases "j_poison j"; cases "env_batch env") auto
  then show thesis
  proof cases
    case 1
    with w j refused show thesis by (auto simp: writer_batch_def comp_def)
  next
    case 2
    then have "fail_batch batch sequence_exhausted j = (acks, j')"
      using w seq r by (auto simp: writer_batch_def Let_def checked_add_u64_def split: if_splits)
    then show thesis using failed base by blast
  next
    case 3
    have new: "new = rec_lines ?n batch" "length ls + length batch \<le> u64_max"
      using render_batch_ok [of ?n batch new] r 3 by auto
    then have "journal_lines cr co pols (ls @ new)"
      using journal_lines_batch [OF _ batch new(2)] base by (simp add: journal_base_def)
    moreover have "fail_batch batch e (j\<lparr>j_file := j_file j @ take k (concat new)\<rparr>) = (acks, j')"
      using w seq r 3 by (simp add: writer_batch_def Let_def checked_add_u64_def)
    ultimately show thesis
      using failed journal_base_torn [OF _ j 3(1), of new "j\<lparr>j_file := j_file j @ take k (concat new)\<rparr>" k]
      by simp
  next
    case 4
    have new: "new = rec_lines ?n batch" "length ls + length batch \<le> u64_max"
      using render_batch_ok [of ?n batch new] r 4 by auto
    have "acks = ack_batch ?n batch \<and> (\<exists>rest. journal_inv cr co pols (ls @ new @ rest) j')"
      by (rule batch_written [OF doc j 4(1) pol batch new(2,1) refl, of _ env])
         (use w seq r 4 new(1) in \<open>simp add: writer_batch_def Let_def checked_add_u64_def cong: if_cong\<close>)
    then show thesis using written new(1) by blast
  qed
qed

lemma writer_batch_inv:
  assumes "codec_documented co" "journal_inv cr co pols ls j" "pol \<in> pols"
    and "list_all (event_body co) batch" "writer_batch cr co pol env batch j = (acks, j')"
    and kept: "acks_kept ls as"
  shows "map fst acks = batch
    \<and> (\<exists>new. journal_inv cr co pols (ls @ new) j' \<and> acks_kept (ls @ new) (as @ acked acks))"
  using assms(1-5)
proof (cases rule: writer_batch_cases)
  case refused
  with kept show ?thesis by (auto intro!: exI [of _ "[]"])
next
  case (written rest)
  with acks_kept_batch [OF kept, of batch rest] show ?thesis by (auto simp del: upt_Suc)
qed

section \<open>The loop answers every record\<close>

definition queue_bodies :: "message list \<Rightarrow> string list" where
  "queue_bodies queue = concat (map (\<lambda>m. case m of Record b \<Rightarrow> [b] | Tick \<Rightarrow> []) queue)"

lemma queue_bodies_simps [simp]:
  "queue_bodies [] = []"
  "queue_bodies (Record b # queue) = b # queue_bodies queue"
  "queue_bodies (Tick # queue) = queue_bodies queue"
  "queue_bodies (q @ q') = queue_bodies q @ queue_bodies q'"
  by (simp_all add: queue_bodies_def)

lemma drain_takes:
  "drain room queue = (bs, queue') \<Longrightarrow>
     length bs \<le> room \<and> queue_bodies queue = bs @ queue_bodies queue' \<and> length queue' \<le> length queue"
proof (induction room queue arbitrary: bs rule: drain.induct)
  case (3 room b queue)
  then obtain bs' where "drain room queue = (bs', queue')" "bs = b # bs'"
    by (auto split: prod.splits)
  with 3 show ?case by fastforce
next
  case (4 room queue)
  then show ?case by fastforce
qed auto

lemma writer_batch_answers: "map fst (fst (writer_batch cr co pol env batch j)) = batch"
  by (auto simp: writer_batch_def Let_def fail_batch_def after_checkpoint_def comp_def
      split: option.split prod.split sum.split)

lemma writer_iteration_answers:
  assumes "writer_iteration cr co pol env queue j = (acks, queue', j')"
  shows "queue_bodies queue = map fst acks @ queue_bodies queue'
    \<and> length acks \<le> MAX_BATCH \<and> (queue \<noteq> [] \<longrightarrow> length queue' < length queue)"
proof (cases queue)
  case Nil
  with assms show ?thesis by simp
next
  case (Cons m q)
  show ?thesis
  proof (cases m)
    case Tick
    with Cons assms show ?thesis
      by (auto simp: after_checkpoint_def split: if_splits prod.splits sum.splits)
  next
    case (Record b)
    obtain bs q1 where d: "drain (MAX_BATCH - 1) q = (bs, q1)" by force
    obtain acks1 j1 where w: "writer_batch cr co pol env (b # bs) j = (acks1, j1)" by force
    have eq: "acks = acks1" "queue' = q1" using assms Cons Record d w by simp_all
    have "map fst acks1 = b # bs"
      using writer_batch_answers [of cr co pol env "b # bs" j] w by simp
    moreover from this have "length acks1 = Suc (length bs)" by (metis length_Cons length_map)
    ultimately show ?thesis
      using drain_takes [OF d] Cons Record eq by (simp add: MAX_BATCH_def)
  qed
qed

text \<open>The loop from a queue to which nothing is added; one environment per iteration.\<close>

function writer_loop ::
  "crypto \<Rightarrow> codec \<Rightarrow> checkpoint_policy \<Rightarrow> (nat \<Rightarrow> environment) \<Rightarrow> message list \<Rightarrow> journal
     \<Rightarrow> acks \<times> journal" where
  "writer_loop cr co pol envs queue j =
     (if queue = [] then ([], j)
      else (case writer_iteration cr co pol (envs 0) queue j of (acks, queue', j') \<Rightarrow>
        (case writer_loop cr co pol (envs \<circ> Suc) queue' j' of (acks', j'') \<Rightarrow> (acks @ acks', j''))))"
  by pat_completeness auto
termination
  by (relation "measure (\<lambda>(cr, co, pol, envs, queue, j). length queue)")
     (auto dest: sym [THEN writer_iteration_answers])

declare writer_loop.simps [simp del]

section \<open>Histories of a journal\<close>

text \<open>
  What can happen to a journal: callers queue records, the ticker queues its prompts, the writer
  takes what is queued, and the process ends at any point (a write it was making shows as a failed
  one) or in order, and starts again on the file. The acknowledgements sent are kept on the side.
\<close>

definition WRITE_QUEUE_DEPTH :: nat where
  "WRITE_QUEUE_DEPTH = 1024"

record writer =
  w_queue :: "message list"
  w_journal :: journal
  w_acks :: acks

definition journal_new :: "crypto \<Rightarrow> nat \<Rightarrow> writer" where
  "journal_new cr now =
     \<lparr>w_queue = [],
      w_journal = writer_start now \<lparr>rec_last_seq = 0, rec_chain = chain_genesis cr,
        rec_last_checkpoint = None, rec_since_checkpoint = 0\<rparr> [],
      w_acks = []\<rparr>"

definition journal_restart :: "nat \<Rightarrow> recovered \<Rightarrow> string \<Rightarrow> writer \<Rightarrow> writer" where
  "journal_restart now r file w =
     w\<lparr>w_queue := [], w_journal := (writer_start now r file)\<lparr>j_exported := j_exported (w_journal w)\<rparr>\<rparr>"

inductive journal_step :: "crypto \<Rightarrow> codec \<Rightarrow> checkpoint_policy set \<Rightarrow> writer \<Rightarrow> writer \<Rightarrow> bool"
  for cr co pols where
  step_enqueue: "length (w_queue w) < WRITE_QUEUE_DEPTH \<Longrightarrow> event_body co body \<Longrightarrow>
     enqueue_check body = Inr m \<Longrightarrow> journal_step cr co pols w (w\<lparr>w_queue := w_queue w @ [m]\<rparr>)"
| step_tick: "length (w_queue w) < WRITE_QUEUE_DEPTH \<Longrightarrow>
     journal_step cr co pols w (w\<lparr>w_queue := w_queue w @ [Tick]\<rparr>)"
| step_writer: "pol \<in> pols \<Longrightarrow>
     writer_iteration cr co pol env (w_queue w) (w_journal w) = (acks, queue, j) \<Longrightarrow>
     journal_step cr co pols w \<lparr>w_queue = queue, w_journal = j, w_acks = w_acks w @ acks\<rparr>"
| step_crash: "recover cr co path (j_file (w_journal w)) = (Inr r, file) \<Longrightarrow>
     journal_step cr co pols w (journal_restart now r file w)"
| step_close: "pol \<in> pols \<Longrightarrow> w_queue w = [] \<Longrightarrow> writer_close cr co pol env (w_journal w) = j \<Longrightarrow>
     recover cr co path (j_file j) = (Inr r, file) \<Longrightarrow>
     journal_step cr co pols w (journal_restart now r file (w\<lparr>w_journal := j\<rparr>))"

inductive journal_history :: "crypto \<Rightarrow> codec \<Rightarrow> checkpoint_policy set \<Rightarrow> writer \<Rightarrow> bool"
  for cr co pols where
  history_new: "journal_history cr co pols (journal_new cr now)"
| history_step: "journal_history cr co pols w \<Longrightarrow> journal_step cr co pols w w' \<Longrightarrow>
     journal_history cr co pols w'"

lemma journal_file_lines:
  assumes "codec_documented co" "journal_base cr co pols ls j"
  obtains new torn where "journal_lines cr co pols (ls @ new)" "j_file j = concat (ls @ new) @ torn"
    "CHR 0x0A \<notin> set torn" "lines_of (j_file j) = ls @ new"
proof -
  from assms(2) obtain pending k where p: "journal_lines cr co pols (ls @ pending)"
    and f: "j_file j = concat ls @ take k (concat pending)" by (auto simp: journal_base_def)
  have all: "list_all is_line (ls @ pending)"
    using journal_lines_numbered [OF assms(1) p] numbered_is_line by blast
  then have pending: "list_all is_line pending" by simp
  obtain m torn where t: "take k (concat pending) = concat (take m pending) @ torn" "CHR 0x0A \<notin> set torn"
    by (rule take_concat_lines [OF pending, of k])
  have lines: "list_all is_line (ls @ take m pending)"
    using all by (auto simp: list_all_iff dest: in_set_takeD)
  have eq: "j_file j = concat (ls @ take m pending) @ torn" using f t(1) by simp
  have "journal_lines cr co pols (ls @ take m pending)"
    using journal_lines_take [OF p, of "length ls + m"] by simp
  moreover have "lines_of (j_file j) = ls @ take m pending"
    unfolding eq by (rule lines_of_concat [OF lines t(2)])
  ultimately show thesis using eq t(2) by (intro that)
qed

lemma journal_inv_start:
  assumes "journal_lines cr co pols ls" "exports_kept co ls x"
  shows "journal_inv cr co pols ls ((writer_start now (recovered_of cr co ls) (concat ls))\<lparr>j_exported := x\<rparr>)"
  using assms state_of_start [of cr co ls now "concat ls"]
  by (intro journal_inv_clean) (simp_all add: writer_start_def)

text \<open>Recovery of a file the writer left behind succeeds while numbers last, and goes on from every
  complete line of it.\<close>

lemma recover_journal:
  assumes "codec_documented co" "journal_base cr co pols ls j"
  shows "lines_of (j_file j) = ls @ drop (length ls) (lines_of (j_file j))
    \<and> journal_lines cr co pols (lines_of (j_file j))
    \<and> (length (lines_of (j_file j)) < u64_max \<longrightarrow>
         recover cr co path (j_file j)
           = (Inr (recovered_of cr co (lines_of (j_file j))), concat (lines_of (j_file j))))"
proof -
  from journal_file_lines [OF assms] obtain new torn
    where n: "journal_lines cr co pols (ls @ new)" "j_file j = concat (ls @ new) @ torn"
      "CHR 0x0A \<notin> set torn" "lines_of (j_file j) = ls @ new" .
  have "numbered co 1 (ls @ new)" using journal_lines_numbered [OF assms(1) n(1)] by blast
  from recover_lines [OF this _ n(3), of cr path] n show ?thesis by simp
qed

lemma recover_exhausted:
  assumes "numbered co 1 ls" "length ls = u64_max"
  shows "\<exists>e. fst (recover cr co path (concat ls @ rest)) = Inl e"
proof -
  obtain init l where ls: "ls = init @ [l]" using assms(2) by (cases ls rule: rev_cases) auto
  from assms(1) ls obtain c where l: "is_line l" "parse_seq co (butlast l) = Some (u64_max, c)"
    using assms(2) by (auto simp: numbered_append)
  have "recover_loop cr co path (l @ rest) len u64_max chain lc since
      = Inl (corrupt path u64_max ''sequence space exhausted'')" for len chain lc since
    using l(2) is_line_last [OF l(1)]
    by (subst recover_loop.simps) (simp add: read_line_is_line [OF l(1)] checked_add_u64_def)
  moreover have "numbered co 1 init" "1 + length init = u64_max"
    using assms ls by (simp_all add: numbered_append)
  ultimately show ?thesis
    using recover_loop_lines [of co 1 init cr path "l @ rest" 0 "chain_genesis cr" None 0] ls
    by (simp add: recover_def)
qed

lemma recover_success:
  assumes "codec_documented co" "journal_base cr co pols ls j"
    and "recover cr co path (j_file j) = (Inr r, file)"
  obtains new where "journal_lines cr co pols (ls @ new)" "r = recovered_of cr co (ls @ new)"
    "file = concat (ls @ new)"
proof -
  from journal_file_lines [OF assms(1,2)] obtain new torn
    where n: "journal_lines cr co pols (ls @ new)" "j_file j = concat (ls @ new) @ torn"
      "CHR 0x0A \<notin> set torn" "lines_of (j_file j) = ls @ new" .
  note num = journal_lines_numbered [OF assms(1) n(1)]
  have "length (ls @ new) < u64_max"
  proof (rule ccontr)
    assume "\<not> ?thesis"
    with num have "length (ls @ new) = u64_max" by simp
    from recover_exhausted [OF conjunct1 [OF num] this, of cr path torn] n(2) assms(3) show False by auto
  qed
  with recover_lines [OF conjunct1 [OF num] _ n(3), of cr path] n(2) assms(3) that [OF n(1)]
  show thesis by simp
qed

lemma writer_close_base:
  assumes "codec_documented co" "journal_inv cr co pols ls j" "pol \<in> pols"
  shows "\<exists>new. journal_base cr co pols (ls @ new) (writer_close cr co pol env j)"
proof (cases "j_poison j = None \<and> 0 < ws_since_checkpoint (j_state j)")
  case True
  obtain r j' where w: "writer_checkpoint cr co pol env j = (r, j')" by force
  from writer_checkpoint_inv [OF assms(1,2) _ assms(3) w] True
  have "\<exists>new. journal_base cr co pols (ls @ new) j'"
    by (cases r) (auto simp: journal_inv_def intro: exI [of _ "[]"])
  with True w show ?thesis by (simp add: writer_close_def)
next
  case False
  then show ?thesis using assms(2) by (auto simp: writer_close_def journal_inv_def intro: exI [of _ "[]"])
qed

text \<open>The invariant of a history.\<close>

definition history_inv ::
  "crypto \<Rightarrow> codec \<Rightarrow> checkpoint_policy set \<Rightarrow> string list \<Rightarrow> writer \<Rightarrow> bool" where
  "history_inv cr co pols ls w \<longleftrightarrow>
     journal_inv cr co pols ls (w_journal w) \<and> acks_kept ls (acked (w_acks w))
     \<and> list_all (event_body co) (queue_bodies (w_queue w))"

lemma history_inv_iterate:
  assumes "codec_documented co" "history_inv cr co pols ls w" "pol \<in> pols"
    and "writer_iteration cr co pol env (w_queue w) (w_journal w) = (acks, queue, j)"
  shows "\<exists>ls'. history_inv cr co pols ls' \<lparr>w_queue = queue, w_journal = j, w_acks = w_acks w @ acks\<rparr>"
proof -
  have inv: "journal_inv cr co pols ls (w_journal w)" "acks_kept ls (acked (w_acks w))"
    "list_all (event_body co) (queue_bodies (w_queue w))"
    using assms(2) by (simp_all add: history_inv_def)
  have bodies: "list_all (event_body co) (map fst acks)" "list_all (event_body co) (queue_bodies queue)"
    using writer_iteration_answers [OF assms(4)] inv(3) by simp_all
  consider "acks = [] \<and> j = w_journal w"
    | "after_checkpoint [] (writer_checkpoint cr co pol env (w_journal w)) = (acks, j)" "j_poison (w_journal w) = None"
    | b bs where "writer_batch cr co pol env (b # bs) (w_journal w) = (acks, j)"
    using assms(4)
    by (cases "(cr, co, pol, env, w_queue w, w_journal w)" rule: writer_iteration.cases)
       (auto split: prod.splits if_splits)
  then show ?thesis
  proof cases
    case 1
    with inv bodies show ?thesis by (auto simp: history_inv_def)
  next
    case 2
    from after_checkpoint_inv [OF assms(1) inv(1) 2(2) assms(3) 2(1)] inv(2) bodies
    show ?thesis by (auto simp: history_inv_def intro: acks_kept_mono)
  next
    case 3
    have "list_all (event_body co) (b # bs)"
      using bodies(1) writer_batch_answers [of cr co pol env "b # bs" "w_journal w"] 3 by simp
    from writer_batch_inv [OF assms(1) inv(1) assms(3) this 3 inv(2)] bodies
    show ?thesis by (auto simp: history_inv_def)
  qed
qed

lemma history_inv_restart:
  assumes "codec_documented co" "journal_base cr co pols ls (w_journal w)"
    and "acks_kept ls (acked (w_acks w))" "recover cr co path (j_file (w_journal w)) = (Inr r, file)"
  shows "\<exists>ls'. history_inv cr co pols ls' (journal_restart now r file w)"
proof -
  from recover_success [OF assms(1,2,4)] obtain new
    where n: "journal_lines cr co pols (ls @ new)" "r = recovered_of cr co (ls @ new)"
      "file = concat (ls @ new)" .
  have "history_inv cr co pols (ls @ new) (journal_restart now r file w)"
    using acks_kept_mono [OF assms(3)] journal_inv_start [OF n(1) exports_kept_mono] assms(2) n(2,3)
    by (simp add: history_inv_def journal_restart_def journal_base_def)
  then show ?thesis ..
qed

lemma history_inv_step:
  assumes "codec_documented co" "history_inv cr co pols ls w" "journal_step cr co pols w w'"
  shows "\<exists>ls'. history_inv cr co pols ls' w'"
  using assms(3)
proof cases
  case (step_enqueue body m)
  then have "m = Record body" by (simp add: enqueue_check_def split: if_splits)
  with step_enqueue assms(2) show ?thesis by (auto simp: history_inv_def)
next
  case step_tick
  with assms(2) show ?thesis by (auto simp: history_inv_def)
next
  case (step_writer pol env acks queue j)
  with history_inv_iterate [OF assms(1,2)] show ?thesis by blast
next
  case (step_crash path r f now)
  with history_inv_restart [OF assms(1)] assms(2) show ?thesis
    by (auto simp: history_inv_def journal_inv_def)
next
  case (step_close pol env j path r f now)
  from writer_close_base [OF assms(1) _ step_close(2), of cr ls "w_journal w" env] assms(2) step_close(4)
  obtain new where "journal_base cr co pols (ls @ new) j" by (auto simp: history_inv_def)
  with history_inv_restart [OF assms(1), of cr pols "ls @ new" "w\<lparr>w_journal := j\<rparr>"] step_close
    assms(2) acks_kept_mono
  show ?thesis by (auto simp: history_inv_def)
qed

lemma journal_history_inv:
  assumes "codec_documented co" "journal_history cr co pols w"
  shows "\<exists>ls. history_inv cr co pols ls w"
  using assms(2)
proof (induction rule: journal_history.induct)
  case (history_new now)
  have "history_inv cr co pols [] (journal_new cr now)"
    by (auto simp: history_inv_def journal_new_def acks_kept_def writer_start_def state_of_def exports_kept_def
        intro!: journal_inv_clean journal_empty)
  then show ?case ..
next
  case (history_step w w')
  with history_inv_step [OF assms(1)] show ?case by blast
qed

section \<open>A codec\<close>

text \<open>A small format with the documented behaviour, for the witnesses: an object is its kind and one
  member that holds the rest of the line.\<close>

fun sample_object :: "string \<Rightarrow> json option" where
  "sample_object (a # k # payload) =
     (if k = CHR ''C'' then Some (JObject [(''kind'', JString CHECKPOINT_KIND), (''data'', JString payload)])
      else if k = CHR ''E'' then Some (JObject [(''kind'', JString ''event''), (''data'', JString payload)])
      else None)"
| "sample_object _ = None"

definition sample_parse :: "string \<Rightarrow> json option" where
  "sample_parse s =
     (case strip_prefix SEQ_PREFIX s of
        None \<Rightarrow> sample_object s
      | Some t \<Rightarrow>
          (case split_once CHR '','' t of
             None \<Rightarrow> None
           | Some (n, rest) \<Rightarrow>
               (case sample_object (CHR ''{'' # rest) of
                  Some (JObject fs) \<Rightarrow> Some (JObject ((''seq'', JUint (dec_value n)) # fs))
                | _ \<Rightarrow> None)))"

definition sample_option :: "string option \<Rightarrow> string" where
  "sample_option v = (case v of None \<Rightarrow> [] | Some s \<Rightarrow> ''+'' @ hex_string s)"

definition sample_unoption :: "string \<Rightarrow> string option" where
  "sample_unoption s = (case s of [] \<Rightarrow> None | _ # r \<Rightarrow> unhex r)"

definition sample_checkpoint_to :: "checkpoint \<Rightarrow> string" where
  "sample_checkpoint_to cp = ''{C'' @ join_char CHR '',''
     [hex_string (cp_timestamp cp), dec_string (cp_covers_from cp), dec_string (cp_covers_to cp),
      hex_string (cp_chain cp), sample_option (map_option dec_string (cp_previous_checkpoint cp)),
      sample_option (cp_key_id cp), sample_option (cp_signature cp)]"

definition sample_checkpoint_from :: "json \<Rightarrow> string + checkpoint" where
  "sample_checkpoint_from v =
     (case Option.bind (json_get v ''data'') as_str of
        None \<Rightarrow> Inl ''missing field''
      | Some p \<Rightarrow>
          (case split_char CHR '','' p of
             [t, f, u, c, pc, k, s] \<Rightarrow>
               (case (unhex t, unhex c) of
                  (Some t', Some c') \<Rightarrow>
                    Inr \<lparr>cp_timestamp = t', cp_covers_from = dec_value f, cp_covers_to = dec_value u,
                         cp_chain = c', cp_previous_checkpoint = map_option dec_value (sample_unoption pc),
                         cp_key_id = sample_unoption k, cp_signature = sample_unoption s\<rparr>
                | _ \<Rightarrow> Inl ''invalid string'')
           | _ \<Rightarrow> Inl ''missing field''))"

definition sample_codec :: codec where
  "sample_codec =
     \<lparr>js_parse = sample_parse, js_error = (\<lambda>_. ''expected value''), js_checkpoint_to = sample_checkpoint_to,
      js_checkpoint_from = sample_checkpoint_from\<rparr>"

lemma hex_lower_class: "n < 16 \<Longrightarrow> is_ascii_digit (hex_lower n) \<or> is_ascii_lowercase (hex_lower n)"
  by (simp add: ascii_simps byte_val_hex_lower)

lemma hex_digit_cases: "c \<in> set (hex_string s) \<Longrightarrow> is_ascii_digit c \<or> is_ascii_lowercase c"
proof (induction s)
  case (Cons b s)
  have "byte_val b div 16 < 16" using byte_val_less [of b] by linarith
  with Cons hex_lower_class [of "byte_val b div 16"] hex_lower_class [of "byte_val b mod 16"]
  show ?case by (auto simp: hex_string_Cons hex_byte_def)
qed (simp add: hex_string_def)

lemma sample_fields_free:
  assumes "d \<in> {CHR '','', CHR 0x0A}"
  shows "d \<notin> set (hex_string s)" "d \<notin> set (dec_string n)" "d \<notin> set (sample_option v)"
proof -
  show hex: "d \<notin> set (hex_string s)" for s
    using assms hex_digit_cases [of d s] by (auto simp: ascii_simps)
  show "d \<notin> set (dec_string n)" using assms dec_string_digits [of d n] by (auto simp: ascii_simps)
  show "d \<notin> set (sample_option v)" using assms hex by (auto simp: sample_option_def split: option.split)
qed

lemma sample_unoption_option [simp]: "sample_unoption (sample_option v) = v"
  by (cases v) (simp_all add: sample_unoption_def sample_option_def)

lemma sample_checkpoint_roundtrip:
  "js_checkpoint_from sample_codec v = Inr cp"
  if "Option.bind (json_get v ''data'') as_str = Some (drop 2 (sample_checkpoint_to cp))"
proof -
  have "split_char CHR '','' (drop 2 (sample_checkpoint_to cp)) =
      [hex_string (cp_timestamp cp), dec_string (cp_covers_from cp), dec_string (cp_covers_to cp),
       hex_string (cp_chain cp), sample_option (map_option dec_string (cp_previous_checkpoint cp)),
       sample_option (cp_key_id cp), sample_option (cp_signature cp)]"
    unfolding sample_checkpoint_to_def drop_append
    by (subst split_join [symmetric]) (auto simp: sample_fields_free)
  with that show ?thesis
    by (simp add: sample_codec_def sample_checkpoint_from_def option.map_comp comp_def option.map_ident)
qed

lemma sample_parse_object:
  assumes "js_parse sample_codec body = Some (JObject fs)" "map_of fs ''seq'' = None"
  shows "sample_object body = Some (JObject fs)"
  using assms
  by (auto simp: sample_codec_def sample_parse_def split: option.splits json.splits prod.splits)

lemma sample_splice:
  assumes "spliceable sample_codec body fs kind"
  shows "js_parse sample_codec (SEQ_PREFIX @ dec_string n @ '','' @ tl body)
    = Some (JObject ((''seq'', JUint n) # fs))"
proof -
  have "body \<noteq> []" "hd body = CHR ''{''" using assms by (auto simp: spliceable_def)
  then have body: "CHR ''{'' # tl body = body" by (metis list.collapse)
  have "sample_object body = Some (JObject fs)"
    using assms sample_parse_object by (simp add: spliceable_def)
  then show ?thesis
    using split_once_append [OF sample_fields_free(2) [of "CHR '',''" n], of "tl body"]
    by (simp add: sample_codec_def sample_parse_def strip_prefix_def body)
qed

lemma sample_checkpoint_spliceable:
  "spliceable sample_codec (sample_checkpoint_to cp)
     [(''kind'', JString CHECKPOINT_KIND), (''data'', JString (drop 2 (sample_checkpoint_to cp)))] CHECKPOINT_KIND"
proof -
  have "CHR 0x0A \<notin> set (sample_checkpoint_to cp)"
    using sample_fields_free [of "CHR 0x0A"] by (simp add: sample_checkpoint_to_def)
  then show ?thesis
    by (simp add: spliceable_def sample_checkpoint_to_def sample_codec_def sample_parse_def
        strip_prefix_def starts_with_def SEQ_PREFIX_def Suc_le_eq)
qed

lemma sample_codec_documented: "codec_documented sample_codec"
  unfolding codec_documented_def
proof (intro conjI allI impI)
  fix n body fs kind assume "spliceable sample_codec body fs kind"
  then show "\<exists>gs. js_parse sample_codec (SEQ_PREFIX @ dec_string n @ '','' @ tl body) = Some (JObject gs)
      \<and> map_of gs = (map_of fs)(''seq'' \<mapsto> JUint n)"
    using sample_splice [of body fs kind n] by (auto intro!: exI [of _ "(''seq'', JUint n) # fs"])
next
  fix cp
  show "\<exists>fs. spliceable sample_codec (js_checkpoint_to sample_codec cp) fs CHECKPOINT_KIND
      \<and> (\<forall>gs n. map_of gs = (map_of fs)(''seq'' \<mapsto> JUint n) \<longrightarrow>
            js_checkpoint_from sample_codec (JObject gs) = Inr cp)"
  proof (intro exI conjI allI impI)
    show "spliceable sample_codec (js_checkpoint_to sample_codec cp)
        [(''kind'', JString CHECKPOINT_KIND), (''data'', JString (drop 2 (sample_checkpoint_to cp)))] CHECKPOINT_KIND"
      using sample_checkpoint_spliceable [of cp] by (simp add: sample_codec_def)
  next
    fix gs n
    assume "map_of gs = (map_of [(''kind'', JString CHECKPOINT_KIND),
        (''data'', JString (drop 2 (sample_checkpoint_to cp)))])(''seq'' \<mapsto> JUint n)"
    then show "js_checkpoint_from sample_codec (JObject gs) = Inr cp"
      by (intro sample_checkpoint_roundtrip) simp
  qed
qed

definition sample_body :: string where
  "sample_body = ''{E1}''"

lemma sample_event_body: "event_body sample_codec sample_body"
  by (auto simp: event_body_def spliceable_def sample_body_def sample_codec_def sample_parse_def
      strip_prefix_def starts_with_def SEQ_PREFIX_def CHECKPOINT_KIND_def)

section \<open>Properties\<close>

text \<open>C3. What the journal acknowledges is durable and keeps its number, through any interleaving of
  callers, ticks, failing writes, crashes at any byte, orderly shutdowns and restarts: the numbers
  acknowledged over the whole history grow strictly, so none is ever issued twice, and each
  acknowledged record is the line of the file with its number.\<close>

theorem acknowledged_durable:
  assumes "codec_documented co" "journal_history cr co pols w"
  shows "sorted_wrt (<) (map fst (acked (w_acks w)))
    \<and> list_all (\<lambda>(n, b). 0 < n \<and> n \<le> length (lines_of (j_file (w_journal w)))
         \<and> lines_of (j_file (w_journal w)) ! (n - 1) = record_line n b) (acked (w_acks w))"
proof -
  from journal_history_inv [OF assms] obtain ls where inv: "history_inv cr co pols ls w" ..
  then have base: "journal_base cr co pols ls (w_journal w)" by (simp add: history_inv_def journal_inv_def)
  from inv recover_journal [OF assms(1) base, THEN conjunct1]
  have "acks_kept (lines_of (j_file (w_journal w))) (acked (w_acks w))"
    by (metis acks_kept_mono history_inv_def)
  then show ?thesis by (simp add: acks_kept_def)
qed

definition sample_env :: environment where
  "sample_env = \<lparr>env_now = 0, env_timestamp = ''t'', env_batch = Written,
     env_checkpoint = WriteFailed (IoError OtherKind ''disk full'') 5, env_export = False\<rparr>"

definition sample_policy :: checkpoint_policy where
  "sample_policy = \<lparr>pol_every_records = 1, pol_every_seconds = 60, pol_signing_key = Some ''k'',
     pol_export = False\<rparr>"

definition sample_queue :: "message list" where
  "sample_queue = [Record sample_body, Tick, Record sample_body]"

text \<open>Two records are queued and written; the checkpoint after them tears five bytes into its line.\<close>

definition sample_writer :: writer where
  "sample_writer =
     (case writer_iteration sample_crypto sample_codec sample_policy sample_env sample_queue
             (w_journal (journal_new sample_crypto 0)) of
        (acks, queue, j) \<Rightarrow> \<lparr>w_queue = queue, w_journal = j, w_acks = acks\<rparr>)"

lemma sample_enqueue: "enqueue_check sample_body = Inr (Record sample_body)"
  by (simp add: enqueue_check_def sample_body_def)

lemma sample_history: "journal_history sample_crypto sample_codec {sample_policy} sample_writer"
proof -
  let ?w0 = "journal_new sample_crypto 0"
  let ?w1 = "?w0\<lparr>w_queue := [Record sample_body]\<rparr>"
  let ?w2 = "?w1\<lparr>w_queue := [Record sample_body, Tick]\<rparr>"
  let ?w3 = "?w2\<lparr>w_queue := sample_queue\<rparr>"
  note step = history_step [where cr = sample_crypto and co = sample_codec and pols = "{sample_policy}"]
  note depth = WRITE_QUEUE_DEPTH_def journal_new_def
  have "journal_history sample_crypto sample_codec {sample_policy} ?w0" by (rule history_new)
  from step [OF this step_enqueue [OF _ sample_event_body sample_enqueue]]
  have "journal_history sample_crypto sample_codec {sample_policy} ?w1" by (simp add: depth)
  from step [OF this step_tick] have "journal_history sample_crypto sample_codec {sample_policy} ?w2"
    by (simp add: depth)
  from step [OF this step_enqueue [OF _ sample_event_body sample_enqueue]]
  have w3: "journal_history sample_crypto sample_codec {sample_policy} ?w3"
    by (simp add: depth sample_queue_def)
  obtain acks queue j where it: "writer_iteration sample_crypto sample_codec sample_policy sample_env
      sample_queue (w_journal ?w0) = (acks, queue, j)" by (cases "writer_iteration sample_crypto
      sample_codec sample_policy sample_env sample_queue (w_journal ?w0)")
  with step [OF w3 step_writer [of sample_policy, where env = sample_env]]
  show ?thesis by (simp add: sample_writer_def journal_new_def)
qed

lemma drain_room:
  "0 < room \<Longrightarrow> drain room [] = ([], [])"
  "0 < room \<Longrightarrow> drain room (Tick # queue) = drain room queue"
  "0 < room \<Longrightarrow> drain room (Record b # queue) = (case drain (room - 1) queue of (bs, q) \<Rightarrow> (b # bs, q))"
  by (cases room; simp)+

lemma sample_acks:
  "acked (w_acks sample_writer) = [(1, sample_body), (2, sample_body)]"
  "j_poison (w_journal sample_writer) = Some (IoError OtherKind ''disk full'')"
  by (simp_all add: sample_writer_def sample_queue_def sample_env_def sample_policy_def journal_new_def
      writer_start_def drain_room MAX_BATCH_def writer_batch_def checked_add_u64_def Let_def
      after_checkpoint_def writer_checkpoint_def fail_batch_def acked_def)

theorem acknowledged_durable_witness:
  "lines_of (j_file (w_journal sample_writer)) ! 1 = record_line 2 sample_body"
  using acknowledged_durable [OF sample_codec_documented sample_history]
  by (simp add: sample_acks)

text \<open>C10. The journal comes back after any crash: whatever bytes the writer had left in the file,
  recovery succeeds (while the last sequence number is not used up), cuts the file back to its
  complete lines and nothing further, and resumes after the last of them with the chain over
  exactly those lines. No acknowledged number is issued again.\<close>

theorem recovery_after_crash:
  assumes "codec_documented co" "journal_history cr co pols w"
    and "length (lines_of (j_file (w_journal w))) < u64_max"
  shows "\<exists>r torn. recover cr co path (j_file (w_journal w)) = (Inr r, concat (lines_of (j_file (w_journal w))))
    \<and> j_file (w_journal w) = concat (lines_of (j_file (w_journal w))) @ torn \<and> CHR 0x0A \<notin> set torn
    \<and> rec_last_seq r = length (lines_of (j_file (w_journal w)))
    \<and> rec_chain r = chain_of cr (lines_of (j_file (w_journal w)))
    \<and> list_all (\<lambda>(n, b). n \<le> rec_last_seq r) (acked (w_acks w))"
proof -
  from journal_history_inv [OF assms(1,2)] obtain ls where inv: "history_inv cr co pols ls w" ..
  then have base: "journal_base cr co pols ls (w_journal w)" by (simp add: history_inv_def journal_inv_def)
  from journal_file_lines [OF assms(1) base] obtain new torn
    where n: "j_file (w_journal w) = concat (ls @ new) @ torn" "CHR 0x0A \<notin> set torn"
      "lines_of (j_file (w_journal w)) = ls @ new" .
  have "list_all (\<lambda>(n, b). n \<le> length (ls @ new)) (acked (w_acks w))"
    using inv by (fastforce simp: history_inv_def acks_kept_def list_all_iff)
  with recover_journal [OF assms(1) base, of path] assms(3) n show ?thesis
    by (simp add: recovered_of_def)
qed

lemma sample_file:
  "j_file (w_journal sample_writer) = concat (rec_lines 1 [sample_body, sample_body]) @ ''{'' @ CHR 0x22 # ''seq''"
  by (simp add: sample_writer_def sample_queue_def sample_env_def sample_policy_def journal_new_def
      writer_start_def drain_room MAX_BATCH_def writer_batch_def checked_add_u64_def Let_def
      after_checkpoint_def writer_checkpoint_def fail_batch_def SEQ_PREFIX_def
      record_line_def [of "Suc (Suc (Suc 0))"])

lemma sample_lines: "lines_of (j_file (w_journal sample_writer)) = rec_lines 1 [sample_body, sample_body]"
proof -
  have "list_all is_line (rec_lines 1 [sample_body, sample_body])"
    by (auto simp: sample_body_def intro!: record_line_is_line)
  then show ?thesis unfolding sample_file by (subst lines_of_concat) simp_all
qed

theorem recovery_after_crash_witness:
  "\<exists>r. fst (recover sample_crypto sample_codec ''audit'' (j_file (w_journal sample_writer))) = Inr r
     \<and> 2 \<le> rec_last_seq r"
  using recovery_after_crash [OF sample_codec_documented sample_history, of "''audit''"]
  by (auto simp: sample_acks sample_lines)

text \<open>C28. The writer loop ends and every caller is answered: from any queue and any journal, under any
  behaviour of the disk, the loop empties the queue and answers each queued record exactly once, in
  the order of the queue.\<close>

theorem every_record_answered: "map fst (fst (writer_loop cr co pol envs queue j)) = queue_bodies queue"
proof (induction cr co pol envs queue j rule: writer_loop.induct)
  case (1 cr co pol envs queue j)
  show ?case
  proof (cases "queue = []")
    case False
    obtain acks queue' j' where it: "writer_iteration cr co pol (envs 0) queue j = (acks, queue', j')"
      by (cases "writer_iteration cr co pol (envs 0) queue j")
    obtain acks' j'' where rest: "writer_loop cr co pol (envs \<circ> Suc) queue' j' = (acks', j'')" by force
    have "map fst acks' = queue_bodies queue'" using 1 [OF False it [symmetric] refl] rest by (simp add: comp_def)
    with False it rest writer_iteration_answers [OF it] show ?thesis
      by (simp add: writer_loop.simps [of cr co pol envs queue])
  qed (simp add: writer_loop.simps)
qed

text \<open>After a failed write or sync the journal is closed to writing: whatever is queued, no byte
  of the file and nothing of the writer's state changes, and every record is refused with the
  failure that poisoned the journal.\<close>

theorem poisoned_refuses_everything:
  assumes "j_poison j = Some e"
  shows "\<exists>queue'. writer_iteration cr co pol env queue j
    = (map (\<lambda>b. (b, Inl e)) (take (length (queue_bodies queue) - length (queue_bodies queue')) (queue_bodies queue)),
       queue', j)"
proof (cases queue)
  case Nil
  then show ?thesis by simp
next
  case (Cons m q)
  show ?thesis
  proof (cases m)
    case Tick
    with Cons assms show ?thesis by (auto intro!: exI [of _ q])
  next
    case (Record b)
    obtain bs q1 where d: "drain (MAX_BATCH - 1) q = (bs, q1)" by force
    with Cons Record assms drain_takes [OF d] show ?thesis
      by (auto simp: writer_batch_def intro!: exI [of _ q1])
  qed
qed

theorem poisoned_refuses_everything_witness:
  "\<exists>queue'. writer_iteration sample_crypto sample_codec sample_policy sample_env sample_queue
       (w_journal sample_writer)
    = (map (\<lambda>b. (b, Inl (IoError OtherKind ''disk full'')))
         (take (length (queue_bodies sample_queue) - length (queue_bodies queue')) (queue_bodies sample_queue)),
       queue', w_journal sample_writer)"
  by (rule poisoned_refuses_everything) (rule sample_acks)

text \<open>A sequence number fits the buffer it is rendered into: every \<open>u64\<close> takes at most the
  20 digits of \<open>MAX_U64_DIGITS\<close>, so the index of the loop never runs below zero, and the digits
  are those of the number.\<close>

theorem render_u64_fits:
  assumes "v \<le> u64_max"
  shows "length (render_u64 v) \<le> 20 \<and> dec_value (render_u64 v) = v"
  using dec_string_length [of v 19] assms by simp

theorem render_u64_fits_witness:
  "length (render_u64 u64_max) \<le> 20 \<and> dec_value (render_u64 u64_max) = u64_max"
  by (rule render_u64_fits) simp

text \<open>A tick that is drained together with records leaves no trace: the loop behaves as if it had not
  been sent, however long the last checkpoint is ago.\<close>

lemma drained_tick_ignored:
  "writer_iteration cr co pol env (Record b # Tick # queue) j
     = writer_iteration cr co pol env (Record b # queue) j"
  by (simp add: MAX_BATCH_def drain_room)

lemma drained_tick_leaves_unsealed:
  assumes "j_poison j = None" "ws_last_seq (j_state j) + 2 \<le> u64_max" "env_batch env = Written"
    and "Suc (ws_since_checkpoint (j_state j)) < pol_every_records pol"
    and "pol_every_seconds pol \<le> env_now env - ws_last_checkpoint_at (j_state j)"
    and "writer_iteration cr co pol env [Record b, Tick] j = (acks, queue, j')"
  shows "queue = [] \<and> ws_since_checkpoint (j_state j') = Suc (ws_since_checkpoint (j_state j))
    \<and> ws_last_checkpoint (j_state j') = ws_last_checkpoint (j_state j)"
  using assms
  by (auto simp: MAX_BATCH_def drain_room writer_batch_def checked_add_u64_def Let_def)

section \<open>The journal as an audit sink\<close>

text \<open>
  \<open>AuditSink::append\<close> on an idle writer: the event is serialized, checked and queued, the
  writer takes it, and the caller gets the acknowledgement. The environments the writer will meet
  are part of the sink. What is recorded is read off the bytes of the file. Appends whose
  events wait in the queue together are those of the step relation above.
\<close>

record journal_sink =
  js_journal :: journal
  js_envs :: "nat \<Rightarrow> environment"

definition journal_append ::
  "crypto \<Rightarrow> codec \<Rightarrow> checkpoint_policy \<Rightarrow> ('e \<Rightarrow> string) \<Rightarrow> (journal_sink, 'e) append_op" where
  "journal_append cr co pol ser s e =
     (case enqueue_check (ser e) of
        Inl err \<Rightarrow> (Inl err, s)
      | Inr m \<Rightarrow>
          (case writer_iteration cr co pol (js_envs s 0) [m] (js_journal s) of (acks, _, j) \<Rightarrow>
             (case acks of
                [(_, r)] \<Rightarrow> r
              | _ \<Rightarrow> Inl (IoError OtherKind
                  ''the audit journal writer dropped the record without acknowledging it''),
              \<lparr>js_journal = j, js_envs = js_envs s \<circ> Suc\<rparr>)))"

definition journal_recorded :: "('e \<Rightarrow> string) \<Rightarrow> journal_sink \<Rightarrow> (nat \<times> 'e) set" where
  "journal_recorded ser s =
     {(n, e). 0 < n \<and> n \<le> length (lines_of (j_file (js_journal s)))
        \<and> lines_of (j_file (js_journal s)) ! (n - 1) = record_line n (ser e)}"

definition journal_sink_ok ::
  "crypto \<Rightarrow> codec \<Rightarrow> checkpoint_policy \<Rightarrow> ('e \<Rightarrow> string) \<Rightarrow> journal_sink \<Rightarrow> bool" where
  "journal_sink_ok cr co pol ser s \<longleftrightarrow>
     codec_documented co \<and> (\<forall>e. event_body co (ser e))
     \<and> (\<exists>ls. journal_inv cr co {pol} ls (js_journal s))"

lemma event_body_enqueue: "event_body co body \<Longrightarrow> enqueue_check body = Inr (Record body)"
  by (auto simp: event_body_def spliceable_def enqueue_check_def)

lemma lines_extend:
  assumes "codec_documented co" "journal_inv cr co pols ls j"
  obtains extra where "lines_of (j_file j) = ls @ extra"
  using assms recover_journal [OF assms(1), of cr pols ls j] by (auto simp: journal_inv_def)

lemma lines_clean:
  assumes "codec_documented co" "journal_inv cr co pols ls j" "j_poison j = None"
  shows "lines_of (j_file j) = ls"
proof -
  have "journal_lines cr co pols ls" "j_file j = concat ls"
    using assms(2,3) by (simp_all add: journal_inv_def journal_base_def)
  moreover from this have "list_all is_line ls"
    using journal_lines_numbered [OF assms(1)] numbered_is_line by blast
  ultimately show ?thesis using lines_of_concat [of ls "[]"] by simp
qed

lemma journal_recorded_mono:
  assumes "lines_of (j_file (js_journal s')) = lines_of (j_file (js_journal s)) @ extra"
  shows "journal_recorded ser s \<subseteq> journal_recorded ser s'"
  using assms by (auto simp: journal_recorded_def nth_append)

lemma journal_append_cases:
  assumes "journal_sink_ok cr co pol ser s" "journal_append cr co pol ser s e = (r, s')"
  obtains (refused) err extra where "r = Inl err" "journal_sink_ok cr co pol ser s'"
      "lines_of (j_file (js_journal s')) = lines_of (j_file (js_journal s)) @ extra"
  | (written) n extra where "r = Inr n" "n = Suc (length (lines_of (j_file (js_journal s))))"
      "journal_sink_ok cr co pol ser s'"
      "lines_of (j_file (js_journal s')) = lines_of (j_file (js_journal s)) @ record_line n (ser e) # extra"
proof -
  obtain ls where doc: "codec_documented co" and body: "event_body co (ser e)" "\<forall>e. event_body co (ser e)"
    and inv: "journal_inv cr co {pol} ls (js_journal s)"
    using assms(1) by (auto simp: journal_sink_ok_def)
  obtain acks j where w: "writer_batch cr co pol (js_envs s 0) [ser e] (js_journal s) = (acks, j)" by force
  have s': "s' = \<lparr>js_journal = j, js_envs = js_envs s \<circ> Suc\<rparr>"
    and r: "[b] = map fst acks \<Longrightarrow> r = snd (hd acks)" for b
    using assms(2) w event_body_enqueue [OF body(1)]
    by (auto simp: journal_append_def drain_room MAX_BATCH_def split: list.splits)
  have ok: "journal_sink_ok cr co pol ser s'" if "journal_inv cr co {pol} ls' j" for ls'
    using that doc body(2) s' by (auto simp: journal_sink_ok_def)
  show thesis
  proof (cases "j_poison (js_journal s)")
    case (Some err)
    with w have "acks = [(ser e, Inl err)]" "j = js_journal s" by (auto simp: writer_batch_def)
    with refused [of err "[]"] ok [of ls] inv r [of "ser e"] s' show thesis by simp
  next
    case None
    note clean = lines_clean [OF doc inv None]
    have "pol \<in> {pol}" "list_all (event_body co) [ser e]" using body(1) by simp_all
    from doc inv this w show thesis
    proof (cases rule: writer_batch_cases)
      case w: refused
      obtain x where "acks = [(ser e, x)]" using w(2) by (cases acks) auto
      with w(1) obtain err where "acks = [(ser e, Inl err)]" by (cases x) (auto simp: acked_def)
      obtain extra where "lines_of (j_file j) = ls @ extra" by (rule lines_extend [OF doc w(3)])
      then show thesis
        using \<open>acks = [(ser e, Inl err)]\<close> ok [OF w(3)] r [of "ser e"] clean s'
        by (intro refused [of err extra]) simp_all
    next
      case w: (written rest)
      obtain extra where
        "lines_of (j_file j) = (ls @ rec_lines (Suc (length ls)) [ser e] @ rest) @ extra"
        by (rule lines_extend [OF doc w(2)])
      then show thesis
        using ok [OF w(2)] r [of "ser e"] clean s' w(1)
        by (intro written [of "Suc (length ls)" "rest @ extra"]) simp_all
    qed
  qed
qed

interpretation journal: sink_contract "journal_append cr co pol ser" "journal_recorded ser"
  "journal_sink_ok cr co pol ser"
proof unfold_locales
  fix s e assume ok: "journal_sink_ok cr co pol ser s"
  obtain r s' where a: "journal_append cr co pol ser s e = (r, s')" by force
  from ok a show "journal_sink_ok cr co pol ser (snd (journal_append cr co pol ser s e))"
    by (cases rule: journal_append_cases) (simp_all add: a)
  from ok a show "journal_recorded ser s \<subseteq> journal_recorded ser (snd (journal_append cr co pol ser s e))"
    by (cases rule: journal_append_cases) (simp_all add: a journal_recorded_mono)
next
  fix s e n s' assume ok: "journal_sink_ok cr co pol ser s" "journal_append cr co pol ser s e = (Inr n, s')"
  then show "(n, e) \<in> journal_recorded ser s'"
    by (cases rule: journal_append_cases) (auto simp: journal_recorded_def)
  fix m e' assume "(m, e') \<in> journal_recorded ser s"
  with ok show "m < n"
    by (cases rule: journal_append_cases) (auto simp: journal_recorded_def)
qed

end
