(* ===== verification/Verify.thy ===== *)
theory Verify
  imports Journal
begin

text \<open>
  Reading a journal back and checking it offline: \<^verbatim>\<open>src/audit/reader.rs\<close>,
  \<^verbatim>\<open>src/audit/verify.rs\<close> and the directory of exported checkpoints of
  \<^verbatim>\<open>src/ports/checkpoint_sink.rs\<close>. A reader holds the bytes it has not read yet. The
  sequence counters of the reader are \<^verbatim>\<open>u64\<close> and its increments are unchecked; release
  builds wrap, and so do they here.
\<close>

section \<open>The reader\<close>

record jrecord =
  jr_seq :: nat
  jr_kind :: string
  jr_value :: json
  jr_line :: string
  jr_chain_before :: string

definition is_checkpoint :: "jrecord \<Rightarrow> bool" where
  "is_checkpoint r \<longleftrightarrow> jr_kind r = CHECKPOINT_KIND"

definition jr_timestamp :: "jrecord \<Rightarrow> string option" where
  "jr_timestamp r = Option.bind (json_get (jr_value r) ''timestamp'') as_str"

datatype read_error =
    ReadIo io_error
  | Unparseable nat string
  | Gap nat nat
  | TornTail nat nat

fun read_error_text :: "read_error \<Rightarrow> string" where
  "read_error_text (ReadIo e) = ''read error: '' @ io_message e"
| "read_error_text (Unparseable n detail) = ''record '' @ dec_string n @ '' is unparseable: '' @ detail"
| "read_error_text (Gap expected found) =
     ''expected sequence '' @ dec_string expected @ '', found '' @ dec_string found
       @ '' (gap, duplicate, or reordering)''"
| "read_error_text (TornTail n bytes) =
     ''torn trailing record after sequence '' @ dec_string n @ '' ('' @ dec_string bytes
       @ '' bytes without a newline)''"

record position =
  pos_next_seq :: nat
  pos_offset :: nat
  pos_chain :: string

definition position_start :: "crypto \<Rightarrow> position" where
  "position_start cr = \<lparr>pos_next_seq = 1, pos_offset = 0, pos_chain = chain_genesis cr\<rparr>"

record reader =
  rd_rest :: string
  rd_expected :: nat
  rd_offset :: nat
  rd_chain :: string
  rd_done :: bool

definition reader_open :: "crypto \<Rightarrow> string \<Rightarrow> reader" where
  "reader_open cr file =
     \<lparr>rd_rest = file, rd_expected = 1, rd_offset = 0, rd_chain = chain_genesis cr, rd_done = False\<rparr>"

definition reader_resume :: "string \<Rightarrow> position \<Rightarrow> io_error + reader" where
  "reader_resume file pos =
     (if length file < pos_offset pos
      then Inl (IoError InvalidInput (''journal is '' @ dec_string (length file)
             @ '' bytes, shorter than the resume offset '' @ dec_string (pos_offset pos)))
      else Inr \<lparr>rd_rest = drop (pos_offset pos) file, rd_expected = pos_next_seq pos,
                rd_offset = pos_offset pos, rd_chain = pos_chain pos, rd_done = False\<rparr>)"

definition reader_position :: "reader \<Rightarrow> position" where
  "reader_position r =
     \<lparr>pos_next_seq = rd_expected r, pos_offset = rd_offset r, pos_chain = rd_chain r\<rparr>"

definition wrapping_succ_u64 :: "nat \<Rightarrow> nat" where
  "wrapping_succ_u64 n = (n + 1) mod 2 ^ 64"

definition read_one :: "crypto \<Rightarrow> codec \<Rightarrow> reader \<Rightarrow> (read_error + jrecord option) \<times> reader" where
  "read_one cr co r =
     (case read_line (rd_rest r) of (line, rest) \<Rightarrow>
        let r' = r\<lparr>rd_rest := rest\<rparr> in
        if line = [] then (Inr None, r')
        else if last line \<noteq> CHR 0x0A then (Inl (TornTail (rd_expected r - 1) (length line)), r')
        else (case js_parse co (butlast line) of
            None \<Rightarrow> (Inl (Unparseable (rd_expected r) (js_error co (butlast line))), r')
          | Some v \<Rightarrow>
              (case Option.bind (json_get v ''seq'') as_u64 of
                 None \<Rightarrow> (Inl (Unparseable (rd_expected r) ''no numeric `seq`''), r')
               | Some seq \<Rightarrow>
                   (case Option.bind (json_get v ''kind'') as_str of
                      None \<Rightarrow> (Inl (Unparseable (rd_expected r) ''no string `kind`''), r')
                    | Some kind \<Rightarrow>
                        if seq \<noteq> rd_expected r then (Inl (Gap (rd_expected r) seq), r')
                        else (Inr (Some \<lparr>jr_seq = seq, jr_kind = kind, jr_value = v, jr_line = line,
                                         jr_chain_before = rd_chain r\<rparr>),
                              r'\<lparr>rd_chain := chain_extend cr (rd_chain r) line,
                                 rd_expected := wrapping_succ_u64 (rd_expected r),
                                 rd_offset := rd_offset r + length line\<rparr>)))))"

text \<open>The iterator: an error is delivered once and ends the iteration.\<close>

definition reader_next ::
  "crypto \<Rightarrow> codec \<Rightarrow> reader \<Rightarrow> (read_error + jrecord) option \<times> reader" where
  "reader_next cr co r =
     (if rd_done r then (None, r)
      else (case read_one cr co r of
              (Inr (Some record), r') \<Rightarrow> (Some (Inr record), r')
            | (Inr None, r') \<Rightarrow> (None, r'\<lparr>rd_done := True\<rparr>)
            | (Inl e, r') \<Rightarrow> (Some (Inl e), r'\<lparr>rd_done := True\<rparr>)))"

lemma read_line_rest: "snd (read_line []) = []"
  by (simp add: read_line_def)

lemma read_one_Some:
  assumes "read_one cr co r = (Inr (Some record), r')"
  shows "rd_rest r \<noteq> [] \<and> rd_rest r' = snd (read_line (rd_rest r)) \<and> rd_done r' = rd_done r"
  using assms
  by (auto simp: read_one_def Let_def read_line_def split: prod.splits option.splits if_splits)

section \<open>The verifier\<close>

datatype problem =
    Unreadable string
  | ChainMismatch nat string string
  | CoverageMismatch nat string
  | BadSignature nat string
  | Unsigned nat
  | ExportMissingFromJournal nat
  | ExportDiffers nat
  | ExportBeyondJournal nat nat
  | ExportMissing nat
  | ExportDuplicate nat

record verification =
  v_records :: nat
  v_checkpoints :: nat
  v_signed_checkpoints :: nat
  v_last_seq :: nat
  v_sealed_through :: "nat option"
  v_unsealed_records :: nat
  v_exports_checked :: nat
  v_chain :: string
  v_problems :: "problem list"

definition verification_default :: verification where
  "verification_default =
     \<lparr>v_records = 0, v_checkpoints = 0, v_signed_checkpoints = 0, v_last_seq = 0,
      v_sealed_through = None, v_unsealed_records = 0, v_exports_checked = 0, v_chain = [],
      v_problems = []\<rparr>"

definition verification_ok :: "verification \<Rightarrow> bool" where
  "verification_ok v \<longleftrightarrow> v_problems v = []"

definition push_problem :: "problem \<Rightarrow> verification \<Rightarrow> verification" where
  "push_problem p v = v\<lparr>v_problems := v_problems v @ [p]\<rparr>"

definition debug_option :: "nat option \<Rightarrow> string" where
  "debug_option n = (case n of None \<Rightarrow> ''None'' | Some k \<Rightarrow> ''Some('' @ dec_string k @ '')'')"

definition check_checkpoint ::
  "crypto \<Rightarrow> codec \<Rightarrow> jrecord \<Rightarrow> nat option \<Rightarrow> string list \<Rightarrow> verification
     \<Rightarrow> checkpoint option \<times> verification" where
  "check_checkpoint cr co record previous keys report =
     (case js_checkpoint_from co (jr_value record) of
        Inl error \<Rightarrow>
          (None, push_problem (Unreadable (''checkpoint '' @ dec_string (jr_seq record)
                   @ '' does not parse: '' @ error)) report)
      | Inr cp \<Rightarrow>
          (let expected_chain = chain_label (jr_chain_before record);
               report1 = (if cp_chain cp \<noteq> expected_chain
                          then push_problem (ChainMismatch (jr_seq record) expected_chain (cp_chain cp)) report
                          else report);
               expected_from = (case previous of None \<Rightarrow> 1 | Some seq \<Rightarrow> seq + 1);
               report2 = (if cp_covers_from cp \<noteq> expected_from \<or> cp_covers_to cp \<noteq> jr_seq record - 1
                             \<or> cp_previous_checkpoint cp \<noteq> previous
                          then push_problem (CoverageMismatch (jr_seq record)
                                 (''covers '' @ dec_string (cp_covers_from cp) @ ''..=''
                                    @ dec_string (cp_covers_to cp) @ '' after checkpoint ''
                                    @ debug_option (cp_previous_checkpoint cp) @ ''; expected ''
                                    @ dec_string expected_from @ ''..='' @ dec_string (jr_seq record - 1)
                                    @ '' after '' @ debug_option previous)) report1
                          else report1);
               report3 = (if keys = [] then report2
                          else (case checkpoint_verify cr (jr_seq record) keys cp of
                                  Inr (Some _) \<Rightarrow>
                                    report2\<lparr>v_signed_checkpoints := v_signed_checkpoints report2 + 1\<rparr>
                                | Inr None \<Rightarrow> push_problem (Unsigned (jr_seq record)) report2
                                | Inl detail \<Rightarrow> push_problem (BadSignature (jr_seq record) detail) report2))
           in (Some cp, report3)))"

text \<open>One record of the loop of \<open>verify\<close>: the report, the last checkpoint, the checkpoint lines
  and the chain.\<close>

record verify_state =
  vs_report :: verification
  vs_previous :: "nat option"
  vs_lines :: "(nat \<times> string) list"
  vs_chain :: string

definition verify_record ::
  "crypto \<Rightarrow> codec \<Rightarrow> string list \<Rightarrow> jrecord \<Rightarrow> verify_state \<Rightarrow> verify_state" where
  "verify_record cr co keys record vs =
     (let report = (vs_report vs)\<lparr>v_records := v_records (vs_report vs) + 1, v_last_seq := jr_seq record\<rparr>;
          vs = vs\<lparr>vs_chain := chain_extend cr (jr_chain_before record) (jr_line record)\<rparr>
      in if \<not> is_checkpoint record
         then vs\<lparr>vs_report := report\<lparr>v_unsealed_records := v_unsealed_records report + 1\<rparr>\<rparr>
         else (case check_checkpoint cr co record (vs_previous vs) keys
                      (report\<lparr>v_checkpoints := v_checkpoints report + 1\<rparr>) of
                 (None, report') \<Rightarrow> vs\<lparr>vs_report := report'\<rparr>
               | (Some cp, report') \<Rightarrow>
                   vs\<lparr>vs_report := report'\<lparr>v_sealed_through := Some (cp_covers_to cp), v_unsealed_records := 0\<rparr>,
                      vs_previous := Some (jr_seq record),
                      vs_lines := vs_lines vs @ [(jr_seq record, jr_line record)]\<rparr>))"

function verify_loop ::
  "crypto \<Rightarrow> codec \<Rightarrow> string list \<Rightarrow> reader \<Rightarrow> verify_state \<Rightarrow> verify_state" where
  "verify_loop cr co keys r vs =
     (case reader_next cr co r of
        (None, _) \<Rightarrow> vs
      | (Some (Inl e), _) \<Rightarrow>
          vs\<lparr>vs_report := push_problem (Unreadable (read_error_text e)) (vs_report vs)\<rparr>
      | (Some (Inr record), r') \<Rightarrow> verify_loop cr co keys r' (verify_record cr co keys record vs))"
  by pat_completeness auto
termination
proof (relation "measure (\<lambda>(cr, co, keys, r, vs). length (rd_rest r))")
  fix cr co keys r vs a r' b x
  assume "(a, r') = reader_next cr co r" "a = Some b" "b = Inr x"
  then have "read_one cr co r = (Inr (Some x), r')"
    by (auto simp: reader_next_def split: if_splits prod.splits sum.splits option.splits)
  from read_one_Some [OF this] show "((cr, co, keys, r', verify_record cr co keys x vs), cr, co, keys, r, vs)
      \<in> measure (\<lambda>(cr, co, keys, r, vs). length (rd_rest r))"
    by (simp add: read_line_length)
qed simp

declare verify_loop.simps [simp del]

text \<open>The exported checkpoints: the files of the directory by name, the sequence read off the name.\<close>

definition pad_20 :: "nat \<Rightarrow> string" where
  "pad_20 n = replicate (20 - length (dec_string n)) CHR ''0'' @ dec_string n"

definition file_name :: "nat \<Rightarrow> string" where
  "file_name seq = ''checkpoint-'' @ pad_20 seq @ ''.jsonl''"

definition export_seq :: "string \<Rightarrow> nat option" where
  "export_seq name =
     Option.bind (strip_prefix ''checkpoint-'' name)
       (\<lambda>rest. Option.bind (strip_suffix ''.jsonl'' rest) parse_u64)"

definition read_all :: "(string \<times> string) list \<Rightarrow> (nat \<times> string) list" where
  "read_all dir =
     sort_key fst (concat (map (\<lambda>(name, line). case export_seq name of None \<Rightarrow> [] | Some seq \<Rightarrow> [(seq, line)]) dir))"

text \<open>The comparison with the exports. The checkpoint lines carry distinct ascending numbers, so the
  binary search finds the one with the number if there is one.\<close>

fun find_index :: "nat \<Rightarrow> (nat \<times> string) list \<Rightarrow> nat option" where
  "find_index seq [] = None"
| "find_index seq ((n, _) # r) = (if n = seq then Some 0 else map_option Suc (find_index seq r))"

fun check_exports ::
  "(nat \<times> string) list \<Rightarrow> (nat \<times> string) list \<Rightarrow> nat option \<Rightarrow> bool list \<Rightarrow> verification
     \<Rightarrow> bool list \<times> verification" where
  "check_exports cps [] previous covered report = (covered, report)"
| "check_exports cps ((seq, line) # exported) previous covered report =
     (let report = report\<lparr>v_exports_checked := v_exports_checked report + 1\<rparr> in
      if previous = Some seq
      then check_exports cps exported previous covered (push_problem (ExportDuplicate seq) report)
      else if v_last_seq report < seq
      then check_exports cps exported (Some seq) covered
             (push_problem (ExportBeyondJournal seq (v_last_seq report)) report)
      else (case find_index seq cps of
              None \<Rightarrow> check_exports cps exported (Some seq) covered
                        (push_problem (ExportMissingFromJournal seq) report)
            | Some i \<Rightarrow>
                if snd (cps ! i) \<noteq> line
                then check_exports cps exported (Some seq) covered (push_problem (ExportDiffers seq) report)
                else check_exports cps exported (Some seq) (covered[i := True]) report))"

fun missing_exports :: "(nat \<times> string) list \<Rightarrow> bool list \<Rightarrow> verification \<Rightarrow> verification" where
  "missing_exports ((seq, _) # cps) (c # covered) report =
     missing_exports cps covered (if c then report else push_problem (ExportMissing seq) report)"
| "missing_exports _ _ report = report"

definition verify_state_start :: "crypto \<Rightarrow> verify_state" where
  "verify_state_start cr =
     \<lparr>vs_report = verification_default, vs_previous = None, vs_lines = [], vs_chain = chain_genesis cr\<rparr>"

definition verify_journal ::
  "crypto \<Rightarrow> codec \<Rightarrow> string \<Rightarrow> string list \<Rightarrow> (string \<times> string) list option \<Rightarrow> verification" where
  "verify_journal cr co file keys exports =
     (let vs = verify_loop cr co keys (reader_open cr file) (verify_state_start cr);
          report = (vs_report vs)\<lparr>v_chain := chain_label (vs_chain vs)\<rparr>
      in case exports of
           None \<Rightarrow> report
         | Some dir \<Rightarrow>
             (case check_exports (vs_lines vs) (read_all dir) None (replicate (length (vs_lines vs)) False) report of
                (covered, report') \<Rightarrow> missing_exports (vs_lines vs) covered report'))"

section \<open>Reading lines\<close>

definition line_value :: "codec \<Rightarrow> string \<Rightarrow> json" where
  "line_value co l = the (js_parse co (butlast l))"

definition line_kind :: "codec \<Rightarrow> string \<Rightarrow> string" where
  "line_kind co l = the (Option.bind (json_get (line_value co l) ''kind'') as_str)"

definition readable :: "codec \<Rightarrow> nat \<Rightarrow> string \<Rightarrow> bool" where
  "readable co n l \<longleftrightarrow> is_line l
     \<and> (\<exists>v kind. js_parse co (butlast l) = Some v \<and> Option.bind (json_get v ''seq'') as_u64 = Some n
          \<and> Option.bind (json_get v ''kind'') as_str = Some kind)"

definition line_record :: "codec \<Rightarrow> nat \<Rightarrow> string \<Rightarrow> string \<Rightarrow> jrecord" where
  "line_record co n chain l =
     \<lparr>jr_seq = n, jr_kind = line_kind co l, jr_value = line_value co l, jr_line = l, jr_chain_before = chain\<rparr>"

fun readable_from :: "codec \<Rightarrow> nat \<Rightarrow> string list \<Rightarrow> bool" where
  "readable_from co n [] = True"
| "readable_from co n (l # ls) = (readable co n l \<and> readable_from co (Suc n) ls)"

fun records_from :: "crypto \<Rightarrow> codec \<Rightarrow> nat \<Rightarrow> string \<Rightarrow> string list \<Rightarrow> jrecord list" where
  "records_from cr co n chain [] = []"
| "records_from cr co n chain (l # ls) =
     line_record co n chain l # records_from cr co (Suc n) (chain_extend cr chain l) ls"

lemma readable_from_snoc: "readable_from co n (ls @ [l]) \<longleftrightarrow> readable_from co n ls \<and> readable co (n + length ls) l"
  by (induction co n ls rule: readable_from.induct) auto

lemma records_from_snoc:
  "records_from cr co n chain (ls @ [l]) =
     records_from cr co n chain ls @ [line_record co (n + length ls) (foldl (chain_extend cr) chain ls) l]"
  by (induction cr co n chain ls rule: records_from.induct) auto

abbreviation at_line :: "string \<Rightarrow> nat \<Rightarrow> nat \<Rightarrow> string \<Rightarrow> reader" where
  "at_line rest n pos chain \<equiv>
     \<lparr>rd_rest = rest, rd_expected = n, rd_offset = pos, rd_chain = chain, rd_done = False\<rparr>"

lemma read_one_line:
  assumes "readable co n l" "n < u64_max"
  shows "read_one cr co (at_line (l @ rest) n pos chain)
    = (Inr (Some (line_record co n chain l)), at_line rest (Suc n) (pos + length l) (chain_extend cr chain l))"
proof -
  have "wrapping_succ_u64 n = Suc n" using assms(2) by (simp add: wrapping_succ_u64_def)
  moreover have l: "is_line l" "l \<noteq> []" "last l = CHR 0x0A"
    using assms(1) is_line_last by (auto simp: readable_def)
  ultimately show ?thesis
    using assms(1) unfolding readable_def
    by (auto simp: read_one_def read_line_is_line [OF l(1)] line_record_def line_kind_def line_value_def)
qed

lemma verify_loop_line:
  assumes "readable co n l" "n < u64_max"
  shows "verify_loop cr co keys (at_line (l @ rest) n pos chain) vs =
    verify_loop cr co keys (at_line rest (Suc n) (pos + length l) (chain_extend cr chain l))
      (verify_record cr co keys (line_record co n chain l) vs)"
  by (subst verify_loop.simps) (simp add: reader_next_def read_one_line [OF assms])

lemma verify_loop_lines:
  assumes "readable_from co n ls" "n + length ls \<le> u64_max"
  shows "verify_loop cr co keys (at_line (concat ls @ rest) n pos chain) vs =
    verify_loop cr co keys (at_line rest (n + length ls) (pos + length (concat ls)) (foldl (chain_extend cr) chain ls))
      (fold (verify_record cr co keys) (records_from cr co n chain ls) vs)"
  using assms
proof (induction ls arbitrary: n pos chain vs)
  case (Cons l ls)
  then show ?case
    using verify_loop_line [of co n l cr keys "concat ls @ rest" pos chain vs] by (simp add: add.assoc)
qed simp

lemma verify_loop_end:
  assumes "CHR 0x0A \<notin> set torn"
  shows "verify_loop cr co keys (at_line torn n pos chain) vs =
    (if torn = [] then vs
     else vs\<lparr>vs_report := push_problem (Unreadable (read_error_text (TornTail (n - 1) (length torn)))) (vs_report vs)\<rparr>)"
proof (cases "torn = []")
  case False
  then have "last torn \<noteq> CHR 0x0A" using assms last_in_set by metis
  with False show ?thesis
    by (subst verify_loop.simps) (simp add: reader_next_def read_one_def read_line_torn [OF assms])
qed (subst verify_loop.simps, simp add: reader_next_def read_one_def read_line_def)

section \<open>What the writer wrote is verified\<close>

lemma readable_record_line:
  assumes "codec_documented co" "spliceable co b fs kind" "n \<le> u64_max"
  shows "readable co n (record_line n b)" "line_kind co (record_line n b) = kind"
    "\<exists>gs. line_value co (record_line n b) = JObject gs \<and> map_of gs = (map_of fs)(''seq'' \<mapsto> JUint n)"
proof -
  from parse_record_line [OF assms] obtain gs
    where gs: "js_parse co (butlast (record_line n b)) = Some (JObject gs)"
      "map_of gs = (map_of fs)(''seq'' \<mapsto> JUint n)" by metis
  have b: "map_of fs ''kind'' = Some (JString kind)" "is_line (record_line n b)"
    using assms(2) by (simp_all add: spliceable_def record_line_is_line)
  show "line_kind co (record_line n b) = kind" "readable co n (record_line n b)"
    "\<exists>gs. line_value co (record_line n b) = JObject gs \<and> map_of gs = (map_of fs)(''seq'' \<mapsto> JUint n)"
    using gs b by (auto simp: line_kind_def line_value_def readable_def)
qed

lemma event_readable:
  assumes "codec_documented co" "event_body co b" "n \<le> u64_max"
  shows "readable co n (record_line n b)" "line_kind co (record_line n b) \<noteq> CHECKPOINT_KIND"
  using assms readable_record_line [OF assms(1)] by (auto simp: event_body_def)

lemma checkpoint_readable:
  assumes "codec_documented co" "n \<le> u64_max"
  shows "readable co n (record_line n (js_checkpoint_to co cp))"
    "line_kind co (record_line n (js_checkpoint_to co cp)) = CHECKPOINT_KIND"
    "js_checkpoint_from co (line_value co (record_line n (js_checkpoint_to co cp))) = Inr cp"
proof -
  from assms(1) obtain fs where fs: "spliceable co (js_checkpoint_to co cp) fs CHECKPOINT_KIND"
    "\<forall>gs n. map_of gs = (map_of fs)(''seq'' \<mapsto> JUint n) \<longrightarrow> js_checkpoint_from co (JObject gs) = Inr cp"
    unfolding codec_documented_def by metis
  note r = readable_record_line [OF assms(1) fs(1) assms(2)]
  from r(1,2) show "readable co n (record_line n (js_checkpoint_to co cp))"
    "line_kind co (record_line n (js_checkpoint_to co cp)) = CHECKPOINT_KIND" .
  from r(3) fs(2) show "js_checkpoint_from co (line_value co (record_line n (js_checkpoint_to co cp))) = Inr cp"
    by auto
qed

lemma journal_lines_readable:
  assumes "codec_documented co" "journal_lines cr co pols ls"
  shows "readable_from co 1 ls"
  using assms(2)
  by (induction rule: journal_lines.induct)
     (simp_all add: readable_from_snoc event_readable [OF assms(1)] checkpoint_readable [OF assms(1)])

text \<open>Keys that cover the checkpoint policies: none given, or every policy signs with one of them.\<close>

definition trusted :: "crypto \<Rightarrow> checkpoint_policy set \<Rightarrow> string list \<Rightarrow> bool" where
  "trusted cr pols keys \<longleftrightarrow>
     keys = [] \<or> inj_on (verifying_key_id cr) (set keys)
       \<and> (\<forall>pol \<in> pols. \<exists>pair. pol_signing_key pol = Some pair \<and> verifying_key cr pair \<in> set keys)"

text \<open>Where the loop stands after the lines of a journal.\<close>

definition verified_state :: "crypto \<Rightarrow> codec \<Rightarrow> string list \<Rightarrow> verify_state \<Rightarrow> bool" where
  "verified_state cr co ls vs \<longleftrightarrow>
     v_problems (vs_report vs) = [] \<and> v_records (vs_report vs) = length ls
     \<and> v_last_seq (vs_report vs) = length ls \<and> vs_chain vs = chain_of cr ls
     \<and> (vs_previous vs, v_unsealed_records (vs_report vs)) = marks co 1 ls (None, 0)
     \<and> v_sealed_through (vs_report vs) = map_option (\<lambda>n. n - 1) (vs_previous vs)"

lemma verify_record_event:
  assumes "codec_documented co" "event_body co b" "length ls < u64_max" "verified_state cr co ls vs"
  shows "verified_state cr co (ls @ [record_line (Suc (length ls)) b])
    (verify_record cr co keys (line_record co (Suc (length ls)) (chain_of cr ls) (record_line (Suc (length ls)) b)) vs)"
proof -
  let ?l = "record_line (Suc (length ls)) b"
  have "\<not> checkpoint_line co ?l"
    using event_line(2) [OF assms(1,2), of "Suc (length ls)"] assms(3) by (simp add: checkpoint_line_def)
  moreover have "\<not> is_checkpoint (line_record co (Suc (length ls)) (chain_of cr ls) ?l)"
    using event_readable(2) [OF assms(1,2), of "Suc (length ls)"] assms(3)
    by (simp add: is_checkpoint_def line_record_def)
  ultimately show ?thesis
    using assms(4) by (cases "marks co 1 ls (None, 0)")
      (simp add: verified_state_def verify_record_def Let_def line_record_def marks_append)
qed

lemma verify_record_checkpoint:
  assumes "crypto_documented cr" "codec_documented co" "trusted cr pols keys" "pol \<in> pols"
    and "state_of cr co ls ws" "length ls < u64_max" "verified_state cr co ls vs"
    and l: "l = record_line (Suc (length ls)) (js_checkpoint_to co (build_checkpoint cr pol env (Suc (length ls)) ws))"
  shows "verified_state cr co (ls @ [l])
    (verify_record cr co keys (line_record co (Suc (length ls)) (chain_of cr ls) l) vs)"
proof -
  let ?n = "Suc (length ls)"
  let ?cp = "build_checkpoint cr pol env ?n ws"
  let ?r = "line_record co ?n (chain_of cr ls) l"
  have "checkpoint_line co l"
    using checkpoint_body_line(2) [OF assms(2), of ?n] assms(6) l by (simp add: checkpoint_line_def)
  then have marks: "marks co 1 (ls @ [l]) (None, 0) = (Some ?n, 0)" by (simp add: marks_append)
  have cp: "is_checkpoint ?r" "js_checkpoint_from co (jr_value ?r) = Inr ?cp"
    using checkpoint_readable [OF assms(2), of ?n] assms(6) l by (simp_all add: is_checkpoint_def line_record_def)
  have prev: "vs_previous vs = ws_last_checkpoint ws" "ws_chain ws = chain_of cr ls"
    using assms(5,7) by (cases "marks co 1 ls (None, 0)", simp add: verified_state_def state_of_def)+
  have fields: "cp_chain ?cp = chain_label (chain_of cr ls)" "cp_covers_to ?cp = length ls"
    "cp_covers_from ?cp = (case ws_last_checkpoint ws of None \<Rightarrow> 1 | Some p \<Rightarrow> p + 1)"
    "cp_previous_checkpoint ?cp = ws_last_checkpoint ws"
    using prev(2) by (simp_all add: build_checkpoint_def checkpoint_new_def checkpoint_sign_def Let_def split: option.split)
  have sig: "\<exists>k. checkpoint_verify cr ?n keys ?cp = Inr (Some k)" if "keys \<noteq> []"
  proof -
    from assms(3,4) that obtain pair where p: "pol_signing_key pol = Some pair"
      "verifying_key cr pair \<in> set keys" "inj_on (verifying_key_id cr) (set keys)"
      by (auto simp: trusted_def)
    then show ?thesis
      using checkpoint_verify_sign [OF assms(1) _ _ p(2,3)]
      by (simp add: build_checkpoint_def checkpoint_new_def Let_def)
  qed
  show ?thesis
    using assms(7) marks cp prev(1) fields sig
    by (auto simp: verified_state_def verify_record_def check_checkpoint_def Let_def line_record_def
        split: option.split sum.split)
qed

lemma verify_fold:
  assumes "crypto_documented cr" "codec_documented co" "trusted cr pols keys" "journal_lines cr co pols ls"
  shows "verified_state cr co ls
    (fold (verify_record cr co keys) (records_from cr co 1 (chain_genesis cr) ls) (verify_state_start cr))"
  using assms(4)
proof (induction rule: journal_lines.induct)
  case journal_empty
  show ?case by (simp add: verified_state_def verify_state_start_def verification_default_def)
next
  case (journal_record ls b)
  then show ?case
    using verify_record_event [OF assms(2)] by (simp add: records_from_snoc chain_of_def)
next
  case (journal_checkpoint ls ws pol env)
  then show ?case
    using verify_record_checkpoint [OF assms(1-3)] by (simp add: records_from_snoc chain_of_def)
qed

section \<open>What is verified was written\<close>

lemma push_problem_simps [simp]:
  "v_problems (push_problem p v) = v_problems v @ [p]" "v_last_seq (push_problem p v) = v_last_seq v"
  by (simp_all add: push_problem_def)

lemma check_checkpoint_clean:
  assumes "check_checkpoint cr co rec previous keys report = (c, report')" "v_problems report' = []"
  shows "v_problems report = [] \<and> (\<exists>cp. c = Some cp \<and> js_checkpoint_from co (jr_value rec) = Inr cp
    \<and> cp_chain cp = chain_label (jr_chain_before rec)
    \<and> (keys \<noteq> [] \<longrightarrow> (\<exists>k. checkpoint_verify cr (jr_seq rec) keys cp = Inr (Some k))))"
  using assms
  by (auto simp: check_checkpoint_def Let_def split: sum.splits option.splits if_splits)

text \<open>A checkpoint record the loop passed without complaint.\<close>

definition sealed :: "crypto \<Rightarrow> codec \<Rightarrow> string list \<Rightarrow> jrecord \<Rightarrow> bool" where
  "sealed cr co keys rec \<longleftrightarrow>
     (\<exists>cp. js_checkpoint_from co (jr_value rec) = Inr cp \<and> cp_chain cp = chain_label (jr_chain_before rec)
        \<and> (keys \<noteq> [] \<longrightarrow> (\<exists>k. checkpoint_verify cr (jr_seq rec) keys cp = Inr (Some k))))"

lemma verify_record_clean:
  assumes "v_problems (vs_report (verify_record cr co keys rec vs)) = []"
  shows "v_problems (vs_report vs) = [] \<and> (is_checkpoint rec \<longrightarrow> sealed cr co keys rec)
    \<and> v_last_seq (vs_report (verify_record cr co keys rec vs)) = jr_seq rec
    \<and> vs_lines (verify_record cr co keys rec vs)
        = vs_lines vs @ (if is_checkpoint rec then [(jr_seq rec, jr_line rec)] else [])"
proof (cases "is_checkpoint rec")
  case False
  then show ?thesis using assms by (simp add: verify_record_def Let_def)
next
  case True
  let ?rep = "(vs_report vs)\<lparr>v_records := v_records (vs_report vs) + 1, v_last_seq := jr_seq rec\<rparr>"
  obtain c rep' where c: "check_checkpoint cr co rec (vs_previous vs) keys
      (?rep\<lparr>v_checkpoints := v_checkpoints ?rep + 1\<rparr>) = (c, rep')" by force
  have "v_problems rep' = []" using assms True c by (simp add: verify_record_def Let_def split: option.splits)
  moreover have "v_last_seq rep' = jr_seq rec"
    using c by (auto simp: check_checkpoint_def Let_def split: sum.splits option.splits if_splits)
  ultimately show ?thesis
    using check_checkpoint_clean [OF c] True c
    by (auto simp: verify_record_def Let_def sealed_def)
qed

lemma verify_fold_problems:
  "v_problems (vs_report (fold (verify_record cr co keys) rs vs)) = [] \<Longrightarrow> v_problems (vs_report vs) = []"
  by (induction rs arbitrary: vs) (auto dest: verify_record_clean)

lemma verify_fold_clean:
  assumes "v_problems (vs_report (fold (verify_record cr co keys) rs vs)) = []"
  shows "list_all (\<lambda>rec. is_checkpoint rec \<longrightarrow> sealed cr co keys rec) rs
    \<and> v_last_seq (vs_report (fold (verify_record cr co keys) rs vs))
        = (if rs = [] then v_last_seq (vs_report vs) else jr_seq (last rs))
    \<and> vs_lines (fold (verify_record cr co keys) rs vs)
        = vs_lines vs @ map (\<lambda>rec. (jr_seq rec, jr_line rec)) (filter is_checkpoint rs)"
  using assms
proof (induction rs arbitrary: vs)
  case (Cons rec rs)
  then have tail: "v_problems (vs_report (verify_record cr co keys rec vs)) = []"
    by (auto dest: verify_fold_problems)
  from Cons.IH [of "verify_record cr co keys rec vs"] Cons.prems verify_record_clean [OF tail]
  show ?case by auto
qed simp

text \<open>When nothing is wrong the file is lines, each with the number of its place.\<close>

lemma read_one_readable:
  assumes "read_one cr co (at_line bytes n pos chain) = (Inr (Some rec), r')" "n < u64_max"
  obtains l rest where "bytes = l @ rest" "readable co n l" "rec = line_record co n chain l"
    "r' = at_line rest (Suc n) (pos + length l) (chain_extend cr chain l)"
proof -
  obtain l rest where l: "read_line bytes = (l, rest)" by force
  then have "l \<noteq> []" "last l = CHR 0x0A" using assms(1)
    by (auto simp: read_one_def Let_def split: if_splits)
  then have "bytes = l @ rest" "is_line l" using l
    by (auto simp: read_line_def is_line_def dest: split_once_Some split: option.splits)
       (auto simp: split_once_None_iff dest: last_in_set)
  moreover from this have "readable co n l"
    using assms(1) l by (auto simp: read_one_def Let_def readable_def split: if_splits option.splits)
  ultimately show thesis using assms read_one_line [of co n l cr rest pos chain] that by auto
qed

lemma verify_loop_clean:
  assumes "v_problems (vs_report (verify_loop cr co keys r vs)) = []"
    and "r = at_line bytes n pos chain" "n + length bytes < u64_max"
  shows "\<exists>ls. bytes = concat ls \<and> readable_from co n ls
    \<and> verify_loop cr co keys r vs = fold (verify_record cr co keys) (records_from cr co n chain ls) vs"
  using assms
proof (induction cr co keys r vs arbitrary: bytes n pos chain rule: verify_loop.induct)
  case (1 cr co keys r vs)
  obtain x r' where x: "read_one cr co r = (x, r')" by force
  consider e where "x = Inl e" | "x = Inr None" | rec where "x = Inr (Some rec)"
    by (cases x; cases "projr x") auto
  then show ?case
  proof cases
    case 1
    with "1.prems"(1,2) x have False
      by (subst (asm) verify_loop.simps) (simp add: reader_next_def)
    then show ?thesis ..
  next
    case 2
    then have "bytes = []" using "1.prems"(2) x
      by (auto simp: read_one_def Let_def read_line_def split: prod.splits option.splits if_splits sum.splits)
    moreover have "verify_loop cr co keys r vs = vs"
      using 2 x "1.prems"(2) by (subst verify_loop.simps) (simp add: reader_next_def)
    ultimately show ?thesis by (intro exI [of _ "[]"]) simp
  next
    case 3
    note bound = "1.prems"(3)
    have "n < u64_max" using bound by simp
    from read_one_readable [OF x [unfolded 3 "1.prems"(2)] this] obtain l rest
      where l: "bytes = l @ rest" "readable co n l" "rec = line_record co n chain l"
        "r' = at_line rest (Suc n) (pos + length l) (chain_extend cr chain l)" .
    have next_r: "reader_next cr co r = (Some (Inr rec), r')"
      using x 3 "1.prems"(2) by (simp add: reader_next_def)
    have eq: "verify_loop cr co keys r vs = verify_loop cr co keys r' (verify_record cr co keys rec vs)"
      by (subst verify_loop.simps) (simp add: next_r)
    have "0 < length l" using l(2) is_line_last by (auto simp: readable_def)
    then have "Suc n + length rest < u64_max" using bound unfolding l(1) length_append by linarith
    from "1.IH" [OF next_r [symmetric] refl refl _ l(4) this] "1.prems"(1) eq
    obtain ls where "rest = concat ls" "readable_from co (Suc n) ls"
      "verify_loop cr co keys r' (verify_record cr co keys rec vs)
        = fold (verify_record cr co keys) (records_from cr co (Suc n) (chain_extend cr chain l) ls)
            (verify_record cr co keys rec vs)" by auto
    with l eq show ?thesis by (intro exI [of _ "l # ls"]) simp
  qed
qed

section \<open>Exports\<close>

lemma check_exports_problems:
  "v_problems (snd (check_exports cps ex prev cov rep)) = [] \<Longrightarrow> v_problems rep = []"
  by (induction cps ex prev cov rep rule: check_exports.induct)
     (auto simp: Let_def split: if_splits option.splits)

lemma find_index_Some: "find_index seq cps = Some i \<Longrightarrow> i < length cps \<and> fst (cps ! i) = seq"
  by (induction seq cps arbitrary: i rule: find_index.induct) (auto split: if_splits)

lemma check_exports_clean:
  assumes "v_problems (snd (check_exports cps ex prev cov rep)) = []"
  shows "set ex \<subseteq> set cps"
  using assms
proof (induction cps ex prev cov rep rule: check_exports.induct)
  case (2 cps seq line ex prev cov rep)
  from "2.prems" obtain i where i: "find_index seq cps = Some i" "snd (cps ! i) = line"
    and rest: "v_problems (snd (check_exports cps ex (Some seq) (cov[i := True])
        (rep\<lparr>v_exports_checked := v_exports_checked rep + 1\<rparr>))) = []"
    and guards: "prev \<noteq> Some seq" "\<not> v_last_seq rep < seq"
    by (auto simp: Let_def split: if_splits option.splits dest: check_exports_problems)
  have "(seq, line) \<in> set cps"
    using find_index_Some [OF i(1)] i(2) by (metis nth_mem prod.collapse)
  moreover have "set ex \<subseteq> set cps"
    by (rule "2.IH"(5) [OF refl guards(1) _ i(1)]) (use guards(2) i(2) rest in simp_all)
  ultimately show ?case by simp
qed simp

lemma missing_exports_problems:
  "v_problems (missing_exports cps cov rep) = [] \<Longrightarrow> v_problems rep = []"
  by (induction cps cov rep rule: missing_exports.induct) (auto split: if_splits)

lemma records_from_nth:
  "i < length ls \<Longrightarrow> records_from cr co n chain ls ! i
     = line_record co (n + i) (foldl (chain_extend cr) chain (take i ls)) (ls ! i)"
  by (induction ls arbitrary: n chain i) (auto simp: nth_Cons split: nat.split)

lemma length_records_from [simp]: "length (records_from cr co n chain ls) = length ls"
  by (induction cr co n chain ls rule: records_from.induct) auto

text \<open>What a clean report with exports says about the file.\<close>

lemma verify_clean:
  assumes "verification_ok (verify_journal cr co bytes keys (Some dir))" "Suc (length bytes) < u64_max"
  obtains ls where "bytes = concat ls" "readable_from co 1 ls"
    "\<And>n l. (n, l) \<in> set (read_all dir) \<Longrightarrow> 0 < n \<and> n \<le> length ls \<and> ls ! (n - 1) = l"
    "\<And>i. i < length ls \<Longrightarrow> line_kind co (ls ! i) = CHECKPOINT_KIND \<Longrightarrow>
       sealed cr co keys (line_record co (Suc i) (chain_of cr (take i ls)) (ls ! i))"
proof -
  let ?vs = "verify_loop cr co keys (reader_open cr bytes) (verify_state_start cr)"
  let ?rep = "(vs_report ?vs)\<lparr>v_chain := chain_label (vs_chain ?vs)\<rparr>"
  obtain cov rep where e: "check_exports (vs_lines ?vs) (read_all dir) None
      (replicate (length (vs_lines ?vs)) False) ?rep = (cov, rep)" by force
  then have "v_problems rep = []"
    using assms(1) missing_exports_problems by (auto simp: verification_ok_def verify_journal_def Let_def)
  with e have ok: "v_problems (snd (check_exports (vs_lines ?vs) (read_all dir) None
      (replicate (length (vs_lines ?vs)) False) ?rep)) = []" by simp
  from check_exports_problems [OF ok] have clean: "v_problems (vs_report ?vs) = []" by simp
  from verify_loop_clean [OF this] assms(2) obtain ls
    where ls: "bytes = concat ls" "readable_from co 1 ls"
      "?vs = fold (verify_record cr co keys) (records_from cr co 1 (chain_genesis cr) ls) (verify_state_start cr)"
    unfolding reader_open_def by fastforce
  note fold = verify_fold_clean [OF clean [unfolded ls(3)], folded ls(3)]
  have rec: "records_from cr co 1 (chain_genesis cr) ls ! i
      = line_record co (Suc i) (chain_of cr (take i ls)) (ls ! i)" if "i < length ls" for i
    using that by (simp add: records_from_nth chain_of_def)
  show thesis
  proof (rule that [OF ls(1,2)])
    fix n l assume "(n, l) \<in> set (read_all dir)"
    then have "(n, l) \<in> set (vs_lines ?vs)" using check_exports_clean [OF ok] by blast
    then obtain r where "r \<in> set (records_from cr co 1 (chain_genesis cr) ls)" "n = jr_seq r" "l = jr_line r"
      using fold by (auto simp: verify_state_start_def)
    then show "0 < n \<and> n \<le> length ls \<and> ls ! (n - 1) = l"
      using rec by (auto simp: in_set_conv_nth line_record_def)
  next
    fix i assume i: "i < length ls" "line_kind co (ls ! i) = CHECKPOINT_KIND"
    then have "is_checkpoint (line_record co (Suc i) (chain_of cr (take i ls)) (ls ! i))"
      by (simp add: is_checkpoint_def line_record_def)
    then show "sealed cr co keys (line_record co (Suc i) (chain_of cr (take i ls)) (ls ! i))"
      using fold i(1) rec [OF i(1)] by (auto simp: list_all_length)
  qed
qed

lemma readable_from_is_line: "readable_from co n ls \<Longrightarrow> list_all is_line ls"
  by (induction co n ls rule: readable_from.induct) (auto simp: readable_def)

text \<open>The checkpoint lines of a journal assert the chain before them.\<close>

lemma journal_checkpoint_asserts:
  assumes "codec_documented co" "journal_lines cr co pols ls" "i < length ls" "checkpoint_line co (ls ! i)"
  shows "line_kind co (ls ! i) = CHECKPOINT_KIND
    \<and> (\<exists>cp. js_checkpoint_from co (line_value co (ls ! i)) = Inr cp \<and> cp_chain cp = chain_label (chain_of cr (take i ls)))"
  using assms(2-)
proof (induction rule: journal_lines.induct)
  case (journal_record ls b)
  have "\<not> checkpoint_line co (record_line (Suc (length ls)) b)"
    using event_line(2) [OF assms(1) journal_record(2), of "Suc (length ls)"] journal_record(3)
    by (simp add: checkpoint_line_def)
  with journal_record show ?case by (auto simp: nth_append split: if_splits)
next
  case (journal_checkpoint ls ws pol env)
  let ?cp = "build_checkpoint cr pol env (Suc (length ls)) ws"
  have "cp_chain ?cp = chain_label (chain_of cr ls)"
    using journal_checkpoint(2)
    by (simp add: state_of_def build_checkpoint_def checkpoint_new_def checkpoint_sign_def Let_def split: option.split)
  with journal_checkpoint checkpoint_readable [OF assms(1), of "Suc (length ls)" ?cp]
  show ?case by (cases "i = length ls") (auto simp: nth_append)
qed simp

lemma dec_value_zeros: "dec_value (replicate k CHR ''0'' @ s) = dec_value s"
proof -
  have "foldl (\<lambda>acc c. 10 * acc + (byte_val c - 48)) 0 (replicate k CHR ''0'') = 0"
    by (induction k) simp_all
  then show ?thesis by (simp add: dec_value_def)
qed

lemma strip_suffix_append: "strip_suffix suf (s @ suf) = Some s"
  by (simp add: strip_suffix_def strip_prefix_def)

lemma export_seq_file_name:
  assumes "seq \<le> u64_max"
  shows "export_seq (file_name seq) = Some seq"
proof -
  have digits: "list_all is_ascii_digit (pad_20 seq)"
    using dec_string_digits by (auto simp: pad_20_def list_all_iff ascii_simps)
  have "dec_value (pad_20 seq) = seq" unfolding pad_20_def dec_value_zeros by simp
  moreover have "pad_20 seq \<noteq> []" "hd (pad_20 seq) \<noteq> CHR ''+''"
    using digits by (auto simp: pad_20_def ascii_simps hd_append list_all_iff split: if_splits)
       (cases "pad_20 seq", auto simp: pad_20_def ascii_simps)
  ultimately have "parse_u64 (pad_20 seq) = Some seq"
    using digits assms by (auto simp: parse_u64_def Let_def split: list.split)
  then show ?thesis
    by (simp add: export_seq_def file_name_def strip_prefix_def starts_with_def strip_suffix_append)
qed

lemma verify_history:
  assumes "crypto_documented cr" "codec_documented co" "trusted cr pols keys"
    and "journal_base cr co pols ls j" "length (lines_of (j_file j)) < u64_max"
  shows "\<exists>vs torn. j_file j = concat (lines_of (j_file j)) @ torn
    \<and> verified_state cr co (lines_of (j_file j)) vs
    \<and> verify_loop cr co keys (reader_open cr (j_file j)) (verify_state_start cr)
      = (if torn = [] then vs else vs\<lparr>vs_report :=
           push_problem (Unreadable (read_error_text (TornTail (length (lines_of (j_file j))) (length torn)))) (vs_report vs)\<rparr>)"
proof -
  from journal_file_lines [OF assms(2,4)] obtain new torn
    where n: "journal_lines cr co pols (ls @ new)" "j_file j = concat (ls @ new) @ torn"
      "CHR 0x0A \<notin> set torn" "lines_of (j_file j) = ls @ new" .
  let ?ls = "ls @ new"
  have lines: "lines_of (j_file j) = ?ls" "length ?ls < u64_max" using n(4) assms(5) by simp_all
  let ?vs = "fold (verify_record cr co keys) (records_from cr co 1 (chain_genesis cr) ?ls) (verify_state_start cr)"
  have "verify_loop cr co keys (reader_open cr (concat ?ls @ torn)) (verify_state_start cr)
      = (if torn = [] then ?vs else ?vs\<lparr>vs_report :=
           push_problem (Unreadable (read_error_text (TornTail (length ?ls) (length torn)))) (vs_report ?vs)\<rparr>)"
    using verify_loop_lines [OF journal_lines_readable [OF assms(2) n(1)], of cr keys torn 0]
      verify_loop_end [OF n(3)] lines(2) by (simp add: reader_open_def)
  moreover have "verified_state cr co ?ls ?vs" by (rule verify_fold [OF assms(1-3) n(1)])
  ultimately show ?thesis unfolding lines(1) unfolding n(2) by blast
qed

text \<open>A directory that holds the checkpoint lines, and nothing else, agrees with them.\<close>

lemma find_index_middle: "seq \<notin> fst ` set xs \<Longrightarrow> find_index seq (xs @ (seq, l) # ys) = Some (length xs)"
  by (induction xs) auto

lemma check_exports_self:
  assumes "sorted_wrt (<) (map fst (xs @ ys))" "list_all (\<lambda>(n, l). n \<le> v_last_seq rep) ys"
    and "prev = None \<or> (\<exists>p \<in> fst ` set xs. prev = Some p)"
  shows "\<exists>rep'. check_exports (xs @ ys) ys prev (replicate (length xs) True @ replicate (length ys) False) rep
      = (replicate (length (xs @ ys)) True, rep') \<and> v_problems rep' = v_problems rep"
  using assms
proof (induction ys arbitrary: xs prev rep)
  case (Cons y ys)
  obtain n l where y: "y = (n, l)" by force
  let ?rep = "rep\<lparr>v_exports_checked := v_exports_checked rep + 1\<rparr>"
  have fresh: "n \<notin> fst ` set xs" using Cons.prems(1) y by (auto simp: sorted_wrt_append)
  have "\<exists>rep'. check_exports ((xs @ [y]) @ ys) ys (Some n)
      (replicate (length (xs @ [y])) True @ replicate (length ys) False) ?rep
      = (replicate (length ((xs @ [y]) @ ys)) True, rep') \<and> v_problems rep' = v_problems ?rep"
    by (rule Cons.IH) (use Cons.prems y in auto)
  moreover have "(replicate (length xs) True @ replicate (length (y # ys)) False)[length xs := True]
      = replicate (length (xs @ [y])) True @ replicate (length ys) False"
    by (simp add: list_update_append replicate_append_same)
  ultimately show ?case
    using Cons.prems(2,3) fresh find_index_middle [OF fresh, of l ys] y by (auto simp: Let_def nth_append)
qed simp

lemma missing_exports_all: "missing_exports cps (replicate (length cps) True) rep = rep"
  by (induction cps) auto

lemma check_exports_all:
  assumes "sorted_wrt (<) (map fst cps)" "list_all (\<lambda>(n, l). n \<le> v_last_seq rep) cps" "v_problems rep = []"
  shows "case check_exports cps cps None (replicate (length cps) False) rep of
      (covered, rep') \<Rightarrow> v_problems (missing_exports cps covered rep') = []"
  using check_exports_self [of "[]" cps rep None] assms missing_exports_all by auto

lemma read_all_exports:
  assumes "sorted_wrt (<) (map fst cps)" "list_all (\<lambda>(n, l). n \<le> u64_max) cps"
  shows "read_all (map (\<lambda>(n, l). (file_name n, l)) cps) = cps"
proof -
  have "concat (map (\<lambda>(name, line). case export_seq name of None \<Rightarrow> [] | Some seq \<Rightarrow> [(seq, line)])
      (map (\<lambda>(n, l). (file_name n, l)) cps)) = cps"
    using assms(2) by (induction cps) (auto simp: export_seq_file_name)
  then show ?thesis
    using assms(1) by (simp only: read_all_def) (intro sort_key_id strict_sorted_imp_sorted)
qed

definition checkpoints_of :: "codec \<Rightarrow> string list \<Rightarrow> (nat \<times> string) list" where
  "checkpoints_of co ls = filter (\<lambda>(n, l). line_kind co l = CHECKPOINT_KIND) (enumerate 1 ls)"

lemma checkpoint_records:
  "map (\<lambda>rec. (jr_seq rec, jr_line rec)) (filter is_checkpoint (records_from cr co n chain ls))
     = filter (\<lambda>(n, l). line_kind co l = CHECKPOINT_KIND) (enumerate n ls)"
  by (induction cr co n chain ls rule: records_from.induct)
     (auto simp: is_checkpoint_def line_record_def)

lemma checkpoints_of_sorted:
  "sorted_wrt (<) (map fst (checkpoints_of co ls))" "list_all (\<lambda>(n, l). n \<le> length ls) (checkpoints_of co ls)"
proof -
  have "sorted_wrt (<) (map fst (enumerate 1 ls))" by (simp add: enumerate_eq_zip del: upt_Suc)
  then have "sorted_wrt (\<lambda>a b. fst a < fst b) (checkpoints_of co ls)"
    unfolding checkpoints_of_def sorted_wrt_map by (rule sorted_wrt_filter)
  then show "sorted_wrt (<) (map fst (checkpoints_of co ls))" by (simp add: sorted_wrt_map)
  show "list_all (\<lambda>(n, l). n \<le> length ls) (checkpoints_of co ls)"
    by (auto simp: checkpoints_of_def list_all_iff in_set_enumerate_eq)
qed

lemma verify_accepts_exports:
  assumes "crypto_documented cr" "codec_documented co" "trusted cr pols keys" "journal_lines cr co pols ls"
    and "length ls < u64_max"
  shows "verification_ok (verify_journal cr co (concat ls) keys
    (Some (map (\<lambda>(n, l). (file_name n, l)) (checkpoints_of co ls))))"
proof -
  define vs where
    "vs = fold (verify_record cr co keys) (records_from cr co 1 (chain_genesis cr) ls) (verify_state_start cr)"
  have vs: "verified_state cr co ls vs" unfolding vs_def by (rule verify_fold [OF assms(1-4)])
  have loop: "verify_loop cr co keys (reader_open cr (concat ls)) (verify_state_start cr) = vs"
    using verify_loop_lines [OF journal_lines_readable [OF assms(2,4)], of cr keys "[]" 0]
      verify_loop_end [of "[]"] assms(5) by (simp add: reader_open_def vs_def)
  have lines: "vs_lines vs = checkpoints_of co ls"
    using verify_fold_clean [of cr co keys "records_from cr co 1 (chain_genesis cr) ls" "verify_state_start cr",
        folded vs_def] vs
    by (simp add: verified_state_def verify_state_start_def checkpoint_records checkpoints_of_def)
  have exports: "read_all (map (\<lambda>(n, l). (file_name n, l)) (checkpoints_of co ls)) = checkpoints_of co ls"
    using checkpoints_of_sorted(2) [of ls co] assms(5)
    by (intro read_all_exports checkpoints_of_sorted(1)) (auto simp: list_all_iff)
  have "case check_exports (checkpoints_of co ls) (checkpoints_of co ls) None
      (replicate (length (checkpoints_of co ls)) False) ((vs_report vs)\<lparr>v_chain := chain_label (vs_chain vs)\<rparr>) of
      (covered, rep') \<Rightarrow> v_problems (missing_exports (checkpoints_of co ls) covered rep') = []"
    using vs checkpoints_of_sorted(2) [of ls co]
    by (intro check_exports_all checkpoints_of_sorted(1)) (simp_all add: verified_state_def)
  then show ?thesis
    by (simp add: verification_ok_def verify_journal_def loop lines exports Let_def split: prod.splits)
qed

section \<open>Properties\<close>

text \<open>C24. The verifier accepts what the gateway wrote: on the file any history left behind, with the
  keys the checkpoints were signed with or with none, it finds every complete line, nothing wrong
  with any checkpoint (chain, coverage, signature), and the chain over all of them; the one thing it
  may report is the torn line a crash left at the end.\<close>

theorem verify_accepts_journal:
  assumes "crypto_documented cr" "codec_documented co" "trusted cr pols keys"
    and "journal_history cr co pols w" "length (lines_of (j_file (w_journal w))) < u64_max"
  shows "let f = j_file (w_journal w); v = verify_journal cr co f keys None in
    v_records v = length (lines_of f) \<and> v_last_seq v = length (lines_of f)
    \<and> v_chain v = chain_label (chain_of cr (lines_of f))
    \<and> v_problems v = (if f = concat (lines_of f) then []
         else [Unreadable (read_error_text
                 (TornTail (length (lines_of f)) (length f - length (concat (lines_of f)))))])"
proof -
  from journal_history_inv [OF assms(2,4)] obtain ls where "history_inv cr co pols ls w" ..
  then have "journal_base cr co pols ls (w_journal w)" by (simp add: history_inv_def journal_inv_def)
  define f where "f = j_file (w_journal w)"
  define fl where "fl = lines_of f"
  from verify_history [OF assms(1-3) \<open>journal_base cr co pols ls (w_journal w)\<close> assms(5)] obtain vs torn where
    f: "f = concat fl @ torn" and vs: "verified_state cr co fl vs"
    and loop: "verify_loop cr co keys (reader_open cr f) (verify_state_start cr)
      = (if torn = [] then vs else vs\<lparr>vs_report := push_problem
           (Unreadable (read_error_text (TornTail (length fl) (length torn)))) (vs_report vs)\<rparr>)"
    unfolding fl_def f_def by blast
  have torn: "torn = [] \<longleftrightarrow> f = concat fl" "length torn = length f - length (concat fl)" by (simp_all add: f)
  have "v_records (verify_journal cr co f keys None) = length fl
      \<and> v_last_seq (verify_journal cr co f keys None) = length fl
      \<and> v_chain (verify_journal cr co f keys None) = chain_label (chain_of cr fl)
      \<and> v_problems (verify_journal cr co f keys None) = (if torn = [] then []
           else [Unreadable (read_error_text (TornTail (length fl) (length torn)))])"
    using vs by (simp add: verify_journal_def loop verified_state_def push_problem_def)
  then show ?thesis unfolding Let_def torn f_def [symmetric] fl_def [symmetric] .
qed

lemma sample_trusted: "trusted sample_crypto {sample_policy} [verifying_key sample_crypto ''k'']"
  by (simp add: trusted_def sample_policy_def)

theorem verify_accepts_journal_witness:
  "let v = verify_journal sample_crypto sample_codec (j_file (w_journal sample_writer))
             [verifying_key sample_crypto ''k''] None in
   v_records v = 2 \<and> v_problems v = [Unreadable (read_error_text (TornTail 2 5))]"
proof -
  let ?f = "j_file (w_journal sample_writer)"
  have "length (lines_of ?f) = 2" "?f \<noteq> concat (lines_of ?f)" "length ?f - length (concat (lines_of ?f)) = 5"
    unfolding sample_lines unfolding sample_file by simp_all
  then show ?thesis
    using verify_accepts_journal [OF sample_crypto_documented sample_codec_documented sample_trusted sample_history]
    by (simp add: Let_def del: read_error_text.simps)
qed

text \<open>C8. Exported checkpoints pin the journal: let a checkpoint the gateway exported be in the export
  directory under its file name. Any file at all that passes verification against that directory
  has the same lines as the journal up to and including the checkpoint (nothing altered, inserted,
  reordered or cut off), unless the two chain computations exhibit a collision of the hash.\<close>

theorem export_pins_journal:
  assumes "crypto_documented cr" "codec_documented co" "journal_history cr co pols w"
    and "(n, l) \<in> set (j_exported (w_journal w))" "(file_name n, l) \<in> set dir"
    and "verification_ok (verify_journal cr co bytes keys (Some dir))" "Suc (length bytes) < u64_max"
  shows "take n (lines_of bytes) = take n (lines_of (j_file (w_journal w))) \<and> n \<le> length (lines_of bytes)
    \<or> hash_collision cr (take (n - 1) (lines_of bytes)) (take (n - 1) (lines_of (j_file (w_journal w))))"
proof -
  from journal_history_inv [OF assms(2,3)] obtain ls where inv: "history_inv cr co pols ls w" ..
  then have base: "journal_base cr co pols ls (w_journal w)" by (simp add: history_inv_def journal_inv_def)
  let ?ls = "lines_of (j_file (w_journal w))"
  from recover_journal [OF assms(2) base] have lines: "journal_lines cr co pols ?ls"
    and ext: "?ls = ls @ drop (length ls) ?ls" by auto
  have "exports_kept co ls (j_exported (w_journal w))" using base by (simp add: journal_base_def)
  then have "exports_kept co ?ls (j_exported (w_journal w))" using ext exports_kept_mono by metis
  then have n: "0 < n" "n \<le> length ?ls" "?ls ! (n - 1) = l" "checkpoint_line co l"
    using assms(4) by (auto simp: exports_kept_def list_all_iff)
  have "n \<le> u64_max" using n(2) journal_lines_numbered [OF assms(2) lines] by simp
  then have "(n, l) \<in> set (read_all dir)"
    using assms(5) export_seq_file_name by (force simp: read_all_def)
  obtain ls' where ls': "bytes = concat ls'" "readable_from co 1 ls'"
      and pinned: "\<And>n l. (n, l) \<in> set (read_all dir) \<Longrightarrow> 0 < n \<and> n \<le> length ls' \<and> ls' ! (n - 1) = l"
      and seals: "\<And>i. i < length ls' \<Longrightarrow> line_kind co (ls' ! i) = CHECKPOINT_KIND \<Longrightarrow>
        sealed cr co keys (line_record co (Suc i) (chain_of cr (take i ls')) (ls' ! i))"
    using verify_clean [OF assms(6,7)] by blast
  from pinned [OF \<open>(n, l) \<in> set (read_all dir)\<close>] have pin: "n \<le> length ls'" "ls' ! (n - 1) = l" by simp_all
  have seal: "line_kind co l = CHECKPOINT_KIND \<Longrightarrow>
      sealed cr co keys (line_record co n (chain_of cr (take (n - 1) ls')) l)"
    using seals [of "n - 1"] pin n(1) by simp
  have lines': "lines_of bytes = ls'"
    using ls'(1) readable_from_is_line [OF ls'(2)] lines_of_concat [of ls' "[]"] by simp
  have "n - 1 < length ?ls" using n(1,2) by simp
  from journal_checkpoint_asserts [OF assms(2) lines this] n seal
  have "chain_of cr (take (n - 1) ls') = chain_of cr (take (n - 1) ?ls)"
    by (auto simp: sealed_def line_record_def)
  moreover have "list_all is_line ls'" "list_all is_line ?ls"
    using readable_from_is_line [OF ls'(2)] journal_lines_numbered [OF assms(2) lines] numbered_is_line by blast+
  then have "list_all is_line (take (n - 1) ls')" "list_all is_line (take (n - 1) ?ls)"
    by (auto simp: list_all_iff dest: in_set_takeD)
  ultimately have "take (n - 1) ls' = take (n - 1) ?ls
      \<or> hash_collision cr (take (n - 1) ls') (take (n - 1) ?ls)"
    using chain_binds [OF assms(1)] by blast
  moreover have "take n xs = take (n - 1) xs @ [xs ! (n - 1)]" if "n \<le> length xs" for xs :: "string list"
    using that n(1) by (metis Suc_diff_1 Suc_le_eq take_Suc_conv_app_nth)
  ultimately show ?thesis using lines' n(2,3) pin by auto
qed

text \<open>One record, sealed and exported.\<close>

definition sealed_policy :: checkpoint_policy where
  "sealed_policy = \<lparr>pol_every_records = 1, pol_every_seconds = 60, pol_signing_key = Some ''k'', pol_export = True\<rparr>"

definition sealed_env :: environment where
  "sealed_env = \<lparr>env_now = 0, env_timestamp = ''t'', env_batch = Written, env_checkpoint = Written, env_export = True\<rparr>"

definition sealed_writer :: writer where
  "sealed_writer =
     (case writer_iteration sample_crypto sample_codec sealed_policy sealed_env [Record sample_body]
             (w_journal (journal_new sample_crypto 0)) of
        (acks, queue, j) \<Rightarrow> \<lparr>w_queue = queue, w_journal = j, w_acks = acks\<rparr>)"

lemma sealed_history: "journal_history sample_crypto sample_codec {sealed_policy} sealed_writer"
proof -
  let ?w0 = "journal_new sample_crypto 0"
  let ?w1 = "?w0\<lparr>w_queue := [Record sample_body]\<rparr>"
  note step = history_step [where cr = sample_crypto and co = sample_codec and pols = "{sealed_policy}"]
  have "journal_history sample_crypto sample_codec {sealed_policy} ?w0" by (rule history_new)
  from step [OF this step_enqueue [OF _ sample_event_body sample_enqueue]]
  have w1: "journal_history sample_crypto sample_codec {sealed_policy} ?w1"
    by (simp add: WRITE_QUEUE_DEPTH_def journal_new_def)
  obtain acks queue j where "writer_iteration sample_crypto sample_codec sealed_policy sealed_env
      [Record sample_body] (w_journal ?w0) = (acks, queue, j)"
    by (cases "writer_iteration sample_crypto sample_codec sealed_policy sealed_env [Record sample_body] (w_journal ?w0)")
  with step [OF w1 step_writer [of sealed_policy, where env = sealed_env]]
  show ?thesis by (simp add: sealed_writer_def journal_new_def)
qed

definition sealed_line :: string where
  "sealed_line = (let ws = \<lparr>ws_last_seq = 1, ws_chain = chain_extend sample_crypto (chain_genesis sample_crypto)
       (record_line 1 sample_body), ws_last_checkpoint = None, ws_since_checkpoint = 1, ws_last_checkpoint_at = 0\<rparr> in
     record_line 2 (js_checkpoint_to sample_codec (build_checkpoint sample_crypto sealed_policy sealed_env 2 ws)))"

lemma sealed_journal:
  "j_file (w_journal sealed_writer) = concat [record_line 1 sample_body, sealed_line]"
  "j_exported (w_journal sealed_writer) = [(2, sealed_line)]"
  by (simp_all add: sealed_writer_def sealed_env_def sealed_policy_def sealed_line_def journal_new_def
      writer_start_def drain_room MAX_BATCH_def writer_batch_def checked_add_u64_def Let_def
      after_checkpoint_def writer_checkpoint_def numeral_2_eq_2)

text \<open>A position read off a reader brings another one to the same place: what a forwarder resumes
  with after a restart is what it would have read on with.\<close>

inductive reads :: "crypto \<Rightarrow> codec \<Rightarrow> string \<Rightarrow> jrecord list \<Rightarrow> reader \<Rightarrow> bool" for cr co bytes where
  reads_open: "reads cr co bytes [] (reader_open cr bytes)"
| reads_next: "reads cr co bytes rs r \<Longrightarrow> reader_next cr co r = (Some (Inr x), r') \<Longrightarrow>
     reads cr co bytes (rs @ [x]) r'"

lemma read_line_split: "fst (read_line s) @ snd (read_line s) = s"
  by (auto simp: read_line_def dest: split_once_Some split: option.split)

lemma reads_place:
  "reads cr co bytes rs r \<Longrightarrow>
     rd_rest r = drop (rd_offset r) bytes \<and> rd_offset r \<le> length bytes \<and> \<not> rd_done r"
proof (induction rule: reads.induct)
  case reads_open
  show ?case by (simp add: reader_open_def)
next
  case (reads_next rs r x r')
  then have one: "read_one cr co r = (Inr (Some x), r')"
    by (auto simp: reader_next_def split: if_splits prod.splits sum.splits option.splits)
  obtain l rest where l: "read_line (rd_rest r) = (l, rest)" by force
  then have "rd_rest r = l @ rest" using read_line_split [of "rd_rest r"] by simp
  with reads_next.IH have "drop (rd_offset r) bytes = l @ rest" "rd_offset r \<le> length bytes" by simp_all
  then have "drop (rd_offset r + length l) bytes = rest" "rd_offset r + length l \<le> length bytes"
    by (metis append_eq_conv_conj drop_drop add.commute,
        metis diff_add_inverse le_diff_conv2 length_append length_drop le_add1 add.commute)
  moreover have "rd_rest r' = rest" "rd_offset r' = rd_offset r + length l" "rd_done r' = rd_done r"
    using one l by (auto simp: read_one_def Let_def split: if_splits option.splits)
  ultimately show ?case using reads_next.IH by simp
qed

text \<open>Resuming is reading on: at whatever record a reader of a journal stands, a second reader
  resumed from its position over the same bytes is in the same state, so it delivers exactly the
  records, the chain values and the errors the first would deliver next.\<close>

theorem resume_continues:
  assumes "reads cr co bytes rs r"
  shows "reader_resume bytes (reader_position r) = Inr r"
  using reads_place [OF assms] by (simp add: reader_resume_def reader_position_def)

text \<open>Recovery accepts a record without a kind, which the reader refuses.\<close>

lemma recovery_laxer_than_reader:
  assumes "is_line l" "js_parse co (butlast l) = Some v" "json_get v ''seq'' = Some (JUint 1)"
    and "json_get v ''kind'' = None"
  shows "\<exists>r. recover cr co path l = (Inr r, l)"
    "fst (read_one cr co (reader_open cr l)) = Inl (Unparseable 1 ''no string `kind`'')"
proof -
  have p: "parse_seq co (butlast l) = Some (1, False)" using assms(2-4) by (simp add: parse_seq_def)
  then have "recover cr co path (concat [l] @ []) = (Inr (recovered_of cr co [l]), concat [l])"
    using assms(1) by (intro recover_lines) simp_all
  then show "\<exists>r. recover cr co path l = (Inr r, l)" by simp
  show "fst (read_one cr co (reader_open cr l)) = Inl (Unparseable 1 ''no string `kind`'')"
    using assms read_line_is_line [OF assms(1), of "[]"] is_line_last [OF assms(1)]
    by (simp add: read_one_def reader_open_def Let_def)
qed

lemma sealed_lines:
  "lines_of (j_file (w_journal sealed_writer)) = [record_line 1 sample_body, sealed_line]"
  "checkpoints_of sample_codec [record_line 1 sample_body, sealed_line] = [(2, sealed_line)]"
proof -
  have "is_line (record_line 1 sample_body)" by (simp add: sample_body_def record_line_is_line)
  moreover have "is_line sealed_line" "line_kind sample_codec sealed_line = CHECKPOINT_KIND"
    unfolding sealed_line_def Let_def
    by (simp_all add: checkpoint_body_line(1) checkpoint_readable(2) sample_codec_documented)
  moreover have "line_kind sample_codec (record_line 1 sample_body) \<noteq> CHECKPOINT_KIND"
    by (simp add: event_readable(2) sample_codec_documented sample_event_body)
  ultimately show "lines_of (j_file (w_journal sealed_writer)) = [record_line 1 sample_body, sealed_line]"
    "checkpoints_of sample_codec [record_line 1 sample_body, sealed_line] = [(2, sealed_line)]"
    using lines_of_concat [of "[record_line 1 sample_body, sealed_line]" "[]"]
    by (simp_all add: sealed_journal checkpoints_of_def)
qed

lemma sealed_length: "Suc (length (j_file (w_journal sealed_writer))) < u64_max"
proof -
  have "length (chain_extend sample_crypto c l) = 32" for c l by (simp add: chain_extend_def sample_crypto_def)
  then have "length sealed_line < 2000"
    by (simp add: sealed_line_def sealed_policy_def sealed_env_def record_line_def SEQ_PREFIX_def sample_codec_def
        sample_checkpoint_to_def build_checkpoint_def checkpoint_new_def checkpoint_sign_def chain_label_def
        sample_option_def verifying_key_id_def sign_def sample_crypto_def dec_string.simps)
  moreover have "length (record_line 1 sample_body) < 2000"
    by (simp add: record_line_def SEQ_PREFIX_def sample_body_def dec_string.simps)
  ultimately show ?thesis by (simp add: sealed_journal)
qed

theorem export_pins_journal_witness:
  "let f = j_file (w_journal sealed_writer); dir = [(file_name 2, sealed_line)] in
   verification_ok (verify_journal sample_crypto sample_codec f [verifying_key sample_crypto ''k''] (Some dir))
   \<and> (take 2 (lines_of f) = take 2 (lines_of f) \<and> 2 \<le> length (lines_of f)
      \<or> hash_collision sample_crypto (take (2 - 1) (lines_of f)) (take (2 - 1) (lines_of f)))"
proof -
  let ?f = "j_file (w_journal sealed_writer)"
  have trusted: "trusted sample_crypto {sealed_policy} [verifying_key sample_crypto ''k'']"
    by (simp add: trusted_def sealed_policy_def)
  from journal_history_inv [OF sample_codec_documented sealed_history] obtain ls
    where "history_inv sample_crypto sample_codec {sealed_policy} ls sealed_writer" ..
  then have "journal_base sample_crypto sample_codec {sealed_policy} ls (w_journal sealed_writer)"
    by (simp add: history_inv_def journal_inv_def)
  from recover_journal [OF sample_codec_documented this]
  have "journal_lines sample_crypto sample_codec {sealed_policy} (lines_of ?f)" by blast
  from verify_accepts_exports [OF sample_crypto_documented sample_codec_documented trusted this [unfolded sealed_lines]]
  have ok: "verification_ok (verify_journal sample_crypto sample_codec ?f [verifying_key sample_crypto ''k'']
      (Some [(file_name 2, sealed_line)]))"
    unfolding sealed_lines(2) sealed_journal(1) by simp
  moreover have "(2, sealed_line) \<in> set (j_exported (w_journal sealed_writer))" by (simp add: sealed_journal)
  ultimately show ?thesis
    using export_pins_journal [OF sample_crypto_documented sample_codec_documented sealed_history _ _ ok sealed_length,
        of 2 sealed_line] by (simp add: Let_def)
qed

theorem resume_continues_witness:
  "\<exists>x r. reads sample_crypto sample_codec (j_file (w_journal sealed_writer)) [x] r
     \<and> reader_resume (j_file (w_journal sealed_writer)) (reader_position r) = Inr r"
proof -
  let ?l = "record_line 1 sample_body"
  have "readable sample_codec 1 ?l"
    by (simp add: event_readable(1) sample_codec_documented sample_event_body)
  from read_one_line [OF this, of sample_crypto sealed_line 0 "chain_genesis sample_crypto"]
  have "reader_next sample_crypto sample_codec (reader_open sample_crypto (j_file (w_journal sealed_writer)))
      = (Some (Inr (line_record sample_codec 1 (chain_genesis sample_crypto) ?l)),
         at_line sealed_line 2 (length ?l) (chain_extend sample_crypto (chain_genesis sample_crypto) ?l))"
    by (simp add: reader_next_def reader_open_def sealed_journal numeral_2_eq_2)
  from reads_next [OF reads_open this] resume_continues [OF reads_next [OF reads_open this]]
  show ?thesis by auto
qed

end
