(* ===== verification/Revocation.thy ===== *)
theory Revocation
  imports Bundle
begin

text \<open>
  Validated tokens, \<^verbatim>\<open>src/ports/token_validator.rs\<close>, and the revocation list consulted for
  each of them, \<^verbatim>\<open>src/auth/revocation.rs\<close>. The YAML library, the RFC 3339 parser of
  \<^verbatim>\<open>chrono\<close> and Rust's quoting of a string are arguments. The compiled list is a document
  of the signed-bundle machinery: \<open>revocation_kind\<close> interprets its contract.
\<close>

section \<open>Tokens\<close>

datatype token_rejection =
    Malformed | InvalidSignature | Expired | NotYetValid | WrongIssuer | WrongAudience | UnknownKey
  | UnsupportedAlgorithm | MissingClaim string | KeysUnavailable | UnknownToken | Revoked | GroupsOverage

fun rejection_category :: "token_rejection \<Rightarrow> string" where
  "rejection_category Malformed = ''malformed''"
| "rejection_category InvalidSignature = ''invalid_signature''"
| "rejection_category Expired = ''expired''"
| "rejection_category NotYetValid = ''not_yet_valid''"
| "rejection_category WrongIssuer = ''wrong_issuer''"
| "rejection_category WrongAudience = ''wrong_audience''"
| "rejection_category UnknownKey = ''unknown_key''"
| "rejection_category UnsupportedAlgorithm = ''unsupported_algorithm''"
| "rejection_category (MissingClaim _) = ''missing_claim''"
| "rejection_category KeysUnavailable = ''keys_unavailable''"
| "rejection_category UnknownToken = ''unknown_token''"
| "rejection_category Revoked = ''revoked''"
| "rejection_category GroupsOverage = ''groups_overage''"

definition is_server_side :: "token_rejection \<Rightarrow> bool" where
  "is_server_side r \<longleftrightarrow> r = KeysUnavailable"

datatype subject_kind = Human | Machine | UnknownKind

fun subject_kind_label :: "subject_kind \<Rightarrow> string" where
  "subject_kind_label Human = ''human''"
| "subject_kind_label Machine = ''machine''"
| "subject_kind_label UnknownKind = ''unknown''"

record actor =
  actor_subject :: string
  actor_issuer :: "string option"

record token_facts =
  tf_issued_at :: "nat option"
  tf_token_id :: "string option"
  tf_actors :: "actor list option"
  tf_subject_kind :: subject_kind

definition token_facts_default :: token_facts where
  "token_facts_default =
     \<lparr>tf_issued_at = None, tf_token_id = None, tf_actors = None, tf_subject_kind = UnknownKind\<rparr>"

record authenticated =
  au_principal :: principal
  au_token :: token_facts

text \<open>The fixed table of \<open>StaticValidator\<close>, keyed by digest.\<close>

type_synonym static_validator = "(string \<times> authenticated) list"

definition with_facts ::
  "crypto \<Rightarrow> string \<Rightarrow> principal \<Rightarrow> token_facts \<Rightarrow> static_validator \<Rightarrow> static_validator" where
  "with_facts cr token p facts table =
     (let d = cr_sha256 cr token in
      (d, \<lparr>au_principal = p, au_token = facts\<rparr>) # filter (\<lambda>(k, _). k \<noteq> d) table)"

definition static_lookup :: "crypto \<Rightarrow> static_validator \<Rightarrow> string \<Rightarrow> token_rejection + authenticated" where
  "static_lookup cr table token = ok_or UnknownToken (map_of table (cr_sha256 cr token))"

section \<open>The list as written\<close>

definition MAX_ENTRIES :: nat where
  "MAX_ENTRIES = 100000"

record revoked_subject =
  rs_subject :: string
  rs_revoked_at :: string
  rs_reason :: "string option"

record revoked_token =
  rt_token_id :: string
  rt_revoked_at :: string
  rt_reason :: "string option"

record not_before =
  nb_at :: string
  nb_reason :: "string option"

record revocation_file =
  rf_version :: nat
  rf_subjects :: "revoked_subject list"
  rf_token_ids :: "revoked_token list"
  rf_not_before :: "not_before option"

definition revocation_file_empty :: revocation_file where
  "revocation_file_empty = \<lparr>rf_version = 1, rf_subjects = [], rf_token_ids = [], rf_not_before = None\<rparr>"

text \<open>\<open>parse_rfc3339\<close>: the parser's seconds since the epoch, when they are not negative.\<close>

definition parse_rfc3339 :: "(string \<Rightarrow> int option) \<Rightarrow> string \<Rightarrow> nat option" where
  "parse_rfc3339 rfc3339 v =
     Option.bind (rfc3339 (trim v)) (\<lambda>t. if 0 \<le> t then Some (nat t) else None)"

definition revocation_parse ::
  "(string \<Rightarrow> string) \<Rightarrow> (string \<Rightarrow> int option) \<Rightarrow> (string \<Rightarrow> string + revocation_file) \<Rightarrow> string
     \<Rightarrow> string + revocation_file" where
  "revocation_parse debug rfc3339 parse_yaml bytes =
     and_then (map_err (\<lambda>error. ''does not parse: '' @ error) (parse_yaml bytes)) (\<lambda>f.
       if MAX_ENTRIES < length (rf_subjects f) \<or> MAX_ENTRIES < length (rf_token_ids f)
       then Inl (''more than '' @ dec_string MAX_ENTRIES @ '' entries; this is not a revocation list'')
       else if list_ex (\<lambda>e. trim (rs_subject e) = []) (rf_subjects f) then Inl ''a subject entry is empty''
       else if list_ex (\<lambda>e. trim (rt_token_id e) = []) (rf_token_ids f) then Inl ''a token_id entry is empty''
       else (case rf_not_before f of
               None \<Rightarrow> Inr f
             | Some nb \<Rightarrow>
                 (case parse_rfc3339 rfc3339 (nb_at nb) of
                    None \<Rightarrow> Inl (''not_before.at '' @ debug (nb_at nb) @ '' is not an RFC 3339 timestamp'')
                  | Some _ \<Rightarrow> Inr f)))"

text \<open>\<open>to_yaml\<close>: the entries are sorted, so equal lists have equal bytes.\<close>

definition revocation_sorted :: "revocation_file \<Rightarrow> revocation_file" where
  "revocation_sorted f =
     f\<lparr>rf_subjects := sort_key rs_subject (rf_subjects f), rf_token_ids := sort_key rt_token_id (rf_token_ids f)\<rparr>"

definition revocation_to_yaml :: "(revocation_file \<Rightarrow> string + string) \<Rightarrow> revocation_file \<Rightarrow> string + string" where
  "revocation_to_yaml print_yaml f =
     map_err (\<lambda>error. ''cannot serialize: '' @ error) (print_yaml (revocation_sorted f))"

section \<open>The compiled list\<close>

datatype revocation_reason = BySubject | ByTokenId | ByNotBefore

fun revocation_reason_str :: "revocation_reason \<Rightarrow> string" where
  "revocation_reason_str BySubject = ''subject''"
| "revocation_reason_str ByTokenId = ''token_id''"
| "revocation_reason_str ByNotBefore = ''not_before''"

record revocation_document =
  rd_version :: string
  rd_subjects :: "string set"
  rd_token_ids :: "string set"
  rd_not_before :: "nat option"
  rd_not_before_label :: "string option"

definition issued_before :: "token_facts \<Rightarrow> nat \<Rightarrow> bool" where
  "issued_before token cutoff =
     (case tf_issued_at token of None \<Rightarrow> True | Some issued_at \<Rightarrow> issued_at < cutoff)"

definition revocation_check :: "revocation_document \<Rightarrow> authenticated \<Rightarrow> revocation_reason option" where
  "revocation_check d a =
     (if subject (au_principal a) \<in> rd_subjects d then Some BySubject
      else if (case tf_token_id (au_token a) of None \<Rightarrow> False | Some i \<Rightarrow> i \<in> rd_token_ids d)
      then Some ByTokenId
      else (case rd_not_before d of
              None \<Rightarrow> None
            | Some cutoff \<Rightarrow> if issued_before (au_token a) cutoff then Some ByNotBefore else None))"

definition revokes_subject :: "revocation_document \<Rightarrow> string \<Rightarrow> bool" where
  "revokes_subject d s \<longleftrightarrow> s \<in> rd_subjects d"

definition subject_count :: "revocation_document \<Rightarrow> nat" where
  "subject_count d = card (rd_subjects d)"

definition token_count :: "revocation_document \<Rightarrow> nat" where
  "token_count d = card (rd_token_ids d)"

definition revocation_compile ::
  "crypto \<Rightarrow> (string \<Rightarrow> string) \<Rightarrow> (string \<Rightarrow> int option) \<Rightarrow> (string \<Rightarrow> string + revocation_file) \<Rightarrow> string
     \<Rightarrow> string + revocation_document" where
  "revocation_compile cr debug rfc3339 parse_yaml bytes =
     and_then (revocation_parse debug rfc3339 parse_yaml bytes) (\<lambda>f.
       Inr \<lparr>rd_version = version_label cr (rf_version f) bytes,
            rd_subjects = set (map rs_subject (rf_subjects f)),
            rd_token_ids = set (map rt_token_id (rf_token_ids f)),
            rd_not_before = Option.bind (rf_not_before f) (\<lambda>nb. parse_rfc3339 rfc3339 (nb_at nb)),
            rd_not_before_label = map_option nb_at (rf_not_before f)\<rparr>)"

definition revocation_describe :: "revocation_document \<Rightarrow> control_event \<Rightarrow> control_event" where
  "revocation_describe d e =
     e\<lparr>ce_revoked_subjects := Some (subject_count d), ce_revoked_tokens := Some (token_count d),
       ce_not_before := rd_not_before_label d\<rparr>"

definition revocation_bundle ::
  "crypto \<Rightarrow> (string \<Rightarrow> string) \<Rightarrow> (string \<Rightarrow> int option) \<Rightarrow> (string \<Rightarrow> string + revocation_file)
     \<Rightarrow> revocation_document bundle_document" where
  "revocation_bundle cr debug rfc3339 parse_yaml =
     \<lparr>doc_domain = RevocationList, doc_noun = ''revocation list'', doc_loaded_kind = RevocationLoaded,
      doc_changed_kind = RevocationChanged, doc_rejected_kind = RevocationRejected,
      doc_compile = revocation_compile cr debug rfc3339 parse_yaml,
      doc_version = rd_version, doc_describe = revocation_describe\<rparr>"

interpretation revocation_kind: bundle_kind cr "revocation_bundle cr debug rfc3339 parse_yaml"
  for cr debug rfc3339 parse_yaml
  by unfold_locales
     (auto simp: revocation_bundle_def revocation_compile_def revocation_describe_def result_simps)

section \<open>Properties\<close>

lemma revocation_parse_Inr:
  "revocation_parse debug rfc3339 parse_yaml bytes = Inr f \<longleftrightarrow>
     parse_yaml bytes = Inr f \<and> length (rf_subjects f) \<le> MAX_ENTRIES \<and> length (rf_token_ids f) \<le> MAX_ENTRIES
     \<and> (\<forall>e \<in> set (rf_subjects f). trim (rs_subject e) \<noteq> []) \<and> (\<forall>e \<in> set (rf_token_ids f). trim (rt_token_id e) \<noteq> [])
     \<and> (\<forall>nb. rf_not_before f = Some nb \<longrightarrow> parse_rfc3339 rfc3339 (nb_at nb) \<noteq> None)"
  by (cases "parse_yaml bytes")
     (auto simp: revocation_parse_def list_ex_iff split: if_splits option.splits)

text \<open>The file entry that names a token.\<close>

definition names_token :: "(string \<Rightarrow> int option) \<Rightarrow> revocation_file \<Rightarrow> authenticated \<Rightarrow> bool" where
  "names_token rfc3339 f a \<longleftrightarrow>
     (\<exists>e \<in> set (rf_subjects f). rs_subject e = subject (au_principal a))
     \<or> (\<exists>e \<in> set (rf_token_ids f). tf_token_id (au_token a) = Some (rt_token_id e))
     \<or> (\<exists>nb cutoff. rf_not_before f = Some nb \<and> parse_rfc3339 rfc3339 (nb_at nb) = Some cutoff
          \<and> (\<forall>iat. tf_issued_at (au_token a) = Some iat \<longrightarrow> iat < cutoff))"

lemma compiled_list_exact:
  assumes "revocation_compile cr debug rfc3339 parse_yaml bytes = Inr d" "parse_yaml bytes = Inr f"
  shows "(revocation_check d a \<noteq> None \<longleftrightarrow> names_token rfc3339 f a)
    \<and> (rf_not_before f \<noteq> None \<longleftrightarrow> rd_not_before d \<noteq> None)"
proof -
  from assms have f: "revocation_parse debug rfc3339 parse_yaml bytes = Inr f"
    and d: "d = \<lparr>rd_version = version_label cr (rf_version f) bytes,
      rd_subjects = set (map rs_subject (rf_subjects f)), rd_token_ids = set (map rt_token_id (rf_token_ids f)),
      rd_not_before = Option.bind (rf_not_before f) (\<lambda>nb. parse_rfc3339 rfc3339 (nb_at nb)),
      rd_not_before_label = map_option nb_at (rf_not_before f)\<rparr>"
    by (auto simp: revocation_compile_def result_simps revocation_parse_Inr)
  have "rf_not_before f \<noteq> None \<longleftrightarrow> rd_not_before d \<noteq> None"
    using f by (cases "rf_not_before f") (auto simp: d revocation_parse_Inr)
  moreover have "revocation_check d a \<noteq> None \<longleftrightarrow> names_token rfc3339 f a"
    by (cases "rf_not_before f"; cases "tf_issued_at (au_token a)"; cases "tf_token_id (au_token a)")
       (auto simp: d revocation_check_def names_token_def issued_before_def image_iff
         split: option.split)
  ultimately show ?thesis by simp
qed

text \<open>The compiled list refuses exactly the tokens the document names: those of a listed subject,
  those with a listed id, and, under a cut-off, those issued before it or without an issue time. A
  document with a cut-off that does not parse is not accepted, so no cut-off is silently lost.\<close>

theorem revocation_check_exact:
  assumes "revocation_compile cr debug rfc3339 parse_yaml bytes = Inr d"
  shows "\<exists>f. parse_yaml bytes = Inr f \<and> (revocation_check d a \<noteq> None \<longleftrightarrow> names_token rfc3339 f a)
    \<and> (rf_not_before f \<noteq> None \<longleftrightarrow> rd_not_before d \<noteq> None)"
proof -
  from assms obtain f where "parse_yaml bytes = Inr f"
    by (auto simp: revocation_compile_def result_simps revocation_parse_Inr)
  with compiled_list_exact [OF assms this, of a] show ?thesis by blast
qed

definition sample_authenticated :: authenticated where
  "sample_authenticated = \<lparr>au_principal = principal_local\<lparr>subject := ''alice''\<rparr>, au_token = token_facts_default\<rparr>"

definition sample_list :: revocation_file where
  "sample_list = revocation_file_empty\<lparr>rf_not_before := Some \<lparr>nb_at = ''2026-09-03T09:00:00Z'', nb_reason = None\<rparr>\<rparr>"

definition sample_revocations :: revocation_document where
  "sample_revocations =
     \<lparr>rd_version = version_label sample_crypto 1 ''v1'', rd_subjects = {}, rd_token_ids = {},
      rd_not_before = Some 1788426000, rd_not_before_label = Some ''2026-09-03T09:00:00Z''\<rparr>"

theorem revocation_check_exact_witness:
  "revocation_check sample_revocations sample_authenticated = Some ByNotBefore
   \<and> names_token (\<lambda>_. Some 1788426000) sample_list sample_authenticated"
proof -
  have "revocation_compile sample_crypto (\<lambda>s. s) (\<lambda>_. Some 1788426000) (\<lambda>_. Inr sample_list) ''v1''
      = Inr sample_revocations"
    by (simp add: revocation_compile_def revocation_parse_def sample_list_def sample_revocations_def
        revocation_file_empty_def MAX_ENTRIES_def parse_rfc3339_def)
  from revocation_check_exact [OF this, of sample_authenticated] show ?thesis
    by (simp add: revocation_check_def sample_revocations_def sample_authenticated_def principal_local_def
        token_facts_default_def issued_before_def)
qed

end
