(* ===== verification/Sessions.thy ===== *)
theory Sessions
  imports Revocation "HOL-Library.AList"
begin

text \<open>
  Session binding, \<^verbatim>\<open>src/server/session.rs\<close>, and what a change of the revocation list does to
  the sessions, \<^verbatim>\<open>watch_revocations\<close> of \<^verbatim>\<open>src/server/http.rs\<close>. The map of sessions
  is an association list. \<open>bump\<close>, \<open>forget\<close> and \<open>bind_owner\<close> hold the lock throughout, so each is one
  step, named by \<open>session_action\<close>; the reaper and \<open>close_where\<close> choose under one lock and remove under
  others, one session at a time, and take as an argument the steps that come before each removal and
  after the last. The session manager of \<^verbatim>\<open>rmcp\<close> underneath is not
  modelled: whether it knows a session or fails to close one is an argument. Instants are
  nanoseconds.
\<close>

section \<open>The code\<close>

definition SESSION_ID_HEADER :: string where
  "SESSION_ID_HEADER = ''mcp-session-id''"

definition DEFAULT_IDLE_TTL :: nat where
  "DEFAULT_IDLE_TTL = 30 * 60 * 1000000000"

record session_state =
  ss_last_seen :: nat
  ss_owner :: "owner_key option"

type_synonym sessions = "(string \<times> session_state) list"

definition expired_sessions :: "nat \<Rightarrow> nat \<Rightarrow> sessions \<Rightarrow> string list" where
  "expired_sessions now idle_ttl m = map fst (filter (\<lambda>(_, st). idle_ttl < now - ss_last_seen st) m)"

definition bump :: "nat \<Rightarrow> string \<Rightarrow> sessions \<Rightarrow> sessions" where
  "bump now i m =
     (case map_of m i of
        Some st \<Rightarrow> AList.update i (st\<lparr>ss_last_seen := now\<rparr>) m
      | None \<Rightarrow> AList.update i \<lparr>ss_last_seen = now, ss_owner = None\<rparr> m)"

definition forget :: "string \<Rightarrow> sessions \<Rightarrow> sessions" where
  "forget i m = AList.delete i m"

definition bind_owner :: "nat \<Rightarrow> string \<Rightarrow> owner_key \<Rightarrow> sessions \<Rightarrow> sessions" where
  "bind_owner now i owner m =
     (let st = (case map_of m i of Some st \<Rightarrow> st | None \<Rightarrow> \<lparr>ss_last_seen = now, ss_owner = None\<rparr>)
      in AList.update i (if ss_owner st = None then st\<lparr>ss_owner := Some owner\<rparr> else st) m)"

datatype session_action = Bump nat string | Forget string | Bind nat string owner_key

fun session_apply :: "session_action \<Rightarrow> sessions \<Rightarrow> sessions" where
  "session_apply (Bump now i) m = bump now i m"
| "session_apply (Forget i) m = forget i m"
| "session_apply (Bind now i o') m = bind_owner now i o' m"

text \<open>The loop that removes chosen sessions, with the steps of others in between.\<close>

fun close_each :: "string list \<Rightarrow> session_action list list \<Rightarrow> sessions \<Rightarrow> sessions" where
  "close_each [] between m = fold session_apply (concat between) m"
| "close_each (i # ids) [] m = close_each ids [] (forget i m)"
| "close_each (i # ids) (as # between) m = close_each ids between (forget i (fold session_apply as m))"

definition reap_once :: "nat \<Rightarrow> nat \<Rightarrow> session_action list list \<Rightarrow> sessions \<Rightarrow> sessions" where
  "reap_once now idle_ttl between m = close_each (expired_sessions now idle_ttl m) between m"

definition owner_of_session :: "string \<Rightarrow> sessions \<Rightarrow> owner_key option" where
  "owner_of_session i m = Option.bind (map_of m i) ss_owner"

definition owner_matches :: "string \<Rightarrow> owner_key \<Rightarrow> sessions \<Rightarrow> bool" where
  "owner_matches i requester m =
     (case Option.bind (map_of m i) ss_owner of None \<Rightarrow> False | Some owner \<Rightarrow> owner = requester)"

definition doomed_sessions :: "(owner_key \<Rightarrow> bool) \<Rightarrow> sessions \<Rightarrow> string list" where
  "doomed_sessions revoked m =
     map fst (filter (\<lambda>(_, st). case ss_owner st of None \<Rightarrow> False | Some owner \<Rightarrow> revoked owner) m)"

definition close_where :: "(owner_key \<Rightarrow> bool) \<Rightarrow> session_action list list \<Rightarrow> sessions \<Rightarrow> nat \<times> sessions" where
  "close_where revoked between m =
     (let doomed = doomed_sessions revoked m in (length doomed, close_each doomed between m))"

text \<open>The operations of the trait, given what the manager underneath answered.\<close>

definition create_session :: "nat \<Rightarrow> ('e + string) \<Rightarrow> sessions \<Rightarrow> ('e + string) \<times> sessions" where
  "create_session now inner m = (case inner of Inl e \<Rightarrow> (Inl e, m) | Inr i \<Rightarrow> (Inr i, bump now i m))"

definition use_session :: "nat \<Rightarrow> string \<Rightarrow> ('e + 'a) \<Rightarrow> sessions \<Rightarrow> ('e + 'a) \<times> sessions" where
  "use_session now i inner m = (case inner of Inl e \<Rightarrow> (Inl e, m) | Inr x \<Rightarrow> (Inr x, bump now i m))"

definition has_session :: "nat \<Rightarrow> string \<Rightarrow> ('e + bool) \<Rightarrow> sessions \<Rightarrow> ('e + bool) \<times> sessions" where
  "has_session now i inner m =
     (case inner of Inl e \<Rightarrow> (Inl e, m) | Inr exists \<Rightarrow> (Inr exists, if exists then bump now i m else m))"

definition close_session :: "string \<Rightarrow> ('e + unit) \<Rightarrow> sessions \<Rightarrow> ('e + unit) \<times> sessions" where
  "close_session i inner m = (inner, forget i m)"

datatype inventory_error = InventoryNotFound | InventoryUnavailable

definition list_sessions :: "sessions \<Rightarrow> (string \<times> owner_key option) list" where
  "list_sessions m = sort_key fst (map (\<lambda>(i, st). (i, ss_owner st)) m)"

definition revoke_session :: "string \<Rightarrow> ('e + unit) \<Rightarrow> sessions \<Rightarrow> (inventory_error + unit) \<times> sessions" where
  "revoke_session i inner m =
     (if map_of m i = None then (Inl InventoryNotFound, m)
      else (case close_session i inner m of (r, m') \<Rightarrow> (map_err (\<lambda>_. InventoryUnavailable) r, m')))"

text \<open>The middleware. The request names a session or not; the rest of the stack is a function that
  answers a response, the session it names, and the sessions it leaves.\<close>

datatype 'r session_outcome = SessionNotFound | Answered 'r

definition enforce_session_owner ::
  "nat \<Rightarrow> principal option \<Rightarrow> string option \<Rightarrow> (sessions \<Rightarrow> ('r \<times> string option) \<times> sessions) \<Rightarrow> sessions
     \<Rightarrow> 'r session_outcome \<times> sessions" where
  "enforce_session_owner now p named_session nxt m =
     (let requester = (case p of None \<Rightarrow> LocalOwner | Some p \<Rightarrow> owner_of p) in
      case named_session of
        Some i \<Rightarrow>
          if \<not> owner_matches i requester m then (SessionNotFound, m)
          else (case nxt m of ((r, _), m') \<Rightarrow> (Answered r, m'))
      | None \<Rightarrow>
          (case nxt m of ((r, created), m') \<Rightarrow>
             (Answered r, case created of None \<Rightarrow> m' | Some i \<Rightarrow> bind_owner now i requester m')))"

text \<open>The hook of the revocation list's watcher.\<close>

definition revocation_closes :: "revocation_document \<Rightarrow> revocation_document \<Rightarrow> owner_key \<Rightarrow> bool" where
  "revocation_closes previous current owner =
     (let cutoff_moved = rd_not_before previous \<noteq> rd_not_before current in
      case owner of
        PrincipalOwner _ s \<Rightarrow> cutoff_moved \<or> revokes_subject current s
      | LocalOwner \<Rightarrow> False)"

definition revocation_hook ::
  "revocation_document \<Rightarrow> revocation_document \<Rightarrow> session_action list list \<Rightarrow> sessions \<Rightarrow> nat \<times> sessions" where
  "revocation_hook previous current between m = close_where (revocation_closes previous current) between m"

section \<open>Interleaved steps\<close>

lemma forget_is_step: "forget i m = session_apply (Forget i) m"
  by simp

fun closing_steps :: "string list \<Rightarrow> session_action list list \<Rightarrow> session_action list" where
  "closing_steps [] between = concat between"
| "closing_steps (i # ids) [] = Forget i # closing_steps ids []"
| "closing_steps (i # ids) (as # between) = as @ Forget i # closing_steps ids between"

lemma close_each_steps: "close_each ids between m = fold session_apply (closing_steps ids between) m"
  by (induction ids between arbitrary: m rule: closing_steps.induct) simp_all

lemma closing_steps_set: "set (closing_steps ids between) = set (concat between) \<union> Forget ` set ids"
  by (induction ids between rule: closing_steps.induct) auto

section \<open>Owners\<close>

lemma owner_of_bump: "owner_of_session i (bump now j m) = owner_of_session i m"
  by (auto simp: owner_of_session_def bump_def update_conv' split: option.splits)

lemma owner_of_forget: "owner_of_session i (forget j m) = (if i = j then None else owner_of_session i m)"
  by (auto simp: owner_of_session_def forget_def delete_conv')

lemma owner_of_bind:
  "owner_of_session i (bind_owner now j o' m) =
     (if i = j \<and> owner_of_session i m = None then Some o' else owner_of_session i m)"
  by (auto simp: owner_of_session_def bind_owner_def Let_def update_conv' split: option.splits)

lemmas owner_of_steps = owner_of_bump owner_of_forget owner_of_bind

lemma owner_matches_iff: "owner_matches i r m \<longleftrightarrow> owner_of_session i m = Some r"
  by (auto simp: owner_matches_def owner_of_session_def split: option.split)

lemma owner_kept:
  assumes "owner_of_session i m = Some o'" "Forget i \<notin> set as"
  shows "owner_of_session i (fold session_apply as m) = Some o'"
  using assms
proof (induction as arbitrary: m)
  case (Cons a as)
  then show ?case by (cases a) (auto simp: owner_of_steps)
qed simp

text \<open>An owner the run ends with was there at the start, or was bound by the run; the first only
  when the run did not forget the session.\<close>

lemma owner_origin:
  assumes "owner_of_session i (fold session_apply as m) = Some o'"
  shows "(owner_of_session i m = Some o' \<and> Forget i \<notin> set as) \<or> (\<exists>now. Bind now i o' \<in> set as)"
  using assms
proof (induction as arbitrary: m)
  case (Cons a as)
  from Cons.IH [of "session_apply a m"] Cons.prems
  have "(owner_of_session i (session_apply a m) = Some o' \<and> Forget i \<notin> set as) \<or> (\<exists>now. Bind now i o' \<in> set as)"
    by simp
  then show ?case by (cases a) (auto simp: owner_of_steps split: if_splits)
qed simp

lemma doomed_if_owned:
  assumes "owner_of_session i m = Some o'" "revoked o'"
  shows "i \<in> set (doomed_sessions revoked m)"
proof -
  obtain st where st: "map_of m i = Some st" "ss_owner st = Some o'"
    using assms(1) unfolding owner_of_session_def by (cases "map_of m i") auto
  have "(i, st) \<in> set (filter (\<lambda>(_, st). case ss_owner st of None \<Rightarrow> False | Some owner \<Rightarrow> revoked owner) m)"
    using map_of_SomeD [OF st(1)] st(2) assms(2) by simp
  then show ?thesis unfolding doomed_sessions_def by force
qed

lemma owned_if_doomed:
  assumes "distinct (map fst m)" "i \<in> set (doomed_sessions revoked m)"
  shows "\<exists>o'. owner_of_session i m = Some o' \<and> revoked o'"
proof -
  obtain st where "(i, st) \<in> set m" "case ss_owner st of None \<Rightarrow> False | Some owner \<Rightarrow> revoked owner"
    using assms(2) unfolding doomed_sessions_def by auto
  moreover from this(1) have "map_of m i = Some st" using assms(1) by simp
  ultimately show ?thesis unfolding owner_of_session_def by (cases "ss_owner st") auto
qed

lemma sessions_distinct:
  assumes "distinct (map fst m)"
  shows "distinct (map fst (session_apply a m))"
proof (cases a)
  case (Bump now i)
  then show ?thesis using assms by (simp add: bump_def distinct_update split: option.split)
next
  case (Forget i)
  then show ?thesis using assms by (simp add: forget_def distinct_delete)
next
  case (Bind now i o')
  then show ?thesis using assms by (simp add: bind_owner_def Let_def distinct_update)
qed

section \<open>A session identifier is not a capability\<close>

text \<open>C20. A session serves only the principal that created it. When the middleware let a request of
  one principal through to the session it names, then after any interleaving of steps of the
  manager that does not close that session (requests of anyone, attempts to bind it again, the
  reaper at work on others), a request by a principal with another owner naming that session is
  answered as not found, reaches nothing, and changes nothing.\<close>

theorem session_not_a_capability:
  assumes "fst (enforce_session_owner now p (Some i) nxt m) = Answered r"
    and "Forget i \<notin> set as"
    and "requester = (case q of None \<Rightarrow> LocalOwner | Some q \<Rightarrow> owner_of q)"
    and "requester \<noteq> (case p of None \<Rightarrow> LocalOwner | Some p \<Rightarrow> owner_of p)"
  shows "enforce_session_owner now' q (Some i) nxt' (fold session_apply as m)
       = (SessionNotFound, fold session_apply as m)"
proof -
  let ?o = "case p of None \<Rightarrow> LocalOwner | Some p \<Rightarrow> owner_of p"
  have "owner_matches i ?o m"
    using assms(1) by (auto simp: enforce_session_owner_def Let_def split: if_splits)
  then have "owner_of_session i (fold session_apply as m) = Some ?o"
    using owner_kept assms(2) by (simp add: owner_matches_iff)
  then have "\<not> owner_matches i requester (fold session_apply as m)"
    using assms(4) unfolding owner_matches_iff by auto
  then show ?thesis using assms(3) by (simp add: enforce_session_owner_def Let_def)
qed

definition sample_sessions :: sessions where
  "sample_sessions =
     [(''s1'', \<lparr>ss_last_seen = 1, ss_owner = Some (PrincipalOwner ''acme'' ''bob'')\<rparr>),
      (''s2'', \<lparr>ss_last_seen = 2, ss_owner = Some LocalOwner\<rparr>)]"

definition sample_bob :: principal where
  "sample_bob = \<lparr>tenant = ''acme'', subject = ''bob'', groups = [], scopes = [], authority = Oidc ''https://idp''\<rparr>"

theorem session_not_a_capability_witness:
  "enforce_session_owner 5 None (Some ''s1'') (\<lambda>m. (((), None), m))
     (fold session_apply [Bump 3 ''s1'', Bind 4 ''s1'' LocalOwner] sample_sessions)
   = (SessionNotFound :: unit session_outcome,
      fold session_apply [Bump 3 ''s1'', Bind 4 ''s1'' LocalOwner] sample_sessions)"
  by (rule session_not_a_capability [of 2 "Some sample_bob" _ "\<lambda>m. (((), None), m)" _ "()"])
     (code_simp | simp)+

lemma doomed_iff_owned:
  assumes "distinct (map fst m)"
  shows "i \<in> set (doomed_sessions revoked m) \<longleftrightarrow> (\<exists>o'. owner_of_session i m = Some o' \<and> revoked o')"
  using doomed_if_owned owned_if_doomed [OF assms] by blast

lemma doomed_distinct: "distinct (map fst m) \<Longrightarrow> distinct (doomed_sessions revoked m)"
  by (simp add: doomed_sessions_def distinct_map_filter)

text \<open>C31. A revoked principal's sessions are closed by the change that revokes it. Whatever steps of
  others come between the removals of the hook and after them, a session that is then owned by a
  principal the new list names, or by any principal when the cut-off moved, was bound to it by one of
  those steps: by a request that was admitted before the change and created its session during the
  closing. The hook reports the number of sessions it found, and it closes nothing else: any other
  session keeps its owner unless one of the steps closes it.\<close>

theorem revoked_sessions_closed:
  fixes revoked :: "owner_key \<Rightarrow> bool"
  assumes "distinct (map fst m)" and "revocation_hook previous current between m = (closed, m')"
    and "\<And>o'. revoked o' \<longleftrightarrow>
      (\<exists>t s. o' = PrincipalOwner t s \<and> (rd_not_before previous \<noteq> rd_not_before current \<or> revokes_subject current s))"
  shows "(\<forall>i o'. owner_of_session i m' = Some o' \<and> revoked o' \<longrightarrow> (\<exists>now. Bind now i o' \<in> set (concat between)))
    \<and> closed = card {i. \<exists>o'. owner_of_session i m = Some o' \<and> revoked o'}
    \<and> (\<forall>i o'. owner_of_session i m = Some o' \<and> \<not> revoked o' \<and> Forget i \<notin> set (concat between) \<longrightarrow>
         owner_of_session i m' = Some o')"
proof -
  let ?doomed = "doomed_sessions revoked m"
  have closes: "revocation_closes previous current = revoked"
    using assms(3) by (auto simp: fun_eq_iff revocation_closes_def Let_def split: owner_key.split)
  have m': "m' = fold session_apply (closing_steps ?doomed between) m" and closed: "closed = length ?doomed"
    using assms(2) by (auto simp: revocation_hook_def close_where_def closes close_each_steps Let_def)
  note doomed = doomed_iff_owned [OF assms(1), of _ revoked]
  have "\<exists>now. Bind now i o' \<in> set (concat between)" if "owner_of_session i m' = Some o'" "revoked o'" for i o'
    using owner_origin [OF that(1) [unfolded m']] doomed [of i] that(2) by (auto simp: closing_steps_set)
  moreover have "closed = card {i. \<exists>o'. owner_of_session i m = Some o' \<and> revoked o'}"
  proof -
    have "{i. \<exists>o'. owner_of_session i m = Some o' \<and> revoked o'} = set ?doomed" using doomed by blast
    then show ?thesis using distinct_card [OF doomed_distinct [OF assms(1), of revoked]] closed by simp
  qed
  moreover have "owner_of_session i m' = Some o'"
    if "owner_of_session i m = Some o'" "\<not> revoked o'" "Forget i \<notin> set (concat between)" for i o'
    unfolding m' using that doomed [of i] by (intro owner_kept) (auto simp: closing_steps_set)
  ultimately show ?thesis by blast
qed

definition sample_revokes_bob :: revocation_document where
  "sample_revokes_bob = sample_revocations\<lparr>rd_subjects := {''bob''}\<rparr>"

theorem revoked_sessions_closed_witness:
  "owner_of_session ''s1'' sample_sessions = Some (PrincipalOwner ''acme'' ''bob'')
   \<and> owner_of_session ''s1'' (snd (revocation_hook sample_revocations sample_revokes_bob [[Bump 3 ''s1''], [Bump 4 ''s1'']]
        sample_sessions)) \<noteq> Some (PrincipalOwner ''acme'' ''bob'')
   \<and> owner_of_session ''s2'' (snd (revocation_hook sample_revocations sample_revokes_bob [[Bump 3 ''s1''], [Bump 4 ''s1'']]
        sample_sessions)) = Some LocalOwner"
proof -
  define revoked where "revoked o' \<longleftrightarrow> (\<exists>t s. o' = PrincipalOwner t s
    \<and> (rd_not_before sample_revocations \<noteq> rd_not_before sample_revokes_bob \<or> revokes_subject sample_revokes_bob s))" for o'
  define m' where "m' = snd (revocation_hook sample_revocations sample_revokes_bob [[Bump 3 ''s1''], [Bump 4 ''s1'']] sample_sessions)"
  have hook: "revocation_hook sample_revocations sample_revokes_bob [[Bump 3 ''s1''], [Bump 4 ''s1'']] sample_sessions
      = (fst (revocation_hook sample_revocations sample_revokes_bob [[Bump 3 ''s1''], [Bump 4 ''s1'']] sample_sessions), m')"
    by (simp only: m'_def prod.collapse)
  have owners: "owner_of_session ''s1'' sample_sessions = Some (PrincipalOwner ''acme'' ''bob'')"
    "owner_of_session ''s2'' sample_sessions = Some LocalOwner"
    by (simp_all add: sample_sessions_def owner_of_session_def)
  have revoked: "revoked (PrincipalOwner ''acme'' ''bob'')" "\<not> revoked LocalOwner"
    by (simp_all add: revoked_def sample_revokes_bob_def revokes_subject_def)
  have quiet: "\<nexists>now. Bind now ''s1'' (PrincipalOwner ''acme'' ''bob'') \<in> set (concat [[Bump 3 ''s1''], [Bump 4 ''s1'']])"
    "Forget ''s2'' \<notin> set (concat [[Bump 3 ''s1''], [Bump 4 ''s1'']])" by simp_all
  have "distinct (map fst sample_sessions)" by (simp add: sample_sessions_def)
  note result = revoked_sessions_closed [OF this hook revoked_def]
  have "owner_of_session ''s1'' m' \<noteq> Some (PrincipalOwner ''acme'' ''bob'')"
    using conjunct1 [OF result] revoked(1) quiet(1) by blast
  moreover have "owner_of_session ''s2'' m' = Some LocalOwner"
    using conjunct2 [OF conjunct2 [OF result]] owners(2) revoked(2) quiet(2) by blast
  ultimately show ?thesis using owners(1) unfolding m'_def by blast
qed

text \<open>A session bound after the hook chose is out of its reach: it is there when the hook is done, owned by
  the revoked principal, until the reaper or a later change finds it.\<close>

lemma late_session_survives:
  assumes "owner_of_session i m = None" "distinct (map fst m)"
  shows "owner_of_session i (snd (revocation_hook previous current
      (replicate (length (doomed_sessions (revocation_closes previous current) m)) [] @ [[Bind now i o']]) m)) = Some o'"
proof -
  let ?doomed = "doomed_sessions (revocation_closes previous current) m"
  have steps: "closing_steps ids (replicate (length ids) [] @ [[Bind now i o']]) = map Forget ids @ [Bind now i o']" for ids
    by (induction ids) simp_all
  have "owner_of_session i (fold session_apply (map Forget ids) m) = None" for ids
    using assms(1) by (induction ids arbitrary: m) (simp_all add: owner_of_forget)
  then show ?thesis
    by (simp add: revocation_hook_def close_where_def Let_def close_each_steps steps owner_of_bind)
qed

end
