(* ===== verification/Rate_Limit.thy ===== *)
theory Rate_Limit
  imports Prelude Complex_Main "HOL-Library.AList"
begin

text \<open>
  The per-principal rate limit, \<^verbatim>\<open>src/server/rate_limit.rs\<close>. The map of buckets is an
  association list with distinct keys. An \<^verbatim>\<open>f64\<close> is the real number it stands for, and
  every operation on it is the exact one followed by the rounding \<open>rnd\<close>, an argument of the
  definitions; \<open>rounding\<close> states what IEEE 754 promises of it. An \<^verbatim>\<open>Instant\<close> and a
  \<^verbatim>\<open>Duration\<close> are nanoseconds.
\<close>

section \<open>The code\<close>

definition MAX_TRACKED :: nat where
  "MAX_TRACKED = 10000"

definition second :: nat where
  "second = 1000000000"

definition IDLE_EVICTION :: nat where
  "IDLE_EVICTION = 60 * second"

definition SWEEP_MIN_GAP :: nat where
  "SWEEP_MIN_GAP = second"

record rate_limit_settings =
  per_second :: real
  burst :: real

text \<open>\<open>RateLimitSettings::from_config\<close>. Parsing a text as a double and quoting a text are
  arguments; a double that is not a finite number is \<open>NotFinite\<close>, and the product by two of a finite
  double is taken to be finite.\<close>

definition RATE_KEY :: string where
  "RATE_KEY = ''MCP_RATE_LIMIT_PER_PRINCIPAL''"

definition BURST_KEY :: string where
  "BURST_KEY = ''MCP_RATE_LIMIT_BURST''"

datatype double = Finite real | NotFinite

definition double_at_least :: "real \<Rightarrow> double option \<Rightarrow> real option" where
  "double_at_least bound v = (case v of Some (Finite x) \<Rightarrow> if bound \<le> x then Some x else None | _ \<Rightarrow> None)"

definition rate_limit_from_config ::
  "(real \<Rightarrow> real) \<Rightarrow> (string \<Rightarrow> double option) \<Rightarrow> (string \<Rightarrow> string) \<Rightarrow> config \<Rightarrow> string + rate_limit_settings option" where
  "rate_limit_from_config rnd parse_f64 debug config =
     (case config_nonempty config RATE_KEY of
        None \<Rightarrow> Inr None
      | Some rate \<Rightarrow>
          and_then (ok_or (RATE_KEY @ '' must be a non-negative number, got '' @ debug rate)
                     (double_at_least 0 (parse_f64 rate))) (\<lambda>per_second.
            if per_second = 0 then Inr None
            else and_then
              (case config_nonempty config BURST_KEY of
                 Some v \<Rightarrow> ok_or (BURST_KEY @ '' must be a number of at least 1, got '' @ debug v)
                             (double_at_least 1 (parse_f64 v))
               | None \<Rightarrow> Inr (max (rnd (per_second * 2)) 1))
              (\<lambda>burst. Inr (Some \<lparr>per_second = per_second, burst = burst\<rparr>))))"

record bucket =
  bk_tokens :: real
  bk_refilled :: nat

record buckets =
  bs_map :: "(string \<times> bucket) list"
  bs_last_sweep :: "nat option"

definition make_room :: "nat \<Rightarrow> buckets \<Rightarrow> bool \<times> buckets" where
  "make_room now bs =
     (if (case bs_last_sweep bs of None \<Rightarrow> False | Some t \<Rightarrow> now - t < SWEEP_MIN_GAP)
      then (False, bs)
      else (let bs' = bs\<lparr>bs_last_sweep := Some now,
                bs_map := filter (\<lambda>(_, b). now - bk_refilled b < IDLE_EVICTION) (bs_map bs)\<rparr>
            in (length (bs_map bs') < MAX_TRACKED, bs')))"

datatype verdict = AllowRequest | RefuseRequest (retry_after_secs: nat)

text \<open>\<open>Duration::as_secs_f64\<close> and \<open>Duration::try_from_secs_f64\<close>, which rounds to the
  nearest nanosecond, ties to even.\<close>

definition as_secs_f64 :: "(real \<Rightarrow> real) \<Rightarrow> nat \<Rightarrow> real" where
  "as_secs_f64 rnd d = rnd (rnd (real (d div second)) + rnd (real (d mod second) / real second))"

definition round_half_even :: "real \<Rightarrow> int" where
  "round_half_even x =
     (let f = \<lfloor>x\<rfloor>; d = x - of_int f in
      if d < 1 / 2 then f else if 1 / 2 < d then f + 1 else if even f then f else f + 1)"

definition try_from_secs_f64 :: "real \<Rightarrow> nat option" where
  "try_from_secs_f64 w =
     (if w < 0 then None
      else (let n = nat (round_half_even (w * real second)) in
            if n div second \<le> u64_max then Some n else None))"

definition retry_after :: "real \<Rightarrow> nat" where
  "retry_after wait_seconds =
     (case try_from_secs_f64 wait_seconds of
        None \<Rightarrow> u64_max
      | Some wait \<Rightarrow> max (saturating_add_u64 (wait div second) (if 0 < wait mod second then 1 else 0)) 1)"

text \<open>\<open>take\<close>, \<open>check_at\<close>: one token for a subject.\<close>

definition take_token :: "(real \<Rightarrow> real) \<Rightarrow> real \<Rightarrow> bucket \<Rightarrow> verdict \<times> bucket" where
  "take_token rnd rate b =
     (if 1 \<le> bk_tokens b then (AllowRequest, b\<lparr>bk_tokens := rnd (bk_tokens b - 1)\<rparr>)
      else (RefuseRequest (retry_after (rnd (rnd (1 - bk_tokens b) / rate))), b))"

record rate_limiter =
  rl_settings :: rate_limit_settings
  rl_buckets :: buckets
  rl_refused :: nat
  rl_saturated :: nat

definition rate_limiter_new :: "rate_limit_settings \<Rightarrow> rate_limiter" where
  "rate_limiter_new settings =
     \<lparr>rl_settings = settings, rl_buckets = \<lparr>bs_map = [], bs_last_sweep = None\<rparr>, rl_refused = 0, rl_saturated = 0\<rparr>"

definition refill :: "(real \<Rightarrow> real) \<Rightarrow> rate_limit_settings \<Rightarrow> nat \<Rightarrow> bucket \<Rightarrow> bucket" where
  "refill rnd settings now b =
     b\<lparr>bk_tokens := min (rnd (bk_tokens b + rnd (as_secs_f64 rnd (now - bk_refilled b) * per_second settings)))
                        (burst settings),
       bk_refilled := now\<rparr>"

definition check_buckets ::
  "(real \<Rightarrow> real) \<Rightarrow> rate_limit_settings \<Rightarrow> string \<Rightarrow> nat \<Rightarrow> buckets \<Rightarrow> (verdict \<times> bool) \<times> buckets" where
  "check_buckets rnd settings subject now bs =
     (case map_of (bs_map bs) subject of
        Some b \<Rightarrow>
          (case take_token rnd (per_second settings) (refill rnd settings now b) of
             (v, b') \<Rightarrow> ((v, False), bs\<lparr>bs_map := AList.update subject b' (bs_map bs)\<rparr>))
      | None \<Rightarrow>
          (case (if MAX_TRACKED \<le> length (bs_map bs) then make_room now bs else (True, bs)) of
             (False, bs') \<Rightarrow> ((RefuseRequest (max (SWEEP_MIN_GAP div second) 1), True), bs')
           | (True, bs') \<Rightarrow>
               (case take_token rnd (per_second settings) \<lparr>bk_tokens = burst settings, bk_refilled = now\<rparr> of
                  (v, b') \<Rightarrow> ((v, False), bs'\<lparr>bs_map := AList.update subject b' (bs_map bs')\<rparr>))))"

definition check_at :: "(real \<Rightarrow> real) \<Rightarrow> string \<Rightarrow> nat \<Rightarrow> rate_limiter \<Rightarrow> verdict \<times> rate_limiter" where
  "check_at rnd subject now rl =
     (case check_buckets rnd (rl_settings rl) subject now (rl_buckets rl) of ((v, saturated), bs) \<Rightarrow>
        (v, rl\<lparr>rl_buckets := bs,
              rl_refused := rl_refused rl + (if v = AllowRequest then 0 else 1),
              rl_saturated := rl_saturated rl + (if saturated then 1 else 0)\<rparr>))"

definition tracked :: "rate_limiter \<Rightarrow> nat" where
  "tracked rl = length (bs_map (rl_buckets rl))"

section \<open>Rounding\<close>

text \<open>Rounding to the nearest double: monotone, the identity on doubles, zero and one are doubles, and
  one can be taken from a double between one and \<open>2^53\<close> exactly.\<close>

definition rounding :: "(real \<Rightarrow> real) \<Rightarrow> bool" where
  "rounding rnd \<longleftrightarrow>
     mono rnd \<and> (\<forall>x. rnd (rnd x) = rnd x) \<and> rnd 0 = 0 \<and> rnd 1 = 1
     \<and> (\<forall>x. rnd x = x \<longrightarrow> 1 \<le> x \<longrightarrow> x \<le> 2 ^ 53 \<longrightarrow> rnd (x - 1) = x - 1)"

lemma rounding_id: "rounding (\<lambda>x. x)"
  by (simp add: rounding_def mono_def)

lemma rounding_nonneg:
  assumes "rounding rnd" "0 \<le> x"
  shows "0 \<le> rnd x"
proof -
  have "rnd 0 \<le> rnd x" using assms by (intro monoD [of rnd]) (simp_all add: rounding_def)
  then show ?thesis using assms(1) by (simp add: rounding_def)
qed

lemma as_secs_f64_nonneg:
  assumes "rounding rnd"
  shows "0 \<le> as_secs_f64 rnd d"
  unfolding as_secs_f64_def by (intro rounding_nonneg [OF assms] add_nonneg_nonneg) simp_all

section \<open>The invariant\<close>

definition settings_ok :: "(real \<Rightarrow> real) \<Rightarrow> rate_limit_settings \<Rightarrow> bool" where
  "settings_ok rnd s \<longleftrightarrow> 0 < per_second s \<and> 1 \<le> burst s \<and> rnd (burst s) = burst s"

definition bucket_ok :: "(real \<Rightarrow> real) \<Rightarrow> rate_limit_settings \<Rightarrow> bucket \<Rightarrow> bool" where
  "bucket_ok rnd s b \<longleftrightarrow> 0 \<le> bk_tokens b \<and> bk_tokens b \<le> burst s \<and> rnd (bk_tokens b) = bk_tokens b"

definition buckets_ok :: "(real \<Rightarrow> real) \<Rightarrow> rate_limit_settings \<Rightarrow> buckets \<Rightarrow> bool" where
  "buckets_ok rnd s bs \<longleftrightarrow>
     distinct (map fst (bs_map bs)) \<and> length (bs_map bs) \<le> MAX_TRACKED
     \<and> (\<forall>(k, b) \<in> set (bs_map bs). bucket_ok rnd s b)"

lemma refill_ok:
  assumes "rounding rnd" "settings_ok rnd s" "bucket_ok rnd s b"
  shows "bucket_ok rnd s (refill rnd s now b)"
proof -
  define earned where "earned = rnd (as_secs_f64 rnd (now - bk_refilled b) * per_second s)"
  have "0 \<le> as_secs_f64 rnd (now - bk_refilled b) * per_second s"
    using as_secs_f64_nonneg [OF assms(1)] assms(2) by (simp add: settings_ok_def)
  from rounding_nonneg [OF assms(1) this] have "0 \<le> earned" by (simp add: earned_def)
  then have "0 \<le> bk_tokens b + earned" using assms(3) by (simp add: bucket_ok_def)
  from rounding_nonneg [OF assms(1) this] have "0 \<le> rnd (bk_tokens b + earned)" .
  moreover have "rnd (rnd (bk_tokens b + earned)) = rnd (bk_tokens b + earned)"
    using assms(1) by (simp add: rounding_def)
  ultimately show ?thesis
    using assms(2) unfolding bucket_ok_def refill_def settings_ok_def earned_def [symmetric]
    by (simp add: min_def)
qed

lemma rounding_minus_one:
  assumes "rounding rnd"
  shows "rnd (x - 1) \<le> rnd x"
proof -
  have "mono rnd" using assms by (simp add: rounding_def)
  then show ?thesis by (rule monoD) simp
qed

lemma take_token_ok:
  assumes "rounding rnd" "bucket_ok rnd s b"
  shows "bucket_ok rnd s (snd (take_token rnd rate b))"
proof (cases "1 \<le> bk_tokens b")
  case True
  have "rnd (bk_tokens b - 1) \<le> bk_tokens b"
    using rounding_minus_one [OF assms(1), of "bk_tokens b"] assms(2) by (simp add: bucket_ok_def)
  moreover have "0 \<le> rnd (bk_tokens b - 1)" using True by (intro rounding_nonneg [OF assms(1)]) simp
  moreover have "rnd (rnd (bk_tokens b - 1)) = rnd (bk_tokens b - 1)" using assms(1) by (simp add: rounding_def)
  ultimately show ?thesis using True assms(2) by (simp add: take_token_def bucket_ok_def)
qed (use assms in \<open>simp add: take_token_def\<close>)

lemma length_alist_update:
  "length (AList.update k v al) = (if k \<in> fst ` set al then length al else Suc (length al))"
  by (induction al) auto

lemma set_alist_update: "set (AList.update k v al) \<subseteq> insert (k, v) (set al)"
  by (induction al) auto

lemma buckets_ok_update:
  assumes "buckets_ok rnd s bs" "bucket_ok rnd s b"
    and "k \<in> fst ` set (bs_map bs) \<or> length (bs_map bs) < MAX_TRACKED"
  shows "buckets_ok rnd s (bs\<lparr>bs_map := AList.update k b (bs_map bs)\<rparr>)"
proof -
  have "\<forall>(k', b') \<in> set (AList.update k b (bs_map bs)). bucket_ok rnd s b'"
    using assms(1,2) set_alist_update [of k b "bs_map bs"] by (auto simp: buckets_ok_def)
  with assms(1,3) show ?thesis by (auto simp: buckets_ok_def distinct_update length_alist_update)
qed

lemma make_room_ok:
  assumes "buckets_ok rnd s bs" "make_room now bs = (room, bs')"
  shows "buckets_ok rnd s bs' \<and> set (bs_map bs') \<subseteq> set (bs_map bs) \<and> (room \<longrightarrow> length (bs_map bs') < MAX_TRACKED)
    \<and> (\<forall>(k, b) \<in> set (bs_map bs) - set (bs_map bs'). IDLE_EVICTION \<le> now - bk_refilled b)"
proof -
  have "distinct (map fst (filter P (bs_map bs)))" for P
    using assms(1) by (auto simp: buckets_ok_def distinct_map intro: inj_on_subset)
  moreover have "length (filter P (bs_map bs)) \<le> MAX_TRACKED" for P
    by (rule le_trans [OF length_filter_le]) (use assms(1) in \<open>simp add: buckets_ok_def\<close>)
  ultimately show ?thesis
    using assms by (auto simp: make_room_def Let_def buckets_ok_def split: if_splits)
qed

lemma check_buckets_cases:
  assumes "rounding rnd" "settings_ok rnd s" "buckets_ok rnd s bs"
    and "check_buckets rnd s subject now bs = ((v, sat), bs')"
  obtains (known) b where "map_of (bs_map bs) subject = Some b" "sat = False"
      "v = fst (take_token rnd (per_second s) (refill rnd s now b))"
      "bs' = bs\<lparr>bs_map := AList.update subject
         (snd (take_token rnd (per_second s) (refill rnd s now b))) (bs_map bs)\<rparr>"
  | (saturated) "map_of (bs_map bs) subject = None" "MAX_TRACKED \<le> length (bs_map bs)" "sat" "v = RefuseRequest 1"
      "make_room now bs = (False, bs')"
  | (fresh) bs1 where "map_of (bs_map bs) subject = None" "sat = False" "bs1 = bs \<or> make_room now bs = (True, bs1)"
      "length (bs_map bs1) < MAX_TRACKED" "buckets_ok rnd s bs1"
      "v = fst (take_token rnd (per_second s) \<lparr>bk_tokens = burst s, bk_refilled = now\<rparr>)"
      "bs' = bs1\<lparr>bs_map := AList.update subject
         (snd (take_token rnd (per_second s) \<lparr>bk_tokens = burst s, bk_refilled = now\<rparr>)) (bs_map bs1)\<rparr>"
proof (cases "map_of (bs_map bs) subject")
  case (Some b)
  with assms(4) known show thesis by (auto simp: check_buckets_def split: prod.splits)
next
  case None
  obtain room bs1 where r: "(if MAX_TRACKED \<le> length (bs_map bs) then make_room now bs else (True, bs)) = (room, bs1)"
    by force
  show thesis
  proof (cases room)
    case False
    then have "MAX_TRACKED \<le> length (bs_map bs)" "make_room now bs = (False, bs1)"
      using r by (auto split: if_splits)
    with assms(4) None saturated show thesis by (auto simp: check_buckets_def SWEEP_MIN_GAP_def second_def)
  next
    case True
    then have "bs1 = bs \<and> length (bs_map bs) < MAX_TRACKED \<or> make_room now bs = (True, bs1)"
      using r by (auto split: if_splits)
    then have "length (bs_map bs1) < MAX_TRACKED" "buckets_ok rnd s bs1" "bs1 = bs \<or> make_room now bs = (True, bs1)"
      using make_room_ok [OF assms(3), of now True bs1] assms(3) by auto
    moreover have "sat = False"
      "v = fst (take_token rnd (per_second s) \<lparr>bk_tokens = burst s, bk_refilled = now\<rparr>)"
      "bs' = bs1\<lparr>bs_map := AList.update subject
         (snd (take_token rnd (per_second s) \<lparr>bk_tokens = burst s, bk_refilled = now\<rparr>)) (bs_map bs1)\<rparr>"
      using assms(4) None r True by (auto simp: check_buckets_def split: prod.splits)
    ultimately show thesis using fresh None by blast
  qed
qed

lemma full_bucket_ok: "rounding rnd \<Longrightarrow> settings_ok rnd s \<Longrightarrow> bucket_ok rnd s \<lparr>bk_tokens = burst s, bk_refilled = now\<rparr>"
  by (simp add: bucket_ok_def settings_ok_def)

lemma check_buckets_ok:
  assumes "rounding rnd" "settings_ok rnd s" "buckets_ok rnd s bs"
    and "check_buckets rnd s subject now bs = ((v, sat), bs')"
  shows "buckets_ok rnd s bs'"
  using assms
proof (cases rule: check_buckets_cases)
  case (known b)
  have "bucket_ok rnd s b" using known(1) assms(3) by (auto simp: buckets_ok_def dest: map_of_SomeD)
  then have "bucket_ok rnd s (snd (take_token rnd (per_second s) (refill rnd s now b)))"
    by (intro take_token_ok refill_ok assms(1,2))
  moreover have "subject \<in> fst ` set (bs_map bs)" using map_of_SomeD [OF known(1)] by force
  ultimately show ?thesis using assms(3) known(4) by (simp add: buckets_ok_update)
next
  case saturated
  with make_room_ok [OF assms(3)] show ?thesis by blast
next
  case (fresh bs1)
  then show ?thesis
    using buckets_ok_update [OF fresh(5) take_token_ok [OF assms(1) full_bucket_ok [OF assms(1,2)]]] by simp
qed

section \<open>Histories\<close>

text \<open>The verdicts of a run of requests, each with its subject and instant.\<close>

fun check_run ::
  "(real \<Rightarrow> real) \<Rightarrow> rate_limit_settings \<Rightarrow> (string \<times> nat) list \<Rightarrow> buckets \<Rightarrow> verdict list \<times> buckets" where
  "check_run rnd s [] bs = ([], bs)"
| "check_run rnd s ((subject, now) # rest) bs =
     (case check_buckets rnd s subject now bs of ((v, _), bs') \<Rightarrow>
        (case check_run rnd s rest bs' of (vs, bs'') \<Rightarrow> (v # vs, bs'')))"

lemma check_run_ok:
  assumes "rounding rnd" "settings_ok rnd s"
  shows "buckets_ok rnd s bs \<Longrightarrow> buckets_ok rnd s (snd (check_run rnd s reqs bs))"
proof (induction reqs arbitrary: bs)
  case (Cons r reqs)
  obtain subject now where r: "r = (subject, now)" by force
  obtain v sat bs' where c: "check_buckets rnd s subject now bs = ((v, sat), bs')" by (metis prod.exhaust)
  from Cons.IH [OF check_buckets_ok [OF assms Cons.prems c]] show ?case
    by (cases "check_run rnd s reqs bs'") (simp add: r c)
qed simp

lemma no_buckets_ok: "buckets_ok rnd s \<lparr>bs_map = [], bs_last_sweep = None\<rparr>"
  by (simp add: buckets_ok_def MAX_TRACKED_def)

section \<open>Properties\<close>

text \<open>The limiter stays within its bounds whatever is asked of it: from an empty map, after any
  sequence of requests of any subjects at any instants, at most 10,000 subjects are tracked, once
  each, and every bucket holds between zero and burst tokens.\<close>

theorem limiter_bounded:
  assumes "rounding rnd" "settings_ok rnd s"
  shows "let m = bs_map (snd (check_run rnd s reqs \<lparr>bs_map = [], bs_last_sweep = None\<rparr>)) in
    length m \<le> MAX_TRACKED \<and> distinct (map fst m)
    \<and> list_all (\<lambda>(k, b). 0 \<le> bk_tokens b \<and> bk_tokens b \<le> burst s) m"
  using check_run_ok [OF assms no_buckets_ok]
  by (fastforce simp: buckets_ok_def bucket_ok_def Let_def list_all_iff)

text \<open>One principal cannot spend another's budget: a request of one subject leaves the bucket of
  every other subject exactly as it was, unless that bucket had been idle for a minute, in which
  case it may be forgotten and the other starts again with a full one.\<close>

theorem subjects_isolated:
  assumes "rounding rnd" "settings_ok rnd s" "buckets_ok rnd s bs" "other \<noteq> subject"
  shows "let m = map_of (bs_map bs) other;
             m' = map_of (bs_map (snd (check_buckets rnd s subject now bs))) other
    in m' = m \<or> m' = None \<and> (\<exists>b. m = Some b \<and> IDLE_EVICTION \<le> now - bk_refilled b)"
proof -
  obtain v sat bs' where c: "check_buckets rnd s subject now bs = ((v, sat), bs')" by (metis prod.exhaust)
  have swept: "map_of (bs_map bs1) other = map_of (bs_map bs) other
      \<or> map_of (bs_map bs1) other = None
        \<and> (\<exists>b. map_of (bs_map bs) other = Some b \<and> IDLE_EVICTION \<le> now - bk_refilled b)"
    if "make_room now bs = (room, bs1)" for room bs1
  proof -
    note r = make_room_ok [OF assms(3) that]
    have d: "distinct (map fst (bs_map bs))" "distinct (map fst (bs_map bs1))"
      using assms(3) r by (auto simp: buckets_ok_def)
    show ?thesis
    proof (cases "map_of (bs_map bs) other")
      case None
      then have "map_of (bs_map bs1) other = None" using r by (auto simp: map_of_eq_None_iff)
      with None show ?thesis by simp
    next
      case (Some b)
      then have b: "(other, b) \<in> set (bs_map bs)" by (rule map_of_SomeD)
      show ?thesis
      proof (cases "(other, b) \<in> set (bs_map bs1)")
        case True
        with d(2) Some show ?thesis by simp
      next
        case False
        then have "other \<notin> fst ` set (bs_map bs1)"
          using b d(1) r by (auto dest: eq_key_imp_eq_value)
        then have "map_of (bs_map bs1) other = None" by (simp add: map_of_eq_None_iff)
        moreover have "IDLE_EVICTION \<le> now - bk_refilled b" using False b r by auto
        ultimately show ?thesis using Some by simp
      qed
    qed
  qed
  from assms(1-3) c show ?thesis
  proof (cases rule: check_buckets_cases)
    case (known b)
    with c assms(4) show ?thesis by (simp add: update_conv')
  next
    case saturated
    with swept c show ?thesis by (auto simp: Let_def)
  next
    case (fresh bs1)
    then have "map_of (bs_map bs') other = map_of (bs_map bs1) other" using assms(4) by (simp add: update_conv')
    with fresh(3) swept c show ?thesis by (auto simp: Let_def)
  qed
qed

lemma refill_now:
  assumes "rounding rnd" "bucket_ok rnd s b" "bk_refilled b = now"
  shows "refill rnd s now b = b"
proof -
  have "as_secs_f64 rnd 0 = 0" using assms(1) by (simp add: as_secs_f64_def rounding_def)
  then have "rnd (bk_tokens b + rnd (as_secs_f64 rnd (now - bk_refilled b) * per_second s)) = bk_tokens b"
    using assms by (simp add: rounding_def bucket_ok_def)
  with assms(2,3) show ?thesis unfolding refill_def by (cases b) (simp add: bucket_ok_def min_def)
qed

text \<open>What a request leaves in the bucket for the same instant.\<close>

lemma take_token_count:
  assumes "rounding rnd" "settings_ok rnd s" "burst s \<le> 2 ^ 53" "bucket_ok rnd s b" "bk_refilled b = now"
    and "take_token rnd rate b = (v, b')"
  shows "(if v = AllowRequest then 1 else 0) + nat \<lfloor>bk_tokens (refill rnd s now b')\<rfloor> \<le> nat \<lfloor>bk_tokens b\<rfloor>"
proof (cases "1 \<le> bk_tokens b")
  case True
  have "rnd (bk_tokens b - 1) = bk_tokens b - 1"
    using assms(1,3,4) True by (simp add: rounding_def bucket_ok_def)
  then have b': "v = AllowRequest" "b' = b\<lparr>bk_tokens := bk_tokens b - 1\<rparr>"
    using assms(6) True by (auto simp: take_token_def)
  have ok: "bucket_ok rnd s b'" using take_token_ok [OF assms(1,4), of rate] assms(6) by simp
  have "refill rnd s now b' = b'" using b'(2) assms(5) by (intro refill_now [OF assms(1) ok]) simp
  moreover have "\<lfloor>bk_tokens b - 1\<rfloor> = \<lfloor>bk_tokens b\<rfloor> - 1" by (simp add: floor_diff_one)
  moreover have "1 + nat (\<lfloor>bk_tokens b\<rfloor> - 1) \<le> nat \<lfloor>bk_tokens b\<rfloor>"
    using le_floor_iff [of 1 "bk_tokens b"] True by linarith
  ultimately show ?thesis using b' by simp
next
  case False
  then have b': "v \<noteq> AllowRequest" "b' = b" using assms(6) by (auto simp: take_token_def)
  then show ?thesis using refill_now [OF assms(1,4,5)] by simp
qed

abbreviation allowed_count ::
  "(real \<Rightarrow> real) \<Rightarrow> rate_limit_settings \<Rightarrow> nat \<Rightarrow> string \<Rightarrow> nat \<Rightarrow> buckets \<Rightarrow> nat" where
  "allowed_count rnd s n subject now bs \<equiv>
     length (filter (\<lambda>v. v = AllowRequest) (fst (check_run rnd s (replicate n (subject, now)) bs)))"

lemma allowed_count_Suc:
  assumes "check_buckets rnd s subject now bs = ((v, sat), bs')"
  shows "allowed_count rnd s (Suc n) subject now bs
    = (if v = AllowRequest then 1 else 0) + allowed_count rnd s n subject now bs'"
  using assms by (simp split: prod.split)

lemma allowed_count_known:
  assumes "rounding rnd" "settings_ok rnd s" "burst s \<le> 2 ^ 53"
  shows "buckets_ok rnd s bs \<Longrightarrow> map_of (bs_map bs) subject = Some b \<Longrightarrow>
    allowed_count rnd s n subject now bs \<le> nat \<lfloor>bk_tokens (refill rnd s now b)\<rfloor>"
proof (induction n arbitrary: bs b)
  case (Suc n)
  obtain v b' where t: "take_token rnd (per_second s) (refill rnd s now b) = (v, b')" by force
  have c: "check_buckets rnd s subject now bs = ((v, False), bs\<lparr>bs_map := AList.update subject b' (bs_map bs)\<rparr>)"
    using Suc.prems(2) t by (simp add: check_buckets_def)
  have "bucket_ok rnd s b" using Suc.prems by (auto simp: buckets_ok_def dest: map_of_SomeD)
  then have ok: "bucket_ok rnd s (refill rnd s now b)" by (rule refill_ok [OF assms(1,2)])
  have "allowed_count rnd s n subject now (bs\<lparr>bs_map := AList.update subject b' (bs_map bs)\<rparr>)
      \<le> nat \<lfloor>bk_tokens (refill rnd s now b')\<rfloor>"
    by (rule Suc.IH [OF check_buckets_ok [OF assms(1,2) Suc.prems(1) c]]) (simp add: update_conv')
  with take_token_count [OF assms ok _ t] allowed_count_Suc [OF c] show ?case
    by (simp add: refill_def)
qed simp

lemma allowed_count_unknown:
  assumes "rounding rnd" "settings_ok rnd s" "burst s \<le> 2 ^ 53"
  shows "buckets_ok rnd s bs \<Longrightarrow> map_of (bs_map bs) subject = None \<Longrightarrow>
    allowed_count rnd s n subject now bs \<le> nat \<lfloor>burst s\<rfloor>"
proof (induction n arbitrary: bs)
  case (Suc n)
  obtain v sat bs' where c: "check_buckets rnd s subject now bs = ((v, sat), bs')" by (metis prod.exhaust)
  note ok = check_buckets_ok [OF assms(1,2) Suc.prems(1) c]
  from assms(1,2) Suc.prems(1) c show ?case
  proof (cases rule: check_buckets_cases)
    case (known b)
    with Suc.prems(2) show ?thesis by simp
  next
    case saturated
    then have "map_of (bs_map bs') subject = None"
      using make_room_ok [OF Suc.prems(1) saturated(5)] Suc.prems(2) by (auto simp: map_of_eq_None_iff)
    with Suc.IH [OF ok] saturated(4) allowed_count_Suc [OF c] show ?thesis by simp
  next
    case (fresh bs1)
    obtain v1 b' where t: "take_token rnd (per_second s) \<lparr>bk_tokens = burst s, bk_refilled = now\<rparr> = (v1, b')" by force
    have "map_of (bs_map bs') subject = Some b'" "v = v1" using fresh(6,7) t by (simp_all add: update_conv')
    with allowed_count_known [OF assms ok, of subject b' n now] allowed_count_Suc [OF c]
      take_token_count [OF assms full_bucket_ok [OF assms(1,2)] _ t]
    show ?thesis by simp
  qed
qed simp

text \<open>C39. A burst is bounded: among any number of requests one subject makes at one instant, at most
  \<open>burst\<close> (rounded down) are let through, whatever was in its bucket before.\<close>

theorem burst_bounded:
  assumes "rounding rnd" "settings_ok rnd s" "burst s \<le> 2 ^ 53" "buckets_ok rnd s bs"
  shows "length (filter (\<lambda>v. v = AllowRequest) (fst (check_run rnd s (replicate n (subject, now)) bs)))
    \<le> nat \<lfloor>burst s\<rfloor>"
proof (cases "map_of (bs_map bs) subject")
  case None
  with allowed_count_unknown [OF assms(1-4)] show ?thesis by simp
next
  case (Some b)
  have "bk_tokens (refill rnd s now b) \<le> burst s" by (simp add: refill_def)
  then have "nat \<lfloor>bk_tokens (refill rnd s now b)\<rfloor> \<le> nat \<lfloor>burst s\<rfloor>" by (intro nat_mono floor_mono)
  with allowed_count_known [OF assms(1-4) Some, of n now] show ?thesis by simp
qed

definition sample_settings :: rate_limit_settings where
  "sample_settings = \<lparr>per_second = 5, burst = 10\<rparr>"

lemma sample_settings_ok: "settings_ok (\<lambda>x. x) sample_settings"
  by (simp add: settings_ok_def sample_settings_def)

theorem limiter_bounded_witness:
  "length (bs_map (snd (check_run (\<lambda>x. x) sample_settings [(''alice'', 0), (''bob'', 1)]
     \<lparr>bs_map = [], bs_last_sweep = None\<rparr>))) \<le> MAX_TRACKED"
  using limiter_bounded [OF rounding_id sample_settings_ok, of "[(''alice'', 0), (''bob'', 1)]"]
  by (simp add: Let_def)

theorem subjects_isolated_witness:
  "let bs = snd (check_run (\<lambda>x. x) sample_settings [(''alice'', 0)] \<lparr>bs_map = [], bs_last_sweep = None\<rparr>) in
   map_of (bs_map (snd (check_buckets (\<lambda>x. x) sample_settings ''bob'' 7 bs))) ''alice'' = map_of (bs_map bs) ''alice''"
proof -
  let ?bs = "snd (check_run (\<lambda>x. x) sample_settings [(''alice'', 0)] \<lparr>bs_map = [], bs_last_sweep = None\<rparr>)"
  have "map_of (bs_map ?bs) ''alice'' = Some \<lparr>bk_tokens = 9, bk_refilled = 0\<rparr>"
    by (simp add: check_buckets_def MAX_TRACKED_def take_token_def sample_settings_def)
  with subjects_isolated [OF rounding_id sample_settings_ok check_run_ok [OF rounding_id sample_settings_ok no_buckets_ok],
      of "''alice''" "''bob''" "[(''alice'', 0)]" 7]
  show ?thesis by (simp add: Let_def IDLE_EVICTION_def second_def)
qed

theorem burst_bounded_witness:
  "length (filter (\<lambda>v. v = AllowRequest) (fst (check_run (\<lambda>x. x) sample_settings (replicate 100 (''alice'', 5))
     \<lparr>bs_map = [], bs_last_sweep = None\<rparr>))) \<le> nat \<lfloor>burst sample_settings\<rfloor>"
  by (rule burst_bounded [OF rounding_id sample_settings_ok _ no_buckets_ok]) (simp add: sample_settings_def)

text \<open>Configured limits are well formed: when the configuration is accepted and turns the limiter
  on, the rate is positive and the burst is a double of at least one, so that an idle subject's
  first request is granted; and a new limiter with these limits satisfies the invariant.\<close>

theorem configured_limits_ok:
  assumes "rounding rnd" "\<And>v x. parse_f64 v = Some (Finite x) \<Longrightarrow> rnd x = x"
    and "rate_limit_from_config rnd parse_f64 debug config = Inr (Some s)"
  shows "settings_ok rnd s \<and> buckets_ok rnd s (rl_buckets (rate_limiter_new s))
    \<and> fst (check_at rnd who now (rate_limiter_new s)) = AllowRequest"
proof -
  have parsed: "bound \<le> x \<and> rnd x = x" if "double_at_least bound (parse_f64 v) = Some x" for bound v x
    using that assms(2) by (auto simp: double_at_least_def split: option.splits double.splits if_splits)
  have rounded: "rnd (max (rnd x) 1) = max (rnd x) 1" for x
    using assms(1) by (auto simp: rounding_def max_def)
  have ok: "settings_ok rnd s"
    using assms(3) parsed rounded unfolding rate_limit_from_config_def settings_ok_def
    by (auto simp: result_simps ok_or_def split: option.splits if_splits) fastforce+
  then show ?thesis
    using no_buckets_ok by (simp add: rate_limiter_new_def check_at_def check_buckets_def settings_ok_def take_token_def MAX_TRACKED_def)
qed

theorem configured_limits_ok_witness:
  "settings_ok (\<lambda>x. x) \<lparr>per_second = 2, burst = 4\<rparr>
   \<and> fst (check_at (\<lambda>x. x) ''bob'' 0 (rate_limiter_new \<lparr>per_second = 2, burst = 4\<rparr>)) = AllowRequest"
proof -
  have "trim ''2'' = ''2''" by code_simp
  then have "rate_limit_from_config (\<lambda>x. x) (\<lambda>_. Some (Finite 2)) (\<lambda>s. s) [RATE_KEY \<mapsto> ''2'']
      = Inr (Some \<lparr>per_second = 2, burst = 4\<rparr>)"
    by (simp add: rate_limit_from_config_def config_nonempty_def double_at_least_def ok_or_def RATE_KEY_def BURST_KEY_def)
  from configured_limits_ok [OF rounding_id _ this, of "''bob''" 0] show ?thesis by simp
qed

end
