(* ===== verification/Inbound_Auth.thy ===== *)
theory Inbound_Auth
  imports Revocation Rate_Limit Json
begin

text \<open>
  Inbound bearer authentication, \<^verbatim>\<open>src/server/auth.rs\<close>: the settings, the administrative
  admission policy with the approvals key it is checked against (\<^verbatim>\<open>src/bootstrap/approvals.rs\<close>),
  the bounded inventory of observed principals, and the middleware \<open>require_bearer\<close>. The token
  validator is a port, so the result of \<open>authenticate\<close> for a token is an argument, as are the
  URL parser, the check \<^verbatim>\<open>HeaderValue::from_str\<close> makes of a header, the clock readings and
  how the bounded append of the audit sink ended. A JSON body is its value.
\<close>

section \<open>Configuration\<close>

definition APPROVALS_KEY :: string where
  "APPROVALS_KEY = ''MCP_ADMIN_APPROVALS''"

definition approvals_required :: "config \<Rightarrow> bool" where
  "approvals_required config =
     (case map_option trim (config APPROVALS_KEY) of
        None \<Rightarrow> False
      | Some v \<Rightarrow> eq_ignore_ascii_case v ''required'')"

datatype selected_gate = DirectGate

definition gate_from_config :: "(string \<Rightarrow> string) \<Rightarrow> config \<Rightarrow> string + selected_gate" where
  "gate_from_config debug config =
     (case map_option to_ascii_lowercase (config_nonempty config APPROVALS_KEY) of
        None \<Rightarrow> Inr DirectGate
      | Some v \<Rightarrow>
          if v = ''off'' then Inr DirectGate
          else if v = ''required''
          then Inl (APPROVALS_KEY @ ''=required requires the Enterprise approval adapter'')
          else Inl (APPROVALS_KEY @ '': unknown value '' @ debug v @ '' (expected `off` or `required`)''))"

definition ADMIN_PRINCIPALS_KEY :: string where
  "ADMIN_PRINCIPALS_KEY = ''MCP_ADMIN_PRINCIPALS''"

datatype admin_principals = HumanOnly | HumanOrUnknown | AnyPrincipal

definition section_sign :: string where
  "section_sign = [CHR 0xC2, CHR 0xA7]"

definition admin_principals_from_config :: "(string \<Rightarrow> string) \<Rightarrow> config \<Rightarrow> string + admin_principals" where
  "admin_principals_from_config debug config =
     and_then
       (case map_option to_ascii_lowercase (config_nonempty config ADMIN_PRINCIPALS_KEY) of
          None \<Rightarrow> Inr HumanOrUnknown
        | Some v \<Rightarrow>
            if v = ''human-or-unknown'' then Inr HumanOrUnknown
            else if v = ''human'' then Inr HumanOnly
            else if v = ''any'' then Inr AnyPrincipal
            else Inl (ADMIN_PRINCIPALS_KEY @ '' is '' @ debug v @ ''; expected human, human-or-unknown, or any''))
       (\<lambda>policy.
          if policy = AnyPrincipal \<and> approvals_required config
          then Inl (ADMIN_PRINCIPALS_KEY @ ''=any with '' @ APPROVALS_KEY @
            ''=required would let two service accounts                  propose and approve a policy with nobody in the loop: the self-approval rule                  compares subjects, not kinds (plan '' @ section_sign @
            ''3.10.3). Keep machines out of /admin/*,                  or turn approvals off and accept single-person machine administration'')
          else Inr policy)"

fun admin_principals_name :: "admin_principals \<Rightarrow> string" where
  "admin_principals_name HumanOnly = ''human''"
| "admin_principals_name HumanOrUnknown = ''human-or-unknown''"
| "admin_principals_name AnyPrincipal = ''any''"

fun admits :: "admin_principals \<Rightarrow> subject_kind \<Rightarrow> bool" where
  "admits AnyPrincipal _ = True"
| "admits HumanOrUnknown kind = (kind \<noteq> Machine)"
| "admits HumanOnly kind = (kind = Human)"

text \<open>A parsed URL, as far as the settings look at it. \<open>is_loopback\<close> is 127.0.0.0/8 and ::1.\<close>

datatype url_host = HostDomain string | HostIpv4 nat nat nat nat | HostIpv6 nat

record parsed_url =
  url_scheme :: string
  url_host :: "url_host option"

definition url_loopback :: "parsed_url \<Rightarrow> bool" where
  "url_loopback u =
     (case url_host u of
        Some (HostIpv4 a _ _ _) \<Rightarrow> a = 127
      | Some (HostIpv6 n) \<Rightarrow> n = 1
      | Some (HostDomain d) \<Rightarrow> eq_ignore_ascii_case d ''localhost''
      | None \<Rightarrow> False)"

definition PUBLIC_URL_KEY :: string where
  "PUBLIC_URL_KEY = ''MCP_PUBLIC_URL''"

definition REQUIRED_SCOPE_KEY :: string where
  "REQUIRED_SCOPE_KEY = ''MCP_REQUIRED_SCOPE''"

definition DEFAULT_REQUIRED_SCOPE :: string where
  "DEFAULT_REQUIRED_SCOPE = ''mcp:tools''"

record inbound_auth_settings =
  public_url :: string
  authorization_servers :: "string list"
  required_scope :: string

definition settings_from_config ::
  "(string \<Rightarrow> string + parsed_url) \<Rightarrow> config \<Rightarrow> string \<Rightarrow> string list \<Rightarrow> string + inbound_auth_settings" where
  "settings_from_config parse_url config auth_mode servers =
     and_then
       (ok_or (PUBLIC_URL_KEY @ '' is required when MCP_AUTH_MODE='' @ auth_mode @
          '': it is the RFC 9728 resource identifier clients are told to obtain a token for'')
          (map_option (trim_end_matches CHR ''/'') (config_nonempty config PUBLIC_URL_KEY)))
       (\<lambda>url.
          and_then (map_err (\<lambda>error. PUBLIC_URL_KEY @ '' is not a URL: '' @ error) (parse_url url)) (\<lambda>parsed.
            if \<not> (url_scheme parsed = ''https'' \<or> (url_scheme parsed = ''http'' \<and> url_loopback parsed))
            then Inl (PUBLIC_URL_KEY @ '' must be an https URL (or http on loopback)'')
            else Inr \<lparr>public_url = url, authorization_servers = servers,
                      required_scope = (case config_nonempty config REQUIRED_SCOPE_KEY of
                                          None \<Rightarrow> DEFAULT_REQUIRED_SCOPE | Some v \<Rightarrow> v)\<rparr>))"

definition PROTECTED_RESOURCE_METADATA_PATH :: string where
  "PROTECTED_RESOURCE_METADATA_PATH = ''/.well-known/oauth-protected-resource''"

definition metadata_url :: "inbound_auth_settings \<Rightarrow> string" where
  "metadata_url s = public_url s @ PROTECTED_RESOURCE_METADATA_PATH"

section \<open>Observed principals\<close>

text \<open>The tenants, each with its subjects: two nested ordered maps, as association lists whose
  order does not matter. \<open>pop_first\<close> removes the entry of the least key.\<close>

type_synonym observed = "(string \<times> (string \<times> principal) list) list"

definition pop_first :: "(string \<times> 'v) list \<Rightarrow> (string \<times> 'v) list" where
  "pop_first m = (if m = [] then [] else AList.delete (Min (set (map fst m))) m)"

definition observed_count :: "observed \<Rightarrow> nat" where
  "observed_count m = sum_list (map (\<lambda>(_, subjects). length subjects) m)"

definition observed_principal :: "observed \<Rightarrow> string \<Rightarrow> string \<Rightarrow> principal option" where
  "observed_principal m t s = Option.bind (map_of m t) (\<lambda>subjects. map_of subjects s)"

definition MAX_OBSERVED :: nat where
  "MAX_OBSERVED = 10000"

definition observe :: "principal \<Rightarrow> observed \<Rightarrow> observed" where
  "observe p m =
     (if observed_principal m (tenant p) (subject p) \<noteq> Some p
      then (let m' = (if MAX_OBSERVED \<le> observed_count m then pop_first m else m);
                subjects = (case map_of m' (tenant p) of None \<Rightarrow> [] | Some v \<Rightarrow> v)
            in AList.update (tenant p) (AList.update (subject p) p subjects) m')
      else m)"

section \<open>The boundary\<close>

record inbound_auth =
  ia_settings :: inbound_auth_settings
  ia_revocations :: "revocation_document option"
  ia_audit :: bool
  ia_admin_principals :: admin_principals
  ia_admin_boundary :: bool

record 's auth_state =
  as_observed :: observed
  as_rate_limit :: "rate_limiter option"
  as_sink :: 's

definition inbound_auth_new :: "inbound_auth_settings \<Rightarrow> inbound_auth" where
  "inbound_auth_new settings =
     \<lparr>ia_settings = settings, ia_revocations = None, ia_audit = False,
      ia_admin_principals = HumanOrUnknown, ia_admin_boundary = False\<rparr>"

definition for_admin :: "inbound_auth \<Rightarrow> inbound_auth" where
  "for_admin auth =
     auth\<lparr>ia_settings := (ia_settings auth)\<lparr>required_scope := ''mcp:admin''\<rparr>, ia_admin_boundary := True\<rparr>"

definition for_admin_limiter :: rate_limiter where
  "for_admin_limiter = rate_limiter_new \<lparr>per_second = 5, burst = 10\<rparr>"

definition REALM :: string where
  "REALM = ''mcp-devtools''"

definition protected_resource_metadata :: "inbound_auth \<Rightarrow> json" where
  "protected_resource_metadata auth =
     JObject
       [(''resource'', JString (public_url (ia_settings auth))),
        (''authorization_servers'', JArray (map JString (authorization_servers (ia_settings auth)))),
        (''scopes_supported'', JArray [JString (required_scope (ia_settings auth))]),
        (''bearer_methods_supported'', JArray [JString ''header'']),
        (''resource_name'', JString REALM)]"

definition revocation :: "inbound_auth \<Rightarrow> authenticated \<Rightarrow> (revocation_reason \<times> string) option" where
  "revocation auth a =
     Option.bind (ia_revocations auth) (\<lambda>d. map_option (\<lambda>reason. (reason, rd_version d)) (revocation_check d a))"

definition revoked_event :: "string \<Rightarrow> authenticated \<Rightarrow> revocation_reason \<Rightarrow> string \<Rightarrow> control_event" where
  "revoked_event timestamp a reason list_version =
     (with_reason (revocation_reason_str reason) (control_event_now timestamp RevokedTokenRejected))
       \<lparr>ce_principal := Some (au_principal a), ce_version := Some list_version\<rparr>"

definition journal_revoked ::
  "('s, control_event) append_op \<Rightarrow> ack \<Rightarrow> string \<Rightarrow> inbound_auth \<Rightarrow> authenticated \<Rightarrow> revocation_reason \<Rightarrow> string
     \<Rightarrow> 's \<Rightarrow> 's" where
  "journal_revoked app a timestamp auth authenticated reason list_version sink =
     (if ia_audit auth
      then snd (append_bounded app a sink (revoked_event timestamp authenticated reason list_version))
      else sink)"

section \<open>Responses\<close>

record response =
  status :: nat
  www_authenticate :: "string option"
  retry_after_header :: "string option"
  body :: json

definition error_body :: "string \<Rightarrow> string \<Rightarrow> json" where
  "error_body error description = JObject [(''error'', JString error), (''error_description'', JString description)]"

definition error_response :: "(string \<Rightarrow> bool) \<Rightarrow> nat \<Rightarrow> string \<Rightarrow> string \<Rightarrow> string \<Rightarrow> response" where
  "error_response header_ok st challenge error description =
     \<lparr>status = st,
      www_authenticate = Some (if header_ok challenge then challenge else ''Bearer realm=\"mcp-devtools\"''),
      retry_after_header = None, body = error_body error description\<rparr>"

definition base_challenge :: "inbound_auth \<Rightarrow> string" where
  "base_challenge auth =
     ''Bearer realm=\"'' @ REALM @ ''\", resource_metadata=\"'' @ metadata_url (ia_settings auth) @ ''\"''"

definition challenge_response ::
  "(string \<Rightarrow> bool) \<Rightarrow> inbound_auth \<Rightarrow> nat \<Rightarrow> (string \<times> token_rejection) option \<Rightarrow> string \<Rightarrow> string \<Rightarrow> response" where
  "challenge_response header_ok auth st error body_error body_description =
     error_response header_ok st
       (base_challenge auth @
        (case error of
           None \<Rightarrow> []
         | Some (code, rejection) \<Rightarrow>
             '', error=\"'' @ code @ ''\", error_description=\"'' @ rejection_category rejection @ ''\"''))
       body_error body_description"

fun kind_refusal :: "subject_kind \<Rightarrow> string \<times> string" where
  "kind_refusal Machine =
     (''machine_principal'', ''service-account and other non-human principals are not admitted to the administrative API (MCP_ADMIN_PRINCIPALS)'')"
| "kind_refusal _ =
     (''unverified_principal_kind'', ''the token does not positively identify a person, and MCP_ADMIN_PRINCIPALS=human admits only those'')"

definition principal_kind_refused :: "(string \<Rightarrow> bool) \<Rightarrow> inbound_auth \<Rightarrow> subject_kind \<Rightarrow> response" where
  "principal_kind_refused header_ok auth kind =
     (case kind_refusal kind of (error, description) \<Rightarrow>
        error_response header_ok 403 (base_challenge auth) error description)"

definition insufficient_scope :: "(string \<Rightarrow> bool) \<Rightarrow> inbound_auth \<Rightarrow> response" where
  "insufficient_scope header_ok auth =
     error_response header_ok 403
       (base_challenge auth @ '', error=\"insufficient_scope\", scope=\"'' @ required_scope (ia_settings auth) @ ''\"'')
       ''insufficient_scope'' ''the token does not carry the scope required for this resource''"

definition rate_limited :: "(string \<Rightarrow> bool) \<Rightarrow> nat \<Rightarrow> response" where
  "rate_limited header_ok secs =
     \<lparr>status = 429, www_authenticate = None,
      retry_after_header = Some (if header_ok (dec_string secs) then dec_string secs else ''1''),
      body = error_body ''rate_limited'' ''the principal has exceeded its request rate; retry after the indicated delay''\<rparr>"

definition keys_unavailable_response :: response where
  "keys_unavailable_response =
     \<lparr>status = 503, www_authenticate = None, retry_after_header = None,
      body = error_body ''authentication_unavailable'' ''signing keys unavailable''\<rparr>"

fun rejection_description :: "token_rejection \<Rightarrow> string" where
  "rejection_description Expired = ''the token has expired''"
| "rejection_description NotYetValid = ''the token is not yet valid''"
| "rejection_description WrongIssuer = ''the token was not issued by the configured issuer''"
| "rejection_description WrongAudience = ''the token is not intended for this resource''"
| "rejection_description UnknownKey = ''the token is signed with a key this server does not know''"
| "rejection_description UnsupportedAlgorithm = ''the token uses an unsupported algorithm''"
| "rejection_description InvalidSignature = ''the token signature did not verify''"
| "rejection_description (MissingClaim _) = ''the token is missing a required claim''"
| "rejection_description Revoked = ''the token has been revoked''"
| "rejection_description _ = ''the token was not accepted''"

text \<open>\<open>split_once(char::is_whitespace)\<close>: the first white-space character, of however many bytes.\<close>

fun split_once_ws :: "string \<Rightarrow> (string \<times> string) option" where
  "split_once_ws [] = None"
| "split_once_ws (c # s) =
     (if ws_prefix (c # s) = 0 then map_option (\<lambda>(a, b). (c # a, b)) (split_once_ws s)
      else Some ([], drop (ws_prefix (c # s)) (c # s)))"

definition bearer_token :: "string \<Rightarrow> string option" where
  "bearer_token v =
     (case split_once_ws (trim v) of
        None \<Rightarrow> None
      | Some (scheme, rest) \<Rightarrow>
          if \<not> eq_ignore_ascii_case scheme ''bearer'' then None
          else (let token = trim rest in if token \<noteq> [] then Some token else None))"

section \<open>The middleware\<close>

datatype bearer_outcome = Refused response | Admitted principal token_facts

definition limiter_check ::
  "(real \<Rightarrow> real) \<Rightarrow> nat \<Rightarrow> string \<Rightarrow> rate_limiter option \<Rightarrow> verdict \<times> rate_limiter option" where
  "limiter_check rnd now s rl =
     (case rl of
        None \<Rightarrow> (AllowRequest, None)
      | Some rl \<Rightarrow> (case check_at rnd s now rl of (v, rl') \<Rightarrow> (v, Some rl')))"

text \<open>\<open>header\<close> is the text of the authorization header, when there is one and it is text.\<close>

definition require_bearer ::
  "(real \<Rightarrow> real) \<Rightarrow> (string \<Rightarrow> bool) \<Rightarrow> ('s, control_event) append_op \<Rightarrow> ack \<Rightarrow> string \<Rightarrow> nat
     \<Rightarrow> (string \<Rightarrow> token_rejection + authenticated) \<Rightarrow> inbound_auth \<Rightarrow> string option \<Rightarrow> 's auth_state
     \<Rightarrow> bearer_outcome \<times> 's auth_state" where
  "require_bearer rnd header_ok app a timestamp now authenticate auth header st =
     (case Option.bind header bearer_token of
        None \<Rightarrow>
          (Refused (challenge_response header_ok auth 401 None ''unauthorized'' ''a bearer token is required''), st)
      | Some token \<Rightarrow>
     (case authenticate token of
        Inl rejection \<Rightarrow>
          (if is_server_side rejection then (Refused keys_unavailable_response, st)
           else (Refused (challenge_response header_ok auth 401 (Some (''invalid_token'', rejection))
                   ''invalid_token'' (rejection_description rejection)), st))
      | Inr authenticated \<Rightarrow>
     (case revocation auth authenticated of
        Some (reason, list_version) \<Rightarrow>
          (Refused (challenge_response header_ok auth 401 (Some (''invalid_token'', Revoked))
             ''invalid_token'' ''the token has been revoked''),
           st\<lparr>as_sink := journal_revoked app a timestamp auth authenticated reason list_version (as_sink st)\<rparr>)
      | None \<Rightarrow>
     (let p = au_principal authenticated; facts = au_token authenticated in
      if required_scope (ia_settings auth) \<notin> set (scopes p) then (Refused (insufficient_scope header_ok auth), st)
      else if ia_admin_boundary auth \<and> \<not> admits (ia_admin_principals auth) (tf_subject_kind facts)
      then (Refused (principal_kind_refused header_ok auth (tf_subject_kind facts)), st)
      else
        (let st = st\<lparr>as_observed := observe p (as_observed st)\<rparr> in
         case limiter_check rnd now (subject p) (as_rate_limit st) of
           (RefuseRequest secs, rl) \<Rightarrow> (Refused (rate_limited header_ok secs), st\<lparr>as_rate_limit := rl\<rparr>)
         | (AllowRequest, rl) \<Rightarrow> (Admitted p facts, st\<lparr>as_rate_limit := rl\<rparr>))))))"

section \<open>The inventory\<close>

definition observed_ok :: "observed \<Rightarrow> bool" where
  "observed_ok m \<longleftrightarrow>
     distinct (map fst m) \<and> (\<forall>(t, subjects) \<in> set m. subjects \<noteq> [] \<and> distinct (map fst subjects))
     \<and> observed_count m \<le> MAX_OBSERVED"

lemma update_length_le: "length (AList.update k v m) \<le> Suc (length m)"
  by (induction m) auto

lemma update_nonempty: "AList.update k v m \<noteq> []"
  by (cases m) auto

lemma observed_count_Cons: "observed_count ((t, subjects) # m) = length subjects + observed_count m"
  by (simp add: observed_count_def)

lemma observed_count_update:
  "observed_count (AList.update t (AList.update s p (case map_of m t of None \<Rightarrow> [] | Some v \<Rightarrow> v)) m)
     \<le> Suc (observed_count m)"
proof (induction m)
  case Nil
  then show ?case by (simp add: observed_count_def)
next
  case (Cons e m)
  then show ?case using update_length_le [of s p "snd e"]
    by (cases e) (auto simp: observed_count_Cons)
qed

lemma observed_count_delete:
  assumes "(t, subjects) \<in> set m" "distinct (map fst m)"
  shows "observed_count (AList.delete t m) + length subjects = observed_count m"
  using assms
proof (induction m)
  case (Cons e m)
  have "AList.delete t m = m" if "t \<notin> fst ` set m" using that by (force simp: AList.delete_eq intro!: filter_True)
  with Cons show ?case by (cases e) (force simp: observed_count_Cons)
qed simp

lemma pop_first_count:
  assumes "observed_ok m" "m \<noteq> []"
  shows "observed_count (pop_first m) < observed_count m"
proof -
  have "Min (set (map fst m)) \<in> set (map fst m)" using assms(2) by (intro Min_in) auto
  then obtain subjects where e: "(Min (set (map fst m)), subjects) \<in> set m" by auto
  with assms(1) have "subjects \<noteq> []" "distinct (map fst m)" by (auto simp: observed_ok_def)
  with observed_count_delete [OF e] assms(2) show ?thesis by (cases subjects) (auto simp: pop_first_def)
qed

lemma pop_first_entries: "set (pop_first m) \<subseteq> set m"
  by (auto simp: pop_first_def AList.delete_eq)

lemma pop_first_distinct: "distinct (map fst m) \<Longrightarrow> distinct (map fst (pop_first m))"
  by (simp add: pop_first_def distinct_delete)

lemma update_entries: "e \<in> set (AList.update k v m) \<Longrightarrow> e \<in> set m \<or> e = (k, v)"
  by (induction m) (auto split: if_splits)

lemma observe_entries:
  assumes "\<forall>(t, subjects) \<in> set m. subjects \<noteq> [] \<and> distinct (map fst subjects)"
  shows "\<forall>(t', subjects) \<in> set (AList.update t (AList.update s p (case map_of m t of None \<Rightarrow> [] | Some v \<Rightarrow> v)) m).
    subjects \<noteq> [] \<and> distinct (map fst subjects)"
proof -
  define old where "old = (case map_of m t of None \<Rightarrow> [] | Some v \<Rightarrow> v)"
  define new where "new = AList.update s p old"
  have "distinct (map fst old)"
    using assms by (cases "map_of m t") (auto simp: old_def dest: map_of_SomeD)
  then have new: "new \<noteq> []" "distinct (map fst new)" by (simp_all add: new_def update_nonempty distinct_update)
  have "snd e \<noteq> [] \<and> distinct (map fst (snd e))" if "e \<in> set (AList.update t new m)" for e
    using update_entries [OF that] assms new by (cases e) auto
  then show ?thesis unfolding old_def [symmetric] new_def [symmetric] by (simp add: case_prod_unfold)
qed

lemma observe_ok:
  assumes "observed_ok m"
  shows "observed_ok (observe p m)"
proof (cases "observed_principal m (tenant p) (subject p) = Some p")
  case True
  then show ?thesis using assms by (simp add: observe_def)
next
  case False
  define m' where "m' = (if MAX_OBSERVED \<le> observed_count m then pop_first m else m)"
  have ok: "distinct (map fst m')" "\<forall>(t, subjects) \<in> set m'. subjects \<noteq> [] \<and> distinct (map fst subjects)"
    using assms pop_first_entries [of m] pop_first_distinct [of m] by (auto simp: observed_ok_def m'_def)
  have "m \<noteq> []" if "MAX_OBSERVED \<le> observed_count m"
    using that by (auto simp: MAX_OBSERVED_def observed_count_def)
  then have "observed_count m' < MAX_OBSERVED"
    using assms pop_first_count [OF assms] by (auto simp: m'_def observed_ok_def)
  with ok show ?thesis using False observed_count_update [of "tenant p" "subject p" p m'] observe_entries [OF ok(2)]
    by (simp add: observe_def observed_ok_def m'_def [symmetric] Let_def distinct_update)
qed

lemma observe_finds: "observed_principal (observe p m) (tenant p) (subject p) = Some p"
proof (cases "observed_principal m (tenant p) (subject p) = Some p")
  case False
  then show ?thesis by (simp add: observe_def Let_def) (simp add: observed_principal_def update_conv')
qed (simp add: observe_def)

section \<open>What gets through\<close>

lemma limiter_check_observed [simp]:
  "as_rate_limit (st\<lparr>as_observed := m\<rparr>) = as_rate_limit st" "as_sink (st\<lparr>as_observed := m\<rparr>) = as_sink st"
  by simp_all

lemma require_bearer_cases:
  obtains (no_token) "Option.bind header bearer_token = None"
      "require_bearer rnd header_ok app a timestamp now authenticate auth header st =
        (Refused (challenge_response header_ok auth 401 None ''unauthorized'' ''a bearer token is required''), st)"
  | (keys) token where "Option.bind header bearer_token = Some token" "authenticate token = Inl KeysUnavailable"
      "require_bearer rnd header_ok app a timestamp now authenticate auth header st = (Refused keys_unavailable_response, st)"
  | (rejected) token r where "Option.bind header bearer_token = Some token" "authenticate token = Inl r" "r \<noteq> KeysUnavailable"
      "require_bearer rnd header_ok app a timestamp now authenticate auth header st =
        (Refused (challenge_response header_ok auth 401 (Some (''invalid_token'', r)) ''invalid_token'' (rejection_description r)), st)"
  | (revoked) token au d reason where "Option.bind header bearer_token = Some token" "authenticate token = Inr au"
      "ia_revocations auth = Some d" "revocation_check d au = Some reason"
      "require_bearer rnd header_ok app a timestamp now authenticate auth header st =
        (Refused (challenge_response header_ok auth 401 (Some (''invalid_token'', Revoked)) ''invalid_token'' ''the token has been revoked''),
         st\<lparr>as_sink := journal_revoked app a timestamp auth au reason (rd_version d) (as_sink st)\<rparr>)"
  | (scope) token au where "Option.bind header bearer_token = Some token" "authenticate token = Inr au" "revocation auth au = None"
      "required_scope (ia_settings auth) \<notin> set (scopes (au_principal au))"
      "require_bearer rnd header_ok app a timestamp now authenticate auth header st = (Refused (insufficient_scope header_ok auth), st)"
  | (kind) token au where "Option.bind header bearer_token = Some token" "authenticate token = Inr au" "revocation auth au = None"
      "required_scope (ia_settings auth) \<in> set (scopes (au_principal au))"
      "ia_admin_boundary auth" "\<not> admits (ia_admin_principals auth) (tf_subject_kind (au_token au))"
      "require_bearer rnd header_ok app a timestamp now authenticate auth header st =
        (Refused (principal_kind_refused header_ok auth (tf_subject_kind (au_token au))), st)"
  | (limited) token au secs rl where "Option.bind header bearer_token = Some token" "authenticate token = Inr au"
      "revocation auth au = None" "required_scope (ia_settings auth) \<in> set (scopes (au_principal au))"
      "\<not> ia_admin_boundary auth \<or> admits (ia_admin_principals auth) (tf_subject_kind (au_token au))"
      "limiter_check rnd now (subject (au_principal au)) (as_rate_limit st) = (RefuseRequest secs, rl)"
      "require_bearer rnd header_ok app a timestamp now authenticate auth header st =
        (Refused (rate_limited header_ok secs), st\<lparr>as_observed := observe (au_principal au) (as_observed st), as_rate_limit := rl\<rparr>)"
  | (admitted) token au rl where "Option.bind header bearer_token = Some token" "authenticate token = Inr au"
      "revocation auth au = None" "required_scope (ia_settings auth) \<in> set (scopes (au_principal au))"
      "\<not> ia_admin_boundary auth \<or> admits (ia_admin_principals auth) (tf_subject_kind (au_token au))"
      "limiter_check rnd now (subject (au_principal au)) (as_rate_limit st) = (AllowRequest, rl)"
      "require_bearer rnd header_ok app a timestamp now authenticate auth header st =
        (Admitted (au_principal au) (au_token au), st\<lparr>as_observed := observe (au_principal au) (as_observed st), as_rate_limit := rl\<rparr>)"
proof (cases "Option.bind header bearer_token")
  case None
  then show thesis by (intro no_token) (simp_all add: require_bearer_def)
next
  case (Some token)
  note token = this
  show thesis
  proof (cases "authenticate token")
    case (Inl r)
    with token show thesis
      by (cases "r = KeysUnavailable") (auto intro: keys rejected simp: require_bearer_def is_server_side_def)
  next
    case (Inr au)
    note au = this
    show thesis
    proof (cases "revocation auth au")
      case (Some rv)
      then obtain d reason where "ia_revocations auth = Some d" "revocation_check d au = Some reason" "rv = (reason, rd_version d)"
        by (auto simp: revocation_def split: Option.bind_splits)
      with token au Some show thesis by (intro revoked) (simp_all add: require_bearer_def)
    next
      case None
      note facts = token au None
      consider "required_scope (ia_settings auth) \<notin> set (scopes (au_principal au))"
        | "required_scope (ia_settings auth) \<in> set (scopes (au_principal au))"
          "ia_admin_boundary auth" "\<not> admits (ia_admin_principals auth) (tf_subject_kind (au_token au))"
        | "required_scope (ia_settings auth) \<in> set (scopes (au_principal au))"
          "\<not> ia_admin_boundary auth \<or> admits (ia_admin_principals auth) (tf_subject_kind (au_token au))"
        by blast
      then show thesis
      proof cases
        case 1
        then show thesis using facts by (intro scope) (simp_all add: require_bearer_def)
      next
        case 2
        then show thesis using facts by (intro kind) (simp_all add: require_bearer_def)
      next
        case 3
        obtain v rl where l: "limiter_check rnd now (subject (au_principal au)) (as_rate_limit st) = (v, rl)"
          by fastforce
        show thesis
        proof (cases v)
          case AllowRequest
          show thesis by (rule admitted [OF facts 3 l [unfolded AllowRequest]])
            (use facts 3 l AllowRequest in \<open>auto simp: require_bearer_def Let_def\<close>)
        next
          case (RefuseRequest secs)
          show thesis by (rule limited [OF facts 3 l [unfolded RefuseRequest]])
            (use facts 3 l RefuseRequest in \<open>auto simp: require_bearer_def Let_def\<close>)
        qed
      qed
    qed
  qed
qed

section \<open>The journal of refusals\<close>

text \<open>What the boundary promises over a sink that keeps its contract: nothing is lost from the
  journal, and a refusal of a revoked token is in it when the sink acknowledged in time.\<close>

locale audited_boundary = sink_contract app recorded sink_ok
  for app :: "('s, control_event) append_op" and recorded :: "'s \<Rightarrow> (nat \<times> control_event) set"
    and sink_ok :: "'s \<Rightarrow> bool"
begin

lemma journal_revoked_keeps:
  assumes "sink_ok s"
  shows "sink_ok (journal_revoked app a timestamp auth au reason v s)"
    "recorded s \<subseteq> recorded (journal_revoked app a timestamp auth au reason v s)"
  using assms bounded_ok [OF assms] bounded_keeps [OF assms] by (simp_all add: journal_revoked_def)

lemma boundary_keeps_journal:
  assumes "sink_ok (as_sink st)"
    and "require_bearer rnd header_ok app a timestamp now authenticate auth header st = (out, st')"
  shows "sink_ok (as_sink st') \<and> recorded (as_sink st) \<subseteq> recorded (as_sink st')"
proof (cases rule: require_bearer_cases [of header rnd header_ok app a timestamp now authenticate auth st])
  case (revoked token au d reason)
  with assms(2) show ?thesis using journal_revoked_keeps [OF assms(1)] by clarsimp
qed (use assms in auto)

lemma revoked_refusal_journaled:
  assumes "sink_ok (as_sink st)" "ia_audit auth" "ia_revocations auth = Some d"
    and "Option.bind header bearer_token = Some token" "authenticate token = Inr au" "revocation_check d au = Some reason"
    and "append_bounded app a (as_sink st) (revoked_event timestamp au reason (rd_version d)) = (Inr n, sink')"
    and "require_bearer rnd header_ok app a timestamp now authenticate auth header st = (out, st')"
  shows "(\<forall>p facts. out \<noteq> Admitted p facts)
    \<and> (n, revoked_event timestamp au reason (rd_version d)) \<in> recorded (as_sink st')"
proof -
  have "revocation auth au = Some (reason, rd_version d)" using assms(3,6) by (simp add: revocation_def)
  then have "out = Refused (challenge_response header_ok auth 401 (Some (''invalid_token'', Revoked)) ''invalid_token'' ''the token has been revoked'')"
    "as_sink st' = sink'"
    using assms(2,4,5,7,8) by (auto simp: require_bearer_def journal_revoked_def)
  then show ?thesis using bounded_acknowledged [OF assms(1,7)] by simp
qed

end

interpretation memory_boundary: audited_boundary memory_append "\<lambda>s. set (mem_events s)" memory_ok ..

section \<open>A boundary for the examples\<close>

definition sample_auth :: inbound_auth where
  "sample_auth =
     (inbound_auth_new \<lparr>public_url = ''https://mcp'', authorization_servers = [], required_scope = ''mcp:tools''\<rparr>)
       \<lparr>ia_revocations := Some sample_revocations\<rparr>"

definition sample_token_holder :: authenticated where
  "sample_token_holder =
     \<lparr>au_principal = \<lparr>tenant = ''acme'', subject = ''bob'', groups = [], scopes = [''mcp:tools''], authority = Oidc ''https://idp''\<rparr>,
      au_token = token_facts_default\<lparr>tf_issued_at := Some 1788426001\<rparr>\<rparr>"

definition sample_state :: "unit auth_state" where
  "sample_state = \<lparr>as_observed = [], as_rate_limit = None, as_sink = ()\<rparr>"

definition sample_append :: "(unit, control_event) append_op" where
  "sample_append s e = (Inr 1, s)"

lemma sample_bearer: "bearer_token ''Bearer tok'' = Some ''tok''" "bearer_token ''bearer  old '' = Some ''old''"
  by code_simp+

lemma sample_compiled:
  "revocation_compile sample_crypto (\<lambda>s. s) (\<lambda>_. Some 1788426000) (\<lambda>_. Inr sample_list) ''v1'' = Inr sample_revocations"
  by (simp add: revocation_compile_def revocation_parse_def sample_list_def sample_revocations_def
      revocation_file_empty_def MAX_ENTRIES_def parse_rfc3339_def)

lemma sample_not_revoked: "revocation sample_auth sample_token_holder = None"
  by (simp add: revocation_def sample_auth_def inbound_auth_new_def sample_revocations_def revocation_check_def
      sample_token_holder_def token_facts_default_def issued_before_def)

lemmas sample_boundary =
  sample_bearer sample_not_revoked sample_state_def sample_auth_def inbound_auth_new_def sample_token_holder_def
  token_facts_default_def limiter_check_def

section \<open>Properties\<close>

lemma admitted_iff:
  "(\<exists>st'. require_bearer rnd header_ok app a timestamp now authenticate auth header st = (Admitted p facts, st'))
    \<longleftrightarrow> (\<exists>token au. Option.bind header bearer_token = Some token \<and> authenticate token = Inr au
          \<and> revocation auth au = None \<and> p = au_principal au \<and> facts = au_token au)
        \<and> required_scope (ia_settings auth) \<in> set (scopes p)
        \<and> (ia_admin_boundary auth \<longrightarrow> admits (ia_admin_principals auth) (tf_subject_kind facts))
        \<and> fst (limiter_check rnd now (subject p) (as_rate_limit st)) = AllowRequest"
proof (cases rule: require_bearer_cases [of header rnd header_ok app a timestamp now authenticate auth st])
  case (revoked token au d reason)
  then have "revocation auth au \<noteq> None" by (simp add: revocation_def)
  with revoked show ?thesis by auto
qed auto

text \<open>C14. A request passes the boundary exactly when it carries a bearer token the validator accepts,
  the revocation file in force names neither the subject, the token nor its time of issue, the
  principal has the scope of the boundary, an administrative boundary admits the kind of
  principal, and the limiter grants it a token; what is handed on is what the validator said.\<close>

theorem bearer_admission:
  assumes "revocation_compile cr debug rfc3339 parse_yaml bytes = Inr d" "parse_yaml bytes = Inr f"
    and "ia_revocations auth = Some d"
  shows "(\<exists>st'. require_bearer rnd header_ok app a timestamp now authenticate auth header st = (Admitted p facts, st'))
    \<longleftrightarrow> (\<exists>token au. Option.bind header bearer_token = Some token \<and> authenticate token = Inr au
          \<and> \<not> names_token rfc3339 f au \<and> p = au_principal au \<and> facts = au_token au)
        \<and> required_scope (ia_settings auth) \<in> set (scopes p)
        \<and> (ia_admin_boundary auth \<longrightarrow> admits (ia_admin_principals auth) (tf_subject_kind facts))
        \<and> fst (limiter_check rnd now (subject p) (as_rate_limit st)) = AllowRequest"
proof -
  have "revocation auth au = None \<longleftrightarrow> \<not> names_token rfc3339 f au" for au
    using compiled_list_exact [OF assms(1,2), of au] assms(3) by (auto simp: revocation_def)
  then show ?thesis by (simp only: admitted_iff)
qed

theorem bearer_admission_witness:
  "(\<exists>st'. require_bearer (\<lambda>x. x) (\<lambda>_. True) sample_append InTime ''now'' 0 (\<lambda>_. Inr sample_token_holder) sample_auth
      (Some ''Bearer tok'') sample_state = (Admitted (au_principal sample_token_holder) (au_token sample_token_holder), st'))
   \<and> \<not> names_token (\<lambda>_. Some 1788426000) sample_list sample_token_holder"
proof -
  have listed: "ia_revocations sample_auth = Some sample_revocations" by (simp add: sample_auth_def)
  have "\<not> names_token (\<lambda>_. Some 1788426000) sample_list sample_token_holder"
    by (simp add: names_token_def sample_list_def revocation_file_empty_def sample_token_holder_def
        token_facts_default_def parse_rfc3339_def)
  with bearer_admission [OF sample_compiled _ listed, where f = sample_list and authenticate = "\<lambda>_. Inr sample_token_holder"
      and header = "Some ''Bearer tok''" and st = sample_state and p = "au_principal sample_token_holder"
      and facts = "au_token sample_token_holder"]
  show ?thesis by (simp add: sample_bearer limiter_check_def sample_state_def)
     (simp add: sample_auth_def inbound_auth_new_def sample_token_holder_def)
qed

lemma error_response_parts [simp]:
  "status (error_response header_ok st c e d) = st"
  "\<exists>h. www_authenticate (error_response header_ok st c e d) = Some h"
  "retry_after_header (error_response header_ok st c e d) = None"
  "body (error_response header_ok st c e d) = error_body e d"
  by (simp_all add: error_response_def)

lemma refusal_parts [simp]:
  "status (challenge_response header_ok auth n e b bd) = n"
  "\<exists>h. www_authenticate (challenge_response header_ok auth n e b bd) = Some h"
  "status (insufficient_scope header_ok auth) = 403"
  "\<exists>h. www_authenticate (insufficient_scope header_ok auth) = Some h"
  "status (principal_kind_refused header_ok auth k) = 403"
  "\<exists>h. www_authenticate (principal_kind_refused header_ok auth k) = Some h"
  "status (rate_limited header_ok n) = 429" "\<exists>h. retry_after_header (rate_limited header_ok n) = Some h"
  "www_authenticate (rate_limited header_ok n) = None"
  "status keys_unavailable_response = 503" "www_authenticate keys_unavailable_response = None"
  unfolding challenge_response_def insufficient_scope_def principal_kind_refused_def
  by (simp_all add: rate_limited_def keys_unavailable_response_def case_prod_unfold)

text \<open>The table of refusals. A refused request is answered 401 exactly when there is no bearer
  token, the validator rejected it for its own fault, or the list revokes it; 503 exactly when the
  validator has no keys; 403 exactly when an accepted token lacks the scope or an administrative
  boundary refuses the kind of principal; 429 exactly when only the limiter objects. The challenge
  header is there exactly with 401 and 403, a retry hint with 429.\<close>

theorem refusal_status:
  assumes "require_bearer rnd header_ok app a timestamp now authenticate auth header st = (Refused r, st')"
    and "verdict = map_option authenticate (Option.bind header bearer_token)"
  shows "(status r = 401 \<longleftrightarrow> verdict = None \<or> (\<exists>e. verdict = Some (Inl e) \<and> e \<noteq> KeysUnavailable)
            \<or> (\<exists>au. verdict = Some (Inr au) \<and> revocation auth au \<noteq> None))
       \<and> (status r = 503 \<longleftrightarrow> verdict = Some (Inl KeysUnavailable))
       \<and> (status r = 403 \<longleftrightarrow> (\<exists>au. verdict = Some (Inr au) \<and> revocation auth au = None
            \<and> (required_scope (ia_settings auth) \<notin> set (scopes (au_principal au))
               \<or> ia_admin_boundary auth \<and> \<not> admits (ia_admin_principals auth) (tf_subject_kind (au_token au)))))
       \<and> (status r = 429 \<longleftrightarrow> (\<exists>au. verdict = Some (Inr au) \<and> revocation auth au = None
            \<and> required_scope (ia_settings auth) \<in> set (scopes (au_principal au))
            \<and> (ia_admin_boundary auth \<longrightarrow> admits (ia_admin_principals auth) (tf_subject_kind (au_token au)))))
       \<and> status r \<in> {401, 403, 429, 503}
       \<and> (www_authenticate r \<noteq> None \<longleftrightarrow> status r \<in> {401, 403}) \<and> (status r = 429 \<longrightarrow> retry_after_header r \<noteq> None)"
  using assms
  by (cases rule: require_bearer_cases [of header rnd header_ok app a timestamp now authenticate auth st])
     (auto simp: revocation_def )

theorem refusal_status_witness:
  "status (keys_unavailable_response) = 503
   \<and> map_option (\<lambda>_. Inl KeysUnavailable :: token_rejection + authenticated)
       (Option.bind (Some ''Bearer tok'') bearer_token) = Some (Inl KeysUnavailable)"
proof -
  have "require_bearer (\<lambda>x. x) (\<lambda>_. True) sample_append InTime ''now'' 0 (\<lambda>_. Inl KeysUnavailable) sample_auth
      (Some ''Bearer tok'') sample_state = (Refused keys_unavailable_response, sample_state)"
    by (simp add: require_bearer_def sample_bearer is_server_side_def)
  from refusal_status [OF this refl] show ?thesis by (simp add: sample_bearer)
qed

text \<open>A refusal tells the client the category and nothing of the token. At one boundary, two
  requests whose tokens the validator rejected with the same category get the same response, to
  the byte, whatever the tokens and the claims named by the rejection; so do two requests with
  revoked tokens, and two whose principals lack the scope.\<close>

theorem refusal_reveals_category_only:
  assumes "Option.bind h1 bearer_token = Some t1" "Option.bind h2 bearer_token = Some t2"
    and "(\<exists>e1 e2. authenticate t1 = Inl e1 \<and> authenticate t2 = Inl e2 \<and> rejection_category e1 = rejection_category e2)
       \<or> (\<exists>a1 a2. authenticate t1 = Inr a1 \<and> authenticate t2 = Inr a2
            \<and> (revocation auth a1 \<noteq> None \<and> revocation auth a2 \<noteq> None
              \<or> revocation auth a1 = None \<and> revocation auth a2 = None
                \<and> required_scope (ia_settings auth) \<notin> set (scopes (au_principal a1))
                \<and> required_scope (ia_settings auth) \<notin> set (scopes (au_principal a2))))"
  shows "fst (require_bearer rnd header_ok app k1 ts1 now1 authenticate auth h1 st1)
       = fst (require_bearer rnd header_ok app k2 ts2 now2 authenticate auth h2 st2)"
proof -
  have category: "rejection_description e1 = rejection_description e2 \<and> is_server_side e1 = is_server_side e2"
    if "rejection_category e1 = rejection_category e2" for e1 e2
    using that by (cases e1; cases e2) (simp_all add: is_server_side_def)
  from assms(3) show ?thesis
  proof (elim disjE exE conjE)
    fix e1 e2
    assume e: "authenticate t1 = Inl e1" "authenticate t2 = Inl e2" "rejection_category e1 = rejection_category e2"
    then show ?thesis using assms(1,2) category [OF e(3)] by (simp add: require_bearer_def challenge_response_def)
  next
    fix a1 a2
    assume "authenticate t1 = Inr a1" "authenticate t2 = Inr a2" "revocation auth a1 \<noteq> None" "revocation auth a2 \<noteq> None"
    then show ?thesis using assms(1,2) by (auto simp: require_bearer_def)
  next
    fix a1 a2
    assume "authenticate t1 = Inr a1" "authenticate t2 = Inr a2" "revocation auth a1 = None" "revocation auth a2 = None"
      "required_scope (ia_settings auth) \<notin> set (scopes (au_principal a1))"
      "required_scope (ia_settings auth) \<notin> set (scopes (au_principal a2))"
    then show ?thesis using assms(1,2) by (simp add: require_bearer_def)
  qed
qed

theorem refusal_reveals_category_only_witness:
  "fst (require_bearer (\<lambda>x. x) (\<lambda>_. True) sample_append InTime ''now'' 0
      (\<lambda>t. Inl (MissingClaim t)) sample_auth (Some ''Bearer tok'') sample_state)
   = fst (require_bearer (\<lambda>x. x) (\<lambda>_. True) sample_append LateDropped ''later'' 9
      (\<lambda>t. Inl (MissingClaim t)) sample_auth (Some ''bearer  old '') sample_state)"
  by (rule refusal_reveals_category_only [of _ "''tok''" _ "''old''"]) (simp_all add: sample_bearer)

text \<open>Two service accounts cannot carry a proposal past two-person approval: when the
  configuration asks for approvals and the server accepted it, no request whose token the provider
  marks as a machine's passes the administrative boundary, and what passes has the administrative
  scope and spends the administrative budget alone.\<close>

theorem no_machine_under_approvals:
  assumes "admin_principals_from_config debug config = Inr policy" "approvals_required config"
    and "ia_admin_principals auth = policy"
    and "require_bearer rnd header_ok app a timestamp now authenticate (for_admin auth) header st = (Admitted p facts, st')"
  shows "tf_subject_kind facts \<noteq> Machine \<and> ''mcp:admin'' \<in> set (scopes p)"
proof -
  have "policy \<noteq> AnyPrincipal"
    using assms(1,2) by (auto simp: admin_principals_from_config_def result_simps split: if_splits)
  then have "\<not> admits policy Machine" by (cases policy) simp_all
  with assms(3,4) show ?thesis
    by (cases rule: require_bearer_cases [of header rnd header_ok app a timestamp now authenticate "for_admin auth" st])
       (auto simp: for_admin_def)
qed

theorem no_machine_under_approvals_witness:
  "tf_subject_kind (au_token sample_token_holder) \<noteq> Machine
   \<and> ''mcp:admin'' \<in> set (scopes ((au_principal sample_token_holder)\<lparr>scopes := [''mcp:admin'']\<rparr>))"
proof -
  define config :: config where "config = [APPROVALS_KEY \<mapsto> ''Required'']"
  define au where "au = sample_token_holder\<lparr>au_principal := (au_principal sample_token_holder)\<lparr>scopes := [''mcp:admin'']\<rparr>\<rparr>"
  have policy: "admin_principals_from_config (\<lambda>s. s) config = Inr HumanOrUnknown"
    by (simp add: admin_principals_from_config_def config_nonempty_def config_def APPROVALS_KEY_def ADMIN_PRINCIPALS_KEY_def)
  have "trim ''Required'' = ''Required''" "eq_ignore_ascii_case ''Required'' ''required''" by code_simp+
  then have "approvals_required config" by (simp add: approvals_required_def config_def)
  moreover have "revocation (for_admin sample_auth) au = None"
    by (simp add: revocation_def for_admin_def sample_auth_def inbound_auth_new_def sample_revocations_def revocation_check_def
        au_def sample_token_holder_def token_facts_default_def issued_before_def)
  then have "require_bearer (\<lambda>x. x) (\<lambda>_. True) sample_append InTime ''now'' 0 (\<lambda>_. Inr au) (for_admin sample_auth)
      (Some ''Bearer tok'') sample_state
    = (Admitted (au_principal au) (au_token au), sample_state\<lparr>as_observed := observe (au_principal au) []\<rparr>)"
    by (simp add: require_bearer_def sample_bearer limiter_check_def sample_state_def for_admin_def Let_def)
       (simp add: sample_auth_def inbound_auth_new_def au_def sample_token_holder_def token_facts_default_def)
  ultimately show ?thesis
    using no_machine_under_approvals [OF policy, of sample_auth] 
    by (fastforce simp: sample_auth_def inbound_auth_new_def au_def)
qed

text \<open>The inventory of observed principals stays bounded: any sequence of requests, whatever
  their tokens, leaves at most ten thousand entries in it, no tenant without one, and the principal
  of an admitted request is in it.\<close>

theorem observed_bounded:
  assumes "observed_ok (as_observed st)"
    and "require_bearer rnd header_ok app a timestamp now authenticate auth header st = (out, st')"
  shows "observed_ok (as_observed st')
    \<and> (\<forall>p facts. out = Admitted p facts \<longrightarrow> observed_principal (as_observed st') (tenant p) (subject p) = Some p)"
  using assms
  by (cases rule: require_bearer_cases [of header rnd header_ok app a timestamp now authenticate auth st])
     (auto simp: observe_ok observe_finds)

theorem observed_bounded_witness:
  "observed_ok (as_observed (snd (require_bearer (\<lambda>x. x) (\<lambda>_. True) sample_append InTime ''now'' 0
     (\<lambda>_. Inr sample_token_holder) sample_auth (Some ''Bearer tok'') sample_state)))
   \<and> observed_principal (observe (au_principal sample_token_holder) []) ''acme'' ''bob'' = Some (au_principal sample_token_holder)"
proof -
  have run: "require_bearer (\<lambda>x. x) (\<lambda>_. True) sample_append InTime ''now'' 0 (\<lambda>_. Inr sample_token_holder) sample_auth
      (Some ''Bearer tok'') sample_state
    = (Admitted (au_principal sample_token_holder) (au_token sample_token_holder),
       sample_state\<lparr>as_observed := observe (au_principal sample_token_holder) []\<rparr>)"
    by (simp add: require_bearer_def sample_bearer sample_not_revoked limiter_check_def sample_state_def Let_def)
       (simp add: sample_auth_def inbound_auth_new_def sample_token_holder_def)
  have "observed_ok (as_observed sample_state)" by (simp add: observed_ok_def sample_state_def observed_count_def)
  from observed_bounded [OF this run] show ?thesis unfolding run by (simp add: sample_token_holder_def)
qed

end
