(* ===== verification/Errors.thy ===== *)
theory Errors
  imports Json
begin

text \<open>
  The application error and its renderings, \<^verbatim>\<open>src/error.rs\<close>: the chain of originals, the
  text of a tool error, of a resource error and of the command line, and the classification the
  controllers use. The pretty printer of \<^verbatim>\<open>serde_json\<close> (an \<open>option\<close>, since it may fail) and
  the Unicode lower-casing of the standard library are arguments; a status is a natural number below
  \<open>2^16\<close>.
\<close>

section \<open>The error\<close>

datatype error_kind = AuthMissing | AuthInvalid | ApiError | UnexpectedError

fun error_kind_str :: "error_kind \<Rightarrow> string" where
  "error_kind_str AuthMissing = ''AUTH_MISSING''"
| "error_kind_str AuthInvalid = ''AUTH_INVALID''"
| "error_kind_str ApiError = ''API_ERROR''"
| "error_kind_str UnexpectedError = ''UNEXPECTED_ERROR''"

datatype mcp_error_code =
    CodeAuthenticationRequired | CodeNotFound | CodeValidationError | CodeRateLimitExceeded
  | CodeApiError | CodeUnexpectedError

fun mcp_error_code_str :: "mcp_error_code \<Rightarrow> string" where
  "mcp_error_code_str CodeAuthenticationRequired = ''AUTHENTICATION_REQUIRED''"
| "mcp_error_code_str CodeNotFound = ''NOT_FOUND''"
| "mcp_error_code_str CodeValidationError = ''VALIDATION_ERROR''"
| "mcp_error_code_str CodeRateLimitExceeded = ''RATE_LIMIT_EXCEEDED''"
| "mcp_error_code_str CodeApiError = ''API_ERROR''"
| "mcp_error_code_str CodeUnexpectedError = ''UNEXPECTED_ERROR''"

datatype original_error = OriginalMcp mcp_error | OriginalJson json | OriginalString string
  and mcp_error =
    McpError (err_message: string) (err_kind: error_kind) (err_status: "nat option")
      (err_original: "original_error option")

definition original_render :: "(json \<Rightarrow> string option) \<Rightarrow> original_error \<Rightarrow> string option" where
  "original_render pretty o' =
     (case o' of
        OriginalJson v \<Rightarrow> pretty v
      | OriginalString s \<Rightarrow> Some s
      | OriginalMcp _ \<Rightarrow> None)"

definition mcp_code :: "mcp_error \<Rightarrow> mcp_error_code" where
  "mcp_code e =
     (case err_kind e of
        AuthMissing \<Rightarrow> CodeAuthenticationRequired
      | AuthInvalid \<Rightarrow> CodeAuthenticationRequired
      | ApiError \<Rightarrow>
          (if err_status e = Some 404 then CodeNotFound
           else if err_status e = Some 429 then CodeRateLimitExceeded
           else CodeApiError)
      | UnexpectedError \<Rightarrow> CodeUnexpectedError)"

definition auth_missing :: "string \<Rightarrow> mcp_error" where
  "auth_missing message = McpError message AuthMissing None None"

definition auth_missing_default :: mcp_error where
  "auth_missing_default = auth_missing ''Authentication credentials are missing''"

definition auth_invalid :: "string \<Rightarrow> mcp_error" where
  "auth_invalid message = McpError message AuthInvalid (Some 401) None"

definition api_error :: "string \<Rightarrow> nat option \<Rightarrow> original_error option \<Rightarrow> mcp_error" where
  "api_error message st original = McpError message ApiError st original"

definition unexpected :: "string \<Rightarrow> original_error option \<Rightarrow> mcp_error" where
  "unexpected message original = McpError message UnexpectedError None original"

definition unexpected_default :: mcp_error where
  "unexpected_default = unexpected ''An unexpected error occurred'' None"

text \<open>\<open>ensure_mcp_error\<close>: a boxed error is one of ours, or only its text is known.\<close>

definition ensure_mcp_error :: "mcp_error + string \<Rightarrow> mcp_error" where
  "ensure_mcp_error err =
     (case err of
        Inl existing \<Rightarrow> existing
      | Inr msg \<Rightarrow> unexpected msg (Some (OriginalString msg)))"

definition ensure_mcp_error_from_string :: "string \<Rightarrow> mcp_error" where
  "ensure_mcp_error_from_string s = unexpected s None"

text \<open>\<open>get_deep_original\<close>: ten rounds of the loop at most.\<close>

fun deep_original_loop :: "nat \<Rightarrow> original_error \<Rightarrow> original_error" where
  "deep_original_loop 0 current = current"
| "deep_original_loop (Suc n) current =
     (case current of
        OriginalMcp inner \<Rightarrow>
          (case err_original inner of
             None \<Rightarrow> current
           | Some nxt \<Rightarrow> deep_original_loop n nxt)
      | _ \<Rightarrow> current)"

definition get_deep_original :: "original_error \<Rightarrow> original_error" where
  "get_deep_original root = deep_original_loop 10 root"

section \<open>Renderings\<close>

record tool_error_response =
  ter_text :: string
  ter_is_error :: bool

definition raw_response_body :: "(json \<Rightarrow> string option) \<Rightarrow> string \<Rightarrow> original_error \<Rightarrow> string option" where
  "raw_response_body pretty message deep =
     (case deep of
        OriginalJson v \<Rightarrow>
          (let rendered = (case pretty v of None \<Rightarrow> '''' | Some s \<Rightarrow> s) in
           if rendered = message then None else Some rendered)
      | OriginalString s \<Rightarrow> if s \<noteq> message then Some s else None
      | OriginalMcp inner \<Rightarrow> if err_message inner = message then None else Some (err_message inner))"

definition newline :: string where
  "newline = [CHR 0x0A]"

definition format_error_for_mcp_tool :: "(json \<Rightarrow> string option) \<Rightarrow> mcp_error \<Rightarrow> tool_error_response" where
  "format_error_for_mcp_tool pretty err =
     \<lparr>ter_text =
        ''Error: '' @ err_message err
        @ (case err_status err of None \<Rightarrow> '''' | Some st \<Rightarrow> newline @ ''HTTP Status: '' @ dec_string st)
        @ (case err_original err of
             None \<Rightarrow> ''''
           | Some original \<Rightarrow>
               (case raw_response_body pretty (err_message err) (get_deep_original original) of
                  None \<Rightarrow> ''''
                | Some b \<Rightarrow> newline @ newline @ ''Raw API Response:'' @ newline @ b)),
      ter_is_error = True\<rparr>"

definition extract_vendor_error :: "json \<Rightarrow> string list option" where
  "extract_vendor_error v =
     Option.bind (as_object v) (\<lambda>obj.
       case Option.bind (map_of obj ''error'') as_object of
         Some err_obj \<Rightarrow>
           (let message = (case Option.bind (map_of err_obj ''message'') as_str of
                             None \<Rightarrow> ''Unknown error'' | Some m \<Rightarrow> m) in
            Some ((''Message: '' @ message) #
              (case Option.bind (map_of err_obj ''detail'') as_str of
                 None \<Rightarrow> [] | Some detail \<Rightarrow> [''Detail: '' @ detail])))
       | None \<Rightarrow> map_option (\<lambda>message. [message]) (Option.bind (map_of obj ''message'') as_str))"

definition cli_tips :: "mcp_error \<Rightarrow> string list" where
  "cli_tips err =
     (case err_kind err of
        AuthMissing \<Rightarrow>
          [''Tip: Make sure to set up your Atlassian credentials in the configuration file or environment variables:'',
           ''- ATLASSIAN_SITE_NAME, ATLASSIAN_USER_EMAIL, and ATLASSIAN_API_TOKEN; or'',
           ''- ATLASSIAN_BITBUCKET_USERNAME and ATLASSIAN_BITBUCKET_APP_PASSWORD'']
      | AuthInvalid \<Rightarrow>
          [''Tip: Check that your Atlassian API token or app password is correct and has not expired.'',
           ''Also verify that the configured user has access to the requested resource.'']
      | ApiError \<Rightarrow>
          (if err_status err = Some 429
           then [''Tip: You may have exceeded your Bitbucket API rate limits. Try again later.'']
           else [])
      | UnexpectedError \<Rightarrow> [])"

text \<open>The fence of the vendor part: the message of an inner error is written onto the opening
  fence, which is the last line pushed.\<close>

definition cli_vendor_lines :: "(json \<Rightarrow> string option) \<Rightarrow> original_error \<Rightarrow> string list" where
  "cli_vendor_lines pretty original =
     ''Bitbucket API Error:'' #
     (case get_deep_original original of
        OriginalJson v \<Rightarrow>
          ''```'' # (case extract_vendor_error v of
                      Some ls \<Rightarrow> ls
                    | None \<Rightarrow> [case pretty v of None \<Rightarrow> '''' | Some s \<Rightarrow> s])
      | OriginalString s \<Rightarrow> [''```'', trim s]
      | OriginalMcp inner \<Rightarrow> [''```'' @ err_message inner]) @
     [''```'']"

definition format_cli_error :: "(json \<Rightarrow> string option) \<Rightarrow> string option \<Rightarrow> mcp_error \<Rightarrow> string" where
  "format_cli_error pretty debug_var err =
     join_char CHR 0x0A
       ([''Error: '' @ err_message err]
        @ (case err_status err of None \<Rightarrow> [] | Some st \<Rightarrow> [''HTTP Status: '' @ dec_string st])
        @ [''---''] @ cli_tips err
        @ (case err_original err of None \<Rightarrow> [] | Some original \<Rightarrow> cli_vendor_lines pretty original)
        @ (if (case debug_var of None \<Rightarrow> True | Some v \<Rightarrow> \<not> contains_str v ''mcp:'')
           then [''For more detailed error information, run with DEBUG=mcp:* environment variable.''] else []))"

record resource_content =
  rc_uri :: string
  rc_text :: string
  rc_mime_type :: string
  rc_description :: string

definition format_error_for_mcp_resource :: "mcp_error \<Rightarrow> string \<Rightarrow> resource_content" where
  "format_error_for_mcp_resource err uri =
     \<lparr>rc_uri = uri, rc_text = ''Error: '' @ err_message err, rc_mime_type = ''text/plain'',
      rc_description = ''Error: '' @ error_kind_str (err_kind err)\<rparr>"

section \<open>Classification\<close>

datatype error_code =
    NotFoundCode | InvalidCursor | AccessDenied | ValidationError | UnexpectedCode | NetworkError
  | RateLimitError | PrivateIpError | ReservedRangeError

datatype entity_id = SingleEntity string | EntityMap "(string \<times> string) list"

definition entity_display :: "entity_id \<Rightarrow> string" where
  "entity_display i =
     (case i of SingleEntity s \<Rightarrow> s | EntityMap pairs \<Rightarrow> join_char CHR ''/'' (map snd pairs))"

record detected_error =
  de_code :: error_code
  de_status :: nat

definition detected :: "error_code \<Rightarrow> nat \<Rightarrow> detected_error" where
  "detected code st = \<lparr>de_code = code, de_status = st\<rparr>"

definition contains_any :: "string \<Rightarrow> string list \<Rightarrow> bool" where
  "contains_any haystack needles = list_ex (contains_str haystack) needles"

definition is_network_error_text :: "string \<Rightarrow> bool" where
  "is_network_error_text msg =
     contains_any msg
       [''network error'', ''fetch failed'', ''econnrefused'', ''enotfound'', ''failed to fetch'',
        ''network request failed'']"

definition map_status_to_error :: "nat \<Rightarrow> detected_error option" where
  "map_status_to_error st =
     (if st = 404 then Some (detected NotFoundCode 404)
      else if st = 401 \<or> st = 403 then Some (detected AccessDenied st)
      else if st = 400 then Some (detected ValidationError 400)
      else if st = 429 then Some (detected RateLimitError 429)
      else None)"

definition u16_try_from :: "nat \<Rightarrow> nat option" where
  "u16_try_from n = (if n < 65536 then Some n else None)"

definition text_or_empty :: "(string \<Rightarrow> string) \<Rightarrow> json option \<Rightarrow> string" where
  "text_or_empty lower v = lower (case Option.bind v as_str of None \<Rightarrow> '''' | Some s \<Rightarrow> s)"

definition classify_error_object :: "(string \<Rightarrow> string) \<Rightarrow> (string \<times> json) list \<Rightarrow> detected_error option" where
  "classify_error_object lower err =
     (let msg = text_or_empty lower (map_of err ''message'') in
      if contains_any msg [''repository not found'', ''does not exist'', ''no such resource'', ''not found'']
      then Some (detected NotFoundCode 404)
      else if contains_any msg
        [''access'', ''permission'', ''credentials'', ''unauthorized'', ''forbidden'', ''authentication'']
      then Some (detected AccessDenied 403)
      else if contains_str msg ''invalid'' \<or> (contains_str msg ''parameter'' \<and> contains_str msg ''error'')
        \<or> contains_str msg ''input'' \<or> contains_str msg ''validation'' \<or> contains_str msg ''required field''
        \<or> contains_str msg ''bad request''
      then Some (detected ValidationError 400)
      else if contains_any msg [''rate limit'', ''too many requests'', ''throttled'']
      then Some (detected RateLimitError 429)
      else None)"

definition classify_error_array_entry :: "(string \<Rightarrow> string) \<Rightarrow> (string \<times> json) list \<Rightarrow> detected_error option" where
  "classify_error_array_entry lower first =
     (case Option.bind (Option.bind (Option.bind (map_of first ''status'') as_u64) u16_try_from) map_status_to_error of
        Some d \<Rightarrow> Some d
      | None \<Rightarrow>
          (let t = text_or_empty lower
                     (case map_of first ''title'' of Some v \<Rightarrow> Some v | None \<Rightarrow> map_of first ''message'') in
           if contains_str t ''not found'' then Some (detected NotFoundCode 404)
           else if contains_str t ''access'' \<or> contains_str t ''permission'' then Some (detected AccessDenied 403)
           else if contains_str t ''invalid'' \<or> contains_str t ''required'' then Some (detected ValidationError 400)
           else if contains_str t ''rate limit'' \<or> contains_str t ''too many requests''
           then Some (detected RateLimitError 429)
           else None))"

text \<open>An entry \<open>{"type": "error", "status": n}\<close> with a status that fits sixteen bits answers at
  once, also with nothing.\<close>

definition classify_bitbucket_error :: "(string \<Rightarrow> string) \<Rightarrow> json \<Rightarrow> detected_error option" where
  "classify_bitbucket_error lower root =
     Option.bind (as_object root) (\<lambda>obj.
       case Option.bind (Option.bind (map_of obj ''error'') as_object) (classify_error_object lower) of
         Some d \<Rightarrow> Some d
       | None \<Rightarrow>
           (case (if Option.bind (map_of obj ''type'') as_str = Some ''error''
                  then Option.bind (Option.bind (map_of obj ''status'') as_u64) u16_try_from else None) of
              Some st \<Rightarrow> map_status_to_error st
            | None \<Rightarrow>
                (case Option.bind (map_of obj ''errors'') as_array of
                   Some (v # _) \<Rightarrow> Option.bind (as_object v) (classify_error_array_entry lower)
                 | _ \<Rightarrow> None)))"

definition detect_error_type :: "(string \<Rightarrow> string) \<Rightarrow> mcp_error \<Rightarrow> detected_error" where
  "detect_error_type lower err =
     (let msg = lower (err_message err); st = err_status err in
      if contains_str (err_message err) ''Invalid pull request ID''
        \<or> contains_str (err_message err) ''Pull request ID must be a positive integer''
      then detected ValidationError 400
      else if is_network_error_text msg then detected NetworkError 500
      else if contains_str msg ''rate limit'' \<or> contains_str msg ''too many requests'' \<or> st = Some 429
      then detected RateLimitError 429
      else (case Option.bind (err_original err) (\<lambda>original.
              case get_deep_original original of
                OriginalJson root \<Rightarrow> classify_bitbucket_error lower root | _ \<Rightarrow> None) of
          Some d \<Rightarrow> d
        | None \<Rightarrow>
            if contains_str msg ''not found'' \<or> contains_str msg ''does not exist'' \<or> st = Some 404
            then detected NotFoundCode 404
            else if contains_any msg [''access'', ''permission'', ''authorize'', ''authentication'']
              \<or> st = Some 401 \<or> st = Some 403
            then detected AccessDenied (case st of None \<Rightarrow> 403 | Some s \<Rightarrow> s)
            else if contains_any msg [''cursor'', ''startat'', ''page''] \<and> contains_any msg [''invalid'', ''not valid'']
            then detected InvalidCursor 400
            else if contains_any msg [''validation'', ''invalid'', ''required''] \<or> st = Some 400 \<or> st = Some 422
            then detected ValidationError (case st of None \<Rightarrow> 400 | Some s \<Rightarrow> s)
            else detected UnexpectedCode (case st of None \<Rightarrow> 500 | Some s \<Rightarrow> s)))"

section \<open>The chain of originals\<close>

fun chain_depth :: "original_error \<Rightarrow> nat" where
  "chain_depth (OriginalMcp (McpError _ _ _ (Some nxt))) = Suc (chain_depth nxt)"
| "chain_depth _ = 0"

text \<open>The end of the chain, however deep.\<close>

fun deepest :: "original_error \<Rightarrow> original_error" where
  "deepest (OriginalMcp (McpError _ _ _ (Some nxt))) = deepest nxt"
| "deepest o' = o'"

lemma deep_original_loop_deepest: "chain_depth o' \<le> n \<Longrightarrow> deep_original_loop n o' = deepest o'"
proof (induction n arbitrary: o')
  case 0
  then show ?case by (cases o' rule: chain_depth.cases) auto
next
  case (Suc n)
  then show ?case by (cases o' rule: chain_depth.cases) auto
qed

lemma deepest_ends: "deepest o' = OriginalMcp e \<Longrightarrow> err_original e = None"
  by (induction o' rule: deepest.induct) auto

text \<open>A chain of eleven errors is cut: the walk then stops at an error that has an original.\<close>

fun nested :: "nat \<Rightarrow> original_error" where
  "nested 0 = OriginalString ''root''"
| "nested (Suc n) = OriginalMcp (McpError ''outer'' UnexpectedError None (Some (nested n)))"

lemma walk_stops_inside_long_chain:
  "get_deep_original (nested 11) = OriginalMcp (McpError ''outer'' UnexpectedError None (Some (nested 0)))"
  unfolding get_deep_original_def by (simp add: eval_nat_numeral)

text \<open>For a chain that the ten rounds reach the end of, the raw part of a tool error is the
  rendering of that end, unless it repeats the message.\<close>

lemma tool_error_text:
  assumes "err_original err = Some o'" "chain_depth o' \<le> 10"
  shows "ter_text (format_error_for_mcp_tool pretty err) =
    ''Error: '' @ err_message err
    @ (case err_status err of None \<Rightarrow> '''' | Some st \<Rightarrow> newline @ ''HTTP Status: '' @ dec_string st)
    @ (case raw_response_body pretty (err_message err) (deepest o') of
         None \<Rightarrow> '''' | Some b \<Rightarrow> newline @ newline @ ''Raw API Response:'' @ newline @ b)"
  using assms deep_original_loop_deepest [OF assms(2)]
  by (simp add: format_error_for_mcp_tool_def get_deep_original_def)

section \<open>What classification answers\<close>

text \<open>The statuses a classification may carry with each code, given the status of the error.\<close>

definition status_fits :: "nat option \<Rightarrow> detected_error \<Rightarrow> bool" where
  "status_fits st d =
     (case de_code d of
        NotFoundCode \<Rightarrow> de_status d = 404
      | RateLimitError \<Rightarrow> de_status d = 429
      | NetworkError \<Rightarrow> de_status d = 500
      | InvalidCursor \<Rightarrow> de_status d = 400
      | AccessDenied \<Rightarrow> de_status d \<in> {401, 403} \<or> st = Some (de_status d)
      | ValidationError \<Rightarrow> de_status d = 400 \<or> st = Some (de_status d)
      | UnexpectedCode \<Rightarrow> (case st of None \<Rightarrow> de_status d = 500 | Some s \<Rightarrow> de_status d = s)
      | _ \<Rightarrow> False)"

lemma status_fits_detected [simp]:
  "status_fits st (detected NotFoundCode n) \<longleftrightarrow> n = 404"
  "status_fits st (detected RateLimitError n) \<longleftrightarrow> n = 429"
  "status_fits st (detected NetworkError n) \<longleftrightarrow> n = 500"
  "status_fits st (detected InvalidCursor n) \<longleftrightarrow> n = 400"
  "status_fits st (detected AccessDenied n) \<longleftrightarrow> n \<in> {401, 403} \<or> st = Some n"
  "status_fits st (detected ValidationError n) \<longleftrightarrow> n = 400 \<or> st = Some n"
  "status_fits st (detected UnexpectedCode n) \<longleftrightarrow> (case st of None \<Rightarrow> n = 500 | Some s \<Rightarrow> n = s)"
  by (simp_all add: status_fits_def detected_def split: option.split)

lemma map_status_fits: "map_status_to_error n = Some d \<Longrightarrow> status_fits st d"
  by (auto simp: map_status_to_error_def split: if_splits)

lemma error_object_fits: "classify_error_object lower obj = Some d \<Longrightarrow> status_fits st d"
  unfolding classify_error_object_def Let_def by (auto split: if_splits)

lemma array_entry_fits:
  assumes "classify_error_array_entry lower obj = Some d"
  shows "status_fits st d"
  using assms map_status_fits unfolding classify_error_array_entry_def Let_def
  by (auto split: if_splits option.splits Option.bind_splits)

lemma bitbucket_fits:
  assumes "classify_bitbucket_error lower root = Some d"
  shows "status_fits st d"
  using assms unfolding classify_bitbucket_error_def
  by (auto split: if_splits option.splits Option.bind_splits list.splits
      intro: map_status_fits error_object_fits array_entry_fits)

text \<open>Classification is well formed: the status always fits the code (404 with not-found, 429 with
  rate limits, 500 with network errors, and so on), is the error's own status where the code leaves
  it open, and the two codes reserved for addresses are never answered.\<close>

theorem detected_status_consistent:
  "status_fits (err_status err) (detect_error_type lower err)
   \<and> de_code (detect_error_type lower err) \<notin> {PrivateIpError, ReservedRangeError}"
proof -
  have "status_fits (err_status err) (detect_error_type lower err)"
    unfolding detect_error_type_def Let_def
    by (auto split: if_splits option.splits Option.bind_splits original_error.splits intro: bitbucket_fits)
  then show ?thesis by (auto simp: status_fits_def split: error_code.splits)
qed

end
