(* ===== verification/Jql.thy ===== *)
theory Jql
  imports Prelude
begin

text \<open>
  The JQL scanner of \<^verbatim>\<open>src/policy/extractors.rs\<close> (module \<open>jira\<close>): the lexer, the structural
  rejection, and the project keys a query is claimed to be restricted to. The loops over indices of
  the token vector are recursions over the tokens that are left. What a claim means is stated over
  a semantics of queries as boolean combinations of clauses.
\<close>

section \<open>The code\<close>

definition MAX_JQL_BYTES :: nat where
  "MAX_JQL_BYTES = 8 * 1024"

definition MAX_JQL_TOKENS :: nat where
  "MAX_JQL_TOKENS = 512"

datatype jql_token = Token (tok_text: string) (tok_quoted: bool)

definition jql_push :: "jql_token list \<Rightarrow> string \<Rightarrow> bool \<Rightarrow> jql_token list option" where
  "jql_push tokens t quoted =
     (if length tokens = MAX_JQL_TOKENS then None else Some (tokens @ [Token t quoted]))"

definition jql_quote :: "char \<Rightarrow> bool" where
  "jql_quote b \<longleftrightarrow> b = CHR 0x22 \<or> b = CHR 0x27"

definition jql_structural :: "char \<Rightarrow> bool" where
  "jql_structural b \<longleftrightarrow> b \<in> {CHR ''='', CHR ''('', CHR '')'', CHR '','', CHR ''!''}"

definition jql_special :: "char \<Rightarrow> bool" where
  "jql_special b \<longleftrightarrow> jql_quote b \<or> jql_structural b \<or> is_ascii_whitespace b"

definition jql_end_word :: "jql_token list \<Rightarrow> string option \<Rightarrow> jql_token list option" where
  "jql_end_word tokens word = (case word of None \<Rightarrow> Some tokens | Some w \<Rightarrow> jql_push tokens w False)"

text \<open>The loop of \<open>lex_jql\<close>: the tokens so far, the word being read, the bytes left. The inner
  loop to the closing quote is \<open>split_once\<close>.\<close>

function lex_loop :: "jql_token list \<Rightarrow> string option \<Rightarrow> string \<Rightarrow> jql_token list option" where
  "lex_loop tokens word [] = jql_end_word tokens word"
| "lex_loop tokens word (b # bs) =
     Option.bind (if jql_special b then jql_end_word tokens word else Some tokens) (\<lambda>tokens.
       if jql_quote b
       then (case split_once b bs of
               None \<Rightarrow> None
             | Some (inside, rest) \<Rightarrow>
                 Option.bind (jql_push tokens inside True) (\<lambda>tokens. lex_loop tokens None rest))
       else if jql_structural b
       then Option.bind (jql_push tokens [b] False) (\<lambda>tokens. lex_loop tokens None bs)
       else if is_ascii_whitespace b then lex_loop tokens None bs
       else lex_loop tokens (Some (case word of None \<Rightarrow> [b] | Some w \<Rightarrow> w @ [b])) bs)"
  by pat_completeness auto
termination
  by (relation "measure (\<lambda>(_, _, s). length s)") (auto dest: split_once_Some)

declare lex_loop.simps(2) [simp del]

definition lex_jql :: "string \<Rightarrow> jql_token list option" where
  "lex_jql jql = lex_loop [] None jql"

definition unquoted :: "jql_token \<Rightarrow> string \<Rightarrow> bool" where
  "unquoted t s \<longleftrightarrow> \<not> tok_quoted t \<and> tok_text t = s"

definition unquoted_word :: "jql_token \<Rightarrow> string \<Rightarrow> bool" where
  "unquoted_word t s \<longleftrightarrow> \<not> tok_quoted t \<and> eq_ignore_ascii_case (tok_text t) s"

text \<open>\<open>is_flat_conjunction\<close>, with the token before the ones left.\<close>

fun flat_from :: "jql_token option \<Rightarrow> jql_token list \<Rightarrow> bool" where
  "flat_from prev [] = True"
| "flat_from prev (t # ts) =
     (if tok_quoted t then flat_from (Some t) ts
      else if tok_text t = ''!'' \<or> eq_ignore_ascii_case (tok_text t) ''or''
        \<or> eq_ignore_ascii_case (tok_text t) ''not'' then False
      else if tok_text t = ''('' \<and> \<not> (case prev of None \<Rightarrow> False | Some p \<Rightarrow> unquoted_word p ''in'') then False
      else flat_from (Some t) ts)"

definition is_flat_conjunction :: "jql_token list \<Rightarrow> bool" where
  "is_flat_conjunction tokens = flat_from None tokens"

definition is_value :: "jql_token \<Rightarrow> bool" where
  "is_value t =
     (if tok_quoted t then tok_text t \<noteq> ''''
      else tok_text t \<noteq> '''' \<and> tok_text t \<notin> {''('', '')'', '','', ''='', ''!''})"

text \<open>\<open>read_in_list\<close>, from the tokens after the operator: the keys and the tokens after the
  closing parenthesis.\<close>

fun in_list_loop :: "bool \<Rightarrow> string list \<Rightarrow> jql_token list \<Rightarrow> (string list \<times> jql_token list) option" where
  "in_list_loop expecting keys [] = None"
| "in_list_loop expecting keys (t # ts) =
     (if unquoted t '')'' then (if expecting then None else Some (keys, ts))
      else if unquoted t '','' then (if expecting then None else in_list_loop True keys ts)
      else if \<not> expecting then None
      else if \<not> is_value t then None
      else in_list_loop False (keys @ [tok_text t]) ts)"

definition read_in_list :: "string list \<Rightarrow> jql_token list \<Rightarrow> (string list \<times> jql_token list) option" where
  "read_in_list keys ts =
     (case ts of
        [] \<Rightarrow> None
      | opening # rest \<Rightarrow> if \<not> unquoted opening ''('' then None else in_list_loop True keys rest)"

lemma in_list_loop_shorter: "in_list_loop e keys ts = Some (keys', rest) \<Longrightarrow> length rest < length ts"
  by (induction e keys ts rule: in_list_loop.induct) (auto split: if_splits)

lemma read_in_list_shorter: "read_in_list keys ts = Some (keys', rest) \<Longrightarrow> length rest < length ts"
  by (auto simp: read_in_list_def split: list.splits if_splits dest: in_list_loop_shorter)

text \<open>The loop of \<open>project_keys_from_jql\<close>.\<close>

function scan_projects :: "string list \<Rightarrow> jql_token list \<Rightarrow> string list option" where
  "scan_projects keys [] = Some keys"
| "scan_projects keys (t # ts) =
     (if \<not> unquoted_word t ''project'' then scan_projects keys ts
      else (case ts of
              [] \<Rightarrow> None
            | operator # rest \<Rightarrow>
                if tok_quoted operator then scan_projects keys ts
                else if tok_text operator = ''=''
                then (case rest of
                        [] \<Rightarrow> None
                      | v # rest \<Rightarrow> if \<not> is_value v then None else scan_projects (keys @ [tok_text v]) rest)
                else if eq_ignore_ascii_case (tok_text operator) ''in''
                then (case read_in_list keys rest of
                        None \<Rightarrow> None
                      | Some (keys, rest) \<Rightarrow> scan_projects keys rest)
                else scan_projects keys ts))"
  by pat_completeness auto
termination
  by (relation "measure (\<lambda>(_, ts). length ts)") (auto dest: read_in_list_shorter)

declare scan_projects.simps(2) [simp del]

definition project_keys_from_jql :: "string \<Rightarrow> string list option" where
  "project_keys_from_jql jql =
     (if MAX_JQL_BYTES < length jql \<or> CHR 0x5C \<in> set jql then None
      else Option.bind (lex_jql jql) (\<lambda>tokens.
        if \<not> is_flat_conjunction tokens then None
        else Option.bind (scan_projects [] tokens) (\<lambda>keys. if keys = [] then None else Some keys)))"

section \<open>Lexing what was printed\<close>

definition token_ok :: "jql_token \<Rightarrow> bool" where
  "token_ok t \<longleftrightarrow>
     (if tok_quoted t then CHR 0x22 \<notin> set (tok_text t)
      else (\<exists>b. jql_structural b \<and> tok_text t = [b])
         \<or> tok_text t \<noteq> '''' \<and> (\<forall>b \<in> set (tok_text t). \<not> jql_special b))"

definition print_token :: "jql_token \<Rightarrow> string" where
  "print_token t = (if tok_quoted t then CHR 0x22 # tok_text t @ [CHR 0x22] else tok_text t)"

definition print_tokens :: "jql_token list \<Rightarrow> string" where
  "print_tokens ts = concat (map (\<lambda>t. print_token t @ '' '') ts)"

lemma special_space [simp]: "jql_special CHR '' ''" "\<not> jql_quote CHR '' ''" "\<not> jql_structural CHR '' ''"
  "is_ascii_whitespace CHR '' ''"
  by (simp_all add: jql_special_def jql_quote_def jql_structural_def is_ascii_whitespace_def)

lemma structural_not_quote: "jql_structural b \<Longrightarrow> \<not> jql_quote b"
  by (auto simp: jql_structural_def jql_quote_def)

lemma quote_special: "jql_quote b \<Longrightarrow> jql_special b" "jql_structural b \<Longrightarrow> jql_special b"
  by (simp_all add: jql_special_def)

lemma lex_loop_word:
  assumes "\<forall>b \<in> set w. \<not> jql_special b"
  shows "lex_loop tokens (Some v) (w @ rest) = lex_loop tokens (Some (v @ w)) rest"
  using assms
proof (induction w arbitrary: v)
  case (Cons b w)
  then show ?case using Cons.IH [of "v @ [b]"] by (simp add: lex_loop.simps(2) jql_special_def)
qed simp

lemma lex_loop_token:
  assumes "token_ok t" "length tokens < MAX_JQL_TOKENS"
  shows "lex_loop tokens None (print_token t @ '' '' @ rest) = lex_loop (tokens @ [t]) None rest"
proof (cases t)
  case (Token s q)
  have pushed: "jql_push tokens s q = Some (tokens @ [Token s q])" using assms(2) by (simp add: jql_push_def)
  have space: "lex_loop ts None ('' '' @ rest) = lex_loop ts None rest" for ts
    by (simp add: lex_loop.simps(2) jql_end_word_def)
  consider "q" | "\<not> q" "\<exists>b. jql_structural b \<and> s = [b]" | "\<not> q" "s \<noteq> ''''" "\<forall>b \<in> set s. \<not> jql_special b"
    using assms(1) Token by (auto simp: token_ok_def split: if_splits)
  then show ?thesis
  proof cases
    case 1
    then have "CHR 0x22 \<notin> set s" using assms(1) Token by (simp add: token_ok_def)
    then have "split_once CHR 0x22 (s @ CHR 0x22 # '' '' @ rest) = Some (s, '' '' @ rest)"
      by (rule split_once_append)
    then show ?thesis using 1 Token pushed space
      by (simp add: print_token_def lex_loop.simps(2) [of _ _ "CHR 0x22"] jql_end_word_def jql_quote_def quote_special)
  next
    case 2
    then obtain b where b: "jql_structural b" "s = [b]" by blast
    then show ?thesis using 2 Token pushed space
      by (simp add: print_token_def lex_loop.simps(2) [of _ _ b] structural_not_quote quote_special jql_end_word_def)
  next
    case 3
    then obtain c w where w: "s = c # w" by (cases s) auto
    have "lex_loop tokens None (c # w @ '' '' @ rest) = lex_loop tokens (Some [c]) (w @ '' '' @ rest)"
      using 3 w by (simp add: lex_loop.simps(2) [of _ _ c] jql_special_def)
    also have "\<dots> = lex_loop tokens (Some s) ('' '' @ rest)"
      using 3 w lex_loop_word [of w tokens "[c]"] by simp
    also have "\<dots> = lex_loop (tokens @ [Token s False]) None rest"
      using pushed 3 by (simp add: lex_loop.simps(2) [of _ _ "CHR '' ''"] jql_end_word_def)
    finally show ?thesis using 3 Token w by (simp add: print_token_def)
  qed
qed

lemma lex_loop_tokens:
  assumes "\<forall>t \<in> set ts. token_ok t" "length tokens + length ts \<le> MAX_JQL_TOKENS"
  shows "lex_loop tokens None (print_tokens ts) = Some (tokens @ ts)"
  using assms
proof (induction ts arbitrary: tokens)
  case Nil
  then show ?case by (simp add: print_tokens_def jql_end_word_def)
next
  case (Cons t ts)
  then show ?case using lex_loop_token [of t tokens "print_tokens ts"] Cons.IH [of "tokens @ [t]"]
    by (simp add: print_tokens_def)
qed

section \<open>What a query selects\<close>

text \<open>A query as Jira reads it: clauses combined by \<open>AND\<close>, \<open>OR\<close>, \<open>NOT\<close> and parentheses, in any
  way, and after it a tail such as \<open>ORDER BY\<close>. A clause restricts the project, excludes projects, or is
  about something else. The words keep their spelling.\<close>

datatype jql_clause =
    ProjectIs string jql_token
  | ProjectIn string string "jql_token list"
  | ProjectIsNot string jql_token
  | ProjectNotIn string string string "jql_token list"
  | OtherClause "jql_token list"

datatype jql_query =
    Clause jql_clause
  | Conj jql_query string jql_query
  | Disj jql_query string jql_query
  | Neg string jql_query
  | Parens jql_query

fun list_tokens :: "jql_token list \<Rightarrow> jql_token list" where
  "list_tokens [] = []"
| "list_tokens [v] = [v]"
| "list_tokens (v # vs) = v # Token '','' False # list_tokens vs"

fun clause_tokens :: "jql_clause \<Rightarrow> jql_token list" where
  "clause_tokens (ProjectIs p v) = [Token p False, Token ''='' False, v]"
| "clause_tokens (ProjectIn p i vs) =
     [Token p False, Token i False, Token ''('' False] @ list_tokens vs @ [Token '')'' False]"
| "clause_tokens (ProjectIsNot p v) = [Token p False, Token ''!'' False, Token ''='' False, v]"
| "clause_tokens (ProjectNotIn p n i vs) =
     [Token p False, Token n False, Token i False, Token ''('' False] @ list_tokens vs @ [Token '')'' False]"
| "clause_tokens (OtherClause ts) = ts"

fun query_tokens :: "jql_query \<Rightarrow> jql_token list" where
  "query_tokens (Clause c) = clause_tokens c"
| "query_tokens (Conj a w b) = query_tokens a @ Token w False # query_tokens b"
| "query_tokens (Disj a w b) = query_tokens a @ Token w False # query_tokens b"
| "query_tokens (Neg w a) = Token w False # query_tokens a"
| "query_tokens (Parens a) = Token ''('' False # query_tokens a @ [Token '')'' False]"

text \<open>Tokens that hold no positive restriction of the project: an unquoted \<open>project\<close> among
  them is not followed by \<open>=\<close> or \<open>in\<close>.\<close>

definition restricts :: "jql_token \<Rightarrow> bool" where
  "restricts t \<longleftrightarrow> unquoted t ''='' \<or> unquoted_word t ''in''"

fun other_ok :: "jql_token list \<Rightarrow> bool" where
  "other_ok [] = True"
| "other_ok [t] = True"
| "other_ok (t # u # ts) = ((unquoted_word t ''project'' \<longrightarrow> \<not> restricts u) \<and> other_ok (u # ts))"

fun clause_ok :: "jql_clause \<Rightarrow> bool" where
  "clause_ok (ProjectIs p v) = (eq_ignore_ascii_case p ''project'' \<and> is_value v)"
| "clause_ok (ProjectIn p i vs) =
     (eq_ignore_ascii_case p ''project'' \<and> eq_ignore_ascii_case i ''in'' \<and> vs \<noteq> [] \<and> list_all is_value vs)"
| "clause_ok (ProjectIsNot p v) = (eq_ignore_ascii_case p ''project'' \<and> is_value v)"
| "clause_ok (ProjectNotIn p n i vs) =
     (eq_ignore_ascii_case p ''project'' \<and> eq_ignore_ascii_case n ''not'' \<and> eq_ignore_ascii_case i ''in''
      \<and> vs \<noteq> [] \<and> list_all is_value vs)"
| "clause_ok (OtherClause ts) = (other_ok ts \<and> (case ts of [] \<Rightarrow> False | t # _ \<Rightarrow> \<not> restricts t))"

fun query_ok :: "jql_query \<Rightarrow> bool" where
  "query_ok (Clause c) = clause_ok c"
| "query_ok (Conj a w b) = (query_ok a \<and> eq_ignore_ascii_case w ''and'' \<and> query_ok b)"
| "query_ok (Disj a w b) = (query_ok a \<and> eq_ignore_ascii_case w ''or'' \<and> query_ok b)"
| "query_ok (Neg w a) = ((w = ''!'' \<or> eq_ignore_ascii_case w ''not'') \<and> query_ok a)"
| "query_ok (Parens a) = query_ok a"

text \<open>Whether a query selects an issue of a project; what the other clauses select is open.\<close>

fun clause_holds :: "(jql_token list \<Rightarrow> bool) \<Rightarrow> string \<Rightarrow> jql_clause \<Rightarrow> bool" where
  "clause_holds other proj (ProjectIs _ v) = (proj = tok_text v)"
| "clause_holds other proj (ProjectIn _ _ vs) = (proj \<in> tok_text ` set vs)"
| "clause_holds other proj (ProjectIsNot _ v) = (proj \<noteq> tok_text v)"
| "clause_holds other proj (ProjectNotIn _ _ _ vs) = (proj \<notin> tok_text ` set vs)"
| "clause_holds other proj (OtherClause ts) = other ts"

fun selects :: "(jql_token list \<Rightarrow> bool) \<Rightarrow> string \<Rightarrow> jql_query \<Rightarrow> bool" where
  "selects other proj (Clause c) = clause_holds other proj c"
| "selects other proj (Conj a _ b) = (selects other proj a \<and> selects other proj b)"
| "selects other proj (Disj a _ b) = (selects other proj a \<or> selects other proj b)"
| "selects other proj (Neg _ a) = (\<not> selects other proj a)"
| "selects other proj (Parens a) = selects other proj a"

fun clause_keys :: "jql_clause \<Rightarrow> string list" where
  "clause_keys (ProjectIs _ v) = [tok_text v]"
| "clause_keys (ProjectIn _ _ vs) = map tok_text vs"
| "clause_keys _ = []"

fun query_clauses :: "jql_query \<Rightarrow> jql_clause list" where
  "query_clauses (Clause c) = [c]"
| "query_clauses (Conj a _ b) = query_clauses a @ query_clauses b"
| "query_clauses (Disj a _ b) = query_clauses a @ query_clauses b"
| "query_clauses (Neg _ a) = query_clauses a"
| "query_clauses (Parens a) = query_clauses a"

fun negative :: "jql_clause \<Rightarrow> bool" where
  "negative (ProjectIsNot _ _) = True"
| "negative (ProjectNotIn _ _ _ _) = True"
| "negative _ = False"

fun conjunctive :: "jql_query \<Rightarrow> bool" where
  "conjunctive (Clause c) = (\<not> negative c)"
| "conjunctive (Conj a _ b) = (conjunctive a \<and> conjunctive b)"
| "conjunctive _ = False"

lemma conjunctive_selects:
  "conjunctive q \<Longrightarrow> selects other proj q \<longleftrightarrow> list_all (clause_holds other proj) (query_clauses q)"
  by (induction q) auto

lemma value_not_structure:
  "is_value v \<Longrightarrow> \<not> unquoted v '')''" "is_value v \<Longrightarrow> \<not> unquoted v '',''"
  by (auto simp: is_value_def unquoted_def split: if_splits)

lemma in_list_loop_tokens:
  assumes "vs \<noteq> []" "list_all is_value vs"
  shows "in_list_loop True keys (list_tokens vs @ Token '')'' False # rest) = Some (keys @ map tok_text vs, rest)"
  using assms
proof (induction vs arbitrary: keys rule: list_tokens.induct)
  case (2 v)
  then show ?case by (auto simp: value_not_structure) (simp_all add: unquoted_def)
next
  case (3 v w vs)
  then show ?case using "3.IH" [of "keys @ [tok_text v]"]
    by (auto simp: value_not_structure) (simp_all add: unquoted_def)
qed simp

lemma project_word: "unquoted_word (Token p False) ''project'' \<longleftrightarrow> eq_ignore_ascii_case p ''project''"
  by (simp add: unquoted_word_def)

lemma in_not_equals: "eq_ignore_ascii_case i ''in'' \<Longrightarrow> i \<noteq> ''=''"
  by (auto simp: eq_ignore_ascii_case_def to_ascii_lowercase_def)

lemma scan_not_project: "\<not> unquoted_word t ''project'' \<Longrightarrow> scan_projects keys (t # ts) = scan_projects keys ts"
  by (simp add: scan_projects.simps(2))

lemma scan_not_restricting:
  "\<not> restricts u \<Longrightarrow> scan_projects keys (t # u # ts) = scan_projects keys (u # ts)"
  by (auto simp: scan_projects.simps(2) [of _ t] restricts_def unquoted_def unquoted_word_def)

lemma scan_other:
  assumes "other_ok ts" "rest = [] \<or> \<not> restricts (hd rest)" "scan_projects keys (ts @ rest) = Some found"
  shows "scan_projects keys rest = Some found"
  using assms
proof (induction ts rule: other_ok.induct)
  case (2 t)
  then show ?case
  proof (cases rest)
    case Nil
    with 2 show ?thesis by (auto simp: scan_projects.simps(2) split: if_splits)
  next
    case (Cons u us)
    with 2 show ?thesis using scan_not_restricting [of u keys t us] by simp
  qed
next
  case (3 t u ts)
  then show ?case
    using scan_not_restricting [of u keys t "ts @ rest"] scan_not_project [of t keys "u # ts @ rest"] by auto
qed simp

lemma scan_clause:
  assumes "clause_ok c" "\<not> negative c" "rest = [] \<or> \<not> restricts (hd rest)"
    and "scan_projects keys (clause_tokens c @ rest) = Some found"
  shows "scan_projects (keys @ clause_keys c) rest = Some found"
  using assms
proof (cases c)
  case (ProjectIs p v)
  with assms show ?thesis by (simp add: scan_projects.simps(2) [of _ "Token p False"] project_word)
next
  case (ProjectIn p i vs)
  with assms in_list_loop_tokens [of vs keys rest] show ?thesis
    by (auto simp: scan_projects.simps(2) [of _ "Token p False"] project_word in_not_equals read_in_list_def unquoted_def)
next
  case (OtherClause ts)
  with assms scan_other [of ts rest keys found] show ?thesis by simp
qed (use assms in simp_all)

lemma and_not_restricting:
  assumes "eq_ignore_ascii_case w ''and''"
  shows "\<not> restricts (Token w False)" "\<not> unquoted_word (Token w False) ''project''" "\<not> unquoted_word (Token w False) ''in''"
  using assms
  by (auto simp: restricts_def unquoted_def unquoted_word_def eq_ignore_ascii_case_def to_ascii_lowercase_def)

lemma scan_query:
  assumes "query_ok q" "conjunctive q" "rest = [] \<or> \<not> restricts (hd rest)"
    and "scan_projects keys (query_tokens q @ rest) = Some found"
  shows "scan_projects (keys @ concat (map clause_keys (query_clauses q))) rest = Some found"
  using assms
proof (induction q arbitrary: keys rest)
  case (Clause c)
  then show ?case using scan_clause [of c rest keys found] by simp
next
  case (Conj a w b)
  note w = and_not_restricting [of w]
  have "scan_projects (keys @ concat (map clause_keys (query_clauses a))) (Token w False # query_tokens b @ rest) = Some found"
    using Conj.IH(1) [of "Token w False # query_tokens b @ rest" keys] Conj.prems w by simp
  with Conj.IH(2) [of rest "keys @ concat (map clause_keys (query_clauses a))"] Conj.prems w
  show ?case by (simp add: scan_not_project)
qed simp_all

text \<open>What the structural rejection is for: of all the ways to combine clauses, only conjunctions of
  positive clauses have tokens that pass it.\<close>

lemma flat_from_append: "flat_from prev (xs @ ys) \<Longrightarrow> \<exists>p. flat_from p ys"
  by (induction prev xs rule: flat_from.induct) (auto split: if_splits)

definition after_in :: "jql_token option \<Rightarrow> bool" where
  "after_in prev \<longleftrightarrow> (case prev of None \<Rightarrow> False | Some p \<Rightarrow> unquoted_word p ''in'')"

lemma flat_from_Cons:
  assumes "flat_from prev (Token w False # ts)"
  shows "w \<noteq> ''!'' \<and> \<not> eq_ignore_ascii_case w ''or'' \<and> \<not> eq_ignore_ascii_case w ''not''
    \<and> (w = ''('' \<longrightarrow> after_in prev) \<and> flat_from (Some (Token w False)) ts"
  using assms by (auto simp: after_in_def split: if_splits)

lemma flat_positive:
  assumes "flat_from prev (clause_tokens c @ rest)" "clause_ok c"
  shows "\<not> negative c"
proof (cases c)
  case (ProjectIsNot p v)
  with assms show ?thesis by (auto split: if_splits)
next
  case (ProjectNotIn p n i vs)
  with assms show ?thesis by (auto split: if_splits)
qed simp_all

lemma flat_conjunctive:
  assumes "flat_from prev (query_tokens q @ rest)" "query_ok q" "\<not> after_in prev"
  shows "conjunctive q"
  using assms
proof (induction q arbitrary: prev rest)
  case (Clause c)
  then show ?case using flat_positive by simp
next
  case (Conj a w b)
  obtain p where p: "flat_from p (Token w False # query_tokens b @ rest)"
    using flat_from_append [of prev "query_tokens a" "Token w False # query_tokens b @ rest"] Conj.prems by auto
  have "conjunctive b"
    using Conj.IH(2) [of "Some (Token w False)" rest] flat_from_Cons [OF p] Conj.prems and_not_restricting [of w]
    by (simp add: after_in_def)
  with Conj.IH(1) [of prev "Token w False # query_tokens b @ rest"] Conj.prems show ?case by simp
next
  case (Disj a w b)
  obtain p where "flat_from p (Token w False # query_tokens b @ rest)"
    using flat_from_append [of prev "query_tokens a" "Token w False # query_tokens b @ rest"] Disj.prems by auto
  from flat_from_Cons [OF this] Disj.prems show ?case by simp
next
  case (Neg w a)
  from flat_from_Cons [of prev w "query_tokens a @ rest"] Neg.prems show ?case by auto
next
  case (Parens a)
  from flat_from_Cons [of prev "''(''" "query_tokens a @ Token '')'' False # rest"] Parens.prems show ?case by simp
qed

section \<open>Properties\<close>

text \<open>C35. Lexing reads back what was printed: any sequence of at most 512 tokens, written with a
  space after each and quoted text in double quotes, lexes to exactly those tokens, so no text
  between quotes can become an operator or a clause.\<close>

theorem lex_print_roundtrip:
  assumes "\<forall>t \<in> set ts. token_ok t" "length ts \<le> MAX_JQL_TOKENS"
  shows "lex_jql (print_tokens ts) = Some ts"
  using lex_loop_tokens [of ts "[]"] assms by (simp add: lex_jql_def)

theorem lex_print_roundtrip_witness:
  "lex_jql (print_tokens [Token ''project'' False, Token ''='' False, Token ''A OR B'' True])
     = Some [Token ''project'' False, Token ''='' False, Token ''A OR B'' True]"
  by (rule lex_print_roundtrip)
     (auto simp: token_ok_def jql_structural_def jql_special_def jql_quote_def is_ascii_whitespace_def MAX_JQL_TOKENS_def)

text \<open>C17. A claim of project keys is sound whatever the query: let the tokens of the text be those of
  any combination of clauses by the words \<open>AND\<close>, \<open>OR\<close>, \<open>NOT\<close>, the sign \<open>!\<close> and parentheses, with a tail
  that restricts nothing. When the scanner claims some keys, every issue the query selects is in a
  project among them, and every claimed key is named by a clause on the project. So a query that
  reaches beyond its named projects by a disjunction or a negation gets no claim.\<close>

theorem jql_claim_sound:
  assumes "lex_jql jql = Some (query_tokens q @ tail)"
    and "query_ok q" "other_ok tail" "tail = [] \<or> \<not> restricts (hd tail)"
    and "project_keys_from_jql jql = Some keys"
    and "selects other proj q"
  shows "proj \<in> set keys \<and> (\<forall>k \<in> set keys. \<exists>c \<in> set (query_clauses q). k \<in> set (clause_keys c))"
proof -
  have scan: "scan_projects [] (query_tokens q @ tail) = Some keys" and nonempty: "keys \<noteq> []"
    and flat: "flat_from None (query_tokens q @ tail)"
    using assms(1,5)
    by (auto simp: project_keys_from_jql_def is_flat_conjunction_def split: if_splits Option.bind_splits)
  have conj: "conjunctive q" using flat_conjunctive [OF flat assms(2)] by (simp add: after_in_def)
  let ?keys = "concat (map clause_keys (query_clauses q))"
  have "scan_projects ?keys tail = Some keys" using scan_query [OF assms(2) conj assms(4) scan] by simp
  then have keys: "keys = ?keys" using scan_other [of tail "[]" ?keys keys] assms(3) by simp
  with nonempty obtain c where c: "c \<in> set (query_clauses q)" "clause_keys c \<noteq> []" by fastforce
  with assms(6) conjunctive_selects [OF conj] have "clause_holds other proj c" by (simp add: list_all_iff)
  with c(2) have "proj \<in> set (clause_keys c)" by (cases c) auto
  then show ?thesis using c(1) keys by auto
qed

theorem jql_claim_sound_witness:
  "''PLAT'' \<in> set [''PLAT'']
   \<and> project_keys_from_jql ''project = PLAT AND text ~ timeout'' = Some [''PLAT'']
   \<and> project_keys_from_jql ''project = PLAT OR text ~ timeout'' = None"
proof -
  let ?q = "Conj (Clause (ProjectIs ''project'' (Token ''PLAT'' False))) ''AND''
    (Clause (OtherClause [Token ''text'' False, Token ''~'' False, Token ''timeout'' False]))"
  have lexed: "lex_jql ''project = PLAT AND text ~ timeout'' = Some (query_tokens ?q @ [])" by code_simp
  have ok: "query_ok ?q" by code_simp
  have claim: "project_keys_from_jql ''project = PLAT AND text ~ timeout'' = Some [''PLAT'']" by code_simp
  have none: "project_keys_from_jql ''project = PLAT OR text ~ timeout'' = None" by code_simp
  have "selects (\<lambda>_. True) ''PLAT'' ?q" by simp
  from jql_claim_sound [OF lexed ok _ _ claim this] claim none show ?thesis by simp
qed

text \<open>The scanner does not know the symbol for a disjunction. It rejects the word \<open>OR\<close>, but a
  query that joins a restriction to a project and any other clause by \<open>||\<close> is claimed to be
  restricted to that project, although an issue of any project that satisfies the other clause is
  selected.\<close>

theorem symbolic_or_claimed:
  assumes "token_ok v" "is_value v" "CHR 0x5C \<notin> set (print_token v)" "length (print_token v) \<le> 8000"
    and "flat_from (Some v) [v]"
  shows "project_keys_from_jql
     (print_tokens [Token ''project'' False, Token ''='' False, v, Token ''||'' False,
        Token ''assignee'' False, Token ''='' False, Token ''bob'' False]) = Some [tok_text v]"
proof -
  let ?ts = "[Token ''project'' False, Token ''='' False, v, Token ''||'' False,
        Token ''assignee'' False, Token ''='' False, Token ''bob'' False]"
  have "\<forall>t \<in> set ?ts. token_ok t"
    using assms(1)
    by (auto simp: token_ok_def jql_structural_def jql_special_def jql_quote_def is_ascii_whitespace_def)
  then have lexed: "lex_jql (print_tokens ?ts) = Some ?ts"
    using lex_loop_tokens [of ?ts "[]"] by (simp add: lex_jql_def MAX_JQL_TOKENS_def)
  have w: "\<not> eq_ignore_ascii_case ''||'' ''or''" "\<not> eq_ignore_ascii_case ''||'' ''not''"
    "\<not> eq_ignore_ascii_case ''assignee'' ''or''" "\<not> eq_ignore_ascii_case ''assignee'' ''not''"
    "\<not> eq_ignore_ascii_case ''bob'' ''or''" "\<not> eq_ignore_ascii_case ''bob'' ''not''"
    "\<not> eq_ignore_ascii_case ''project'' ''or''" "\<not> eq_ignore_ascii_case ''project'' ''not''"
    "\<not> eq_ignore_ascii_case ''='' ''or''" "\<not> eq_ignore_ascii_case ''='' ''not''"
    "eq_ignore_ascii_case ''project'' ''project''" "\<not> eq_ignore_ascii_case ''||'' ''project''"
    "\<not> eq_ignore_ascii_case ''assignee'' ''project''" "\<not> eq_ignore_ascii_case ''bob'' ''project''"
    "\<not> eq_ignore_ascii_case ''='' ''project''"
    by code_simp+
  have "flat_from p [v] = flat_from q [v]" if "tok_quoted v \<or> tok_text v \<noteq> ''(''" for p q
    using that by auto
  have flat: "is_flat_conjunction ?ts"
    using assms(2,5) w by (auto simp: is_flat_conjunction_def is_value_def split: if_splits)
  have scan: "scan_projects [] ?ts = Some [tok_text v]"
    using assms(2) w by (simp add: scan_projects.simps(2) unquoted_word_def)
  have "length (print_tokens ?ts) \<le> MAX_JQL_BYTES" "CHR 0x5C \<notin> set (print_tokens ?ts)"
    using assms(3,4) by (simp_all add: print_tokens_def print_token_def MAX_JQL_BYTES_def)
  with lexed flat scan show ?thesis by (simp add: project_keys_from_jql_def)
qed

theorem symbolic_or_claimed_witness:
  "project_keys_from_jql ''project = PUBLIC || assignee = bob '' = Some [''PUBLIC'']"
proof -
  let ?v = "Token ''PUBLIC'' False"
  have "token_ok ?v"
    by (auto simp: token_ok_def jql_structural_def jql_special_def jql_quote_def is_ascii_whitespace_def)
  moreover have "is_value ?v" "flat_from (Some ?v) [?v]" by code_simp+
  ultimately show ?thesis using symbolic_or_claimed [of ?v] by (simp add: print_tokens_def print_token_def)
qed

end
