(* ===== verification/Extractors.thy ===== *)
theory Extractors
  imports Policy_Types Jql Json "HOL-Library.Product_Lexorder"
begin

text \<open>
  The resource extractors, \<^verbatim>\<open>src/policy/extractors.rs\<close> and \<^verbatim>\<open>src/policy/native.rs\<close>: what a
  request on the wire, or a tool call before it is dispatched, is classified as. They are pure; the
  hash, the form serializer of the \<^verbatim>\<open>url\<close> crate and the compact printer of \<^verbatim>\<open>serde_json\<close>
  are arguments. A \<open>CanonicalPath\<close> is the text \<open>Canonical\<close> computes, the arguments of a tool are the
  fields of a JSON object.
\<close>

section \<open>Query attributes\<close>

datatype retention = Enumerated "string list" | DigestOnly

definition MAX_ATTRIBUTE_VALUE :: nat where
  "MAX_ATTRIBUTE_VALUE = 256"

definition parse_enumerated :: "string \<Rightarrow> string list \<Rightarrow> string option" where
  "parse_enumerated v allowed = find (\<lambda>candidate. eq_ignore_ascii_case candidate (trim v)) allowed"

definition retain :: "(string \<Rightarrow> string) \<Rightarrow> string \<Rightarrow> retention \<Rightarrow> string" where
  "retain sha v r =
     (if MAX_ATTRIBUTE_VALUE < length v then expression_digest sha v
      else (case (case r of Enumerated allowed \<Rightarrow> parse_enumerated v allowed | DigestOnly \<Rightarrow> None) of
              Some parsed \<Rightarrow> parsed
            | None \<Rightarrow> expression_digest sha v))"

definition allowlisted_attributes ::
  "(string \<Rightarrow> string) \<Rightarrow> (string \<times> string) list \<Rightarrow> (string \<times> retention) list \<Rightarrow> (string \<times> string) list" where
  "allowlisted_attributes sha params allowlist =
     sort (List.map_filter
       (\<lambda>(key, v). map_option (\<lambda>r. (key, retain sha v r)) (map_of allowlist key)) params)"

section \<open>Grafana\<close>

definition QUERY_LOGS_ALLOWLIST :: "(string \<times> retention) list" where
  "QUERY_LOGS_ALLOWLIST =
     [(''direction'', Enumerated [''backward'', ''forward'']), (''end'', DigestOnly), (''limit'', DigestOnly),
      (''query'', DigestOnly), (''start'', DigestOnly), (''step'', DigestOnly)]"

definition PROXY_PREFIX :: "string list" where
  "PROXY_PREFIX = [''api'', ''datasources'', ''proxy'', ''uid'']"

definition LOKI_QUERY_RANGE :: "string list" where
  "LOKI_QUERY_RANGE = [''loki'', ''api'', ''v1'', ''query_range'']"

definition MAX_UID_LEN :: nat where
  "MAX_UID_LEN = 64"

definition is_valid_datasource_uid :: "string \<Rightarrow> bool" where
  "is_valid_datasource_uid uid \<longleftrightarrow>
     uid \<noteq> '''' \<and> length uid \<le> MAX_UID_LEN
     \<and> list_all (\<lambda>b. is_ascii_alphanumeric b \<or> b = CHR ''-'' \<or> b = CHR ''_'') uid"

definition path_or_root :: "string list \<Rightarrow> string" where
  "path_or_root segments = (case from_plain_segments segments of None \<Rightarrow> root_path | Some p \<Rightarrow> p)"

definition proxy_prefix_path :: string where
  "proxy_prefix_path = path_or_root PROXY_PREFIX"

definition query_logs :: "(string \<Rightarrow> string) \<Rightarrow> string \<Rightarrow> (string \<times> string) list \<Rightarrow> action_details" where
  "query_logs sha uid params =
     (case (if is_valid_datasource_uid uid
            then from_plain_segments (PROXY_PREFIX @ [uid] @ LOKI_QUERY_RANGE) else None) of
        Some path \<Rightarrow>
          details_read QueryLogs path (allowlisted_attributes sha params QUERY_LOGS_ALLOWLIST) Datasource (scope_id uid)
      | None \<Rightarrow>
          details_unclassified_with_attributes Get proxy_prefix_path
            (allowlisted_attributes sha params QUERY_LOGS_ALLOWLIST))"

definition list_datasources :: action_details where
  "list_datasources =
     details_read ListDatasources (path_or_root [''api'', ''datasources'']) [] Datasource Collection"

definition path_segments :: "string \<Rightarrow> string list" where
  "path_segments path = filter (\<lambda>part. part \<noteq> '''') (split_char CHR ''/'' path)"

definition grafana_extract ::
  "(string \<Rightarrow> string) \<Rightarrow> http_method \<Rightarrow> string \<Rightarrow> (string \<times> string) list \<Rightarrow> action_details" where
  "grafana_extract sha method path query =
     (if method \<noteq> Get then details_unclassified method path
      else (let segments = path_segments path in
        if 10 < length segments then details_unclassified method path
        else if segments = [''api'', ''datasources''] then list_datasources
        else if length segments = 9 \<and> take 4 segments = PROXY_PREFIX \<and> drop 5 segments = LOKI_QUERY_RANGE
          \<and> is_valid_datasource_uid (segments ! 4)
        then query_logs sha (segments ! 4) query
        else details_unclassified method path))"

section \<open>Slack\<close>

definition FLAG :: retention where
  "FLAG = Enumerated [''true'', ''false'']"

definition LIST_ALLOWLIST :: "(string \<times> retention) list" where
  "LIST_ALLOWLIST =
     [(''cursor'', DigestOnly), (''exclude_archived'', FLAG), (''limit'', DigestOnly), (''types'', DigestOnly)]"

definition HISTORY_ALLOWLIST :: "(string \<times> retention) list" where
  "HISTORY_ALLOWLIST =
     [(''cursor'', DigestOnly), (''inclusive'', FLAG), (''latest'', DigestOnly), (''limit'', DigestOnly),
      (''oldest'', DigestOnly), (''ts'', DigestOnly)]"

definition SEARCH_ALLOWLIST :: "(string \<times> retention) list" where
  "SEARCH_ALLOWLIST =
     [(''count'', DigestOnly), (''page'', DigestOnly), (''query'', DigestOnly),
      (''sort'', Enumerated [''score'', ''timestamp'']), (''sort_dir'', Enumerated [''asc'', ''desc''])]"

definition MAX_ID_LEN :: nat where
  "MAX_ID_LEN = 64"

definition is_valid_channel_id :: "string \<Rightarrow> bool" where
  "is_valid_channel_id i \<longleftrightarrow>
     i \<noteq> '''' \<and> length i \<le> MAX_ID_LEN \<and> list_all (\<lambda>b. is_ascii_uppercase b \<or> is_ascii_digit b) i"

definition is_valid_message_ts :: "string \<Rightarrow> bool" where
  "is_valid_message_ts ts =
     (case split_once CHR ''.'' ts of
        None \<Rightarrow> False
      | Some (seconds, fraction) \<Rightarrow>
          seconds \<noteq> '''' \<and> fraction \<noteq> '''' \<and> length ts \<le> 32
          \<and> list_all is_ascii_digit seconds \<and> list_all is_ascii_digit fraction)"

definition method_path :: "string \<Rightarrow> string" where
  "method_path m = path_or_root [m]"

definition list_channels :: "(string \<Rightarrow> string) \<Rightarrow> (string \<times> string) list \<Rightarrow> action_details" where
  "list_channels sha params =
     details_read ListChannels (method_path ''conversations.list'')
       (allowlisted_attributes sha params LIST_ALLOWLIST) Channel Collection"

definition channel_read ::
  "(string \<Rightarrow> string) \<Rightarrow> normalized_action \<Rightarrow> string \<Rightarrow> string \<Rightarrow> (string \<times> string) list \<Rightarrow> action_details" where
  "channel_read sha action m channel params =
     (if is_valid_channel_id channel
      then details_read action (method_path m) (allowlisted_attributes sha params HISTORY_ALLOWLIST) Channel
             (scope_id channel)
      else details_unclassified_with_attributes Get (method_path m)
             (allowlisted_attributes sha params HISTORY_ALLOWLIST))"

definition channel_info :: "(string \<Rightarrow> string) \<Rightarrow> string \<Rightarrow> action_details" where
  "channel_info sha channel = channel_read sha ReadChannel ''conversations.info'' channel []"

definition channel_history :: "(string \<Rightarrow> string) \<Rightarrow> string \<Rightarrow> (string \<times> string) list \<Rightarrow> action_details" where
  "channel_history sha channel params = channel_read sha ReadChannelHistory ''conversations.history'' channel params"

definition thread_replies :: "(string \<Rightarrow> string) \<Rightarrow> string \<Rightarrow> (string \<times> string) list \<Rightarrow> action_details" where
  "thread_replies sha channel params = channel_read sha ReadThread ''conversations.replies'' channel params"

definition search_messages :: "(string \<Rightarrow> string) \<Rightarrow> (string \<times> string) list \<Rightarrow> action_details" where
  "search_messages sha params =
     details_read SearchMessages (method_path ''search.messages'')
       (allowlisted_attributes sha params SEARCH_ALLOWLIST) Channel Unscoped"

definition slack_extract ::
  "(string \<Rightarrow> string) \<Rightarrow> http_method \<Rightarrow> string \<Rightarrow> (string \<times> string) list \<Rightarrow> action_details" where
  "slack_extract sha method path query =
     (if method \<noteq> Get then details_unclassified method path
      else (let channels = map snd (filter (\<lambda>(key, _). key = ''channel'') query);
                channel = (case channels of [] \<Rightarrow> '''' | c # _ \<Rightarrow> c) in
        if 1 < length channels then details_unclassified method path
        else if path = ''/conversations.list'' then list_channels sha query
        else if path = ''/conversations.info'' then channel_info sha channel
        else if path = ''/conversations.history'' then channel_history sha channel query
        else if path = ''/conversations.replies'' then thread_replies sha channel query
        else if path = ''/search.messages'' then search_messages sha query
        else details_unclassified method path))"

section \<open>Jira\<close>

definition SEARCH_QUERY_ALLOWLIST :: "(string \<times> retention) list" where
  "SEARCH_QUERY_ALLOWLIST = [(''fields'', DigestOnly), (''jql'', DigestOnly), (''maxResults'', DigestOnly)]"

definition SEARCH_BODY_JQL_FIELD :: string where
  "SEARCH_BODY_JQL_FIELD = ''jql''"

definition MAX_PATH_SEGMENTS :: nat where
  "MAX_PATH_SEGMENTS = 8"

datatype jira_route = RouteReadIssue string | RouteListProjects | RouteReadProject string | RouteSearch | RouteUnmapped

definition is_plain_id :: "string \<Rightarrow> bool" where
  "is_plain_id segment \<longleftrightarrow> segment \<noteq> '''' \<and> CHR ''%'' \<notin> set segment"

definition jira_classify :: "http_method \<Rightarrow> string \<Rightarrow> jira_route" where
  "jira_classify method path =
     (let segments = path_segments path in
      if MAX_PATH_SEGMENTS < length segments then RouteUnmapped
      else if method = Get \<and> length segments = 5 \<and> take 4 segments = [''rest'', ''api'', ''3'', ''issue'']
        \<and> is_plain_id (segments ! 4)
      then RouteReadIssue (segments ! 4)
      else if method = Get \<and> segments = [''rest'', ''api'', ''3'', ''project''] then RouteListProjects
      else if method = Get \<and> length segments = 5 \<and> take 4 segments = [''rest'', ''api'', ''3'', ''project'']
        \<and> is_plain_id (segments ! 4)
      then RouteReadProject (segments ! 4)
      else if (method = Get \<or> method = Post) \<and> segments = [''rest'', ''api'', ''3'', ''search'', ''jql'']
      then RouteSearch
      else RouteUnmapped)"

definition search_details ::
  "http_method \<Rightarrow> string \<Rightarrow> (string \<times> string) list \<Rightarrow> string option \<Rightarrow> action_details" where
  "search_details method path attributes jql =
     (let constraint = Option.bind (Option.bind jql project_keys_from_jql) (constraint_ids Project) in
      if method = Get
      then details_constrained_by (details_read SearchIssues path attributes Issue Unscoped) constraint
      else details_constrained_by (details_read_downgrade JIRA_SEARCH_JQL attributes Unscoped) constraint)"

definition jira_extract ::
  "(string \<Rightarrow> string) \<Rightarrow> http_method \<Rightarrow> string \<Rightarrow> (string \<times> string) list \<Rightarrow> json option \<Rightarrow> action_details" where
  "jira_extract sha method path query body =
     (case jira_classify method path of
        RouteReadIssue key \<Rightarrow>
          details_read ReadIssue path (allowlisted_attributes sha query [(''fields'', DigestOnly)]) Issue (scope_id key)
      | RouteListProjects \<Rightarrow> details_read ReadProject path [] Project Collection
      | RouteReadProject key \<Rightarrow> details_read ReadProject path [] Project (scope_id key)
      | RouteSearch \<Rightarrow>
          (case (if method = Post
                 then (Option.bind (Option.bind body (\<lambda>v. json_get v SEARCH_BODY_JQL_FIELD)) as_str, [])
                 else (map_of query ''jql'', allowlisted_attributes sha query SEARCH_QUERY_ALLOWLIST)) of
             (jql, attributes) \<Rightarrow> search_details method path attributes jql)
      | RouteUnmapped \<Rightarrow> details_unclassified method path)"

section \<open>The native inventory\<close>

definition native_read :: "string \<Rightarrow> action_details" where
  "native_read path = details_read ReadVendorResource path [] VendorResource Unscoped"

text \<open>The patterns of \<open>endpoint\<close>, by vendor.\<close>

definition native_patterns :: "string \<Rightarrow> string list" where
  "native_patterns vendor =
     (if vendor = ''github'' then
        [''/user/repos'', ''/orgs/*/repos'', ''/users/*/repos'', ''/repos/*/*/contents/**'',
         ''/repos/*/*/pulls'', ''/repos/*/*/pulls/*'', ''/repos/*/*/pulls/*/files'',
         ''/repos/*/*/issues'', ''/repos/*/*/issues/*'', ''/repos/*/*/actions/runs'',
         ''/repos/*/*/actions/workflows/*/runs'', ''/repos/*/*/actions/runs/*/jobs'',
         ''/repos/*/*/actions/jobs/*/logs'']
      else if vendor = ''gitlab'' then
        [''/projects'', ''/groups/*/projects'', ''/projects/*/repository/files/*'',
         ''/projects/*/merge_requests'', ''/projects/*/merge_requests/*'',
         ''/projects/*/merge_requests/*/diffs'', ''/projects/*/issues'', ''/projects/*/issues/*'',
         ''/projects/*/pipelines'', ''/projects/*/pipelines/*/jobs'', ''/projects/*/jobs/*/trace'']
      else if vendor = ''figma'' then
        [''/v1/files/*'', ''/v1/files/*/nodes'', ''/v1/files/*/components'',
         ''/v1/files/*/comments'', ''/v1/images/*'']
      else if vendor = ''vercel'' then
        [''/v9/projects'', ''/v6/deployments'', ''/v13/deployments/*'',
         ''/v3/deployments/*/events'']
      else if vendor = ''sentry'' then
        [''/api/0/organizations/*/projects'', ''/api/0/organizations/*/issues'',
         ''/api/0/organizations/*/issues/*'', ''/api/0/organizations/*/issues/*/events/*'',
         ''/api/0/organizations/*/releases'']
      else if vendor = ''snyk'' then
        [''/rest/orgs'', ''/rest/orgs/*/projects'', ''/rest/orgs/*/projects/*'',
         ''/rest/orgs/*/issues'']
      else if vendor = ''mend'' then
        [''/api/v3.0/orgs/*/applications'', ''/api/v3.0/orgs/*/projects'',
         ''/api/v3.0/projects/*/dependencies/findings/security'']
      else if vendor = ''artifactory'' then
        [''/api/repositories'', ''/api/storage/*/**'', ''/api/build/*/*'']
      else [])"

definition NATIVE_TOOLS :: "string list" where
  "NATIVE_TOOLS =
     [''github_get_job_logs'', ''github_list_repositories'', ''github_get_file'',
      ''github_list_pull_requests'', ''github_get_pull_request'',
      ''github_get_pull_request_diff'', ''github_list_issues'', ''github_get_issue'',
      ''github_list_workflow_runs'', ''github_list_workflow_jobs'', ''gitlab_list_projects'',
      ''gitlab_get_file'', ''gitlab_list_merge_requests'', ''gitlab_get_merge_request'',
      ''gitlab_get_merge_request_diff'', ''gitlab_list_issues'', ''gitlab_get_issue'',
      ''gitlab_list_pipelines'', ''gitlab_list_pipeline_jobs'', ''gitlab_get_job_trace'',
      ''figma_export_images'', ''figma_get_file'', ''figma_get_nodes'',
      ''figma_list_components'', ''figma_list_comments'', ''vercel_list_projects'',
      ''vercel_list_deployments'', ''vercel_get_deployment'', ''vercel_get_deployment_logs'',
      ''sentry_list_projects'', ''sentry_search_issues'', ''sentry_get_issue'',
      ''sentry_get_event'', ''sentry_list_releases'', ''artifactory_download'',
      ''artifactory_list_repositories'', ''artifactory_search'', ''artifactory_get_file_info'',
      ''artifactory_get_build_info'', ''snyk_list_orgs'', ''snyk_list_projects'',
      ''snyk_list_issues'', ''snyk_get_project'', ''mend_list_applications'',
      ''mend_list_projects'', ''mend_get_project'', ''mend_list_findings'']"

text \<open>The loop of \<open>matches_path\<close> over the parts of the pattern and those of the path.\<close>

fun match_parts :: "string list \<Rightarrow> string list \<Rightarrow> bool" where
  "match_parts [] parts = (parts = [])"
| "match_parts (expected # es) parts =
     (if expected = ''**'' then parts \<noteq> []
      else (case parts of
              [] \<Rightarrow> False
            | part # ps \<Rightarrow>
                if part = '''' \<or> (expected \<noteq> ''*'' \<and> expected \<noteq> part) then False else match_parts es ps))"

definition matches_path :: "string \<Rightarrow> string \<Rightarrow> bool" where
  "matches_path pat path =
     match_parts (split_char CHR ''/'' (trim_matches CHR ''/'' pat)) (split_char CHR ''/'' (trim_matches CHR ''/'' path))"

definition native_endpoint :: "string \<Rightarrow> string \<Rightarrow> bool" where
  "native_endpoint vendor path = list_ex (\<lambda>pat. matches_path pat path) (native_patterns vendor)"

definition native_tool :: "string \<Rightarrow> bool" where
  "native_tool tool \<longleftrightarrow> tool \<in> set NATIVE_TOOLS"

section \<open>Dispatch\<close>

definition for_vendor ::
  "(string \<Rightarrow> string) \<Rightarrow> string \<Rightarrow> http_method \<Rightarrow> canonical_target \<Rightarrow> json option \<Rightarrow> action_details" where
  "for_vendor sha vendor method target body =
     (if method = Get \<and> native_endpoint vendor (target_path target) then native_read (target_path target)
      else if vendor \<in> {''mend'', ''artifactory''} \<and> method = Post
      then details_native_post_read vendor (target_path target)
      else if vendor = ''grafana'' then grafana_extract sha method (target_path target) (target_query target)
      else if vendor = ''jira'' then jira_extract sha method (target_path target) (target_query target) body
      else if vendor = ''slack'' then slack_extract sha method (target_path target) (target_query target)
      else details_unclassified method (target_path target))"

type_synonym arguments = "(string \<times> json) list option"

definition argument :: "arguments \<Rightarrow> string \<Rightarrow> json option" where
  "argument args key = Option.bind args (\<lambda>fields. map_of fields key)"

definition argument_text :: "arguments \<Rightarrow> string \<Rightarrow> string option" where
  "argument_text args key = Option.bind (argument args key) as_str"

definition text_or_default :: "arguments \<Rightarrow> string \<Rightarrow> string" where
  "text_or_default args key = (case argument_text args key of None \<Rightarrow> '''' | Some v \<Rightarrow> v)"

text \<open>The parameters pushed for the textual arguments of a list of (parameter, argument) names, and
  for an optional text.\<close>

definition push_texts :: "arguments \<Rightarrow> (string \<times> string) list \<Rightarrow> (string \<times> string) list" where
  "push_texts args names =
     List.map_filter (\<lambda>(key, name). map_option (\<lambda>v. (key, v)) (argument_text args name)) names"

definition push_optional :: "string \<Rightarrow> string option \<Rightarrow> (string \<times> string) list" where
  "push_optional key v = (case v of None \<Rightarrow> [] | Some v \<Rightarrow> [(key, v)])"

definition bool_text :: "bool \<Rightarrow> string" where
  "bool_text b = (if b then ''true'' else ''false'')"

definition flag_argument :: "arguments \<Rightarrow> string \<Rightarrow> string option" where
  "flag_argument args name = map_option bool_text (Option.bind (argument args name) as_bool)"

definition printed_argument :: "(json \<Rightarrow> string) \<Rightarrow> arguments \<Rightarrow> string \<Rightarrow> string option" where
  "printed_argument show_json args name = map_option show_json (argument args name)"

definition slack_tool :: "(string \<Rightarrow> string) \<Rightarrow> (json \<Rightarrow> string) \<Rightarrow> string \<Rightarrow> arguments \<Rightarrow> action_details" where
  "slack_tool sha show_json tool args =
     (if tool = ''slack_list_channels''
      then list_channels sha
        (push_texts args [(''types'', ''types''), (''cursor'', ''cursor'')]
         @ push_optional ''limit'' (printed_argument show_json args ''limit'')
         @ push_optional ''exclude_archived'' (flag_argument args ''excludeArchived''))
      else if tool = ''slack_channel_info'' then channel_info sha (text_or_default args ''channelId'')
      else if tool = ''slack_channel_history'' \<or> tool = ''slack_thread_replies''
      then (let channel = text_or_default args ''channelId'';
                params = push_texts args [(''oldest'', ''oldest''), (''latest'', ''latest''), (''cursor'', ''cursor'')]
                  @ push_optional ''limit'' (printed_argument show_json args ''limit'')
                  @ push_optional ''inclusive'' (flag_argument args ''inclusive'')
            in if tool = ''slack_thread_replies''
               then thread_replies sha channel (params @ push_texts args [(''ts'', ''threadTs'')])
               else channel_history sha channel params)
      else if tool = ''slack_search_messages''
      then search_messages sha
        (push_texts args [(''query'', ''query''), (''sort'', ''sort''), (''sort_dir'', ''sortDir'')]
         @ push_optional ''count'' (printed_argument show_json args ''count'')
         @ push_optional ''page'' (printed_argument show_json args ''page''))
      else details_unmapped_tool Read)"

text \<open>The path and query a passthrough tool will send, as \<open>passthrough_details\<close> assembles it.\<close>

definition passthrough_path :: "((string \<times> string) list \<Rightarrow> string) \<Rightarrow> arguments \<Rightarrow> string" where
  "passthrough_path form_urlencode args =
     (let path = text_or_default args ''path'' in
      case Option.bind (argument args ''queryParams'') as_object of
        None \<Rightarrow> path
      | Some query \<Rightarrow>
          (let encoded = form_urlencode
                 (List.map_filter (\<lambda>(key, v). map_option (\<lambda>s. (key, s)) (as_str v)) query) in
           if encoded = '''' then path
           else path @ (if CHR ''?'' \<in> set path then ''&'' else ''?'') @ encoded))"

definition passthrough_details ::
  "((string \<times> string) list \<Rightarrow> string) \<Rightarrow> http_method \<Rightarrow> arguments
     \<Rightarrow> (canonical_target \<Rightarrow> (string \<times> string) list \<Rightarrow> json option \<Rightarrow> action_details) \<Rightarrow> action_details" where
  "passthrough_details form_urlencode method args extract =
     (case parse_target (passthrough_path form_urlencode args) of
        Inl _ \<Rightarrow> details_unclassified method root_path
      | Inr target \<Rightarrow> extract target (target_query target) (argument args ''body''))"

definition verb_method :: "string \<Rightarrow> string \<Rightarrow> http_method" where
  "verb_method vendor tool =
     (if tool = vendor @ ''_get'' then Get
      else if tool = vendor @ ''_post'' then Post
      else if tool = vendor @ ''_put'' then Put
      else if tool = vendor @ ''_patch'' then Patch
      else Delete)"

definition verb_tool :: "string \<Rightarrow> string \<Rightarrow> bool" where
  "verb_tool vendor tool \<longleftrightarrow>
     tool \<in> {vendor @ ''_get'', vendor @ ''_post'', vendor @ ''_put'', vendor @ ''_patch'', vendor @ ''_delete''}"

text \<open>The literal \<open>"/"\<close> parses, so the \<open>expect\<close> of \<open>for_tool\<close> never fires and its path is the root.\<close>

definition for_tool ::
  "(string \<Rightarrow> string) \<Rightarrow> (json \<Rightarrow> string) \<Rightarrow> ((string \<times> string) list \<Rightarrow> string) \<Rightarrow> string \<Rightarrow> arguments \<Rightarrow> request_risk
     \<Rightarrow> action_details" where
  "for_tool sha show_json form_urlencode tool args declared_risk =
     (if native_tool tool then native_read root_path
      else if tool = ''grafana_list_datasources'' then list_datasources
      else if tool = ''grafana_query_logs''
      then query_logs sha (text_or_default args ''datasourceUid'')
        (push_texts args [(''query'', ''query''), (''start'', ''start''), (''end'', ''end''),
           (''direction'', ''direction''), (''step'', ''step'')]
         @ push_optional ''limit'' (printed_argument show_json args ''limit''))
      else if tool \<in> {''slack_list_channels'', ''slack_channel_info'', ''slack_channel_history'',
          ''slack_thread_replies'', ''slack_search_messages''}
      then slack_tool sha show_json tool args
      else if verb_tool ''slack'' tool
      then passthrough_details form_urlencode (verb_method ''slack'' tool) args
        (\<lambda>target query _. slack_extract sha (verb_method ''slack'' tool) (target_path target) query)
      else if verb_tool ''jira'' tool
      then passthrough_details form_urlencode (verb_method ''jira'' tool) args
        (\<lambda>target query body. jira_extract sha (verb_method ''jira'' tool) (target_path target) query body)
      else details_unmapped_tool declared_risk)"

lemma static_path_parses: "parse_path ''/'' = Inr root_path"
  by code_simp

section \<open>What attributes carry\<close>

definition VOCABULARY :: "string list" where
  "VOCABULARY = [''backward'', ''forward'', ''true'', ''false'', ''score'', ''timestamp'', ''asc'', ''desc'']"

definition ATTRIBUTE_KEYS :: "string list" where
  "ATTRIBUTE_KEYS = map fst
     (QUERY_LOGS_ALLOWLIST @ LIST_ALLOWLIST @ HISTORY_ALLOWLIST @ SEARCH_ALLOWLIST @ SEARCH_QUERY_ALLOWLIST)"

definition redacted :: "(string \<Rightarrow> string) \<Rightarrow> (string \<times> string) list \<Rightarrow> bool" where
  "redacted sha attributes \<longleftrightarrow>
     (\<forall>(key, v) \<in> set attributes. key \<in> set ATTRIBUTE_KEYS \<and> (v \<in> set VOCABULARY \<or> (\<exists>x. v = expression_digest sha x)))"

definition allowlist_ok :: "(string \<times> retention) list \<Rightarrow> bool" where
  "allowlist_ok allowlist =
     list_all (\<lambda>(key, r). key \<in> set ATTRIBUTE_KEYS
       \<and> (case r of Enumerated vs \<Rightarrow> list_all (\<lambda>v. v \<in> set VOCABULARY) vs | DigestOnly \<Rightarrow> True)) allowlist"

lemma allowlists_ok [simp]:
  "allowlist_ok QUERY_LOGS_ALLOWLIST" "allowlist_ok LIST_ALLOWLIST" "allowlist_ok HISTORY_ALLOWLIST"
  "allowlist_ok SEARCH_ALLOWLIST" "allowlist_ok SEARCH_QUERY_ALLOWLIST" "allowlist_ok [(''fields'', DigestOnly)]"
  by code_simp+

lemma retain_redacted:
  assumes "case r of Enumerated vs \<Rightarrow> list_all (\<lambda>v. v \<in> set VOCABULARY) vs | DigestOnly \<Rightarrow> True"
  shows "retain sha v r \<in> set VOCABULARY \<or> (\<exists>x. retain sha v r = expression_digest sha x)"
proof (cases r)
  case (Enumerated vs)
  have "parse_enumerated v vs = Some w \<Longrightarrow> w \<in> set VOCABULARY" for w
    using assms Enumerated by (auto simp: parse_enumerated_def find_Some_iff list_all_iff)
  then show ?thesis using Enumerated by (auto simp: retain_def split: option.split)
qed (auto simp: retain_def)

lemma allowlisted_redacted [simp]:
  assumes "allowlist_ok allowlist"
  shows "redacted sha (allowlisted_attributes sha params allowlist)"
proof -
  have "key \<in> set ATTRIBUTE_KEYS \<and> (v \<in> set VOCABULARY \<or> (\<exists>x. v = expression_digest sha x))"
    if attr: "(key, v) \<in> set (allowlisted_attributes sha params allowlist)" for key v
  proof -
    from attr obtain raw r where r: "map_of allowlist key = Some r" "v = retain sha raw r"
      by (auto simp: allowlisted_attributes_def List.map_filter_def)
    then have "(key, r) \<in> set allowlist" by (simp add: map_of_SomeD)
    with assms have "key \<in> set ATTRIBUTE_KEYS"
      "case r of Enumerated vs \<Rightarrow> list_all (\<lambda>v. v \<in> set VOCABULARY) vs | DigestOnly \<Rightarrow> True"
      by (auto simp: allowlist_ok_def list_all_iff)
    with retain_redacted [of r sha raw] r(2) show ?thesis by simp
  qed
  then show ?thesis by (auto simp: redacted_def)
qed

lemma redacted_Nil [simp]: "redacted sha []"
  by (simp add: redacted_def)

lemma redacted_if:
  "redacted sha (det_attributes x) \<Longrightarrow> redacted sha (det_attributes y) \<Longrightarrow>
     redacted sha (det_attributes (if b then x else y))"
  by simp

lemma details_attributes [simp]:
  "det_attributes (details_read a p as rt sc) = as"
  "det_attributes (details_read_downgrade dg as sc) = as"
  "det_attributes (details_unclassified m p) = []"
  "det_attributes (details_unmapped_tool risk) = []"
  "det_attributes (details_native_post_read vendor p) = []"
  "det_attributes (details_constrained_by d c) = det_attributes d"
  "det_attributes (details_unclassified_with_attributes m p as) = as"
  by (simp_all add: details_read_def details_read_downgrade_def details_unclassified_def details_unmapped_tool_def
      details_native_post_read_def details_constrained_by_def details_unclassified_with_attributes_def Let_def)

lemma extract_redacted [simp]:
  "redacted sha (det_attributes (query_logs sha uid params))"
  "redacted sha (det_attributes list_datasources)"
  "redacted sha (det_attributes (list_channels sha params))"
  "redacted sha (det_attributes (channel_read sha act m channel params))"
  "redacted sha (det_attributes (search_messages sha params))"
  "redacted sha (det_attributes (native_read path))"
  by (auto simp: query_logs_def list_datasources_def list_channels_def channel_read_def search_messages_def
      native_read_def split: option.split)

lemma vendor_extract_redacted [simp]:
  "redacted sha (det_attributes (grafana_extract sha method path query))"
  "redacted sha (det_attributes (slack_extract sha method path query))"
  "redacted sha (det_attributes (jira_extract sha method path query body))"
  by (simp_all add: grafana_extract_def slack_extract_def jira_extract_def search_details_def Let_def
      channel_info_def channel_history_def thread_replies_def split: jira_route.split)

section \<open>Risk\<close>

lemma details_risk [simp]:
  "det_risk (details_read a p as rt sc) = Read" "det_method (details_read a p as rt sc) = Get"
  "det_risk (details_read_downgrade dg as sc) = Read" "det_method (details_read_downgrade dg as sc) = down_method dg"
  "det_risk (details_unclassified m p) = risk_from_method m" "det_method (details_unclassified m p) = m"
  "det_risk (details_constrained_by d c) = det_risk d" "det_method (details_constrained_by d c) = det_method d"
  "det_risk (details_unclassified_with_attributes m p as) = risk_from_method m"
  "det_method (details_unclassified_with_attributes m p as) = m"
  by (simp_all add: details_read_def details_read_downgrade_def details_unclassified_def
      details_constrained_by_def details_unclassified_with_attributes_def)

definition jira_search_path :: "string \<Rightarrow> bool" where
  "jira_search_path path \<longleftrightarrow> path_segments path = [''rest'', ''api'', ''3'', ''search'', ''jql'']"

text \<open>The \<open>POST\<close> endpoints approved as reads.\<close>

definition approved_post_read :: "string \<Rightarrow> string \<Rightarrow> bool" where
  "approved_post_read vendor path \<longleftrightarrow>
     vendor = ''jira'' \<and> jira_search_path path
     \<or> vendor = ''artifactory'' \<and> path = ''/api/search/aql''
     \<or> vendor = ''mend'' \<and> mend_summaries_path path"

lemma risk_read_iff [simp]: "risk_from_method m = Read \<longleftrightarrow> m = Get"
  by (cases m) auto

lemma get_extracts [simp]:
  "det_method (query_logs sha uid params) = Get" "det_risk (query_logs sha uid params) = Read"
  "det_method list_datasources = Get" "det_risk list_datasources = Read"
  "det_method (list_channels sha params) = Get" "det_risk (list_channels sha params) = Read"
  "det_method (channel_read sha act m channel params) = Get" "det_risk (channel_read sha act m channel params) = Read"
  "det_method (search_messages sha params) = Get" "det_risk (search_messages sha params) = Read"
  by (auto simp: query_logs_def list_datasources_def list_channels_def channel_read_def search_messages_def
      split: option.split)

lemma grafana_risk: "det_method (grafana_extract sha method path query) = method
    \<and> det_risk (grafana_extract sha method path query) = risk_from_method method"
  by (simp add: grafana_extract_def Let_def)

lemma slack_risk: "det_method (slack_extract sha method path query) = method
    \<and> det_risk (slack_extract sha method path query) = risk_from_method method"
  by (simp add: slack_extract_def channel_info_def channel_history_def thread_replies_def Let_def)

lemma jira_classify_facts:
  "jira_classify method path = RouteReadIssue key \<Longrightarrow> method = Get \<and> key \<in> set (path_segments path)"
  "jira_classify method path = RouteListProjects \<Longrightarrow> method = Get"
  "jira_classify method path = RouteReadProject key \<Longrightarrow> method = Get \<and> key \<in> set (path_segments path)"
  "jira_classify method path = RouteSearch \<Longrightarrow> method \<in> {Get, Post} \<and> jira_search_path path"
  by (auto simp: jira_classify_def jira_search_path_def Let_def split: if_splits)

lemma jira_classify_search: "method \<in> {Get, Post} \<Longrightarrow> jira_search_path path \<Longrightarrow> jira_classify method path = RouteSearch"
  by (auto simp: jira_classify_def jira_search_path_def MAX_PATH_SEGMENTS_def)

lemma jira_risk:
  "det_method (jira_extract sha method path query body) = method
   \<and> det_risk (jira_extract sha method path query body) =
       (if method = Post \<and> jira_search_path path then Read else risk_from_method method)"
proof (cases "jira_classify method path")
  case RouteSearch
  then show ?thesis using jira_classify_facts(4) [OF RouteSearch]
    by (auto simp: jira_extract_def search_details_def Let_def JIRA_SEARCH_JQL_def)
next
  case RouteUnmapped
  then have "\<not> (method = Post \<and> jira_search_path path)" using jira_classify_search [of "method" path] by auto
  with RouteUnmapped show ?thesis by (auto simp: jira_extract_def)
qed (auto simp: jira_extract_def dest: jira_classify_facts)

lemma native_post_risk:
  "det_method (details_native_post_read vendor path) = Post
   \<and> (det_risk (details_native_post_read vendor path) = Read \<longleftrightarrow>
        vendor = ''artifactory'' \<and> path = ''/api/search/aql'' \<or> vendor = ''mend'' \<and> mend_summaries_path path)
   \<and> det_risk (details_native_post_read vendor path) \<in> {Read, Write}"
  by (auto simp: details_native_post_read_def details_unclassified_def Let_def)

section \<open>Agreement of the two decisions\<close>

lemma not_native [simp]: "native_patterns ''jira'' = []" "native_patterns ''slack'' = []" "native_patterns ''grafana'' = []"
  by (simp_all add: native_patterns_def)

lemma not_native_endpoint [simp]: "native_patterns vendor = [] \<Longrightarrow> \<not> native_endpoint vendor path"
  by (simp add: native_endpoint_def)

lemma for_vendor_own:
  "for_vendor sha ''jira'' method t body = jira_extract sha method (target_path t) (target_query t) body"
  "for_vendor sha ''slack'' method t body = slack_extract sha method (target_path t) (target_query t)"
  "for_vendor sha ''grafana'' method t body = grafana_extract sha method (target_path t) (target_query t)"
  by (simp_all add: for_vendor_def)

lemma for_vendor_cases:
  obtains (native) "for_vendor sha vendor method t body = native_read (target_path t)" "method = Get"
  | (post) "for_vendor sha vendor method t body = details_native_post_read vendor (target_path t)"
      "vendor \<in> {''mend'', ''artifactory''}" "method = Post"
  | (grafana) "vendor = ''grafana''" | (jira) "vendor = ''jira''" | (slack) "vendor = ''slack''"
  | (other) "for_vendor sha vendor method t body = details_unclassified method (target_path t)"
      "method = Post \<longrightarrow> vendor \<notin> {''mend'', ''artifactory'', ''jira''}"
proof -
  note branches = for_vendor_def [of sha vendor "method" t body]
  show thesis
  proof (cases "method = Get \<and> native_endpoint vendor (target_path t)")
    case True
    then show thesis using native branches by (simp only: if_True simp_thms)
  next
    case f1: False
    show thesis
    proof (cases "vendor \<in> {''mend'', ''artifactory''} \<and> method = Post")
      case True
      then show thesis using post branches [unfolded if_not_P [OF f1] if_P [OF True]] by blast
    next
      case f2: False
      show thesis
      proof (cases "vendor = ''grafana'' \<or> vendor = ''jira'' \<or> vendor = ''slack''")
        case True
        then show thesis using grafana jira slack by blast
      next
        case False
        then have "for_vendor sha vendor method t body = details_unclassified method (target_path t)"
          using branches [unfolded if_not_P [OF f1] if_not_P [OF f2]] by (simp only: if_False de_Morgan_disj)
        then show thesis using other f2 False by blast
      qed
    qed
  qed
qed

definition verb_suffix :: "http_method \<Rightarrow> string" where
  "verb_suffix m = (case m of Get \<Rightarrow> ''_get'' | Post \<Rightarrow> ''_post'' | Put \<Rightarrow> ''_put'' | Patch \<Rightarrow> ''_patch'' | Delete \<Rightarrow> ''_delete'')"

lemma verb_tools_not_native:
  "\<not> native_tool (''jira'' @ verb_suffix m)" "\<not> native_tool (''slack'' @ verb_suffix m)"
  by (cases m; code_simp)+

lemma for_tool_verb:
  "for_tool sha show_json form (''jira'' @ verb_suffix m) args risk =
     passthrough_details form m args (\<lambda>t query body. jira_extract sha m (target_path t) query body)"
  "for_tool sha show_json form (''slack'' @ verb_suffix m) args risk =
     passthrough_details form m args (\<lambda>t query _. slack_extract sha m (target_path t) query)"
  using verb_tools_not_native [of m]
  by (cases m; simp add: for_tool_def verb_suffix_def verb_tool_def verb_method_def)+

section \<open>Claimed identifiers\<close>

lemma scope_id_Ids: "scope_id x = Ids ids \<Longrightarrow> ids = [x]"
  by (auto simp: scope_id_def scope_ids_def Let_def split: if_splits)

lemma details_scope [simp]:
  "det_scope (details_read a p as rt sc) = sc" "det_scope (details_read_downgrade dg as sc) = sc"
  "det_scope (details_unclassified m p) = Unscoped" "det_scope (details_constrained_by d c) = det_scope d"
  "det_scope (details_unclassified_with_attributes m p as) = Unscoped"
  "det_scope (details_native_post_read vendor p) = Unscoped"
  by (simp_all add: details_read_def details_read_downgrade_def details_unclassified_def details_constrained_by_def
      details_unclassified_with_attributes_def details_native_post_read_def Let_def)

lemma query_logs_scope: "det_scope (query_logs sha uid params) = Ids ids \<Longrightarrow> ids = [uid]"
  by (auto simp: query_logs_def scope_id_Ids split: option.splits)

lemma channel_read_scope: "det_scope (channel_read sha act m channel params) = Ids ids \<Longrightarrow> ids = [channel]"
  by (auto simp: channel_read_def scope_id_Ids split: if_splits)

lemma grafana_scope:
  assumes "det_scope (grafana_extract sha method path query) = Ids ids"
  shows "\<exists>x \<in> set (path_segments path). ids = [x]"
proof -
  have "length xs = 9 \<Longrightarrow> xs ! 4 \<in> set xs" for xs :: "string list" by (intro nth_mem) simp
  then show ?thesis using assms
    by (auto simp: grafana_extract_def list_datasources_def Let_def split: if_splits dest: query_logs_scope)
qed

lemma channel_read_unnamed: "det_scope (channel_read sha act m '''' params) = Unscoped"
  by (simp add: channel_read_def is_valid_channel_id_def)

lemma slack_scope:
  assumes "det_scope (slack_extract sha method path query) = Ids ids"
  shows "\<exists>c. map snd (filter (\<lambda>(key, _). key = ''channel'') query) = [c] \<and> ids = [c]"
proof -
  define channels where "channels = map snd (filter (\<lambda>(key, _). key = ''channel'') query)"
  have own: "det_scope (list_channels sha query) = Collection" "det_scope (search_messages sha query) = Unscoped"
    by (simp_all add: list_channels_def search_messages_def)
  note e = assms [unfolded slack_extract_def Let_def channels_def [symmetric] channel_info_def channel_history_def
      thread_replies_def]
  have "\<exists>c. channels = [c] \<and> ids = [c]"
  proof (cases channels)
    case Nil
    with e own show ?thesis by (simp add: channel_read_unnamed split: if_splits)
  next
    case (Cons c cs)
    with e own show ?thesis by (auto split: if_splits dest: channel_read_scope)
  qed
  then show ?thesis by (simp only: channels_def)
qed

lemma jira_scope:
  assumes "det_scope (jira_extract sha method path query body) = Ids ids"
  shows "\<exists>x \<in> set (path_segments path). ids = [x]"
  using assms jira_classify_facts
  by (auto simp: jira_extract_def search_details_def Let_def split: jira_route.splits if_splits dest: scope_id_Ids)

section \<open>Properties\<close>

text \<open>C11. A request counts as a read only when it is one: the classification of a request on the wire
  keeps its method, and its risk is \<open>Read\<close> exactly for \<open>GET\<close> and for \<open>POST\<close> to one of the three
  approved search endpoints; every other request keeps the risk of its method.\<close>

theorem read_risk_exact:
  "det_method (for_vendor sha vendor method t body) = method
   \<and> (det_risk (for_vendor sha vendor method t body) = Read \<longleftrightarrow>
        method = Get \<or> method = Post \<and> approved_post_read vendor (target_path t))
   \<and> det_risk (for_vendor sha vendor method t body) \<in> {Read, risk_from_method method}"
proof -
  let ?x = "for_vendor sha vendor method t body" and ?p = "target_path t"
  have approved: "approved_post_read ''jira'' ?p = jira_search_path ?p" "\<not> approved_post_read ''slack'' ?p"
    "\<not> approved_post_read ''grafana'' ?p"
    by (simp_all add: approved_post_read_def)
  show ?thesis
  proof (cases rule: for_vendor_cases [of sha vendor "method" t body])
    case post
    then show ?thesis using native_post_risk [of vendor ?p] unfolding approved_post_read_def by auto
  next
    case grafana
    then show ?thesis using grafana_risk [of sha "method" ?p "target_query t"] approved by (simp add: for_vendor_own)
  next
    case jira
    then show ?thesis using jira_risk [of sha "method" ?p "target_query t" body] approved
      by (cases "method") (simp_all add: for_vendor_own)
  next
    case slack
    then show ?thesis using slack_risk [of sha "method" ?p "target_query t"] approved by (simp add: for_vendor_own)
  next
    case other
    then show ?thesis unfolding approved_post_read_def by auto
  qed (simp add: native_read_def)
qed

text \<open>C25. No text of the caller enters the evidence: every query attribute of a classified request or
  tool call has an allowlisted key, and its value is one of eight fixed words or a digest.\<close>

theorem attributes_redacted:
  "redacted sha (det_attributes (for_vendor sha vendor method t body))
   \<and> redacted sha (det_attributes (for_tool sha show_json form tool args risk))"
proof -
  have "redacted sha (det_attributes (for_vendor sha vendor method t body))"
    unfolding for_vendor_def by (intro redacted_if) simp_all
  moreover have "redacted sha (det_attributes (slack_tool sha show_json tool args))"
    unfolding slack_tool_def Let_def channel_info_def channel_history_def thread_replies_def
    by (intro redacted_if) simp_all
  moreover have "redacted sha (det_attributes (passthrough_details form m args (\<lambda>t query b. slack_extract sha m (target_path t) query)))"
    "redacted sha (det_attributes (passthrough_details form m args (\<lambda>t query b. jira_extract sha m (target_path t) query b)))" for m
    by (simp_all add: passthrough_details_def split: sum.split)
  ultimately show ?thesis
    unfolding for_tool_def by (intro conjI redacted_if) simp_all
qed

text \<open>An extractor claims only identifiers that are in the request: when a request on the wire is
  classified with resource identifiers, there is exactly one, and it is a segment of its canonical
  path or the value of its one \<open>channel\<close> parameter.\<close>

theorem claimed_ids_in_request:
  assumes "det_scope (for_vendor sha vendor method t body) = Ids ids"
  shows "\<exists>x. ids = [x] \<and> (x \<in> set (path_segments (target_path t))
    \<or> map snd (filter (\<lambda>(key, _). key = ''channel'') (target_query t)) = [x])"
proof (cases rule: for_vendor_cases [of sha vendor "method" t body])
  case native
  with assms show ?thesis by (simp only: native_read_def details_scope resource_scope.distinct)
next
  case post
  with assms show ?thesis by (simp only: details_scope resource_scope.distinct)
next
  case other
  with assms show ?thesis by (simp only: details_scope resource_scope.distinct)
next
  case grafana
  with assms have "det_scope (grafana_extract sha method (target_path t) (target_query t)) = Ids ids"
    by (simp only: for_vendor_own)
  from grafana_scope [OF this] obtain x where "x \<in> set (path_segments (target_path t))" "ids = [x]" ..
  then show ?thesis by (intro exI [of _ x] conjI disjI1)
next
  case jira
  with assms have "det_scope (jira_extract sha method (target_path t) (target_query t) body) = Ids ids"
    by (simp only: for_vendor_own)
  from jira_scope [OF this] obtain x where "x \<in> set (path_segments (target_path t))" "ids = [x]" ..
  then show ?thesis by (intro exI [of _ x] conjI disjI1)
next
  case slack
  with assms have "det_scope (slack_extract sha method (target_path t) (target_query t)) = Ids ids"
    by (simp only: for_vendor_own)
  from slack_scope [OF this] obtain x
    where "map snd (filter (\<lambda>(key, _). key = ''channel'') (target_query t)) = [x] \<and> ids = [x]" ..
  then show ?thesis by (elim conjE) (intro exI [of _ x] conjI disjI2)
qed

theorem claimed_ids_in_request_witness:
  "det_scope (for_vendor (\<lambda>s. s) ''jira'' Get \<lparr>target_path = ''/rest/api/3/issue/PLAT-1'', target_query = []\<rparr> None)
     = Ids [''PLAT-1'']
   \<and> ''PLAT-1'' \<in> set (path_segments ''/rest/api/3/issue/PLAT-1'')"
proof -
  have c: "det_scope (for_vendor (\<lambda>s. s) ''jira'' Get \<lparr>target_path = ''/rest/api/3/issue/PLAT-1'', target_query = []\<rparr> None)
     = Ids [''PLAT-1'']"
    unfolding for_vendor_own by code_simp
  from claimed_ids_in_request [OF c] c show ?thesis by simp
qed

text \<open>A repeated \<open>jql\<close> parameter: the claim is about the first, whatever the second selects.\<close>

lemma repeated_jql_first_wins:
  "det_constraint (jira_extract sha Get ''/rest/api/3/search/jql''
     [(''jql'', ''project = PUBLIC''), (''jql'', ''project = SECRET'')] body)
   = Some \<lparr>constraint_type = Project, constraint_scope = Ids [''PUBLIC'']\<rparr>"
proof -
  have "jira_classify Get ''/rest/api/3/search/jql'' = RouteSearch" by code_simp
  moreover have "project_keys_from_jql ''project = PUBLIC'' = Some [''PUBLIC'']" by code_simp
  moreover have "constraint_ids Project [''PUBLIC''] = Some \<lparr>constraint_type = Project, constraint_scope = Ids [''PUBLIC'']\<rparr>"
    by code_simp
  ultimately show ?thesis
    by (simp add: jira_extract_def search_details_def details_constrained_by_def Let_def)
qed

end
