(* ===== verification/Egress.thy ===== *)
theory Egress
  imports Engine Scope Audit_Sink Extractors Errors
begin

text \<open>
  The egress chokepoint, \<^verbatim>\<open>src/policy/egress.rs\<close>: the decision on every request the transport is
  about to send. The call scope is a task-local in the code, an argument here; its egress log and
  the audit sink are the state. Whether the acknowledgement of a journaled denial arrives within
  the bound is the argument \<open>a\<close>, the clock the argument \<open>now\<close>, both chosen by the environment.
\<close>

section \<open>The code\<close>

definition AUDIT_APPEND_TIMEOUT_KEY :: string where
  "AUDIT_APPEND_TIMEOUT_KEY = ''MCP_AUDIT_APPEND_TIMEOUT_MS''"

text \<open>Durations are in milliseconds.\<close>

definition DEFAULT_AUDIT_APPEND_TIMEOUT :: nat where
  "DEFAULT_AUDIT_APPEND_TIMEOUT = 5000"

definition MIN_AUDIT_APPEND_TIMEOUT :: nat where
  "MIN_AUDIT_APPEND_TIMEOUT = 100"

definition MAX_AUDIT_APPEND_TIMEOUT :: nat where
  "MAX_AUDIT_APPEND_TIMEOUT = 60000"

definition audit_append_timeout :: "config \<Rightarrow> nat" where
  "audit_append_timeout config =
     (case Option.bind (config AUDIT_APPEND_TIMEOUT_KEY) (\<lambda>v. parse_u64 (trim v)) of
        None \<Rightarrow> DEFAULT_AUDIT_APPEND_TIMEOUT
      | Some timeout \<Rightarrow> max MIN_AUDIT_APPEND_TIMEOUT (min timeout MAX_AUDIT_APPEND_TIMEOUT))"

text \<open>The decision point is the function it evaluates; the sink is the state the append operation of
  the model is applied to.\<close>

record enforcement =
  enf_policy :: "action_context \<Rightarrow> policy_decision"
  enf_upstream :: upstream_identity
  enf_append_timeout :: nat

record call_scope =
  cs_principal :: principal
  cs_client :: client_identity
  cs_tool_name :: string
  cs_request_id :: string
  cs_enforcement :: "enforcement option"

definition call_scope_new :: "principal \<Rightarrow> client_identity \<Rightarrow> string \<Rightarrow> string \<Rightarrow> call_scope" where
  "call_scope_new p client tool_name request_id =
     \<lparr>cs_principal = p, cs_client = client, cs_tool_name = tool_name, cs_request_id = request_id,
      cs_enforcement = None\<rparr>"

definition with_enforcement :: "enforcement \<Rightarrow> call_scope \<Rightarrow> call_scope" where
  "with_enforcement e scope = scope\<lparr>cs_enforcement := Some e\<rparr>"

definition policy_denied :: "policy_decision \<Rightarrow> mcp_error" where
  "policy_denied decision =
     (let version = (case dec_policy_version decision of None \<Rightarrow> ''unversioned'' | Some v \<Rightarrow> v) in
      api_error (''Policy denied: '' @ dec_reason decision @ '' (policy '' @ version @ '')'') (Some 403) None)"

record 's egress_state =
  es_log :: egress_log
  es_sink :: 's

text \<open>What the environment chooses during one authorization.\<close>

record choices =
  ch_ack :: ack
  ch_now :: string

text \<open>A request as the transport hands it to the chokepoint: the destination is the origin of the
  validated URL.\<close>

record egress_request =
  rq_vendor :: string
  rq_method :: http_method
  rq_target :: canonical_target
  rq_body :: "json option"
  rq_origin :: "string option"
  rq_redact :: bool

definition egress_details :: "(string \<Rightarrow> string) \<Rightarrow> egress_request \<Rightarrow> action_details" where
  "egress_details sha rq =
     (if rq_redact rq then native_read (target_path (rq_target rq))
      else for_vendor sha (rq_vendor rq) (rq_method rq) (rq_target rq) (rq_body rq))"

definition egress_context ::
  "(string \<Rightarrow> string) \<Rightarrow> call_scope \<Rightarrow> enforcement \<Rightarrow> egress_request \<Rightarrow> action_context" where
  "egress_context sha scope e rq =
     (let context = context_assemble (cs_principal scope) (cs_client scope) None (cs_tool_name scope)
            (egress_details sha rq) None (enf_upstream e)
      in case rq_origin rq of None \<Rightarrow> context | Some origin \<Rightarrow> set_destination origin context)"

definition egress_noted ::
  "((string \<times> string) list \<Rightarrow> string) \<Rightarrow> egress_request \<Rightarrow> policy_decision \<Rightarrow> egress_record" where
  "egress_noted form_urlencode rq decision =
     \<lparr>eg_vendor = rq_vendor rq, eg_method = rq_method rq,
      eg_canonical_target =
        (if rq_redact rq then target_path (rq_target rq) else url_under form_urlencode (rq_target rq) ''''),
      eg_destination_origin = rq_origin rq, eg_effect = dec_effect decision,
      eg_rule_id = dec_rule_id decision,
      eg_dispatch = (if is_allow decision then NotAttempted else Denied)\<rparr>"

definition egress_event ::
  "string \<Rightarrow> call_scope \<Rightarrow> enforcement \<Rightarrow> string \<Rightarrow> policy_decision \<Rightarrow> action_context \<Rightarrow> audit_event" where
  "egress_event now scope e vendor decision context =
     \<lparr>ev_timestamp = now, ev_kind = EgressDecision, ev_request_id = cs_request_id scope,
      ev_tool_name = cs_tool_name scope, ev_vendor = vendor, ev_principal = cs_principal scope,
      ev_client = cs_client scope, ev_decision = decision, ev_upstream = enf_upstream e,
      ev_action = Some context, ev_outcome = Some ''egress_denied'', ev_duration_ms = None,
      ev_egress = None\<rparr>"

text \<open>\<open>Ok(None)\<close> outside an enforcing scope, \<open>Ok(Some(ticket))\<close> for an allowed request,
  the error of a denial. The result of the append is only logged.\<close>

definition authorize_at ::
  "('s, audit_event) append_op \<Rightarrow> (string \<Rightarrow> string) \<Rightarrow> ((string \<times> string) list \<Rightarrow> string)
     \<Rightarrow> choices \<Rightarrow> call_scope option \<Rightarrow> egress_request \<Rightarrow> 's egress_state
     \<Rightarrow> (mcp_error + nat option option) \<times> 's egress_state" where
  "authorize_at app sha form_urlencode ch scope rq st =
     (case scope of
        None \<Rightarrow> (Inr None, st)
      | Some scope \<Rightarrow>
          (case cs_enforcement scope of
             None \<Rightarrow> (Inr None, st)
           | Some e \<Rightarrow>
               (let context = egress_context sha scope e rq;
                    decision = enf_policy e context;
                    (ticket, log) = note_egress (egress_noted form_urlencode rq decision) (es_log st)
                in if is_allow decision then (Inr (Some ticket), st\<lparr>es_log := log\<rparr>)
                   else (let event = egress_event (ch_now ch) scope e (rq_vendor rq) decision context;
                             (_, sink) = append_bounded app (ch_ack ch) (es_sink st) event
                         in (Inl (policy_denied decision), st\<lparr>es_log := log, es_sink := sink\<rparr>)))))"

definition egress_at ::
  "string \<Rightarrow> http_method \<Rightarrow> canonical_target \<Rightarrow> json option \<Rightarrow> string option \<Rightarrow> egress_request" where
  "egress_at vendor m target body origin =
     \<lparr>rq_vendor = vendor, rq_method = m, rq_target = target, rq_body = body, rq_origin = origin,
      rq_redact = False\<rparr>"

definition authorize_egress_at ::
  "('s, audit_event) append_op \<Rightarrow> (string \<Rightarrow> string) \<Rightarrow> ((string \<times> string) list \<Rightarrow> string)
     \<Rightarrow> choices \<Rightarrow> call_scope option \<Rightarrow> string \<Rightarrow> http_method \<Rightarrow> canonical_target \<Rightarrow> json option
     \<Rightarrow> string option \<Rightarrow> 's egress_state \<Rightarrow> (mcp_error + nat option option) \<times> 's egress_state" where
  "authorize_egress_at app sha form_urlencode ch scope vendor m target body origin =
     authorize_at app sha form_urlencode ch scope (egress_at vendor m target body origin)"

definition authorize_egress ::
  "('s, audit_event) append_op \<Rightarrow> (string \<Rightarrow> string) \<Rightarrow> ((string \<times> string) list \<Rightarrow> string)
     \<Rightarrow> choices \<Rightarrow> call_scope option \<Rightarrow> string \<Rightarrow> http_method \<Rightarrow> canonical_target \<Rightarrow> json option
     \<Rightarrow> 's egress_state \<Rightarrow> (mcp_error + nat option option) \<times> 's egress_state" where
  "authorize_egress app sha form_urlencode ch scope vendor m target body =
     authorize_egress_at app sha form_urlencode ch scope vendor m target body None"

definition download_egress :: "string \<Rightarrow> canonical_target \<Rightarrow> string \<Rightarrow> egress_request" where
  "download_egress vendor target origin =
     \<lparr>rq_vendor = vendor, rq_method = Get, rq_target = target, rq_body = None, rq_origin = Some origin,
      rq_redact = True\<rparr>"

definition authorize_download_egress ::
  "('s, audit_event) append_op \<Rightarrow> (string \<Rightarrow> string) \<Rightarrow> ((string \<times> string) list \<Rightarrow> string)
     \<Rightarrow> choices \<Rightarrow> call_scope option \<Rightarrow> string \<Rightarrow> canonical_target \<Rightarrow> string
     \<Rightarrow> 's egress_state \<Rightarrow> (mcp_error + nat option option) \<times> 's egress_state" where
  "authorize_download_egress app sha form_urlencode ch scope vendor target origin =
     authorize_at app sha form_urlencode ch scope (download_egress vendor target origin)"

section \<open>Classified requests are well formed\<close>

lemma details_wf_if: "(c \<Longrightarrow> details_wf a) \<Longrightarrow> (\<not> c \<Longrightarrow> details_wf b) \<Longrightarrow> details_wf (if c then a else b)"
  by simp

lemma scope_id_wf [simp]: "scope_wf (scope_id x)"
  by (simp add: scope_id_def)

lemma grafana_wf [simp]: "details_wf (grafana_extract sha m path query)"
  unfolding grafana_extract_def query_logs_def list_datasources_def Let_def
  by (intro details_wf_if) (auto split: option.split)

lemma slack_wf [simp]: "details_wf (slack_extract sha m path query)"
  unfolding slack_extract_def channel_info_def channel_history_def thread_replies_def channel_read_def
    list_channels_def search_messages_def Let_def
  by (intro details_wf_if) simp_all

lemma search_details_wf [simp]: "details_wf (search_details m path attributes jql)"
proof -
  have "pred_option constraint_wf (Option.bind jql (\<lambda>y. Option.bind (project_keys_from_jql y) (constraint_ids Project)))"
    by (auto simp: option.pred_set dest!: constraint_ids_wf split: Option.bind_split)
  then show ?thesis
    unfolding search_details_def Let_def by (intro details_wf_if details_constrained_wf) simp_all
qed

lemma jira_wf [simp]: "details_wf (jira_extract sha m path query body)"
  by (auto simp: jira_extract_def Let_def split: jira_route.split)

lemma native_read_wf [simp]: "details_wf (native_read p)"
  by (simp add: native_read_def)

lemma for_vendor_wf [simp]: "details_wf (for_vendor sha vendor m t body)"
  unfolding for_vendor_def by (intro details_wf_if) simp_all

lemma egress_context_wf: "context_wf (egress_context sha scope e rq)"
proof -
  have "details_wf (egress_details sha rq)" by (simp add: egress_details_def)
  then show ?thesis
    using context_assemble_wf [of "egress_details sha rq"]
    by (auto simp: egress_context_def set_destination_def context_wf_def Let_def split: option.split)
qed

section \<open>The chokepoint\<close>

definition enforcing :: "enforcement \<Rightarrow> call_scope option \<Rightarrow> call_scope \<Rightarrow> bool" where
  "enforcing e scope s \<longleftrightarrow> scope = Some s \<and> cs_enforcement s = Some e"

lemma authorize_at_allowed:
  assumes "enforcing e scope s" "is_allow (enf_policy e (egress_context sha s e rq))"
  shows "authorize_at app sha form ch scope rq st =
    (let (ticket, log) = note_egress (egress_noted form rq (enf_policy e (egress_context sha s e rq))) (es_log st)
     in (Inr (Some ticket), st\<lparr>es_log := log\<rparr>))"
  using assms by (simp add: authorize_at_def enforcing_def Let_def split: prod.split)

lemma authorize_at_denied:
  assumes "enforcing e scope s" "\<not> is_allow (enf_policy e (egress_context sha s e rq))"
  shows "authorize_at app sha form ch scope rq st =
    (let decision = enf_policy e (egress_context sha s e rq)
     in (Inl (policy_denied decision),
         st\<lparr>es_log := snd (note_egress (egress_noted form rq decision) (es_log st)),
            es_sink := snd (append_bounded app (ch_ack ch) (es_sink st)
              (egress_event (ch_now ch) s e (rq_vendor rq) decision (egress_context sha s e rq)))\<rparr>))"
  using assms by (simp add: authorize_at_def enforcing_def Let_def split: prod.split)

lemma authorize_at_not_enforcing:
  "(\<nexists>e s. enforcing e scope s) \<Longrightarrow> authorize_at app sha form ch scope rq st = (Inr None, st)"
  by (auto simp: authorize_at_def enforcing_def split: option.split)

lemma authorize_at_cases:
  assumes "enforcing e scope s"
  obtains (allowed) ticket log where
    "is_allow (enf_policy e (egress_context sha s e rq))"
    "note_egress (egress_noted form rq (enf_policy e (egress_context sha s e rq))) (es_log st) = (ticket, log)"
    "authorize_at app sha form ch scope rq st = (Inr (Some ticket), st\<lparr>es_log := log\<rparr>)"
  | (denied) "\<not> is_allow (enf_policy e (egress_context sha s e rq))"
    "fst (authorize_at app sha form ch scope rq st) = Inl (policy_denied (enf_policy e (egress_context sha s e rq)))"
proof (cases "is_allow (enf_policy e (egress_context sha s e rq))")
  case True
  obtain ticket log where
    "note_egress (egress_noted form rq (enf_policy e (egress_context sha s e rq))) (es_log st) = (ticket, log)"
    by fastforce
  with True show ?thesis by (intro allowed) (simp_all add: authorize_at_allowed [OF assms])
next
  case False
  then show ?thesis by (intro denied) (simp_all add: authorize_at_denied [OF assms] Let_def)
qed

text \<open>The contract of the sink gives the fate of the evidence of a denial.\<close>

locale audited_egress = sink_contract app recorded sink_ok
  for app :: "('s, audit_event) append_op" and recorded sink_ok
begin

lemma authorize_keeps:
  assumes "sink_ok (es_sink st)"
  shows "sink_ok (es_sink (snd (authorize_at app sha form ch scope rq st)))
     \<and> recorded (es_sink st) \<subseteq> recorded (es_sink (snd (authorize_at app sha form ch scope rq st)))"
proof (cases "\<exists>e s. enforcing e scope s")
  case False
  then show ?thesis using assms authorize_at_not_enforcing [of scope app sha form ch rq st] by simp
next
  case True
  then obtain e s where es: "enforcing e scope s" by blast
  show ?thesis
  proof (cases "is_allow (enf_policy e (egress_context sha s e rq))")
    case True
    with assms show ?thesis by (simp add: authorize_at_allowed [OF es] split: prod.split)
  next
    case False
    with bounded_ok [OF assms] bounded_keeps [OF assms]
    show ?thesis by (simp add: authorize_at_denied [OF es] Let_def)
  qed
qed

lemma denial_recorded:
  assumes "sink_ok (es_sink st)" "enforcing e scope s"
    and "\<not> is_allow (enf_policy e (egress_context sha s e rq))"
    and "append_bounded app (ch_ack ch) (es_sink st)
      (egress_event (ch_now ch) s e (rq_vendor rq) (enf_policy e (egress_context sha s e rq)) (egress_context sha s e rq))
      = (Inr n, sink)"
  shows "(n, egress_event (ch_now ch) s e (rq_vendor rq) (enf_policy e (egress_context sha s e rq)) (egress_context sha s e rq))
    \<in> recorded (es_sink (snd (authorize_at app sha form ch scope rq st)))"
  using bounded_acknowledged [OF assms(1,4)] assms(4)
  by (simp add: authorize_at_denied [OF assms(2,3)] Let_def)

end

interpretation memory_egress: audited_egress memory_append "\<lambda>s. set (mem_events s)" memory_ok ..

section \<open>Properties\<close>

text \<open>What a policy permits, in terms of its rules: the resource was classified, some allow rule
  applies and no deny rule does.\<close>

definition permitted :: "compiled_policy \<Rightarrow> action_context \<Rightarrow> bool" where
  "permitted policy c \<longleftrightarrow>
     ctx_resource_type c \<noteq> Unknown
     \<and> (\<exists>r \<in> set (policy_rules policy). rule_effect r = Allow \<and> rule_applies r c)
     \<and> \<not> (\<exists>r \<in> set (policy_rules policy). rule_effect r = Deny \<and> rule_applies r c)"

lemma permitted_iff: "is_allow (evaluate policy (egress_context sha s e rq)) = permitted policy (egress_context sha s e rq)"
  by (simp add: is_allow_evaluate [OF egress_context_wf] permitted_def)

text \<open>C4. Inside an enforcing call the chokepoint lets a request through exactly when the policy
  permits the facts of that very request, as classified from its method, canonical target, body and
  origin; then the sink is untouched. Otherwise the caller gets a 403 naming the decision, whatever
  the sink does with the evidence. Either way the decision is noted in the log of the call.\<close>

theorem egress_decision_exact:
  assumes "enforcing e scope s" "enf_policy e = evaluate policy"
  shows "(if permitted policy (egress_context sha s e rq)
      then (\<exists>ticket. fst (authorize_at app sha form ch scope rq st) = Inr (Some ticket))
        \<and> es_sink (snd (authorize_at app sha form ch scope rq st)) = es_sink st
      else (\<exists>err. fst (authorize_at app sha form ch scope rq st) = Inl err \<and> err_status err = Some 403))
    \<and> es_log (snd (authorize_at app sha form ch scope rq st))
        = snd (note_egress (egress_noted form rq (evaluate policy (egress_context sha s e rq))) (es_log st))"
proof (cases "permitted policy (egress_context sha s e rq)")
  case True
  then have "is_allow (enf_policy e (egress_context sha s e rq))" using assms(2) permitted_iff by simp
  with True assms(2) show ?thesis by (simp add: authorize_at_allowed [OF assms(1)] split: prod.split)
next
  case False
  then have "\<not> is_allow (enf_policy e (egress_context sha s e rq))" using assms(2) permitted_iff by simp
  with False assms(2) show ?thesis
    by (simp add: authorize_at_denied [OF assms(1)] Let_def policy_denied_def api_error_def)
qed

definition sample_enforcement :: enforcement where
  "sample_enforcement =
     \<lparr>enf_policy = evaluate sample_policy,
      enf_upstream = \<lparr>up_label = ''grafana/TOKEN'', up_vendor = ''grafana'', up_environment = Qa,
        up_authority = Shared, up_provenance = None\<rparr>,
      enf_append_timeout = 5000\<rparr>"

definition sample_scope :: call_scope where
  "sample_scope =
     \<lparr>cs_principal = \<lparr>tenant = ''acme'', subject = ''alice'', groups = [''SRE''], scopes = [],
        authority = Oidc ''https://idp''\<rparr>,
      cs_client = \<lparr>client_name = None, client_version = None\<rparr>, cs_tool_name = ''grafana_query_logs'',
      cs_request_id = ''r'', cs_enforcement = Some sample_enforcement\<rparr>"

definition sample_request :: "string \<Rightarrow> egress_request" where
  "sample_request uid = egress_at ''grafana'' Get
     \<lparr>target_path = ''/api/datasources/proxy/uid/'' @ uid @ ''/loki/api/v1/query_range'', target_query = []\<rparr>
     None (Some ''https://grafana'')"

lemma sample_enforcing: "enforcing sample_enforcement (Some sample_scope) sample_scope"
  by (simp add: enforcing_def sample_scope_def)

theorem egress_decision_exact_witness:
  "(\<exists>ticket. fst (authorize_at memory_append (\<lambda>s. s) (\<lambda>_. '''') \<lparr>ch_ack = InTime, ch_now = ''''\<rparr>
      (Some sample_scope) (sample_request ''loki-qa'') \<lparr>es_log = empty_log, es_sink = memory_new\<rparr>) = Inr (Some ticket))
   \<and> (\<exists>err. fst (authorize_at memory_append (\<lambda>s. s) (\<lambda>_. '''') \<lparr>ch_ack = InTime, ch_now = ''''\<rparr>
      (Some sample_scope) (sample_request ''loki-prod'') \<lparr>es_log = empty_log, es_sink = memory_new\<rparr>) = Inl err
      \<and> err_status err = Some 403)"
proof -
  have p: "enf_policy sample_enforcement = evaluate sample_policy" by (simp add: sample_enforcement_def)
  have allow: "permitted sample_policy (egress_context (\<lambda>s. s) sample_scope sample_enforcement (sample_request ''loki-qa''))"
    unfolding permitted_iff [symmetric] by code_simp
  have deny: "\<not> permitted sample_policy (egress_context (\<lambda>s. s) sample_scope sample_enforcement (sample_request ''loki-prod''))"
    unfolding permitted_iff [symmetric] by code_simp
  show ?thesis
    using egress_decision_exact [OF sample_enforcing p, of "\<lambda>s. s" "sample_request ''loki-qa''" memory_append
        "\<lambda>_. ''''" "\<lparr>ch_ack = InTime, ch_now = ''''\<rparr>" "\<lparr>es_log = empty_log, es_sink = memory_new\<rparr>"]
      egress_decision_exact [OF sample_enforcing p, of "\<lambda>s. s" "sample_request ''loki-prod''" memory_append
        "\<lambda>_. ''''" "\<lparr>ch_ack = InTime, ch_now = ''''\<rparr>" "\<lparr>es_log = empty_log, es_sink = memory_new\<rparr>"]
      allow deny
    by (simp only: if_True if_False simp_thms)
qed

text \<open>The query of a download is invisible to policy and to the evidence: it can hold the
  credential of a signed URL, and authorizing two downloads that differ only in the query has the
  same result, the same log and the same journal.\<close>

theorem download_query_invisible:
  assumes "target_path t = target_path t'"
  shows "authorize_download_egress app sha form ch scope vendor t origin st
       = authorize_download_egress app sha form ch scope vendor t' origin st"
proof -
  have "egress_details sha (download_egress vendor t origin) = egress_details sha (download_egress vendor t' origin)"
    using assms by (simp add: egress_details_def download_egress_def)
  then have "egress_context sha s e (download_egress vendor t origin) = egress_context sha s e (download_egress vendor t' origin)"
    for s e by (simp only: egress_context_def) (simp add: download_egress_def)
  moreover have "egress_noted form (download_egress vendor t origin) d = egress_noted form (download_egress vendor t' origin) d" for d
    using assms by (simp add: egress_noted_def download_egress_def)
  moreover have "rq_vendor (download_egress vendor t origin) = rq_vendor (download_egress vendor t' origin)"
    by (simp add: download_egress_def)
  ultimately show ?thesis
    unfolding authorize_download_egress_def authorize_at_def by (simp only:)
qed

theorem download_query_invisible_witness:
  "authorize_download_egress memory_append (\<lambda>s. s) (\<lambda>_. ''sig=1'') \<lparr>ch_ack = InTime, ch_now = ''''\<rparr> (Some sample_scope)
     ''grafana'' \<lparr>target_path = ''/log'', target_query = [(''sig'', ''1'')]\<rparr> ''https://s3''
     \<lparr>es_log = empty_log, es_sink = memory_new\<rparr>
   = authorize_download_egress memory_append (\<lambda>s. s) (\<lambda>_. ''sig=1'') \<lparr>ch_ack = InTime, ch_now = ''''\<rparr> (Some sample_scope)
     ''grafana'' \<lparr>target_path = ''/log'', target_query = []\<rparr> ''https://s3''
     \<lparr>es_log = empty_log, es_sink = memory_new\<rparr>"
  by (rule download_query_invisible) simp

end
