(* ===== verification/Disk_Quota.thy ===== *)
theory Disk_Quota
  imports Audit_Sink "HOL-Library.AList"
begin

text \<open>
  The process-wide disk quota of streamed downloads, \<open>StreamingDiskCoordinator\<close>, \<open>StreamingDiskQuota\<close>,
  \<open>StreamingDiskLease\<close> and \<open>StreamingAggregateQuota\<close> of \<^verbatim>\<open>src/transport/mod.rs\<close>. The mutex is held for
  the whole of every method of the coordinator but one, so each is a function on the state; \<open>acquire\<close>
  waits between two critical sections, so it is two functions, and what the wait ended with is chosen
  by the environment. Dropping a lease takes the lock three times, for the amount, the release and the
  removal of the reservation. The model takes the three as one step: the lease is owned by the code
  that drops it, so no other step concerns that reservation in between. The hash maps
  are association lists with distinct keys, and the status byte and the notification of a waiter,
  shared through an \<open>Arc\<close> but written under the lock, are part of the state by waiter number.
\<close>

section \<open>The code\<close>

record transaction_reservation =
  tx_reserved :: nat
  tx_limit :: nat

record owned_reservation =
  own_owner :: nat
  own_amount :: nat

record reservation_waiter =
  wt_id :: nat
  wt_reservation :: nat
  wt_owner :: nat
  wt_amount :: nat

record disk_state =
  ds_reserved :: nat
  ds_peak :: nat
  ds_next_reservation :: nat
  ds_next_waiter :: nat
  ds_transactions :: "(nat \<times> transaction_reservation) list"
  ds_reservations :: "(nat \<times> owned_reservation) list"
  ds_waiters :: "reservation_waiter list"
  ds_status :: "nat \<Rightarrow> nat"
  ds_notified :: "nat \<Rightarrow> bool"

definition disk_new :: disk_state where
  "disk_new =
     \<lparr>ds_reserved = 0, ds_peak = 0, ds_next_reservation = 0, ds_next_waiter = 0, ds_transactions = [],
      ds_reservations = [], ds_waiters = [], ds_status = (\<lambda>_. 0), ds_notified = (\<lambda>_. False)\<rparr>"

definition io_other :: "string \<Rightarrow> io_error" where
  "io_other message = IoError OtherKind message"

definition checked_sub_u64 :: "nat \<Rightarrow> nat \<Rightarrow> nat option" where
  "checked_sub_u64 a b = (if b \<le> a then Some (a - b) else None)"

text \<open>\<open>checked_add(amount).filter(|next| *next <= limit)\<close>.\<close>

definition add_within :: "nat \<Rightarrow> nat \<Rightarrow> nat \<Rightarrow> nat option" where
  "add_within current amount limit =
     Option.bind (checked_add_u64 current amount) (\<lambda>next. if next \<le> limit then Some next else None)"

definition register_transaction :: "nat \<Rightarrow> nat \<Rightarrow> disk_state \<Rightarrow> disk_state" where
  "register_transaction owner limit s =
     s\<lparr>ds_transactions := AList.update owner \<lparr>tx_reserved = 0, tx_limit = limit\<rparr> (ds_transactions s)\<rparr>"

definition register_reservation :: "nat \<Rightarrow> disk_state \<Rightarrow> (io_error + nat) \<times> disk_state" where
  "register_reservation owner s =
     (if map_of (ds_transactions s) owner = None
      then (Inl (io_other ''disk reservation transaction is closed''), s)
      else (case checked_add_u64 (ds_next_reservation s) 1 of
              None \<Rightarrow> (Inl (io_other ''disk reservation identifier overflow''), s)
            | Some reservation \<Rightarrow>
                (Inr reservation,
                 s\<lparr>ds_next_reservation := reservation,
                   ds_reservations :=
                     AList.update reservation \<lparr>own_owner = owner, own_amount = 0\<rparr> (ds_reservations s)\<rparr>)))"

definition can_grant :: "disk_state \<Rightarrow> nat \<Rightarrow> nat \<Rightarrow> bool" where
  "can_grant s limit amount \<longleftrightarrow> add_within (ds_reserved s) amount limit \<noteq> None"

definition transaction_quota :: io_error where
  "transaction_quota =
     IoError FileTooLarge ''transaction disk reservation quota exceeded or counter overflow''"

definition server_quota :: io_error where
  "server_quota = IoError FileTooLarge ''server-wide disk reservation quota exceeded or counter overflow''"

definition grant_locked ::
  "disk_state \<Rightarrow> nat \<Rightarrow> nat \<Rightarrow> nat \<Rightarrow> nat \<Rightarrow> (io_error + nat) \<times> disk_state" where
  "grant_locked s limit reservation owner amount =
     (case map_of (ds_transactions s) owner of
        None \<Rightarrow> (Inl (io_other ''disk reservation transaction is closed''), s)
      | Some transaction \<Rightarrow>
     (case add_within (tx_reserved transaction) amount (tx_limit transaction) of
        None \<Rightarrow> (Inl transaction_quota, s)
      | Some transaction_next \<Rightarrow>
     (case add_within (ds_reserved s) amount limit of
        None \<Rightarrow> (Inl server_quota, s)
      | Some global_next \<Rightarrow>
     (case map_of (ds_reservations s) reservation of
        None \<Rightarrow> (Inl (io_other ''disk reservation lease is no longer registered''), s)
      | Some entry \<Rightarrow>
     (if own_owner entry \<noteq> owner then (Inl (io_other ''disk reservation owner mismatch''), s)
      else (case checked_add_u64 (own_amount entry) amount of
              None \<Rightarrow> (Inl (io_other ''disk reservation counter overflow''), s)
            | Some reservation_next \<Rightarrow>
                (Inr reservation_next,
                 s\<lparr>ds_reserved := global_next, ds_peak := max (ds_peak s) global_next,
                   ds_transactions :=
                     AList.update owner (transaction\<lparr>tx_reserved := transaction_next\<rparr>) (ds_transactions s),
                   ds_reservations :=
                     AList.update reservation (entry\<lparr>own_amount := reservation_next\<rparr>) (ds_reservations s)\<rparr>)))))))"

text \<open>The loop of \<open>wake_waiters_locked\<close>, over the waiters still queued.\<close>

definition wake_waiter :: "reservation_waiter \<Rightarrow> io_error + nat \<Rightarrow> disk_state \<Rightarrow> disk_state" where
  "wake_waiter w granted s =
     s\<lparr>ds_status := (ds_status s)(wt_id w := (case granted of Inr _ \<Rightarrow> 1 | Inl _ \<Rightarrow> 2)),
       ds_notified := (ds_notified s)(wt_id w := True)\<rparr>"

fun wake_loop :: "nat \<Rightarrow> reservation_waiter list \<Rightarrow> disk_state \<Rightarrow> disk_state" where
  "wake_loop limit [] s = s\<lparr>ds_waiters := []\<rparr>"
| "wake_loop limit (w # ws) s =
     (if \<not> can_grant s limit (wt_amount w) then s\<lparr>ds_waiters := w # ws\<rparr>
      else (let (granted, s) =
              grant_locked (s\<lparr>ds_waiters := ws\<rparr>) limit (wt_reservation w) (wt_owner w) (wt_amount w)
            in wake_loop limit ws (wake_waiter w granted s)))"

definition wake_waiters_locked :: "disk_state \<Rightarrow> nat \<Rightarrow> disk_state" where
  "wake_waiters_locked s limit = wake_loop limit (ds_waiters s) s"

definition release_locked :: "disk_state \<Rightarrow> nat \<Rightarrow> nat \<Rightarrow> nat \<Rightarrow> (io_error + nat) \<times> disk_state" where
  "release_locked s reservation owner amount =
     (case map_of (ds_reservations s) reservation of
        None \<Rightarrow> (Inl (io_other ''disk reservation already released''), s)
      | Some entry \<Rightarrow>
     (if own_owner entry \<noteq> owner then (Inl (io_other ''disk reservation owner mismatch''), s)
      else
     (case checked_sub_u64 (own_amount entry) amount of
        None \<Rightarrow> (Inl (io_other ''disk reservation release underflow''), s)
      | Some reservation_next \<Rightarrow>
     (case map_of (ds_transactions s) owner of
        None \<Rightarrow> (Inl (io_other ''disk reservation transaction is closed''), s)
      | Some transaction \<Rightarrow>
     (case checked_sub_u64 (tx_reserved transaction) amount of
        None \<Rightarrow> (Inl (io_other ''transaction reservation release underflow''), s)
      | Some transaction_next \<Rightarrow>
     (case checked_sub_u64 (ds_reserved s) amount of
        None \<Rightarrow> (Inl (io_other ''server reservation release underflow''), s)
      | Some global_next \<Rightarrow>
          (Inr reservation_next,
           s\<lparr>ds_reserved := global_next,
             ds_transactions :=
               AList.update owner (transaction\<lparr>tx_reserved := transaction_next\<rparr>) (ds_transactions s),
             ds_reservations :=
               AList.update reservation (entry\<lparr>own_amount := reservation_next\<rparr>) (ds_reservations s)\<rparr>)))))))"

definition release :: "nat \<Rightarrow> nat \<Rightarrow> nat \<Rightarrow> nat \<Rightarrow> disk_state \<Rightarrow> (io_error + nat) \<times> disk_state" where
  "release limit reservation owner amount s =
     (case release_locked s reservation owner amount of
        (Inl e, s) \<Rightarrow> (Inl e, s)
      | (Inr remaining, s) \<Rightarrow> (Inr remaining, wake_waiters_locked s limit))"

definition unregister_reservation :: "nat \<Rightarrow> nat \<Rightarrow> disk_state \<Rightarrow> (io_error + unit) \<times> disk_state" where
  "unregister_reservation reservation owner s =
     (case map_of (ds_reservations s) reservation of
        None \<Rightarrow> (Inl (io_other ''disk reservation already released''), s)
      | Some entry \<Rightarrow>
          if own_owner entry \<noteq> owner then (Inl (io_other ''disk reservation owner mismatch''), s)
          else if own_amount entry \<noteq> 0 then (Inl (io_other ''cannot unregister a live disk reservation''), s)
          else (Inr (), s\<lparr>ds_reservations := AList.delete reservation (ds_reservations s)\<rparr>))"

text \<open>\<open>acquire\<close> up to the wait: an answer, or the number of the waiter queued.\<close>

datatype acquire_start = Ready "io_error + nat" | Waiting nat

definition reservation_amount :: "nat \<Rightarrow> nat \<Rightarrow> disk_state \<Rightarrow> nat option" where
  "reservation_amount reservation owner s =
     (case map_of (ds_reservations s) reservation of
        None \<Rightarrow> None
      | Some entry \<Rightarrow> if own_owner entry = owner then Some (own_amount entry) else None)"

definition acquire_begin ::
  "nat \<Rightarrow> nat \<Rightarrow> nat \<Rightarrow> nat \<Rightarrow> disk_state \<Rightarrow> acquire_start \<times> disk_state" where
  "acquire_begin limit reservation owner amount s =
     (if amount = 0
      then (Ready (ok_or (io_other ''disk reservation owner mismatch'') (reservation_amount reservation owner s)), s)
      else (case map_of (ds_transactions s) owner of
              None \<Rightarrow> (Ready (Inl (io_other ''disk reservation transaction is closed'')), s)
            | Some transaction \<Rightarrow>
           (if add_within (tx_reserved transaction) amount (tx_limit transaction) = None
            then (Ready (Inl transaction_quota), s)
            else if ds_waiters s = [] \<and> can_grant s limit amount
            then (let (granted, s) = grant_locked s limit reservation owner amount in (Ready granted, s))
            else (case checked_add_u64 (ds_next_waiter s) 1 of
                    None \<Rightarrow> (Ready (Inl (io_other ''disk waiter identifier overflow'')), s)
                  | Some waiter_id \<Rightarrow>
                      (Waiting waiter_id,
                       s\<lparr>ds_next_waiter := waiter_id,
                         ds_waiters := ds_waiters s @
                           [\<lparr>wt_id = waiter_id, wt_reservation = reservation, wt_owner = owner, wt_amount = amount\<rparr>]\<rparr>)))))"

text \<open>\<open>acquire\<close> after the wait, which ended with a notification or an error. \<open>None\<close> is the
  panic of \<open>expect("granted reservation remains registered")\<close>.\<close>

fun remove_waiter :: "nat \<Rightarrow> reservation_waiter list \<Rightarrow> reservation_waiter list" where
  "remove_waiter i [] = []"
| "remove_waiter i (w # ws) = (if wt_id w = i then ws else w # remove_waiter i ws)"

definition not_granted :: io_error where
  "not_granted = IoError FileTooLarge ''disk reservation waiter could not be granted''"

definition withdraw ::
  "nat \<Rightarrow> nat \<Rightarrow> nat \<Rightarrow> nat \<Rightarrow> nat \<Rightarrow> disk_state \<Rightarrow> io_error option \<times> disk_state" where
  "withdraw limit waiter_id reservation owner amount s =
     (if list_ex (\<lambda>w. wt_id w = waiter_id) (ds_waiters s)
      then (None, wake_waiters_locked
              (s\<lparr>ds_waiters := remove_waiter waiter_id (ds_waiters s),
                 ds_status := (ds_status s)(waiter_id := 2)\<rparr>) limit)
      else (let previous = ds_status s waiter_id; s = s\<lparr>ds_status := (ds_status s)(waiter_id := 2)\<rparr>
            in if previous = 1
               then (case release_locked s reservation owner amount of
                       (Inl e, s) \<Rightarrow> (Some e, s)
                     | (Inr _, s) \<Rightarrow> (None, wake_waiters_locked s limit))
               else (None, s)))"

definition acquire_end ::
  "nat \<Rightarrow> nat \<Rightarrow> nat \<Rightarrow> nat \<Rightarrow> nat \<Rightarrow> io_error option \<Rightarrow> disk_state
     \<Rightarrow> (io_error + nat) option \<times> disk_state" where
  "acquire_end limit waiter_id reservation owner amount outcome s =
     (if outcome \<noteq> None \<or> ds_status s waiter_id \<noteq> 1
      then (case withdraw limit waiter_id reservation owner amount s of
              (Some e, s) \<Rightarrow> (Some (Inl e), s)
            | (None, s) \<Rightarrow>
                (Some (Inl (case outcome of Some e \<Rightarrow> e | None \<Rightarrow> not_granted)), s))
      else (map_option (\<lambda>entry. Inr (own_amount entry)) (map_of (ds_reservations s) reservation), s))"

text \<open>\<open>Drop\<close> of a lease and of a transaction.\<close>

definition lease_amount :: "nat \<Rightarrow> nat \<Rightarrow> disk_state \<Rightarrow> nat" where
  "lease_amount reservation owner s =
     (case reservation_amount reservation owner s of None \<Rightarrow> 0 | Some n \<Rightarrow> n)"

definition drop_lease :: "nat \<Rightarrow> nat \<Rightarrow> nat \<Rightarrow> disk_state \<Rightarrow> disk_state" where
  "drop_lease limit reservation owner s =
     (let amount = lease_amount reservation owner s;
          s = (if amount \<noteq> 0 then snd (release limit reservation owner amount s) else s)
      in snd (unregister_reservation reservation owner s))"

definition reserved_bytes :: "nat \<Rightarrow> disk_state \<Rightarrow> nat" where
  "reserved_bytes owner s =
     (case map_of (ds_transactions s) owner of None \<Rightarrow> 0 | Some transaction \<Rightarrow> tx_reserved transaction)"

definition drop_transaction :: "nat \<Rightarrow> disk_state \<Rightarrow> disk_state" where
  "drop_transaction owner s =
     (if (case map_of (ds_transactions s) owner of None \<Rightarrow> False | Some transaction \<Rightarrow> tx_reserved transaction = 0)
        \<and> \<not> list_ex (\<lambda>(_, r). own_owner r = owner) (ds_reservations s)
        \<and> \<not> list_ex (\<lambda>w. wt_owner w = owner) (ds_waiters s)
      then s\<lparr>ds_transactions := AList.delete owner (ds_transactions s)\<rparr>
      else s)"

text \<open>The counters of one aggregated download, \<open>StreamingAggregateQuota\<close>.\<close>

record aggregate_quota =
  agg_encoded :: nat
  agg_decoded :: nat
  agg_max_encoded :: nat
  agg_max_decoded :: nat

definition aggregate_add :: "nat \<Rightarrow> nat \<Rightarrow> nat \<Rightarrow> string \<Rightarrow> io_error + nat" where
  "aggregate_add counter amount limit label =
     ok_or (IoError FileTooLarge (''aggregate '' @ label @ '' quota exceeded or counter overflow''))
       (add_within counter amount limit)"

definition add_encoded :: "nat \<Rightarrow> aggregate_quota \<Rightarrow> (io_error + unit) \<times> aggregate_quota" where
  "add_encoded amount q =
     (case aggregate_add (agg_encoded q) amount (agg_max_encoded q) ''encoded-byte'' of
        Inl e \<Rightarrow> (Inl e, q)
      | Inr n \<Rightarrow> (Inr (), q\<lparr>agg_encoded := n\<rparr>))"

definition add_decoded :: "nat \<Rightarrow> aggregate_quota \<Rightarrow> (io_error + unit) \<times> aggregate_quota" where
  "add_decoded amount q =
     (case aggregate_add (agg_decoded q) amount (agg_max_decoded q) ''decoded-byte'' of
        Inl e \<Rightarrow> (Inl e, q)
      | Inr n \<Rightarrow> (Inr (), q\<lparr>agg_decoded := n\<rparr>))"

text \<open>
  The life of the coordinator: the calls of any number of tasks in any order. A grow that has to wait
  is pending until it ends; its future may also be dropped while it waits (\<open>Abandon\<close>), which runs
  none of \<open>acquire\<close>. A lease is not dropped while a grow of it is pending, because the grow borrows it.
\<close>

record disk_world =
  dw_next_owner :: nat
  dw_state :: disk_state
  dw_pending :: "(nat \<times> nat \<times> nat \<times> nat) list"

datatype disk_op =
    OpenTransaction nat
  | Lease nat
  | GrowBegin nat nat nat
  | GrowEnd nat "io_error option"
  | Abandon nat
  | Shrink nat nat nat
  | DropLease nat nat
  | DropTransaction nat

datatype disk_result =
    Opened nat | Leased "io_error + nat" | Started acquire_start | Grown "io_error + nat"
  | Shrunk "io_error + nat" | Dropped | NotEnabled | Panicked

definition disk_world_new :: disk_world where
  "disk_world_new = \<lparr>dw_next_owner = 1, dw_state = disk_new, dw_pending = []\<rparr>"

definition grow_begin :: "nat \<Rightarrow> nat \<Rightarrow> nat \<Rightarrow> nat \<Rightarrow> disk_world \<Rightarrow> disk_result \<times> disk_world" where
  "grow_begin limit reservation owner amount w =
     (let (start, s) = acquire_begin limit reservation owner amount (dw_state w) in
      (Started start,
       w\<lparr>dw_state := s,
         dw_pending := (case start of Ready _ \<Rightarrow> dw_pending w
                        | Waiting i \<Rightarrow> (i, reservation, owner, amount) # dw_pending w)\<rparr>))"

definition grow_end :: "nat \<Rightarrow> nat \<Rightarrow> io_error option \<Rightarrow> disk_world \<Rightarrow> disk_result \<times> disk_world" where
  "grow_end limit i outcome w =
     (case map_of (dw_pending w) i of
        None \<Rightarrow> (NotEnabled, w)
      | Some (reservation, owner, amount) \<Rightarrow>
          if outcome = None \<and> \<not> ds_notified (dw_state w) i then (NotEnabled, w)
          else (let (result, s) = acquire_end limit i reservation owner amount outcome (dw_state w) in
                (case result of None \<Rightarrow> Panicked | Some r \<Rightarrow> Grown r,
                 w\<lparr>dw_state := s, dw_pending := AList.delete i (dw_pending w)\<rparr>)))"

fun disk_run :: "nat \<Rightarrow> disk_op \<Rightarrow> disk_world \<Rightarrow> disk_result \<times> disk_world" where
  "disk_run limit (OpenTransaction tx) w =
     (case checked_add_u64 (dw_next_owner w) 1 of
        None \<Rightarrow> (Panicked, w)
      | Some next \<Rightarrow>
          (Opened (dw_next_owner w),
           w\<lparr>dw_next_owner := next, dw_state := register_transaction (dw_next_owner w) tx (dw_state w)\<rparr>))"
| "disk_run limit (Lease owner) w =
     (let (result, s) = register_reservation owner (dw_state w) in (Leased result, w\<lparr>dw_state := s\<rparr>))"
| "disk_run limit (GrowBegin reservation owner amount) w = grow_begin limit reservation owner amount w"
| "disk_run limit (GrowEnd i outcome) w = grow_end limit i outcome w"
| "disk_run limit (Abandon i) w = (Dropped, w\<lparr>dw_pending := AList.delete i (dw_pending w)\<rparr>)"
| "disk_run limit (Shrink reservation owner amount) w =
     (let (result, s) = release limit reservation owner amount (dw_state w) in (Shrunk result, w\<lparr>dw_state := s\<rparr>))"
| "disk_run limit (DropLease reservation owner) w =
     (if list_ex (\<lambda>(_, r, _). r = reservation) (dw_pending w) then (NotEnabled, w)
      else (Dropped, w\<lparr>dw_state := drop_lease limit reservation owner (dw_state w)\<rparr>))"
| "disk_run limit (DropTransaction owner) w = (Dropped, w\<lparr>dw_state := drop_transaction owner (dw_state w)\<rparr>)"

fun disk_runs :: "nat \<Rightarrow> disk_op list \<Rightarrow> disk_world \<Rightarrow> disk_result list \<times> disk_world" where
  "disk_runs limit [] w = ([], w)"
| "disk_runs limit (op # ops) w =
     (let (result, w) = disk_run limit op w; (results, w) = disk_runs limit ops w in (result # results, w))"

section \<open>Sums over the leases\<close>

definition total_held :: "(nat \<times> owned_reservation) list \<Rightarrow> nat" where
  "total_held rs = sum_list (map (\<lambda>(_, r). own_amount r) rs)"

definition held :: "nat \<Rightarrow> (nat \<times> owned_reservation) list \<Rightarrow> nat" where
  "held owner rs = sum_list (map (\<lambda>(_, r). if own_owner r = owner then own_amount r else 0) rs)"

lemma sum_update_Some:
  fixes f :: "'v \<Rightarrow> nat"
  assumes "map_of xs k = Some old"
  shows "sum_list (map (\<lambda>(_, v). f v) (AList.update k v xs)) + f old = sum_list (map (\<lambda>(_, v). f v) xs) + f v"
  using assms by (induction xs) (auto split: if_splits)

lemma sum_update_None:
  fixes f :: "'v \<Rightarrow> nat"
  assumes "map_of xs k = None"
  shows "sum_list (map (\<lambda>(_, v). f v) (AList.update k v xs)) = sum_list (map (\<lambda>(_, v). f v) xs) + f v"
  using assms by (induction xs) (auto split: if_splits)

lemma delete_absent: "k \<notin> fst ` set xs \<Longrightarrow> AList.delete k xs = xs"
  by (induction xs) auto

lemma sum_delete:
  fixes f :: "'v \<Rightarrow> nat"
  assumes "distinct (map fst xs)" "map_of xs k = Some old"
  shows "sum_list (map (\<lambda>(_, v). f v) (AList.delete k xs)) + f old = sum_list (map (\<lambda>(_, v). f v) xs)"
  using assms
proof (induction xs)
  case (Cons x xs)
  show ?case
  proof (cases "fst x = k")
    case True
    then have "AList.delete k xs = xs" using Cons.prems(1) by (intro delete_absent) auto
    with True Cons.prems show ?thesis by (cases x) auto
  next
    case False
    with Cons show ?thesis by (cases x) auto
  qed
qed simp

lemma total_update: "map_of rs k = Some old \<Longrightarrow> total_held (AList.update k v rs) + own_amount old = total_held rs + own_amount v"
  unfolding total_held_def by (rule sum_update_Some)

lemma held_update:
  "map_of rs k = Some old \<Longrightarrow>
    held owner (AList.update k v rs) + (if own_owner old = owner then own_amount old else 0)
    = held owner rs + (if own_owner v = owner then own_amount v else 0)"
  unfolding held_def using sum_update_Some [of rs k old "\<lambda>r. if own_owner r = owner then own_amount r else 0" v] by simp

lemma total_insert: "map_of rs k = None \<Longrightarrow> total_held (AList.update k v rs) = total_held rs + own_amount v"
  unfolding total_held_def by (rule sum_update_None)

lemma held_insert:
  "map_of rs k = None \<Longrightarrow>
    held owner (AList.update k v rs) = held owner rs + (if own_owner v = owner then own_amount v else 0)"
  unfolding held_def using sum_update_None [of rs k "\<lambda>r. if own_owner r = owner then own_amount r else 0" v] by simp

lemma total_delete:
  "distinct (map fst rs) \<Longrightarrow> map_of rs k = Some old \<Longrightarrow> total_held (AList.delete k rs) + own_amount old = total_held rs"
  unfolding total_held_def by (rule sum_delete)

lemma held_delete:
  "distinct (map fst rs) \<Longrightarrow> map_of rs k = Some old \<Longrightarrow>
    held owner (AList.delete k rs) + (if own_owner old = owner then own_amount old else 0) = held owner rs"
  unfolding held_def using sum_delete [of rs k old "\<lambda>r. if own_owner r = owner then own_amount r else 0"] by simp

lemma held_le_total: "held owner rs \<le> total_held rs"
  unfolding held_def total_held_def by (induction rs) auto

lemma amount_le_held: "map_of rs k = Some e \<Longrightarrow> own_amount e \<le> held (own_owner e) rs"
  unfolding held_def by (induction rs) (auto split: if_splits intro: trans_le_add2)

section \<open>The invariant\<close>

definition transactions_ok :: "disk_state \<Rightarrow> bool" where
  "transactions_ok s \<longleftrightarrow>
     (\<forall>owner tx. map_of (ds_transactions s) owner = Some tx \<longrightarrow>
        tx_reserved tx = held owner (ds_reservations s) \<and> held owner (ds_reservations s) \<le> tx_limit tx \<and> tx_limit tx \<le> u64_max)"

definition disk_ok :: "nat \<Rightarrow> disk_state \<Rightarrow> bool" where
  "disk_ok limit s \<longleftrightarrow>
     limit \<le> u64_max \<and> distinct (map fst (ds_transactions s)) \<and> distinct (map fst (ds_reservations s))
     \<and> ds_reserved s = total_held (ds_reservations s) \<and> ds_reserved s \<le> ds_peak s \<and> ds_peak s \<le> limit
     \<and> transactions_ok s
     \<and> (\<forall>r e. map_of (ds_reservations s) r = Some e \<longrightarrow> map_of (ds_transactions s) (own_owner e) \<noteq> None)
     \<and> (\<forall>r e. map_of (ds_reservations s) r = Some e \<longrightarrow> r \<le> ds_next_reservation s)"

definition head_blocked :: "nat \<Rightarrow> disk_state \<Rightarrow> bool" where
  "head_blocked limit s \<longleftrightarrow>
     (case ds_waiters s of [] \<Rightarrow> True | w # _ \<Rightarrow> limit < ds_reserved s + wt_amount w)"

lemma add_within_iff: "limit \<le> u64_max \<Longrightarrow> add_within a b limit = (if a + b \<le> limit then Some (a + b) else None)"
  by (auto simp: add_within_def checked_add_u64_def)

lemma can_grant_iff: "limit \<le> u64_max \<Longrightarrow> can_grant s limit amount \<longleftrightarrow> ds_reserved s + amount \<le> limit"
  by (simp add: can_grant_def add_within_iff)

lemma disk_okD:
  assumes "disk_ok limit s"
  shows "limit \<le> u64_max" "ds_reserved s = total_held (ds_reservations s)" "ds_reserved s \<le> limit"
    "distinct (map fst (ds_transactions s))" "distinct (map fst (ds_reservations s))"
    "map_of (ds_transactions s) owner = Some tx \<Longrightarrow> tx_reserved tx = held owner (ds_reservations s)"
    "map_of (ds_transactions s) owner = Some tx \<Longrightarrow> tx_reserved tx \<le> tx_limit tx \<and> tx_limit tx \<le> u64_max"
    "map_of (ds_reservations s) r = Some e \<Longrightarrow> \<exists>tx. map_of (ds_transactions s) (own_owner e) = Some tx"
    "map_of (ds_reservations s) r = Some e \<Longrightarrow> r \<le> ds_next_reservation s"
  using assms unfolding disk_ok_def transactions_ok_def by (simp, simp, simp, simp, simp, blast, metis, blast, blast)

lemma disk_ok_fields:
  "disk_ok limit (s\<lparr>ds_waiters := ws\<rparr>) = disk_ok limit s"
  "disk_ok limit (s\<lparr>ds_status := f\<rparr>) = disk_ok limit s"
  "disk_ok limit (s\<lparr>ds_notified := g\<rparr>) = disk_ok limit s"
  "disk_ok limit (s\<lparr>ds_next_waiter := n\<rparr>) = disk_ok limit s"
  by (simp_all add: disk_ok_def transactions_ok_def)

lemma head_blocked_fields:
  "head_blocked limit (s\<lparr>ds_reservations := rs\<rparr>) = head_blocked limit s"
  "head_blocked limit (s\<lparr>ds_transactions := ts\<rparr>) = head_blocked limit s"
  "head_blocked limit (s\<lparr>ds_status := f\<rparr>) = head_blocked limit s"
  "head_blocked limit (s\<lparr>ds_next_reservation := n\<rparr>) = head_blocked limit s"
  by (simp_all add: head_blocked_def split: list.split)

text \<open>Moving an amount into or out of a lease, in all three counters.\<close>

lemma disk_ok_move:
  assumes ok: "disk_ok limit s"
    and tx: "map_of (ds_transactions s) owner = Some tx"
    and res: "map_of (ds_reservations s) r = Some e" "own_owner e = owner"
    and sum: "total_held (AList.update r (e\<lparr>own_amount := m\<rparr>) (ds_reservations s)) = g"
      "held owner (AList.update r (e\<lparr>own_amount := m\<rparr>) (ds_reservations s)) = t"
    and bounds: "g \<le> limit" "t \<le> tx_limit tx" "p = ds_peak s \<or> p = max (ds_peak s) g" "g \<le> p"
  shows "disk_ok limit (s\<lparr>ds_reserved := g, ds_peak := p,
      ds_transactions := AList.update owner (tx\<lparr>tx_reserved := t\<rparr>) (ds_transactions s),
      ds_reservations := AList.update r (e\<lparr>own_amount := m\<rparr>) (ds_reservations s)\<rparr>)"
proof -
  have others: "held o' (AList.update r (e\<lparr>own_amount := m\<rparr>) (ds_reservations s)) = held o' (ds_reservations s)"
    if "o' \<noteq> owner" for o'
    using held_update [OF res(1), of o' "e\<lparr>own_amount := m\<rparr>"] that res(2) by simp
  show ?thesis
    using ok tx res bounds sum disk_okD [OF ok]
    unfolding disk_ok_def transactions_ok_def
    by (auto simp: distinct_update update_conv' others)
qed

lemma grant_keeps:
  "ds_waiters (snd (grant_locked s limit r owner a)) = ds_waiters s"
  "ds_status (snd (grant_locked s limit r owner a)) = ds_status s"
  "ds_notified (snd (grant_locked s limit r owner a)) = ds_notified s"
  "ds_next_waiter (snd (grant_locked s limit r owner a)) = ds_next_waiter s"
  "dom (map_of (ds_reservations (snd (grant_locked s limit r owner a)))) = dom (map_of (ds_reservations s))"
  "dom (map_of (ds_transactions (snd (grant_locked s limit r owner a)))) = dom (map_of (ds_transactions s))"
  by (auto simp: grant_locked_def update_conv' split: option.split)

lemma release_keeps:
  "ds_waiters (snd (release_locked s r owner a)) = ds_waiters s"
  "ds_status (snd (release_locked s r owner a)) = ds_status s"
  "ds_notified (snd (release_locked s r owner a)) = ds_notified s"
  "ds_next_waiter (snd (release_locked s r owner a)) = ds_next_waiter s"
  "dom (map_of (ds_reservations (snd (release_locked s r owner a)))) = dom (map_of (ds_reservations s))"
  "dom (map_of (ds_transactions (snd (release_locked s r owner a)))) = dom (map_of (ds_transactions s))"
  by (auto simp: release_locked_def update_conv' split: option.split)

section \<open>The ledger\<close>

text \<open>The abstract quota keeps no counters: what an owner or the whole process holds is summed up
  from the leases when it is needed, in unbounded numbers.\<close>

record ledger =
  ld_peak :: nat
  ld_next_reservation :: nat
  ld_next_waiter :: nat
  ld_limits :: "(nat \<times> nat) list"
  ld_leases :: "(nat \<times> owned_reservation) list"
  ld_queue :: "reservation_waiter list"
  ld_status :: "nat \<Rightarrow> nat"
  ld_notified :: "nat \<Rightarrow> bool"

definition ledger_of :: "disk_state \<Rightarrow> ledger" where
  "ledger_of s =
     \<lparr>ld_peak = ds_peak s, ld_next_reservation = ds_next_reservation s, ld_next_waiter = ds_next_waiter s,
      ld_limits = map (\<lambda>(owner, tx). (owner, tx_limit tx)) (ds_transactions s),
      ld_leases = ds_reservations s, ld_queue = ds_waiters s, ld_status = ds_status s, ld_notified = ds_notified s\<rparr>"

definition move_amount :: "nat \<Rightarrow> owned_reservation \<Rightarrow> nat \<Rightarrow> ledger \<Rightarrow> ledger" where
  "move_amount r e m q =
     (let leases = AList.update r (e\<lparr>own_amount := m\<rparr>) (ld_leases q) in
      q\<lparr>ld_leases := leases, ld_peak := max (ld_peak q) (total_held leases)\<rparr>)"

definition ledger_grant :: "nat \<Rightarrow> nat \<Rightarrow> nat \<Rightarrow> nat \<Rightarrow> ledger \<Rightarrow> (io_error + nat) \<times> ledger" where
  "ledger_grant limit r owner amount q =
     (case map_of (ld_limits q) owner of
        None \<Rightarrow> (Inl (io_other ''disk reservation transaction is closed''), q)
      | Some own \<Rightarrow>
          if own < held owner (ld_leases q) + amount then (Inl transaction_quota, q)
          else if limit < total_held (ld_leases q) + amount then (Inl server_quota, q)
          else (case map_of (ld_leases q) r of
                  None \<Rightarrow> (Inl (io_other ''disk reservation lease is no longer registered''), q)
                | Some e \<Rightarrow>
                    if own_owner e \<noteq> owner then (Inl (io_other ''disk reservation owner mismatch''), q)
                    else (Inr (own_amount e + amount), move_amount r e (own_amount e + amount) q)))"

definition ledger_release :: "nat \<Rightarrow> nat \<Rightarrow> nat \<Rightarrow> ledger \<Rightarrow> (io_error + nat) \<times> ledger" where
  "ledger_release r owner amount q =
     (case map_of (ld_leases q) r of
        None \<Rightarrow> (Inl (io_other ''disk reservation already released''), q)
      | Some e \<Rightarrow>
          if own_owner e \<noteq> owner then (Inl (io_other ''disk reservation owner mismatch''), q)
          else if own_amount e < amount then (Inl (io_other ''disk reservation release underflow''), q)
          else (Inr (own_amount e - amount), move_amount r e (own_amount e - amount) q))"

lemma map_of_limits: "map_of (map (\<lambda>(owner, tx). (owner, tx_limit tx)) xs) owner = map_option tx_limit (map_of xs owner)"
  by (induction xs) auto

lemma limits_update:
  "map_of xs owner = Some tx \<Longrightarrow>
    map (\<lambda>(owner, tx). (owner, tx_limit tx)) (AList.update owner (tx\<lparr>tx_reserved := t\<rparr>) xs)
    = map (\<lambda>(owner, tx). (owner, tx_limit tx)) xs"
  by (induction xs) (auto split: if_splits)

lemma grant_locked_ok:
  assumes ok: "disk_ok limit s"
  shows "disk_ok limit (snd (grant_locked s limit r owner a))
    \<and> map_prod id ledger_of (grant_locked s limit r owner a) = ledger_grant limit r owner a (ledger_of s)
    \<and> (\<forall>n s'. grant_locked s limit r owner a = (Inr n, s') \<longrightarrow> ds_reserved s' = ds_reserved s + a)"
proof (cases "map_of (ds_transactions s) owner")
  case None
  then show ?thesis using ok by (simp add: grant_locked_def ledger_grant_def ledger_of_def map_of_limits)
next
  case tx: (Some tx)
  note okD = disk_okD [OF ok]
  have within: "add_within (tx_reserved tx) a (tx_limit tx)
      = (if held owner (ds_reservations s) + a \<le> tx_limit tx then Some (held owner (ds_reservations s) + a) else None)"
    "add_within (ds_reserved s) a limit
      = (if total_held (ds_reservations s) + a \<le> limit then Some (total_held (ds_reservations s) + a) else None)"
    using okD(1,2) okD(6,7) [OF tx] by (simp_all add: add_within_iff)
  show ?thesis
  proof (cases "held owner (ds_reservations s) + a \<le> tx_limit tx \<and> total_held (ds_reservations s) + a \<le> limit
      \<and> (\<exists>e. map_of (ds_reservations s) r = Some e \<and> own_owner e = owner)")
    case False
    then show ?thesis using ok tx within
      by (auto simp: grant_locked_def ledger_grant_def ledger_of_def map_of_limits split: option.split)
  next
    case True
    then obtain e where fits: "held owner (ds_reservations s) + a \<le> tx_limit tx" "total_held (ds_reservations s) + a \<le> limit"
      and e: "map_of (ds_reservations s) r = Some e" "own_owner e = owner" by blast
    have "own_amount e \<le> limit"
      using amount_le_held [OF e(1)] held_le_total [of "own_owner e" "ds_reservations s"] okD(2,3) by linarith
    then have small: "checked_add_u64 (own_amount e) a = Some (own_amount e + a)"
      using amount_le_held [OF e(1)] e(2) fits okD(1) held_le_total [of owner "ds_reservations s"]
      by (simp add: checked_add_u64_def)
    let ?leases = "AList.update r (e\<lparr>own_amount := own_amount e + a\<rparr>) (ds_reservations s)"
    have sums: "total_held ?leases = total_held (ds_reservations s) + a" "held owner ?leases = held owner (ds_reservations s) + a"
      using total_update [OF e(1), of "e\<lparr>own_amount := own_amount e + a\<rparr>"]
        held_update [OF e(1), of owner "e\<lparr>own_amount := own_amount e + a\<rparr>"] e(2) by simp_all
    show ?thesis
      using disk_ok_move [OF ok tx e sums fits(2,1), of "max (ds_peak s) (total_held (ds_reservations s) + a)"] tx e fits sums small okD(2)
      by (simp add: grant_locked_def ledger_grant_def ledger_of_def map_of_limits within within(2) [unfolded okD(2)]
          move_amount_def Let_def limits_update)
  qed
qed

lemma release_locked_ok:
  assumes ok: "disk_ok limit s"
  shows "disk_ok limit (snd (release_locked s r owner a))
    \<and> map_prod id ledger_of (release_locked s r owner a) = ledger_release r owner a (ledger_of s)"
proof (cases "\<exists>e. map_of (ds_reservations s) r = Some e \<and> own_owner e = owner \<and> a \<le> own_amount e")
  case False
  then show ?thesis using ok
    by (auto simp: release_locked_def ledger_release_def ledger_of_def checked_sub_u64_def split: option.split)
next
  case True
  then obtain e where e: "map_of (ds_reservations s) r = Some e" "own_owner e = owner" and a: "a \<le> own_amount e" by blast
  note okD = disk_okD [OF ok]
  obtain tx where tx: "map_of (ds_transactions s) owner = Some tx" using okD(8) [OF e(1)] e(2) by blast
  let ?leases = "AList.update r (e\<lparr>own_amount := own_amount e - a\<rparr>) (ds_reservations s)"
  have le: "own_amount e \<le> held owner (ds_reservations s)" "held owner (ds_reservations s) \<le> total_held (ds_reservations s)"
    using amount_le_held [OF e(1)] e(2) held_le_total by auto
  then have sums: "total_held ?leases = total_held (ds_reservations s) - a" "held owner ?leases = held owner (ds_reservations s) - a"
    using total_update [OF e(1), of "e\<lparr>own_amount := own_amount e - a\<rparr>"]
      held_update [OF e(1), of owner "e\<lparr>own_amount := own_amount e - a\<rparr>"] e(2) a by simp_all
  have bounds: "total_held (ds_reservations s) - a \<le> limit" "held owner (ds_reservations s) - a \<le> tx_limit tx"
    "total_held (ds_reservations s) - a \<le> ds_peak s"
    using okD(2,3) okD(6,7) [OF tx] ok by (auto simp: disk_ok_def)
  have small: "checked_sub_u64 (own_amount e) a = Some (own_amount e - a)"
    "checked_sub_u64 (tx_reserved tx) a = Some (held owner (ds_reservations s) - a)"
    "checked_sub_u64 (ds_reserved s) a = Some (total_held (ds_reservations s) - a)"
    using a le okD(2) okD(6) [OF tx] by (simp_all add: checked_sub_u64_def)
  have "disk_ok limit (s\<lparr>ds_reserved := total_held (ds_reservations s) - a,
      ds_transactions := AList.update owner (tx\<lparr>tx_reserved := held owner (ds_reservations s) - a\<rparr>) (ds_transactions s),
      ds_reservations := ?leases\<rparr>)"
    using disk_ok_move [OF ok tx e sums bounds(1,2), of "ds_peak s"] bounds(3) by simp
  then show ?thesis using e a tx sums small bounds(3)
    by (simp add: release_locked_def ledger_release_def ledger_of_def move_amount_def Let_def limits_update max_absorb1)
qed

fun ledger_wake :: "nat \<Rightarrow> reservation_waiter list \<Rightarrow> ledger \<Rightarrow> ledger" where
  "ledger_wake limit [] q = q\<lparr>ld_queue := []\<rparr>"
| "ledger_wake limit (w # ws) q =
     (if limit < total_held (ld_leases q) + wt_amount w then q\<lparr>ld_queue := w # ws\<rparr>
      else (let (granted, q) =
              ledger_grant limit (wt_reservation w) (wt_owner w) (wt_amount w) (q\<lparr>ld_queue := ws\<rparr>)
            in ledger_wake limit ws
                 (q\<lparr>ld_status := (ld_status q)(wt_id w := (case granted of Inr _ \<Rightarrow> 1 | Inl _ \<Rightarrow> 2)),
                    ld_notified := (ld_notified q)(wt_id w := True)\<rparr>)))"

definition ledger_give_back :: "nat \<Rightarrow> nat \<Rightarrow> nat \<Rightarrow> nat \<Rightarrow> ledger \<Rightarrow> (io_error + nat) \<times> ledger" where
  "ledger_give_back limit r owner amount q =
     (case ledger_release r owner amount q of
        (Inl e, q) \<Rightarrow> (Inl e, q)
      | (Inr n, q) \<Rightarrow> (Inr n, ledger_wake limit (ld_queue q) q))"

definition lease_of :: "nat \<Rightarrow> nat \<Rightarrow> ledger \<Rightarrow> nat option" where
  "lease_of r owner q =
     (case map_of (ld_leases q) r of
        None \<Rightarrow> None
      | Some e \<Rightarrow> if own_owner e = owner then Some (own_amount e) else None)"

definition ledger_begin :: "nat \<Rightarrow> nat \<Rightarrow> nat \<Rightarrow> nat \<Rightarrow> ledger \<Rightarrow> acquire_start \<times> ledger" where
  "ledger_begin limit r owner amount q =
     (if amount = 0 then (Ready (ok_or (io_other ''disk reservation owner mismatch'') (lease_of r owner q)), q)
      else (case map_of (ld_limits q) owner of
              None \<Rightarrow> (Ready (Inl (io_other ''disk reservation transaction is closed'')), q)
            | Some own \<Rightarrow>
                if own < held owner (ld_leases q) + amount then (Ready (Inl transaction_quota), q)
                else if ld_queue q = [] \<and> total_held (ld_leases q) + amount \<le> limit
                then (let (granted, q) = ledger_grant limit r owner amount q in (Ready granted, q))
                else if ld_next_waiter q < u64_max
                then (let i = ld_next_waiter q + 1 in
                      (Waiting i, q\<lparr>ld_next_waiter := i, ld_queue := ld_queue q @
                         [\<lparr>wt_id = i, wt_reservation = r, wt_owner = owner, wt_amount = amount\<rparr>]\<rparr>))
                else (Ready (Inl (io_other ''disk waiter identifier overflow'')), q)))"

definition ledger_withdraw ::
  "nat \<Rightarrow> nat \<Rightarrow> nat \<Rightarrow> nat \<Rightarrow> nat \<Rightarrow> ledger \<Rightarrow> io_error option \<times> ledger" where
  "ledger_withdraw limit i r owner amount q =
     (if list_ex (\<lambda>w. wt_id w = i) (ld_queue q)
      then (None, ledger_wake limit (remove_waiter i (ld_queue q)) (q\<lparr>ld_status := (ld_status q)(i := 2)\<rparr>))
      else if ld_status q i = 1
      then (case ledger_give_back limit r owner amount (q\<lparr>ld_status := (ld_status q)(i := 2)\<rparr>) of
              (Inl e, q) \<Rightarrow> (Some e, q)
            | (Inr _, q) \<Rightarrow> (None, q))
      else (None, q\<lparr>ld_status := (ld_status q)(i := 2)\<rparr>))"

definition ledger_end ::
  "nat \<Rightarrow> nat \<Rightarrow> nat \<Rightarrow> nat \<Rightarrow> nat \<Rightarrow> io_error option \<Rightarrow> ledger \<Rightarrow> (io_error + nat) option \<times> ledger" where
  "ledger_end limit i r owner amount outcome q =
     (if outcome = None \<and> ld_status q i = 1
      then (map_option (\<lambda>e. Inr (own_amount e)) (map_of (ld_leases q) r), q)
      else (case ledger_withdraw limit i r owner amount q of
              (Some e, q) \<Rightarrow> (Some (Inl e), q)
            | (None, q) \<Rightarrow> (Some (Inl (case outcome of Some e \<Rightarrow> e | None \<Rightarrow> not_granted)), q)))"

text \<open>Dropping a lease gives everything it holds back and forgets it.\<close>

definition ledger_drop_lease :: "nat \<Rightarrow> nat \<Rightarrow> nat \<Rightarrow> ledger \<Rightarrow> ledger" where
  "ledger_drop_lease limit r owner q =
     (case lease_of r owner q of
        None \<Rightarrow> q
      | Some n \<Rightarrow>
          (let q = (if n = 0 then q else snd (ledger_give_back limit r owner n q)) in
           if lease_of r owner q = Some 0 then q\<lparr>ld_leases := AList.delete r (ld_leases q)\<rparr> else q))"

definition ledger_drop_transaction :: "nat \<Rightarrow> ledger \<Rightarrow> ledger" where
  "ledger_drop_transaction owner q =
     (if list_ex (\<lambda>(_, e). own_owner e = owner) (ld_leases q) \<or> list_ex (\<lambda>w. wt_owner w = owner) (ld_queue q) then q
      else q\<lparr>ld_limits := AList.delete owner (ld_limits q)\<rparr>)"

section \<open>The coordinator implements the ledger\<close>

lemma ledger_of_sel [simp]:
  "ld_queue (ledger_of s) = ds_waiters s" "ld_leases (ledger_of s) = ds_reservations s"
  "ld_status (ledger_of s) = ds_status s" "ld_notified (ledger_of s) = ds_notified s"
  "ld_next_waiter (ledger_of s) = ds_next_waiter s" "ld_next_reservation (ledger_of s) = ds_next_reservation s"
  "map_of (ld_limits (ledger_of s)) owner = map_option tx_limit (map_of (ds_transactions s) owner)"
  by (simp_all add: ledger_of_def map_of_limits)

lemma ledger_of_updates [simp]:
  "ledger_of (s\<lparr>ds_waiters := ws\<rparr>) = (ledger_of s)\<lparr>ld_queue := ws\<rparr>"
  "ledger_of (s\<lparr>ds_status := f\<rparr>) = (ledger_of s)\<lparr>ld_status := f\<rparr>"
  "ledger_of (s\<lparr>ds_notified := g\<rparr>) = (ledger_of s)\<lparr>ld_notified := g\<rparr>"
  "ledger_of (s\<lparr>ds_next_waiter := n\<rparr>) = (ledger_of s)\<lparr>ld_next_waiter := n\<rparr>"
  by (simp_all add: ledger_of_def)

lemma wake_loop_ok:
  assumes "disk_ok limit s"
  shows "disk_ok limit (wake_loop limit ws s) \<and> head_blocked limit (wake_loop limit ws s)
    \<and> ledger_of (wake_loop limit ws s) = ledger_wake limit ws (ledger_of s)"
  using assms
proof (induction limit ws s rule: wake_loop.induct)
  case (1 limit s)
  then show ?case by (simp add: disk_ok_fields head_blocked_def)
next
  case (2 limit w ws s)
  note okD = disk_okD [OF "2.prems"]
  show ?case
  proof (cases "limit < ds_reserved s + wt_amount w")
    case True
    with "2.prems" show ?thesis using okD(1,2) by (simp add: can_grant_iff disk_ok_fields head_blocked_def)
  next
    case False
    let ?s = "s\<lparr>ds_waiters := ws\<rparr>"
    obtain g s' where g: "grant_locked ?s limit (wt_reservation w) (wt_owner w) (wt_amount w) = (g, s')" by fastforce
    have "disk_ok limit ?s" using "2.prems" by (simp add: disk_ok_fields)
    from grant_locked_ok [OF this, of "wt_reservation w" "wt_owner w" "wt_amount w"] g
    have s': "disk_ok limit s'"
      "ledger_grant limit (wt_reservation w) (wt_owner w) (wt_amount w) ((ledger_of s)\<lparr>ld_queue := ws\<rparr>) = (g, ledger_of s')"
      by simp_all
    then have "disk_ok limit (wake_waiter w g s')" by (simp add: wake_waiter_def disk_ok_fields)
    with "2.IH" [OF _ refl g [symmetric]] False okD(1,2) g s'(2) show ?thesis
      by (simp add: can_grant_iff wake_waiter_def)
  qed
qed

lemma wake_ok:
  assumes "disk_ok limit s"
  shows "disk_ok limit (wake_waiters_locked s limit)" "head_blocked limit (wake_waiters_locked s limit)"
    "ledger_of (wake_waiters_locked s limit) = ledger_wake limit (ds_waiters s) (ledger_of s)"
  using wake_loop_ok [OF assms, of "ds_waiters s"] by (simp_all add: wake_waiters_locked_def)

lemma release_ok:
  assumes ok: "disk_ok limit s" and blocked: "head_blocked limit s"
  shows "disk_ok limit (snd (release limit r owner a s)) \<and> head_blocked limit (snd (release limit r owner a s))
    \<and> map_prod id ledger_of (release limit r owner a s) = ledger_give_back limit r owner a (ledger_of s)"
proof -
  obtain g s' where g: "release_locked s r owner a = (g, s')" by fastforce
  from release_locked_ok [OF ok, of r owner a] g
  have s': "disk_ok limit s'" "ledger_release r owner a (ledger_of s) = (g, ledger_of s')" by simp_all
  have "g = Inl e \<Longrightarrow> s' = s" for e
    using g by (auto simp: release_locked_def split: option.splits if_splits)
  then show ?thesis using g s' wake_ok [OF s'(1)] blocked
    by (cases g) (auto simp: release_def ledger_give_back_def)
qed

lemma acquire_begin_ok:
  assumes ok: "disk_ok limit s" and blocked: "head_blocked limit s"
  shows "disk_ok limit (snd (acquire_begin limit r owner a s)) \<and> head_blocked limit (snd (acquire_begin limit r owner a s))
    \<and> map_prod id ledger_of (acquire_begin limit r owner a s) = ledger_begin limit r owner a (ledger_of s)"
proof -
  note okD = disk_okD [OF ok]
  have lease: "lease_of r owner (ledger_of s) = reservation_amount r owner s"
    by (simp add: lease_of_def reservation_amount_def)
  consider "a = 0" | "a \<noteq> 0" "map_of (ds_transactions s) owner = None"
    | tx where "a \<noteq> 0" "map_of (ds_transactions s) owner = Some tx" by fastforce
  then show ?thesis
  proof cases
    case 3
    then have within: "add_within (tx_reserved tx) a (tx_limit tx) = None \<longleftrightarrow> tx_limit tx < held owner (ds_reservations s) + a"
      using okD(6,7) [OF 3(2)] by (simp add: add_within_iff)
    have can: "can_grant s limit a \<longleftrightarrow> total_held (ds_reservations s) + a \<le> limit"
      using okD(1,2) by (simp add: can_grant_iff)
    consider "tx_limit tx < held owner (ds_reservations s) + a"
      | "held owner (ds_reservations s) + a \<le> tx_limit tx" "ds_waiters s = [] \<and> total_held (ds_reservations s) + a \<le> limit"
      | "held owner (ds_reservations s) + a \<le> tx_limit tx" "\<not> (ds_waiters s = [] \<and> total_held (ds_reservations s) + a \<le> limit)"
      by linarith
    then show ?thesis
    proof cases
      case 2
      with grant_locked_ok [OF ok, of r owner a] grant_keeps(1) [of s limit r owner a] 3 within can show ?thesis
        by (auto simp: acquire_begin_def ledger_begin_def head_blocked_def split: prod.splits)
    next
      case n: 3
      then have "acquire_begin limit r owner a s =
        (if ds_next_waiter s < u64_max
         then (Waiting (ds_next_waiter s + 1), s\<lparr>ds_next_waiter := ds_next_waiter s + 1, ds_waiters := ds_waiters s @
           [\<lparr>wt_id = ds_next_waiter s + 1, wt_reservation = r, wt_owner = owner, wt_amount = a\<rparr>]\<rparr>)
         else (Ready (Inl (io_other ''disk waiter identifier overflow'')), s))"
        using 3 within can by (auto simp: acquire_begin_def checked_add_u64_def split: option.split)
      then show ?thesis using n 3 ok okD(2) blocked
        by (auto simp: ledger_begin_def disk_ok_fields head_blocked_def Let_def split: list.split)
    qed (use 3 ok blocked within in \<open>simp add: acquire_begin_def ledger_begin_def\<close>)
  qed (use ok blocked lease in \<open>simp_all add: acquire_begin_def ledger_begin_def\<close>)
qed

lemma withdraw_ok:
  assumes ok: "disk_ok limit s" and blocked: "head_blocked limit s"
  shows "disk_ok limit (snd (withdraw limit i r owner a s)) \<and> head_blocked limit (snd (withdraw limit i r owner a s))
    \<and> map_prod id ledger_of (withdraw limit i r owner a s) = ledger_withdraw limit i r owner a (ledger_of s)"
proof -
  let ?s = "s\<lparr>ds_status := (ds_status s)(i := 2)\<rparr>"
  have s: "disk_ok limit ?s" "head_blocked limit ?s" using ok blocked by (simp_all add: disk_ok_fields head_blocked_fields)
  have wake: "ledger_wake limit ws (q\<lparr>ld_queue := x, ld_status := f\<rparr>) = ledger_wake limit ws (q\<lparr>ld_status := f\<rparr>)" for ws x q f
    by (cases ws) simp_all
  show ?thesis
  proof (cases "list_ex (\<lambda>w. wt_id w = i) (ds_waiters s)")
    case True
    have "disk_ok limit (s\<lparr>ds_waiters := remove_waiter i (ds_waiters s), ds_status := (ds_status s)(i := 2)\<rparr>)"
      using ok by (simp add: disk_ok_fields)
    from wake_ok [OF this] True show ?thesis
      by (simp add: withdraw_def ledger_withdraw_def wake)
  next
    case False
    show ?thesis
    proof (cases "ds_status s i = 1")
      case True
      obtain g s' where g: "release_locked ?s r owner a = (g, s')" by fastforce
      have "release limit r owner a ?s = (g, case g of Inl _ \<Rightarrow> s' | Inr _ \<Rightarrow> wake_waiters_locked s' limit)"
        using g by (simp add: release_def split: sum.split)
      with release_ok [OF s, of r owner a] False True g show ?thesis
        by (cases g) (auto simp: withdraw_def ledger_withdraw_def Let_def split: prod.splits sum.splits)
    next
      case f: False
      with False s show ?thesis by (simp add: withdraw_def ledger_withdraw_def Let_def)
    qed
  qed
qed

lemma acquire_end_ok:
  assumes ok: "disk_ok limit s" and blocked: "head_blocked limit s"
  shows "disk_ok limit (snd (acquire_end limit i r owner a outcome s))
    \<and> head_blocked limit (snd (acquire_end limit i r owner a outcome s))
    \<and> map_prod id ledger_of (acquire_end limit i r owner a outcome s) = ledger_end limit i r owner a outcome (ledger_of s)"
proof (cases "outcome = None \<and> ds_status s i = 1")
  case True
  with assms show ?thesis by (simp add: acquire_end_def ledger_end_def)
next
  case False
  obtain g s' where g: "withdraw limit i r owner a s = (g, s')" by fastforce
  from withdraw_ok [OF assms, of i r owner a] g
  have "disk_ok limit s'" "head_blocked limit s'" "ledger_withdraw limit i r owner a (ledger_of s) = (g, ledger_of s')"
    by simp_all
  with False g show ?thesis
    by (cases g) (auto simp: acquire_end_def ledger_end_def)
qed

lemma unregister_ok:
  assumes ok: "disk_ok limit s" and blocked: "head_blocked limit s"
  shows "disk_ok limit (snd (unregister_reservation r owner s)) \<and> head_blocked limit (snd (unregister_reservation r owner s))
    \<and> ledger_of (snd (unregister_reservation r owner s)) =
       (if lease_of r owner (ledger_of s) = Some 0
        then (ledger_of s)\<lparr>ld_leases := AList.delete r (ds_reservations s)\<rparr> else ledger_of s)"
proof (cases "\<exists>e. map_of (ds_reservations s) r = Some e \<and> own_owner e = owner \<and> own_amount e = 0")
  case False
  then show ?thesis using assms
    by (auto simp: unregister_reservation_def lease_of_def split: option.split)
next
  case True
  then obtain e where e: "map_of (ds_reservations s) r = Some e" "own_owner e = owner" "own_amount e = 0" by blast
  note okD = disk_okD [OF ok]
  have "total_held (AList.delete r (ds_reservations s)) = total_held (ds_reservations s)"
    "held o' (AList.delete r (ds_reservations s)) = held o' (ds_reservations s)" for o'
    using total_delete [OF okD(5) e(1)] held_delete [OF okD(5) e(1), of o'] e(3) by (simp_all split: if_splits)
  then have "disk_ok limit (s\<lparr>ds_reservations := AList.delete r (ds_reservations s)\<rparr>)"
    using ok by (auto simp: disk_ok_def transactions_ok_def distinct_delete delete_conv' split: if_splits)
  then show ?thesis using e blocked
    by (simp add: unregister_reservation_def lease_of_def head_blocked_fields ledger_of_def)
qed

lemma drop_lease_ok:
  assumes ok: "disk_ok limit s" and blocked: "head_blocked limit s"
  shows "disk_ok limit (drop_lease limit r owner s) \<and> head_blocked limit (drop_lease limit r owner s)
    \<and> ledger_of (drop_lease limit r owner s) = ledger_drop_lease limit r owner (ledger_of s)"
proof -
  have lease: "lease_of r owner (ledger_of s) = reservation_amount r owner s"
    by (simp add: lease_of_def reservation_amount_def)
  show ?thesis
  proof (cases "reservation_amount r owner s")
    case None
    then show ?thesis using unregister_ok [OF assms, of r owner] lease
      by (simp add: drop_lease_def lease_amount_def ledger_drop_lease_def)
  next
    case (Some n)
    define s' where "s' = (if n \<noteq> 0 then snd (release limit r owner n s) else s)"
    have "map_prod id ledger_of (release limit r owner n s) = ledger_give_back limit r owner n (ledger_of s)"
      using release_ok [OF assms, of r owner n] by blast
    then have "ledger_of (snd (release limit r owner n s)) = snd (ledger_give_back limit r owner n (ledger_of s))"
      by (metis snd_map_prod)
    then have s': "ledger_of s' = (if n = 0 then ledger_of s else snd (ledger_give_back limit r owner n (ledger_of s)))"
      by (simp add: s'_def)
    have "disk_ok limit s'" "head_blocked limit s'" using release_ok [OF assms, of r owner n] assms by (simp_all add: s'_def)
    from unregister_ok [OF this, of r owner]
    moreover have "drop_lease limit r owner s = snd (unregister_reservation r owner s')"
      using Some by (simp add: drop_lease_def lease_amount_def s'_def)
    moreover have "ledger_drop_lease limit r owner (ledger_of s) =
        (if lease_of r owner (ledger_of s') = Some 0
         then (ledger_of s')\<lparr>ld_leases := AList.delete r (ds_reservations s')\<rparr> else ledger_of s')"
      unfolding ledger_of_sel(2) [of s', symmetric] using Some lease
      by (simp only: ledger_drop_lease_def s' Let_def option.case)
    ultimately show ?thesis by simp
  qed
qed

lemma limits_delete:
  "map (\<lambda>(owner, tx). (owner, tx_limit tx)) (AList.delete k xs) = AList.delete k (map (\<lambda>(owner, tx). (owner, tx_limit tx)) xs)"
  by (induction xs) auto

lemma limits_insert:
  "map (\<lambda>(owner, tx). (owner, tx_limit tx)) (AList.update k v xs)
    = AList.update k (tx_limit v) (map (\<lambda>(owner, tx). (owner, tx_limit tx)) xs)"
  by (induction xs) auto

lemma held_none: "\<not> list_ex (\<lambda>(_, e). own_owner e = owner) rs \<Longrightarrow> held owner rs = 0"
  unfolding held_def by (induction rs) auto

lemma drop_transaction_ok:
  assumes ok: "disk_ok limit s" and blocked: "head_blocked limit s"
  shows "disk_ok limit (drop_transaction owner s) \<and> head_blocked limit (drop_transaction owner s)
    \<and> ledger_of (drop_transaction owner s) = ledger_drop_transaction owner (ledger_of s)"
proof (cases "list_ex (\<lambda>(_, e). own_owner e = owner) (ds_reservations s) \<or> list_ex (\<lambda>w. wt_owner w = owner) (ds_waiters s)")
  case True
  then show ?thesis using assms by (auto simp: drop_transaction_def ledger_drop_transaction_def)
next
  case False
  then have none: "held owner (ds_reservations s) = 0" by (simp add: held_none)
  note okD = disk_okD [OF ok]
  have owners: "own_owner e \<noteq> owner" if "map_of (ds_reservations s) r = Some e" for r e
    using False that by (auto simp: list_ex_iff dest: map_of_SomeD)
  show ?thesis
  proof (cases "map_of (ds_transactions s) owner")
    case None
    then have "AList.delete owner (ds_transactions s) = ds_transactions s"
      by (intro delete_absent) (simp add: map_of_eq_None_iff)
    then have "ledger_drop_transaction owner (ledger_of s) = ledger_of s"
      using False limits_delete [of owner "ds_transactions s"]
      by (simp add: ledger_drop_transaction_def) (simp add: ledger_of_def)
    then show ?thesis using None assms by (simp add: drop_transaction_def)
  next
    case (Some tx)
    then have "tx_reserved tx = 0" using okD(6) [OF Some] none by simp
    then have "drop_transaction owner s = s\<lparr>ds_transactions := AList.delete owner (ds_transactions s)\<rparr>"
      using False Some by (simp add: drop_transaction_def)
    then show ?thesis using False ok blocked owners
      by (auto simp: ledger_drop_transaction_def disk_ok_def transactions_ok_def head_blocked_fields distinct_delete
          delete_conv' ledger_of_def limits_delete split: if_splits)
  qed
qed

section \<open>Serving the queue\<close>

text \<open>What waking does to the queue: a prefix of it is served, nothing behind it is touched, and a
  waiter is marked as granted only if its lease exists.\<close>

definition served :: "reservation_waiter list \<Rightarrow> disk_state \<Rightarrow> disk_state \<Rightarrow> bool" where
  "served ws s s' \<longleftrightarrow>
     dom (map_of (ds_reservations s')) = dom (map_of (ds_reservations s)) \<and> ds_next_waiter s' = ds_next_waiter s
     \<and> (\<exists>front. ws = front @ ds_waiters s'
          \<and> (\<forall>i. i \<notin> wt_id ` set front \<longrightarrow> ds_status s' i = ds_status s i)
          \<and> (\<forall>w \<in> set front. ds_status s' (wt_id w) = 1 \<longrightarrow> wt_reservation w \<in> dom (map_of (ds_reservations s'))))"

lemma grant_registered:
  "grant_locked s limit r owner a = (Inr n, s') \<Longrightarrow> r \<in> dom (map_of (ds_reservations s'))"
  by (auto simp: grant_locked_def update_conv' split: option.splits if_splits)

lemma wake_loop_served: "distinct (map wt_id ws) \<Longrightarrow> served ws s (wake_loop limit ws s)"
proof (induction limit ws s rule: wake_loop.induct)
  case (1 limit s)
  then show ?case by (simp add: served_def)
next
  case (2 limit w ws s)
  show ?case
  proof (cases "can_grant s limit (wt_amount w)")
    case False
    then show ?thesis by (simp add: served_def)
  next
    case True
    let ?s = "s\<lparr>ds_waiters := ws\<rparr>"
    obtain g s1 where g: "grant_locked ?s limit (wt_reservation w) (wt_owner w) (wt_amount w) = (g, s1)" by fastforce
    define s2 where "s2 = wake_waiter w g s1"
    have "served ws s2 (wake_loop limit ws s2)" using "2.IH" [OF _ refl g [symmetric]] True "2.prems" by (simp add: s2_def)
    then obtain front where dom: "dom (map_of (ds_reservations (wake_loop limit ws s2))) = dom (map_of (ds_reservations s2))"
        "ds_next_waiter (wake_loop limit ws s2) = ds_next_waiter s2"
      and front: "ws = front @ ds_waiters (wake_loop limit ws s2)"
        "\<And>i. i \<notin> wt_id ` set front \<Longrightarrow> ds_status (wake_loop limit ws s2) i = ds_status s2 i"
        "\<And>x. x \<in> set front \<Longrightarrow> ds_status (wake_loop limit ws s2) (wt_id x) = 1
           \<Longrightarrow> wt_reservation x \<in> dom (map_of (ds_reservations (wake_loop limit ws s2)))"
      by (auto simp: served_def)
    have s2: "dom (map_of (ds_reservations s2)) = dom (map_of (ds_reservations s))" "ds_next_waiter s2 = ds_next_waiter s"
      "\<And>i. i \<noteq> wt_id w \<Longrightarrow> ds_status s2 i = ds_status s i"
      using grant_keeps(2,4,5) [of ?s limit "wt_reservation w" "wt_owner w" "wt_amount w"] g
      by (simp_all add: s2_def wake_waiter_def)
    have w: "wt_id w \<notin> wt_id ` set front" using "2.prems" front(1) by (metis Un_iff distinct.simps(2) image_Un list.simps(9) set_append set_map)
    have granted: "wt_reservation w \<in> dom (map_of (ds_reservations s2))" if "ds_status s2 (wt_id w) = 1"
      using that g grant_registered [of ?s limit "wt_reservation w" "wt_owner w" "wt_amount w"]
      by (cases g) (auto simp: s2_def wake_waiter_def)
    have "wake_loop limit (w # ws) s = wake_loop limit ws s2" using True g by (simp add: s2_def)
    then show ?thesis unfolding served_def
      using dom s2 front w granted by (intro conjI exI [of _ "w # front"]) auto
  qed
qed

lemma wake_served: "distinct (map wt_id (ds_waiters s)) \<Longrightarrow> served (ds_waiters s) s (wake_waiters_locked s limit)"
  by (simp add: wake_waiters_locked_def wake_loop_served)

lemma served_refl: "served (ds_waiters s) s s"
  by (simp add: served_def)

lemma release_served:
  assumes "distinct (map wt_id (ds_waiters s))"
  shows "served (ds_waiters s) s (snd (release limit r owner a s))"
proof -
  obtain g s' where g: "release_locked s r owner a = (g, s')" by fastforce
  with release_keeps [of s r owner a]
  have s': "ds_waiters s' = ds_waiters s" "ds_status s' = ds_status s" "ds_next_waiter s' = ds_next_waiter s"
    "dom (map_of (ds_reservations s')) = dom (map_of (ds_reservations s))" by simp_all
  have "served (ds_waiters s) s' (wake_waiters_locked s' limit)" using wake_served [of s' limit] s' assms by simp
  then show ?thesis using g s' by (cases g) (auto simp: release_def served_def)
qed

definition queue_ok :: "disk_state \<Rightarrow> bool" where
  "queue_ok s \<longleftrightarrow>
     sorted_wrt (<) (map wt_id (ds_waiters s))
     \<and> (\<forall>w \<in> set (ds_waiters s). wt_id w \<le> ds_next_waiter s \<and> ds_status s (wt_id w) \<noteq> 1)
     \<and> (\<forall>i > ds_next_waiter s. ds_status s i \<noteq> 1)"

lemma queue_ok_distinct: "queue_ok s \<Longrightarrow> distinct (map wt_id (ds_waiters s))"
  by (simp add: queue_ok_def strict_sorted_iff)

lemma served_queue_ok:
  assumes "served ws s s'" "sorted_wrt (<) (map wt_id ws)"
    and "\<forall>w \<in> set ws. wt_id w \<le> ds_next_waiter s \<and> ds_status s (wt_id w) \<noteq> 1" "\<forall>i > ds_next_waiter s. ds_status s i \<noteq> 1"
  shows "queue_ok s'"
proof -
  from assms(1) obtain front where front: "ws = front @ ds_waiters s'" "ds_next_waiter s' = ds_next_waiter s"
    "\<And>i. i \<notin> wt_id ` set front \<Longrightarrow> ds_status s' i = ds_status s i" by (auto simp: served_def)
  have sorted: "sorted_wrt (<) (map wt_id front @ map wt_id (ds_waiters s'))" using assms(2) front(1) by simp
  have "wt_id w \<notin> wt_id ` set front" if "w \<in> set (ds_waiters s')" for w
    using sorted that by (fastforce simp: sorted_wrt_append)
  moreover have "i \<notin> wt_id ` set front" if "ds_next_waiter s < i" for i
    using assms(3) front(1) that by force
  ultimately show ?thesis
    using assms(3,4) front sorted by (auto simp: queue_ok_def sorted_wrt_append)
qed

lemma remove_waiter_subset: "set (remove_waiter i ws) \<subseteq> set ws"
  by (induction ws) auto

lemma remove_waiter_sorted: "sorted_wrt (<) (map wt_id ws) \<Longrightarrow> sorted_wrt (<) (map wt_id (remove_waiter i ws))"
proof (induction ws)
  case (Cons w ws)
  then show ?case using remove_waiter_subset [of i ws] by auto
qed simp

lemma remove_waiter_gone: "distinct (map wt_id ws) \<Longrightarrow> w \<in> set (remove_waiter i ws) \<Longrightarrow> wt_id w \<noteq> i"
  by (induction ws) (force split: if_splits)+

definition pending_in :: "reservation_waiter list \<Rightarrow> disk_state \<Rightarrow> (nat \<times> nat \<times> nat \<times> nat) list \<Rightarrow> bool" where
  "pending_in ws s ps \<longleftrightarrow>
     (\<forall>(i, r, _) \<in> set ps. i \<le> ds_next_waiter s
        \<and> (ds_status s i = 1 \<longrightarrow> r \<in> dom (map_of (ds_reservations s)))
        \<and> (\<forall>w \<in> set ws. wt_id w = i \<longrightarrow> wt_reservation w = r))"

lemma served_pending:
  assumes "served ws s s'" "pending_in ws s ps"
  shows "pending_in (ds_waiters s') s' ps"
proof -
  from assms(1) obtain front where dom: "dom (map_of (ds_reservations s')) = dom (map_of (ds_reservations s))"
    and front: "ws = front @ ds_waiters s'" "ds_next_waiter s' = ds_next_waiter s"
      "\<And>i. i \<notin> wt_id ` set front \<Longrightarrow> ds_status s' i = ds_status s i"
      "\<And>w. w \<in> set front \<Longrightarrow> ds_status s' (wt_id w) = 1 \<Longrightarrow> wt_reservation w \<in> dom (map_of (ds_reservations s'))"
    by (auto simp: served_def)
  show ?thesis unfolding pending_in_def
  proof (clarify, intro conjI)
    fix i r owner a assume p: "(i, r, owner, a) \<in> set ps"
    with assms(2) have old: "i \<le> ds_next_waiter s" "ds_status s i = 1 \<longrightarrow> r \<in> dom (map_of (ds_reservations s))"
      "\<And>w. w \<in> set ws \<Longrightarrow> wt_id w = i \<Longrightarrow> wt_reservation w = r" by (auto simp: pending_in_def)
    from old(1) front(2) show "i \<le> ds_next_waiter s'" by simp
    from old(3) front(1) show "\<forall>w \<in> set (ds_waiters s'). wt_id w = i \<longrightarrow> wt_reservation w = r" by auto
    show "ds_status s' i = 1 \<longrightarrow> r \<in> dom (map_of (ds_reservations s'))"
    proof (cases "i \<in> wt_id ` set front")
      case True
      then obtain w where w: "w \<in> set front" "wt_id w = i" by blast
      then have "wt_reservation w = r" using old(3) front(1) by auto
      with front(4) w show ?thesis by blast
    next
      case False
      with front(3) old(2) dom show ?thesis by simp
    qed
  qed
qed

definition world_ok :: "nat \<Rightarrow> disk_world \<Rightarrow> bool" where
  "world_ok limit w \<longleftrightarrow>
     disk_ok limit (dw_state w) \<and> head_blocked limit (dw_state w) \<and> queue_ok (dw_state w)
     \<and> pending_in (ds_waiters (dw_state w)) (dw_state w) (dw_pending w)
     \<and> (\<forall>owner \<in> dom (map_of (ds_transactions (dw_state w))). owner < dw_next_owner w)"

lemma acquire_begin_queue:
  assumes q: "queue_ok s" and p: "pending_in (ds_waiters s) s ps" and b: "acquire_begin limit r owner a s = (start, s')"
  shows "queue_ok s' \<and> pending_in (ds_waiters s') s'
    (case start of Ready _ \<Rightarrow> ps | Waiting i \<Rightarrow> (i, r, owner, a) # ps)"
proof (cases start)
  case (Ready g)
  then have "ds_waiters s' = ds_waiters s \<and> ds_status s' = ds_status s \<and> ds_next_waiter s' = ds_next_waiter s
      \<and> dom (map_of (ds_reservations s')) = dom (map_of (ds_reservations s))"
    using b grant_keeps [of s limit r owner a]
    by (auto simp: acquire_begin_def split: if_splits option.splits prod.splits)
  with q p Ready show ?thesis by (simp add: queue_ok_def pending_in_def)
next
  case (Waiting i)
  then have s': "s' = s\<lparr>ds_next_waiter := i, ds_waiters := ds_waiters s @
       [\<lparr>wt_id = i, wt_reservation = r, wt_owner = owner, wt_amount = a\<rparr>]\<rparr>" "i = ds_next_waiter s + 1"
    using b by (auto simp: acquire_begin_def checked_add_u64_Some split: if_splits option.splits prod.splits)
  then have "ds_status s i \<noteq> 1" using q by (auto simp: queue_ok_def)
  moreover have "wt_id w < i" if "w \<in> set (ds_waiters s)" for w using q that s'(2) by (fastforce simp: queue_ok_def)
  ultimately have "queue_ok s'" using q s' by (auto simp: queue_ok_def sorted_wrt_append)
  moreover have "pending_in (ds_waiters s') s' ((i, r, owner, a) # ps)"
    using p s' \<open>ds_status s i \<noteq> 1\<close> \<open>\<And>w. w \<in> set (ds_waiters s) \<Longrightarrow> wt_id w < i\<close>
    by (fastforce simp: pending_in_def)
  ultimately show ?thesis using Waiting by simp
qed

lemma remove_waiter_absent: "\<not> list_ex (\<lambda>w. wt_id w = i) ws \<Longrightarrow> remove_waiter i ws = ws"
  by (induction ws) auto

lemma remove_waiter_keeps: "w \<in> set ws \<Longrightarrow> wt_id w \<noteq> i \<Longrightarrow> w \<in> set (remove_waiter i ws)"
  by (induction ws) auto

lemma withdraw_served:
  assumes "queue_ok s"
  shows "served (remove_waiter i (ds_waiters s)) (s\<lparr>ds_status := (ds_status s)(i := 2)\<rparr>) (snd (withdraw limit i r owner a s))"
proof (cases "list_ex (\<lambda>w. wt_id w = i) (ds_waiters s)")
  case True
  define ws where "ws = remove_waiter i (ds_waiters s)"
  have "distinct (map wt_id ws)"
    using remove_waiter_sorted [of "ds_waiters s" i] assms by (simp add: ws_def queue_ok_def strict_sorted_iff)
  then have "served ws (s\<lparr>ds_waiters := ws, ds_status := (ds_status s)(i := 2)\<rparr>)
      (wake_waiters_locked (s\<lparr>ds_waiters := ws, ds_status := (ds_status s)(i := 2)\<rparr>) limit)"
    using wake_served [of "s\<lparr>ds_waiters := ws, ds_status := (ds_status s)(i := 2)\<rparr>" limit] by simp
  moreover have "withdraw limit i r owner a s
      = (None, wake_waiters_locked (s\<lparr>ds_waiters := ws, ds_status := (ds_status s)(i := 2)\<rparr>) limit)"
    using True by (simp add: withdraw_def ws_def)
  moreover have "served ws (s\<lparr>ds_waiters := x, ds_status := f\<rparr>) t = served ws (s\<lparr>ds_status := f\<rparr>) t" for x f t
    by (simp add: served_def)
  ultimately show ?thesis by (simp add: ws_def)
next
  case False
  let ?s = "s\<lparr>ds_status := (ds_status s)(i := 2)\<rparr>"
  obtain g s1 where g: "release_locked ?s r owner a = (g, s1)" by fastforce
  have "distinct (map wt_id (ds_waiters ?s))" using assms by (simp add: queue_ok_distinct)
  from release_served [OF this, of limit r owner a] False g served_refl [of ?s]
  show ?thesis
    by (cases g) (auto simp: withdraw_def Let_def release_def remove_waiter_absent)
qed

lemma withdraw_queue:
  assumes q: "queue_ok s" and p: "pending_in (ds_waiters s) s ps" and i: "i \<le> ds_next_waiter s"
  shows "queue_ok (snd (withdraw limit i r owner a s))
    \<and> pending_in (ds_waiters (snd (withdraw limit i r owner a s))) (snd (withdraw limit i r owner a s)) ps"
proof -
  let ?s = "s\<lparr>ds_status := (ds_status s)(i := 2)\<rparr>" and ?ws = "remove_waiter i (ds_waiters s)"
  note ws = remove_waiter_subset [of i "ds_waiters s"]
  have "pending_in ?ws ?s ps" using p ws by (fastforce simp: pending_in_def split: if_splits)
  moreover have "\<forall>w \<in> set ?ws. wt_id w \<le> ds_next_waiter ?s \<and> ds_status ?s (wt_id w) \<noteq> 1"
    "\<forall>j > ds_next_waiter ?s. ds_status ?s j \<noteq> 1"
    using q ws i by (auto simp: queue_ok_def)
  moreover have "sorted_wrt (<) (map wt_id ?ws)" using q remove_waiter_sorted by (simp add: queue_ok_def)
  ultimately show ?thesis using served_queue_ok [OF withdraw_served [OF q]] served_pending [OF withdraw_served [OF q]] by blast
qed

lemma drop_lease_queue:
  assumes q: "queue_ok s" and p: "pending_in (ds_waiters s) s ps" and free: "\<not> list_ex (\<lambda>(_, r', _). r' = r) ps"
  shows "queue_ok (drop_lease limit r owner s)
    \<and> pending_in (ds_waiters (drop_lease limit r owner s)) (drop_lease limit r owner s) ps"
proof -
  define s' where "s' = (if lease_amount r owner s \<noteq> 0 then snd (release limit r owner (lease_amount r owner s) s) else s)"
  have sv: "served (ds_waiters s) s s'"
    using release_served [OF queue_ok_distinct [OF q], of limit r owner "lease_amount r owner s"] served_refl by (simp add: s'_def)
  have q': "queue_ok s'" using served_queue_ok [OF sv] q by (simp add: queue_ok_def)
  have p': "pending_in (ds_waiters s') s' ps" by (rule served_pending [OF sv p])
  have "drop_lease limit r owner s = s' \<or> drop_lease limit r owner s = s'\<lparr>ds_reservations := AList.delete r (ds_reservations s')\<rparr>"
    by (auto simp: drop_lease_def s'_def unregister_reservation_def Let_def split: option.split)
  moreover have "pending_in (ds_waiters s') (s'\<lparr>ds_reservations := AList.delete r (ds_reservations s')\<rparr>) ps"
    using p' free by (fastforce simp: pending_in_def delete_conv' list_ex_iff)
  moreover have "queue_ok (s'\<lparr>ds_reservations := AList.delete r (ds_reservations s')\<rparr>)" using q' by (simp add: queue_ok_def)
  ultimately show ?thesis using q' p' by auto
qed

section \<open>Runs\<close>

record ledger_world =
  lw_next_owner :: nat
  lw_ledger :: ledger
  lw_pending :: "(nat \<times> nat \<times> nat \<times> nat) list"

definition ledger_world_of :: "disk_world \<Rightarrow> ledger_world" where
  "ledger_world_of w =
     \<lparr>lw_next_owner = dw_next_owner w, lw_ledger = ledger_of (dw_state w), lw_pending = dw_pending w\<rparr>"

definition ledger_lease :: "nat \<Rightarrow> ledger \<Rightarrow> (io_error + nat) \<times> ledger" where
  "ledger_lease owner q =
     (if map_of (ld_limits q) owner = None then (Inl (io_other ''disk reservation transaction is closed''), q)
      else if ld_next_reservation q < u64_max
      then (let r = ld_next_reservation q + 1 in
            (Inr r, q\<lparr>ld_next_reservation := r, ld_leases := AList.update r \<lparr>own_owner = owner, own_amount = 0\<rparr> (ld_leases q)\<rparr>))
      else (Inl (io_other ''disk reservation identifier overflow''), q))"

fun ledger_run :: "nat \<Rightarrow> disk_op \<Rightarrow> ledger_world \<Rightarrow> disk_result \<times> ledger_world" where
  "ledger_run limit (OpenTransaction tx) w =
     (if lw_next_owner w < u64_max
      then (Opened (lw_next_owner w),
            w\<lparr>lw_next_owner := lw_next_owner w + 1,
              lw_ledger := (lw_ledger w)\<lparr>ld_limits := AList.update (lw_next_owner w) tx (ld_limits (lw_ledger w))\<rparr>\<rparr>)
      else (Panicked, w))"
| "ledger_run limit (Lease owner) w =
     (let (result, q) = ledger_lease owner (lw_ledger w) in (Leased result, w\<lparr>lw_ledger := q\<rparr>))"
| "ledger_run limit (GrowBegin r owner amount) w =
     (let (start, q) = ledger_begin limit r owner amount (lw_ledger w) in
      (Started start,
       w\<lparr>lw_ledger := q, lw_pending := (case start of Ready _ \<Rightarrow> lw_pending w
                        | Waiting i \<Rightarrow> (i, r, owner, amount) # lw_pending w)\<rparr>))"
| "ledger_run limit (GrowEnd i outcome) w =
     (case map_of (lw_pending w) i of
        None \<Rightarrow> (NotEnabled, w)
      | Some (r, owner, amount) \<Rightarrow>
          if outcome = None \<and> \<not> ld_notified (lw_ledger w) i then (NotEnabled, w)
          else (let (result, q) = ledger_end limit i r owner amount outcome (lw_ledger w) in
                (case result of None \<Rightarrow> Panicked | Some g \<Rightarrow> Grown g,
                 w\<lparr>lw_ledger := q, lw_pending := AList.delete i (lw_pending w)\<rparr>)))"
| "ledger_run limit (Abandon i) w = (Dropped, w\<lparr>lw_pending := AList.delete i (lw_pending w)\<rparr>)"
| "ledger_run limit (Shrink r owner amount) w =
     (let (result, q) = ledger_give_back limit r owner amount (lw_ledger w) in (Shrunk result, w\<lparr>lw_ledger := q\<rparr>))"
| "ledger_run limit (DropLease r owner) w =
     (if list_ex (\<lambda>(_, r', _). r' = r) (lw_pending w) then (NotEnabled, w)
      else (Dropped, w\<lparr>lw_ledger := ledger_drop_lease limit r owner (lw_ledger w)\<rparr>))"
| "ledger_run limit (DropTransaction owner) w = (Dropped, w\<lparr>lw_ledger := ledger_drop_transaction owner (lw_ledger w)\<rparr>)"

text \<open>Limits are machine integers.\<close>

fun op_ok :: "disk_op \<Rightarrow> bool" where
  "op_ok (OpenTransaction tx) \<longleftrightarrow> tx \<le> u64_max"
| "op_ok _ \<longleftrightarrow> True"

lemma held_fresh:
  assumes "disk_ok limit s" "map_of (ds_transactions s) owner = None"
  shows "held owner (ds_reservations s) = 0"
proof (rule held_none, rule notI)
  assume "list_ex (\<lambda>(_, e). own_owner e = owner) (ds_reservations s)"
  then obtain r e where "(r, e) \<in> set (ds_reservations s)" "own_owner e = owner" by (auto simp: list_ex_iff)
  moreover then have "map_of (ds_reservations s) r = Some e" using disk_okD(5) [OF assms(1)] by simp
  ultimately show False using disk_okD(8) [OF assms(1)] assms(2) by fastforce
qed

lemma register_transaction_ok:
  assumes "disk_ok limit s" "map_of (ds_transactions s) owner = None" "tx \<le> u64_max"
  shows "disk_ok limit (register_transaction owner tx s)"
  using assms held_fresh [OF assms(1,2)]
  by (auto simp: register_transaction_def disk_ok_def transactions_ok_def distinct_update update_conv' split: if_splits)

lemma register_reservation_ok:
  assumes ok: "disk_ok limit s"
  shows "disk_ok limit (snd (register_reservation owner s))
    \<and> map_prod id ledger_of (register_reservation owner s) = ledger_lease owner (ledger_of s)"
proof (cases "map_of (ds_transactions s) owner = None \<or> u64_max \<le> ds_next_reservation s")
  case True
  then show ?thesis using ok by (auto simp: register_reservation_def ledger_lease_def checked_add_u64_def)
next
  case False
  let ?r = "ds_next_reservation s + 1"
  have fresh: "map_of (ds_reservations s) ?r = None"
    using disk_okD(9) [OF ok, of ?r] by (cases "map_of (ds_reservations s) ?r") fastforce+
  note sums = total_insert [OF fresh] held_insert [OF fresh]
  have le: "map_of (ds_reservations s) r = Some e \<Longrightarrow> r \<le> ?r" for r e using disk_okD(9) [OF ok, of r e] by simp
  have "disk_ok limit (s\<lparr>ds_next_reservation := ?r,
      ds_reservations := AList.update ?r \<lparr>own_owner = owner, own_amount = 0\<rparr> (ds_reservations s)\<rparr>)"
    using ok False sums le
    by (auto simp: disk_ok_def transactions_ok_def distinct_update update_conv' split: if_splits)
  with False show ?thesis
    by (auto simp: register_reservation_def ledger_lease_def checked_add_u64_def Let_def) (simp add: ledger_of_def)
qed

lemma world_okI:
  assumes "disk_ok limit s" "head_blocked limit s" "queue_ok s" "pending_in (ds_waiters s) s ps"
    and "dom (map_of (ds_transactions s)) \<subseteq> {..<dw_next_owner w}"
  shows "world_ok limit (w\<lparr>dw_state := s, dw_pending := ps\<rparr>)"
  using assms by (auto simp: world_ok_def)

lemma wake_loop_transactions: "dom (map_of (ds_transactions (wake_loop limit ws s))) = dom (map_of (ds_transactions s))"
proof (induction limit ws s rule: wake_loop.induct)
  case (2 limit w ws s)
  obtain g s' where g: "grant_locked (s\<lparr>ds_waiters := ws\<rparr>) limit (wt_reservation w) (wt_owner w) (wt_amount w) = (g, s')"
    by fastforce
  then have "dom (map_of (ds_transactions s')) = dom (map_of (ds_transactions s))"
    using grant_keeps(6) [of "s\<lparr>ds_waiters := ws\<rparr>" limit "wt_reservation w" "wt_owner w" "wt_amount w"] by simp
  then show ?case using "2.IH" [OF _ refl g [symmetric]] g by (simp add: wake_waiter_def)
qed simp

lemma release_transactions: "dom (map_of (ds_transactions (snd (release limit r owner a s)))) = dom (map_of (ds_transactions s))"
proof -
  obtain g s' where g: "release_locked s r owner a = (g, s')" by fastforce
  then show ?thesis using release_keeps(6) [of s r owner a]
    by (cases g) (simp_all add: release_def wake_waiters_locked_def wake_loop_transactions)
qed

lemma acquire_transactions:
  "dom (map_of (ds_transactions (snd (acquire_begin limit r owner a s)))) = dom (map_of (ds_transactions s))"
  "dom (map_of (ds_transactions (snd (acquire_end limit i r owner a outcome s)))) = dom (map_of (ds_transactions s))"
proof -
  show "dom (map_of (ds_transactions (snd (acquire_begin limit r owner a s)))) = dom (map_of (ds_transactions s))"
    using grant_keeps(6) [of s limit r owner a]
    by (cases "grant_locked s limit r owner a") (simp add: acquire_begin_def split: option.split)
  obtain g s' where g: "release_locked (s\<lparr>ds_status := (ds_status s)(i := 2)\<rparr>) r owner a = (g, s')" by fastforce
  have "dom (map_of (ds_transactions (snd (withdraw limit i r owner a s)))) = dom (map_of (ds_transactions s))"
    using release_keeps(6) [of "s\<lparr>ds_status := (ds_status s)(i := 2)\<rparr>" r owner a] g
    by (cases g) (simp_all add: withdraw_def wake_waiters_locked_def wake_loop_transactions Let_def)
  then show "dom (map_of (ds_transactions (snd (acquire_end limit i r owner a outcome s)))) = dom (map_of (ds_transactions s))"
    by (cases "withdraw limit i r owner a s") (simp add: acquire_end_def split: option.split)
qed

lemma drop_transactions: "dom (map_of (ds_transactions (drop_lease limit r owner s))) = dom (map_of (ds_transactions s))"
  using release_transactions [of limit r owner "lease_amount r owner s" s]
  by (simp add: drop_lease_def unregister_reservation_def Let_def split: option.split)

lemma grow_end_ok:
  assumes "world_ok limit w"
  shows "world_ok limit (snd (grow_end limit i outcome w)) \<and> fst (grow_end limit i outcome w) \<noteq> Panicked
    \<and> map_prod id ledger_world_of (grow_end limit i outcome w) = ledger_run limit (GrowEnd i outcome) (ledger_world_of w)"
proof (cases "map_of (dw_pending w) i")
  case None
  then show ?thesis using assms by (simp add: grow_end_def ledger_world_of_def)
next
  case (Some p)
  obtain r owner a where p: "p = (r, owner, a)" by (cases p) auto
  let ?s = "dw_state w"
  from assms have w: "disk_ok limit ?s" "head_blocked limit ?s" "queue_ok ?s" "pending_in (ds_waiters ?s) ?s (dw_pending w)"
    "dom (map_of (ds_transactions ?s)) \<subseteq> {..<dw_next_owner w}" by (auto simp: world_ok_def)
  from map_of_SomeD [OF Some] w(4) have i: "i \<le> ds_next_waiter ?s" "ds_status ?s i = 1 \<longrightarrow> r \<in> dom (map_of (ds_reservations ?s))"
    by (auto simp: pending_in_def p)
  obtain g s' where g: "acquire_end limit i r owner a outcome ?s = (g, s')" by fastforce
  note ok = acquire_end_ok [OF w(1,2), of i r owner a outcome, unfolded g]
  have q: "queue_ok s' \<and> pending_in (ds_waiters s') s' (dw_pending w)"
    using withdraw_queue [OF w(3,4) i(1), of limit r owner a] g w(3,4)
    by (auto simp: acquire_end_def split: if_splits prod.splits option.splits)
  then have "pending_in (ds_waiters s') s' (AList.delete i (dw_pending w))"
    by (fastforce simp: pending_in_def AList.delete_eq)
  moreover have "g \<noteq> None"
    using g i(2) by (auto simp: acquire_end_def split: if_splits prod.splits option.splits)
  moreover have "dom (map_of (ds_transactions s')) \<subseteq> {..<dw_next_owner w}"
    using w(5) acquire_transactions(2) [of limit i r owner a outcome ?s] g by simp
  ultimately have w': "world_ok limit (w\<lparr>dw_state := s', dw_pending := AList.delete i (dw_pending w)\<rparr>)" "g \<noteq> None"
    using ok q world_okI [of limit s' "AList.delete i (dw_pending w)" w] by simp_all
  have "ledger_end limit i r owner a outcome (ledger_of ?s) = (g, ledger_of s')" using ok by simp
  then show ?thesis
    using assms Some p g w' by (auto simp: grow_end_def ledger_world_of_def split: option.splits)
qed

lemma disk_run_ok:
  assumes w: "world_ok limit w" and op: "op_ok op"
  shows "world_ok limit (snd (disk_run limit op w))
    \<and> map_prod id ledger_world_of (disk_run limit op w) = ledger_run limit op (ledger_world_of w)"
proof -
  let ?s = "dw_state w"
  from w have s: "disk_ok limit ?s" "head_blocked limit ?s" "queue_ok ?s" "pending_in (ds_waiters ?s) ?s (dw_pending w)"
    "dom (map_of (ds_transactions ?s)) \<subseteq> {..<dw_next_owner w}" by (auto simp: world_ok_def)
  show ?thesis
  proof (cases op)
    case (OpenTransaction tx)
    have "map_of (ds_transactions ?s) (dw_next_owner w) = None" using s(5) by auto
    from register_transaction_ok [OF s(1) this, of tx] OpenTransaction op
    have "disk_ok limit (register_transaction (dw_next_owner w) tx ?s)" by simp
    with s OpenTransaction show ?thesis
      by (auto simp: world_ok_def register_transaction_def head_blocked_fields queue_ok_def pending_in_def ledger_world_of_def
          checked_add_u64_def update_conv' ledger_of_def limits_insert w split: if_splits)
  next
    case (Lease owner)
    obtain g s' where g: "register_reservation owner ?s = (g, s')" by fastforce
    have "ds_waiters s' = ds_waiters ?s" "ds_status s' = ds_status ?s" "ds_next_waiter s' = ds_next_waiter ?s"
      "ds_transactions s' = ds_transactions ?s" "dom (map_of (ds_reservations ?s)) \<subseteq> dom (map_of (ds_reservations s'))"
      "ds_reserved s' = ds_reserved ?s"
      using g by (auto simp: register_reservation_def update_conv' split: if_splits option.splits)
    moreover from this have "pending_in (ds_waiters s') s' (dw_pending w)" using s(4) unfolding pending_in_def by fastforce
    ultimately have "queue_ok s'" "head_blocked limit s'" "pending_in (ds_waiters s') s' (dw_pending w)"
        "dom (map_of (ds_transactions s')) \<subseteq> {..<dw_next_owner w}"
      using s(2,3,5) by (simp_all add: queue_ok_def head_blocked_def split: list.splits)
    with world_okI [of limit s' "dw_pending w" w] register_reservation_ok [OF s(1), of owner] g Lease show ?thesis
      by (auto simp: ledger_world_of_def split: prod.splits)
  next
    case (GrowBegin r owner a)
    obtain start s' where g: "acquire_begin limit r owner a ?s = (start, s')" by fastforce
    with acquire_begin_ok [OF s(1,2), of r owner a] acquire_begin_queue [OF s(3,4) g] acquire_transactions(1) [of limit r owner a ?s] s(5)
      world_okI [of limit s' "case start of Ready _ \<Rightarrow> dw_pending w | Waiting i \<Rightarrow> (i, r, owner, a) # dw_pending w" w] GrowBegin
    show ?thesis by (auto simp: grow_begin_def ledger_world_of_def split: prod.splits acquire_start.splits)
  next
    case (GrowEnd i outcome)
    with grow_end_ok [OF w] show ?thesis by simp
  next
    case (Abandon i)
    have "pending_in (ds_waiters ?s) ?s (AList.delete i (dw_pending w))"
      using s(4) by (fastforce simp: pending_in_def AList.delete_eq)
    with world_okI [OF s(1-3) this s(5)] Abandon show ?thesis by (simp add: ledger_world_of_def)
  next
    case (Shrink r owner a)
    obtain g s' where g: "release limit r owner a ?s = (g, s')" by fastforce
    have sv: "served (ds_waiters ?s) ?s s'" using release_served [OF queue_ok_distinct [OF s(3)], of limit r owner a] g by simp
    have "queue_ok s'" using served_queue_ok [OF sv] s(3) by (simp add: queue_ok_def)
    moreover have "pending_in (ds_waiters s') s' (dw_pending w)" by (rule served_pending [OF sv s(4)])
    ultimately show ?thesis
      using release_ok [OF s(1,2), of r owner a] g s(5) release_transactions [of limit r owner a ?s]
        world_okI [of limit s' "dw_pending w" w] Shrink
      by (auto simp: ledger_world_of_def split: prod.splits)
  next
    case (DropLease r owner)
    show ?thesis
    proof (cases "list_ex (\<lambda>(_, r', _). r' = r) (dw_pending w)")
      case True
      with DropLease w show ?thesis by (simp add: ledger_world_of_def)
    next
      case False
      with drop_lease_ok [OF s(1,2), of r owner] drop_lease_queue [OF s(3,4) False, of limit owner] DropLease s(5)
        drop_transactions [of limit r owner ?s] world_okI [of limit "drop_lease limit r owner ?s" "dw_pending w" w]
      show ?thesis by (simp add: ledger_world_of_def)
    qed
  next
    case (DropTransaction owner)
    have "ds_waiters (drop_transaction owner ?s) = ds_waiters ?s" "ds_status (drop_transaction owner ?s) = ds_status ?s"
      "ds_next_waiter (drop_transaction owner ?s) = ds_next_waiter ?s"
      "ds_reservations (drop_transaction owner ?s) = ds_reservations ?s"
      "dom (map_of (ds_transactions (drop_transaction owner ?s))) \<subseteq> dom (map_of (ds_transactions ?s))"
      by (auto simp: drop_transaction_def delete_conv' split: if_splits)
    with drop_transaction_ok [OF s(1,2), of owner] s(3-5) DropTransaction
      world_okI [of limit "drop_transaction owner ?s" "dw_pending w" w]
    show ?thesis by (simp add: ledger_world_of_def queue_ok_def pending_in_def)
  qed
qed

lemma world_ok_new: "limit \<le> u64_max \<Longrightarrow> world_ok limit disk_world_new"
  by (simp add: world_ok_def disk_world_new_def disk_new_def disk_ok_def transactions_ok_def total_held_def
      head_blocked_def queue_ok_def pending_in_def)

fun ledger_runs :: "nat \<Rightarrow> disk_op list \<Rightarrow> ledger_world \<Rightarrow> disk_result list \<times> ledger_world" where
  "ledger_runs limit [] w = ([], w)"
| "ledger_runs limit (op # ops) w =
     (let (result, w) = ledger_run limit op w; (results, w) = ledger_runs limit ops w in (result # results, w))"

lemma disk_runs_ok:
  assumes "world_ok limit w" "list_all op_ok ops"
  shows "world_ok limit (snd (disk_runs limit ops w))
    \<and> map_prod id ledger_world_of (disk_runs limit ops w) = ledger_runs limit ops (ledger_world_of w)"
  using assms
proof (induction ops arbitrary: w)
  case (Cons op ops)
  obtain r w1 where r: "disk_run limit op w = (r, w1)" by fastforce
  obtain rs w2 where rs: "disk_runs limit ops w1 = (rs, w2)" by fastforce
  have run: "world_ok limit w1" "ledger_run limit op (ledger_world_of w) = (r, ledger_world_of w1)"
    using disk_run_ok [OF Cons.prems(1), of op] Cons.prems(2) r by auto
  from Cons.IH [OF run(1)] Cons.prems(2) rs
  have "world_ok limit w2" "ledger_runs limit ops (ledger_world_of w1) = (rs, ledger_world_of w2)" by auto
  with r rs run(2) show ?case by simp
qed simp

text \<open>A waiter is served before every waiter that stays in the queue.\<close>

lemma served_order:
  assumes "served ws s s'" "sorted_wrt (<) (map wt_id ws)" "y \<in> set ws" "ds_status s (wt_id y) \<noteq> 1" "ds_status s' (wt_id y) = 1"
    and "x \<in> set (ds_waiters s')"
  shows "wt_id y < wt_id x"
proof -
  from assms(1) obtain front where front: "ws = front @ ds_waiters s'"
    "\<And>i. i \<notin> wt_id ` set front \<Longrightarrow> ds_status s' i = ds_status s i" by (auto simp: served_def)
  from front(2) [of "wt_id y"] assms(4,5) have "wt_id y \<in> wt_id ` set front" by auto
  with assms(2,6) front(1) show ?thesis by (auto simp: sorted_wrt_append)
qed

lemma withdraw_order:
  assumes "queue_ok s" "y \<in> set (ds_waiters s)" "ds_status (snd (withdraw limit i r owner a s)) (wt_id y) = 1"
    and "x \<in> set (ds_waiters (snd (withdraw limit i r owner a s)))"
  shows "wt_id y < wt_id x"
proof -
  let ?s = "s\<lparr>ds_status := (ds_status s)(i := 2)\<rparr>" and ?ws = "remove_waiter i (ds_waiters s)"
  note sv = withdraw_served [OF assms(1), of i limit r owner a]
  have "wt_id y \<noteq> i"
  proof
    assume y: "wt_id y = i"
    have "i \<notin> wt_id ` set ?ws" using remove_waiter_gone [OF queue_ok_distinct [OF assms(1)], of _ i] by auto
    moreover from sv obtain front where "?ws = front @ ds_waiters (snd (withdraw limit i r owner a s))"
      "i \<notin> wt_id ` set front \<Longrightarrow> ds_status (snd (withdraw limit i r owner a s)) i = ds_status ?s i"
      by (auto simp: served_def)
    ultimately have "ds_status (snd (withdraw limit i r owner a s)) i = 2" by (simp add: image_Un)
    with y assms(3) show False by simp
  qed
  then have y: "y \<in> set ?ws" "ds_status ?s (wt_id y) \<noteq> 1"
    using assms(1,2) remove_waiter_keeps by (auto simp: queue_ok_def)
  have "sorted_wrt (<) (map wt_id ?ws)" using assms(1) remove_waiter_sorted by (simp add: queue_ok_def)
  from served_order [OF sv this y assms(3,4)] show ?thesis .
qed

lemma grow_end_state:
  "dw_state (snd (grow_end limit i outcome w)) = dw_state w
   \<or> (\<exists>r owner a. dw_state (snd (grow_end limit i outcome w)) = snd (withdraw limit i r owner a (dw_state w)))"
proof (cases "map_of (dw_pending w) i")
  case (Some p)
  obtain r owner a where p: "p = (r, owner, a)" by (cases p) auto
  obtain g s' where "withdraw limit i r owner a (dw_state w) = (g, s')" by fastforce
  then have "dw_state (snd (grow_end limit i outcome w)) = dw_state w
    \<or> dw_state (snd (grow_end limit i outcome w)) = snd (withdraw limit i r owner a (dw_state w))"
    using Some p by (auto simp: grow_end_def acquire_end_def split: option.split)
  then show ?thesis by blast
qed (simp add: grow_end_def)

lemma disk_run_order:
  assumes w: "world_ok limit w" and y: "y \<in> set (ds_waiters (dw_state w))"
    and granted: "ds_status (dw_state (snd (disk_run limit op w))) (wt_id y) = 1"
    and x: "x \<in> set (ds_waiters (dw_state (snd (disk_run limit op w))))"
  shows "wt_id y < wt_id x"
proof -
  let ?s = "dw_state w"
  have q: "queue_ok ?s" "ds_status ?s (wt_id y) \<noteq> 1" "sorted_wrt (<) (map wt_id (ds_waiters ?s))"
    using w y by (auto simp: world_ok_def queue_ok_def)
  have order: "wt_id y < wt_id x" if "served (ds_waiters ?s) ?s (dw_state (snd (disk_run limit op w)))"
    by (rule served_order [OF that q(3) y q(2) granted x])
  show ?thesis
  proof (cases op)
    case (GrowBegin r owner a)
    then have "ds_status (dw_state (snd (disk_run limit op w))) = ds_status ?s"
      using grant_keeps(2) [of ?s limit r owner a]
      by (auto simp: grow_begin_def acquire_begin_def split: option.splits prod.splits if_splits)
    with granted q(2) show ?thesis by simp
  next
    case (GrowEnd i outcome)
    from grow_end_state [of limit i outcome w] consider "dw_state (snd (disk_run limit op w)) = ?s"
      | r owner a where "dw_state (snd (disk_run limit op w)) = snd (withdraw limit i r owner a ?s)"
      using GrowEnd by auto
    then show ?thesis
    proof cases
      case 1
      with granted q(2) show ?thesis by simp
    next
      case 2
      with granted x withdraw_order [OF q(1) y] show ?thesis by simp
    qed
  next
    case (Shrink r owner a)
    then have "served (ds_waiters ?s) ?s (dw_state (snd (disk_run limit op w)))"
      using release_served [OF queue_ok_distinct [OF q(1)], of limit r owner a]
      by (cases "release limit r owner a ?s") simp
    then show ?thesis by (rule order)
  next
    case (DropLease r owner)
    define s' where "s' = (if lease_amount r owner ?s \<noteq> 0 then snd (release limit r owner (lease_amount r owner ?s) ?s) else ?s)"
    have sv: "served (ds_waiters ?s) ?s s'"
      using release_served [OF queue_ok_distinct [OF q(1)], of limit r owner "lease_amount r owner ?s"] served_refl by (simp add: s'_def)
    have "ds_waiters (drop_lease limit r owner ?s) = ds_waiters s'" "ds_status (drop_lease limit r owner ?s) = ds_status s'"
      by (auto simp: drop_lease_def s'_def unregister_reservation_def Let_def split: option.split)
    then show ?thesis using served_order [OF sv q(3) y q(2)] granted q(2) x DropLease by (auto split: if_splits)
  qed (use granted q(2) in \<open>auto simp: register_transaction_def register_reservation_def drop_transaction_def
        split: option.splits prod.splits if_splits\<close>)
qed

section \<open>Properties\<close>

text \<open>C19. The coordinator implements the ledger: whatever the tasks do and in whatever order, every call
  answers what the ledger answers, and the coordinator stays a representation of it. So the running
  counters always equal the sums over the leases, and none of the overflow and underflow errors of
  the counters can occur.\<close>

theorem disk_quota_refines:
  assumes "limit \<le> u64_max" "list_all op_ok ops"
  shows "map_prod id ledger_world_of (disk_runs limit ops disk_world_new)
       = ledger_runs limit ops (ledger_world_of disk_world_new)"
  using disk_runs_ok [OF world_ok_new [OF assms(1)] assms(2)] by blast

definition sample_ops :: "disk_op list" where
  "sample_ops =
     [OpenTransaction 4, OpenTransaction 4, Lease 1, Lease 2, GrowBegin 1 1 3, GrowBegin 2 2 2, Shrink 1 1 1,
      GrowEnd 1 None, DropLease 1 1, DropTransaction 1]"

lemmas disk_eval = disk_world_new_def disk_new_def checked_add_u64_def add_within_def register_transaction_def
  register_reservation_def grow_begin_def acquire_begin_def can_grant_def grant_locked_def release_def release_locked_def
  checked_sub_u64_def wake_waiters_locked_def wake_waiter_def grow_end_def acquire_end_def drop_lease_def lease_amount_def
  reservation_amount_def unregister_reservation_def drop_transaction_def

theorem disk_quota_refines_witness:
  "fst (disk_runs 4 sample_ops disk_world_new) = fst (ledger_runs 4 sample_ops (ledger_world_of disk_world_new))
   \<and> fst (disk_runs 4 sample_ops disk_world_new) =
      [Opened 1, Opened 2, Leased (Inr 1), Leased (Inr 2), Started (Ready (Inr 3)), Started (Waiting 1), Shrunk (Inr 2),
       Grown (Inr 2), Dropped, Dropped]"
proof -
  have "list_all op_ok sample_ops" by (simp add: sample_ops_def)
  from disk_quota_refines [OF _ this, of 4]
  have "fst (map_prod id ledger_world_of (disk_runs 4 sample_ops disk_world_new))
      = fst (ledger_runs 4 sample_ops (ledger_world_of disk_world_new))" by simp
  moreover have "fst (disk_runs 4 sample_ops disk_world_new) =
      [Opened 1, Opened 2, Leased (Inr 1), Leased (Inr 2), Started (Ready (Inr 3)), Started (Waiting 1), Shrunk (Inr 2),
       Grown (Inr 2), Dropped, Dropped]"
    by (simp add: sample_ops_def disk_eval)
  ultimately show ?thesis by simp
qed

text \<open>C26. The quota holds and nobody waits for nothing: at any moment of any run the bytes reserved are
  the sum of the leases and within the limit, no transaction is above its own limit, the head of the
  queue would not fit, and ending a wait never finds its lease gone.\<close>

theorem disk_quota_safe:
  assumes "limit \<le> u64_max" "list_all op_ok ops" "snd (disk_runs limit ops disk_world_new) = w"
  shows "ds_reserved (dw_state w) = total_held (ds_reservations (dw_state w)) \<and> ds_reserved (dw_state w) \<le> limit
    \<and> (\<forall>owner tx. map_of (ds_transactions (dw_state w)) owner = Some tx \<longrightarrow>
          tx_reserved tx = held owner (ds_reservations (dw_state w)) \<and> tx_reserved tx \<le> tx_limit tx)
    \<and> (\<forall>x xs. ds_waiters (dw_state w) = x # xs \<longrightarrow> limit < ds_reserved (dw_state w) + wt_amount x)
    \<and> (\<forall>i outcome. fst (disk_run limit (GrowEnd i outcome) w) \<noteq> Panicked)"
proof -
  have w: "world_ok limit w" using disk_runs_ok [OF world_ok_new [OF assms(1)] assms(2)] assms(3) by blast
  then have s: "disk_ok limit (dw_state w)" "head_blocked limit (dw_state w)" by (auto simp: world_ok_def)
  show ?thesis
    using disk_okD(2,3,6,7) [OF s(1)] s(2) grow_end_ok [OF w] by (auto simp: head_blocked_def)
qed

theorem disk_quota_safe_witness:
  "ds_reserved (dw_state (snd (disk_runs 4 (take 6 sample_ops) disk_world_new))) \<le> 4
   \<and> map wt_amount (ds_waiters (dw_state (snd (disk_runs 4 (take 6 sample_ops) disk_world_new)))) = [2]"
proof -
  have "list_all op_ok (take 6 sample_ops)" by (simp add: sample_ops_def)
  from disk_quota_safe [OF _ this refl, of 4]
  have "ds_reserved (dw_state (snd (disk_runs 4 (take 6 sample_ops) disk_world_new))) \<le> 4" by simp
  moreover have "map wt_amount (ds_waiters (dw_state (snd (disk_runs 4 (take 6 sample_ops) disk_world_new)))) = [2]"
    by (simp add: sample_ops_def disk_eval)
  ultimately show ?thesis by simp
qed

text \<open>C33. Waiting is first come, first served: no call grants a waiter while one that came before it
  stays in the queue, and a request that arrives while others wait is queued behind them.\<close>

theorem disk_quota_fifo:
  assumes "limit \<le> u64_max" "list_all op_ok ops" "snd (disk_runs limit ops disk_world_new) = w"
    and "y \<in> set (ds_waiters (dw_state w))" "x \<in> set (ds_waiters (dw_state (snd (disk_run limit op w))))"
    and "wt_id x \<le> wt_id y"
  shows "ds_status (dw_state (snd (disk_run limit op w))) (wt_id y) \<noteq> 1
    \<and> (op = GrowBegin r owner a \<longrightarrow> a = 0 \<or> (\<nexists>n. fst (disk_run limit op w) = Started (Ready (Inr n))))"
proof
  have w: "world_ok limit w" using disk_runs_ok [OF world_ok_new [OF assms(1)] assms(2)] assms(3) by blast
  show "ds_status (dw_state (snd (disk_run limit op w))) (wt_id y) \<noteq> 1"
    using disk_run_order [OF w assms(4) _ assms(5)] assms(6) by auto
  show "op = GrowBegin r owner a \<longrightarrow> a = 0 \<or> (\<nexists>n. fst (disk_run limit op w) = Started (Ready (Inr n)))"
    using assms(4) by (auto simp: grow_begin_def acquire_begin_def split: option.splits prod.splits if_splits)
qed

theorem disk_quota_fifo_witness:
  "ds_status (dw_state (snd (disk_run 4 (GrowBegin 1 1 1) (snd (disk_runs 4 (take 6 sample_ops) disk_world_new))))) 1 \<noteq> 1
   \<and> fst (disk_run 4 (GrowBegin 1 1 1) (snd (disk_runs 4 (take 6 sample_ops) disk_world_new))) = Started (Waiting 2)"
proof -
  let ?w = "snd (disk_runs 4 (take 6 sample_ops) disk_world_new)"
  let ?x = "\<lparr>wt_id = 1, wt_reservation = 2, wt_owner = 2, wt_amount = 2\<rparr> :: reservation_waiter"
  have ok: "list_all op_ok (take 6 sample_ops)" by (simp add: sample_ops_def)
  have "ds_waiters (dw_state ?w) = [?x]"
    "ds_waiters (dw_state (snd (disk_run 4 (GrowBegin 1 1 1) ?w)))
      = [?x, \<lparr>wt_id = 2, wt_reservation = 1, wt_owner = 1, wt_amount = 1\<rparr>]"
    by (simp_all add: sample_ops_def disk_eval)
  then have "?x \<in> set (ds_waiters (dw_state ?w))" "?x \<in> set (ds_waiters (dw_state (snd (disk_run 4 (GrowBegin 1 1 1) ?w))))"
    by simp_all
  from disk_quota_fifo [OF _ ok refl this, of 1 1 1]
  have "ds_status (dw_state (snd (disk_run 4 (GrowBegin 1 1 1) ?w))) 1 \<noteq> 1" by simp
  moreover have "fst (disk_run 4 (GrowBegin 1 1 1) ?w) = Started (Waiting 2)"
    by (simp add: sample_ops_def disk_eval)
  ultimately show ?thesis by simp
qed

text \<open>A wait whose future is dropped leaves its waiter in the queue. The waiter of a lease and a
  transaction that are gone then keeps a request waiting that would fit, and its transaction stays
  registered for ever, since its \<open>drop\<close> has already run.\<close>

definition abandoned_ops :: "disk_op list" where
  "abandoned_ops =
     [OpenTransaction 4, OpenTransaction 4, OpenTransaction 4, Lease 1, Lease 2, Lease 3, GrowBegin 1 1 3,
      GrowBegin 2 2 2, Abandon 1, DropLease 2 2, DropTransaction 2]"

lemma abandoned_wait_blocks:
  "fst (disk_run 4 (GrowBegin 3 3 1) (snd (disk_runs 4 abandoned_ops disk_world_new))) = Started (Waiting 2)
   \<and> ds_reserved (dw_state (snd (disk_runs 4 abandoned_ops disk_world_new))) + 1 \<le> 4
   \<and> dw_pending (snd (disk_runs 4 abandoned_ops disk_world_new)) = []
   \<and> map fst (ds_reservations (dw_state (snd (disk_runs 4 abandoned_ops disk_world_new)))) = [1, 3]
   \<and> map fst (ds_transactions (dw_state (snd (disk_runs 4 abandoned_ops disk_world_new)))) = [1, 2, 3]"
  by (simp add: abandoned_ops_def disk_eval)

end
