(* ===== verification/Secrets.thy ===== *)
theory Secrets
  imports Policy_Types Json "HOL-Library.AList"
begin

text \<open>
  Secret references, \<^verbatim>\<open>src/secrets/\<close> and \<^verbatim>\<open>src/ports/secret_source.rs\<close>: parsing
  a configuration value into a reference, the file adapter, and the resolver that fetches every
  document once and takes all its keys from that fetch. A \<open>BTreeMap\<close> is an association list
  sorted by key, a \<open>HashMap\<close> one without repeated keys. What a source answers may differ from
  one fetch to the next, so a source is a function of the number of the fetch; which documents were
  asked for is part of the result. The JSON parser, the hash and the file system are arguments.
\<close>

section \<open>The port\<close>

datatype scheme = SchemeFile | SchemeVault | AwsSecretsManager | AzureKeyVault

definition SCHEME_ALL :: "scheme list" where
  "SCHEME_ALL = [SchemeFile, SchemeVault, AwsSecretsManager, AzureKeyVault]"

fun scheme_str :: "scheme \<Rightarrow> string" where
  "scheme_str SchemeFile = ''file''"
| "scheme_str SchemeVault = ''vault''"
| "scheme_str AwsSecretsManager = ''awssm''"
| "scheme_str AzureKeyVault = ''azkv''"

record secret_locator =
  loc_scheme :: scheme
  loc_target :: string

definition locator_text :: "secret_locator \<Rightarrow> string" where
  "locator_text l = scheme_str (loc_scheme l) @ ''://'' @ loc_target l"

record fetched_secret =
  fetched_document :: string
  fetched_version :: string
  fetched_ttl :: "nat option"

definition fetched_new :: "string \<Rightarrow> string \<Rightarrow> fetched_secret" where
  "fetched_new document version =
     \<lparr>fetched_document = document, fetched_version = version, fetched_ttl = None\<rparr>"

datatype secret_source_error =
    SourceNotFound (source_locator: string)
  | SourceUnavailable (source_locator: string) string
  | SourceMalformed (source_locator: string) string

fun source_category :: "secret_source_error \<Rightarrow> string" where
  "source_category (SourceNotFound _) = ''secret_source_not_found''"
| "source_category (SourceUnavailable _ _) = ''secret_source_unavailable''"
| "source_category (SourceMalformed _ _) = ''secret_source_malformed''"

definition source_error_text :: "secret_source_error \<Rightarrow> string" where
  "source_error_text e =
     (case e of
        SourceNotFound l \<Rightarrow> source_category e @ '': '' @ l @ '' does not exist''
      | SourceUnavailable l detail \<Rightarrow> source_category e @ '': '' @ l @ '' ('' @ detail @ '')''
      | SourceMalformed l detail \<Rightarrow> source_category e @ '': '' @ l @ '' ('' @ detail @ '')'')"

section \<open>References\<close>

definition is_keychain_sentinel :: "string \<Rightarrow> bool" where
  "is_keychain_sentinel v \<longleftrightarrow> v = ''keychain'' \<or> v = ''keychain://''"

definition scheme_candidate :: "string \<Rightarrow> scheme option" where
  "scheme_candidate bytes =
     (case bytes of
        [] \<Rightarrow> None
      | b # rest \<Rightarrow>
          if b = CHR ''f'' then Some SchemeFile
          else if b = CHR ''v'' then Some SchemeVault
          else if b = CHR ''a'' then
            (case rest of
               [] \<Rightarrow> None
             | c # _ \<Rightarrow>
                 if c = CHR ''w'' then Some AwsSecretsManager
                 else if c = CHR ''z'' then Some AzureKeyVault
                 else None)
          else None)"

definition scheme_of :: "string \<Rightarrow> scheme option" where
  "scheme_of bytes =
     (case scheme_candidate bytes of
        None \<Rightarrow> None
      | Some candidate \<Rightarrow>
          (let name = scheme_str candidate in
           if length name + 2 < length bytes \<and> starts_with bytes name
              \<and> take 3 (drop (length name) bytes) = ''://''
           then Some candidate else None))"

definition is_reference :: "string \<Rightarrow> bool" where
  "is_reference v \<longleftrightarrow> scheme_of v \<noteq> None"

record secret_reference =
  ref_locator :: secret_locator
  ref_fragment :: "string option"

datatype reference_error = EmptyTarget scheme | EmptyFragment scheme | FragmentRequired scheme

definition parse_reference :: "string \<Rightarrow> reference_error + secret_reference option" where
  "parse_reference raw =
     (let v = trim raw in
      case scheme_of v of
        None \<Rightarrow> Inr None
      | Some sch \<Rightarrow>
          (let rest = drop (length (scheme_str sch) + 3) v;
               (target, fragment) = (case split_once CHR ''#'' rest of
                  Some (t, f) \<Rightarrow> (t, Some f)
                | None \<Rightarrow> (rest, None))
           in if target = [] then Inl (EmptyTarget sch)
              else if fragment = Some [] then Inl (EmptyFragment sch)
              else if sch = SchemeVault \<and> fragment = None then Inl (FragmentRequired sch)
              else Inr (Some \<lparr>ref_locator = \<lparr>loc_scheme = sch, loc_target = target\<rparr>,
                              ref_fragment = fragment\<rparr>)))"

definition reference_text :: "secret_reference \<Rightarrow> string" where
  "reference_text r =
     locator_text (ref_locator r) @ (case ref_fragment r of Some f \<Rightarrow> ''#'' @ f | None \<Rightarrow> [])"

fun reference_error_text :: "reference_error \<Rightarrow> string" where
  "reference_error_text (EmptyTarget sch) = ''`'' @ scheme_str sch @ ''://` names nothing to fetch''"
| "reference_error_text (EmptyFragment sch) =
     ''`'' @ scheme_str sch @ ''://'' @ [CHR 0xE2, CHR 0x80, CHR 0xA6] @ ''#` ends in `#` with no key after it''"
| "reference_error_text (FragmentRequired sch) =
     ''`'' @ scheme_str sch @ ''://` names a document of keys; add `#<key>` to say which one''"

section \<open>The file adapter\<close>

definition VERSION_HEX_CHARS :: nat where
  "VERSION_HEX_CHARS = 16"

definition MAX_SECRET_FILE_BYTES :: nat where
  "MAX_SECRET_FILE_BYTES = 1024 * 1024"

text \<open>A failed file operation as the adapter sees it: not there, or the name of the error kind.\<close>

datatype file_failure = FileNotFound | FileFailed string

record secret_files =
  sf_metadata :: "string \<Rightarrow> file_failure + nat"
  sf_read :: "string \<Rightarrow> file_failure + string"

definition path_for :: "bool \<Rightarrow> secret_locator \<Rightarrow> secret_source_error + string" where
  "path_for windows l =
     (let target = loc_target l in
      if \<not> starts_with target ''/''
      then Inl (SourceMalformed (locator_text l) ''path must be absolute: file:///path'')
      else Inr (if windows \<and> 2 < length target \<and> target ! 2 = CHR '':'' then tl target else target))"

definition content_version :: "(string \<Rightarrow> string) \<Rightarrow> string \<Rightarrow> string" where
  "content_version sha256 bytes = ''sha256:'' @ hex_string (take (VERSION_HEX_CHARS div 2) (sha256 bytes))"

definition file_error :: "secret_locator \<Rightarrow> file_failure \<Rightarrow> secret_source_error" where
  "file_error l e =
     (case e of FileNotFound \<Rightarrow> SourceNotFound (locator_text l)
              | FileFailed kind \<Rightarrow> SourceUnavailable (locator_text l) kind)"

definition file_fetch ::
  "bool \<Rightarrow> (string \<Rightarrow> string) \<Rightarrow> secret_files \<Rightarrow> secret_locator \<Rightarrow> secret_source_error + fetched_secret" where
  "file_fetch windows sha256 files l =
     and_then (path_for windows l) (\<lambda>path.
     and_then (map_err (file_error l) (sf_metadata files path)) (\<lambda>len.
     if MAX_SECRET_FILE_BYTES < len
     then Inl (SourceMalformed (locator_text l) (''larger than '' @ dec_string MAX_SECRET_FILE_BYTES @ '' bytes''))
     else and_then (map_err (file_error l) (sf_read files path)) (\<lambda>bytes.
       if utf8_valid bytes then Inr (fetched_new bytes (content_version sha256 bytes))
       else Inl (SourceMalformed (locator_text l) ''not UTF-8''))))"

section \<open>Snapshots\<close>

record resolved_secret =
  resolved_value :: string
  resolved_provenance :: secret_provenance

definition resolved_new :: "string \<Rightarrow> string \<Rightarrow> string \<Rightarrow> resolved_secret" where
  "resolved_new v source version =
     \<lparr>resolved_value = v,
      resolved_provenance = \<lparr>provenance_source = source, provenance_version = version\<rparr>\<rparr>"

type_synonym secret_snapshot = "(string \<times> resolved_secret) list"

definition snapshot_get :: "secret_snapshot \<Rightarrow> string \<Rightarrow> resolved_secret option" where
  "snapshot_get s reference = map_of s reference"

definition merged_with :: "secret_snapshot \<Rightarrow> secret_snapshot \<Rightarrow> secret_snapshot" where
  "merged_with s newer = fold (\<lambda>(k, v). AList.update k v) newer (fold (\<lambda>(k, v). AList.update k v) s [])"

definition differs_from :: "secret_snapshot \<Rightarrow> secret_snapshot \<Rightarrow> bool" where
  "differs_from s newer \<longleftrightarrow> list_ex (\<lambda>(k, v). snapshot_get s k \<noteq> Some v) newer"

section \<open>The resolver\<close>

datatype resolve_cause =
    InvalidReference reference_error
  | NoSource scheme
  | Unconfigured scheme
  | SourceFailed secret_source_error
  | NotJsonObject
  | MissingKey string
  | NotAString string
  | EmptyValue

fun cause_category :: "resolve_cause \<Rightarrow> string" where
  "cause_category (InvalidReference _) = ''secret_reference_invalid''"
| "cause_category (NoSource _) = ''secret_source_not_compiled''"
| "cause_category (Unconfigured _) = ''secret_source_unconfigured''"
| "cause_category (SourceFailed e) = source_category e"
| "cause_category NotJsonObject = ''secret_document_malformed''"
| "cause_category (MissingKey _) = ''secret_document_malformed''"
| "cause_category (NotAString _) = ''secret_document_malformed''"
| "cause_category EmptyValue = ''secret_document_malformed''"

fun cause_text :: "resolve_cause \<Rightarrow> string" where
  "cause_text (InvalidReference e) = reference_error_text e"
| "cause_text (NoSource sch) = ''no adapter for `'' @ scheme_str sch @ ''://` is compiled into this binary''"
| "cause_text (Unconfigured sch) =
     ''the `'' @ scheme_str sch @ ''://` adapter is compiled in but not configured (set ''
       @ (case sch of SchemeVault \<Rightarrow> ''MCP_VAULT_ADDR and MCP_VAULT_AUTH'' | _ \<Rightarrow> ''its address'') @ '')''"
| "cause_text (SourceFailed e) = source_error_text e"
| "cause_text NotJsonObject = ''the document is not a JSON object, so `#key` cannot select from it''"
| "cause_text (MissingKey key) = ''the document has no `'' @ key @ ''` key''"
| "cause_text (NotAString key) = ''`'' @ key @ ''` is not a JSON string''"
| "cause_text EmptyValue = ''the value is empty''"

record secret_resolve_error =
  sre_reference :: string
  sre_cause :: resolve_cause

definition resolve_error_text :: "secret_resolve_error \<Rightarrow> string" where
  "resolve_error_text e =
     ''cannot resolve secret reference '' @ sre_reference e @ '': '' @ cause_text (sre_cause e)"

type_synonym secret_source = "nat \<Rightarrow> secret_locator \<Rightarrow> secret_source_error + fetched_secret"

record secret_resolver =
  rs_sources :: "(scheme \<times> secret_source) list"
  rs_vault_feature :: bool

definition compiled_in :: "secret_resolver \<Rightarrow> scheme \<Rightarrow> bool" where
  "compiled_in rs sch =
     (case sch of
        SchemeFile \<Rightarrow> True
      | SchemeVault \<Rightarrow> rs_vault_feature rs
      | AwsSecretsManager \<Rightarrow> False
      | AzureKeyVault \<Rightarrow> False)"

definition source_for :: "secret_resolver \<Rightarrow> scheme \<Rightarrow> secret_source option" where
  "source_for rs sch = map_option snd (find (\<lambda>(s, _). s = sch) (rs_sources rs))"

definition extract_value :: "(string \<Rightarrow> json option) \<Rightarrow> string \<Rightarrow> string option \<Rightarrow> resolve_cause + string" where
  "extract_value parse_json document fragment =
     and_then
       (case fragment of
          None \<Rightarrow> Inr (case strip_suffix [CHR 0x0A] document of
              None \<Rightarrow> document
            | Some rest \<Rightarrow> (case strip_suffix [CHR 0x0D] rest of Some r \<Rightarrow> r | None \<Rightarrow> rest))
        | Some key \<Rightarrow>
            and_then (ok_or NotJsonObject (parse_json document)) (\<lambda>parsed.
            and_then (ok_or NotJsonObject (as_object parsed)) (\<lambda>object.
            case map_of object key of
              None \<Rightarrow> Inl (MissingKey key)
            | Some (JString v) \<Rightarrow> Inr v
            | Some _ \<Rightarrow> Inl (NotAString key))))
       (\<lambda>v. if trim v = [] then Inl EmptyValue else Inr v)"

type_synonym document_group = "secret_locator \<times> secret_reference list"

text \<open>\<open>by_locator.entry(key).or_insert_with(..).1.push(reference)\<close> on the sorted map.\<close>

fun group_reference :: "secret_reference \<Rightarrow> (string \<times> document_group) list \<Rightarrow> (string \<times> document_group) list" where
  "group_reference r [] = [(locator_text (ref_locator r), ref_locator r, [r])]"
| "group_reference r ((k, l, rs) # m) =
     (let key = locator_text (ref_locator r) in
      if key < k then (key, ref_locator r, [r]) # (k, l, rs) # m
      else if key = k then (k, l, rs @ [r]) # m
      else (k, l, rs) # group_reference r m)"

fun group_values ::
  "string list \<Rightarrow> (string \<times> document_group) list \<Rightarrow> secret_resolve_error + (string \<times> document_group) list" where
  "group_values [] m = Inr m"
| "group_values (raw # vs) m =
     (case parse_reference raw of
        Inl cause \<Rightarrow> Inl \<lparr>sre_reference = trim raw, sre_cause = InvalidReference cause\<rparr>
      | Inr None \<Rightarrow> group_values vs m
      | Inr (Some r) \<Rightarrow> group_values vs (group_reference r m))"

definition fetch_group ::
  "secret_resolver \<Rightarrow> nat \<Rightarrow> document_group \<Rightarrow> secret_resolve_error + fetched_secret" where
  "fetch_group rs n g =
     (case g of (l, refs) \<Rightarrow>
        (case source_for rs (loc_scheme l) of
           None \<Rightarrow> Inl \<lparr>sre_reference = reference_text (hd refs),
              sre_cause = (if compiled_in rs (loc_scheme l) then Unconfigured (loc_scheme l) else NoSource (loc_scheme l))\<rparr>
         | Some source \<Rightarrow>
             map_err (\<lambda>cause. \<lparr>sre_reference = reference_text (hd refs), sre_cause = SourceFailed cause\<rparr>) (source n l)))"

fun take_references ::
  "(string \<Rightarrow> json option) \<Rightarrow> string \<Rightarrow> fetched_secret \<Rightarrow> secret_reference list \<Rightarrow> secret_snapshot
     \<Rightarrow> secret_resolve_error + secret_snapshot" where
  "take_references parse_json source fetched [] entries = Inr entries"
| "take_references parse_json source fetched (r # refs) entries =
     and_then
       (map_err (\<lambda>cause. \<lparr>sre_reference = reference_text r, sre_cause = cause\<rparr>)
         (extract_value parse_json (fetched_document fetched) (ref_fragment r)))
       (\<lambda>v. take_references parse_json source fetched refs
          (AList.update (reference_text r) (resolved_new v source (fetched_version fetched)) entries))"

fun take_documents ::
  "(string \<Rightarrow> json option) \<Rightarrow> (document_group \<times> (secret_resolve_error + fetched_secret)) list \<Rightarrow> secret_snapshot
     \<Rightarrow> secret_resolve_error + secret_snapshot" where
  "take_documents parse_json [] entries = Inr entries"
| "take_documents parse_json (((l, refs), document) # ds) entries =
     and_then document (\<lambda>fetched.
     and_then (take_references parse_json (scheme_str (loc_scheme l)) fetched refs entries)
       (take_documents parse_json ds))"

text \<open>The result, and the documents asked for, in the order of the map.\<close>

definition resolve ::
  "(string \<Rightarrow> json option) \<Rightarrow> secret_resolver \<Rightarrow> string list
     \<Rightarrow> (secret_resolve_error + secret_snapshot) \<times> secret_locator list" where
  "resolve parse_json rs values =
     (case group_values values [] of
        Inl e \<Rightarrow> (Inl e, [])
      | Inr by_locator \<Rightarrow>
          if by_locator = [] then (Inr [], [])
          else
            (let groups = map snd by_locator;
                 documents = map (\<lambda>(n, g). fetch_group rs n g) (zip [0..<length groups] groups)
             in (take_documents parse_json (zip groups documents) [],
                 filter (\<lambda>l. source_for rs (loc_scheme l) \<noteq> None) (map fst groups))))"

section \<open>Parsing and printing references\<close>

lemma scheme_of_Some: "scheme_of v = Some sch \<longleftrightarrow> (\<exists>rest. v = scheme_str sch @ ''://'' @ rest)"
proof
  assume "scheme_of v = Some sch"
  then have "starts_with v (scheme_str sch)" "take 3 (drop (length (scheme_str sch)) v) = ''://''"
    by (auto simp: scheme_of_def Let_def split: option.splits if_splits)
  then obtain r where r: "v = scheme_str sch @ r" "take 3 r = ''://''" by (auto simp: starts_with_iff)
  then have "r = ''://'' @ drop 3 r" using append_take_drop_id [of 3 r] by simp
  with r show "\<exists>rest. v = scheme_str sch @ ''://'' @ rest" by (intro exI [of _ "drop 3 r"]) simp
next
  assume "\<exists>rest. v = scheme_str sch @ ''://'' @ rest"
  then obtain rest where "v = scheme_str sch @ ''://'' @ rest" ..
  then show "scheme_of v = Some sch"
    by (cases sch) (simp_all add: scheme_of_def scheme_candidate_def starts_with_def)
qed

definition reference_wf :: "secret_reference \<Rightarrow> bool" where
  "reference_wf r \<longleftrightarrow>
     loc_target (ref_locator r) \<noteq> [] \<and> CHR ''#'' \<notin> set (loc_target (ref_locator r))
     \<and> ref_fragment r \<noteq> Some []
     \<and> (loc_scheme (ref_locator r) = SchemeVault \<longrightarrow> ref_fragment r \<noteq> None)"

lemma parse_reference_scheme:
  assumes "trim raw = scheme_str sch @ ''://'' @ rest"
  shows "parse_reference raw =
    (let (target, fragment) = (case split_once CHR ''#'' rest of Some (t, f) \<Rightarrow> (t, Some f) | None \<Rightarrow> (rest, None)) in
     if target = [] then Inl (EmptyTarget sch)
     else if fragment = Some [] then Inl (EmptyFragment sch)
     else if sch = SchemeVault \<and> fragment = None then Inl (FragmentRequired sch)
     else Inr (Some \<lparr>ref_locator = \<lparr>loc_scheme = sch, loc_target = target\<rparr>, ref_fragment = fragment\<rparr>))"
proof -
  have "scheme_of (trim raw) = Some sch" using assms by (auto simp: scheme_of_Some)
  then show ?thesis by (simp add: parse_reference_def assms)
qed

lemma parse_reference_Some:
  "parse_reference raw = Inr (Some r) \<longleftrightarrow> trim raw = reference_text r \<and> reference_wf r"
proof
  assume parse: "parse_reference raw = Inr (Some r)"
  then obtain sch where "scheme_of (trim raw) = Some sch"
    by (auto simp: parse_reference_def Let_def split: option.splits)
  then obtain rest where raw: "trim raw = scheme_str sch @ ''://'' @ rest" by (auto simp: scheme_of_Some)
  show "trim raw = reference_text r \<and> reference_wf r"
  proof (cases "split_once CHR ''#'' rest")
    case None
    with parse raw have "r = \<lparr>ref_locator = \<lparr>loc_scheme = sch, loc_target = rest\<rparr>, ref_fragment = None\<rparr>"
      "rest \<noteq> []" "sch \<noteq> SchemeVault" by (auto simp: parse_reference_scheme split: if_splits)
    with raw None show ?thesis
      by (simp add: reference_text_def locator_text_def reference_wf_def split_once_None_iff)
  next
    case (Some p)
    obtain t f where p: "p = (t, f)" by (cases p)
    with Some parse raw have "r = \<lparr>ref_locator = \<lparr>loc_scheme = sch, loc_target = t\<rparr>, ref_fragment = Some f\<rparr>"
      "t \<noteq> []" "f \<noteq> []" by (auto simp: parse_reference_scheme split: if_splits)
    moreover have "rest = t @ CHR ''#'' # f" "CHR ''#'' \<notin> set t"
      using Some split_once_Some p by auto
    ultimately show ?thesis using raw
      by (simp add: reference_text_def locator_text_def reference_wf_def)
  qed
next
  assume r: "trim raw = reference_text r \<and> reference_wf r"
  show "parse_reference raw = Inr (Some r)"
  proof (cases "ref_fragment r")
    case None
    with r have "trim raw = scheme_str (loc_scheme (ref_locator r)) @ ''://'' @ loc_target (ref_locator r)"
      by (simp add: reference_text_def locator_text_def)
    moreover have "split_once CHR ''#'' (loc_target (ref_locator r)) = None"
      using r by (simp add: split_once_None_iff reference_wf_def)
    ultimately show ?thesis using r None by (simp add: parse_reference_scheme reference_wf_def)
  next
    case (Some f)
    with r have "trim raw = scheme_str (loc_scheme (ref_locator r)) @ ''://'' @ (loc_target (ref_locator r) @ CHR ''#'' # f)"
      by (simp add: reference_text_def locator_text_def)
    moreover have "split_once CHR ''#'' (loc_target (ref_locator r) @ CHR ''#'' # f) = Some (loc_target (ref_locator r), f)"
      using r by (simp add: split_once_append reference_wf_def)
    ultimately show ?thesis using r Some by (simp add: parse_reference_scheme reference_wf_def)
  qed
qed

lemma locator_text_inject [simp]: "locator_text l = locator_text l' \<longleftrightarrow> l = l'"
  by (cases "loc_scheme l"; cases "loc_scheme l'") (auto simp: locator_text_def)

lemma reference_text_inject:
  assumes "reference_wf r" "reference_wf r'" "reference_text r = reference_text r'"
  shows "r = r'"
proof -
  have tail: "fr = fr' \<and> t = t'"
    if "t @ (case fr of Some f \<Rightarrow> ''#'' @ f | None \<Rightarrow> []) = t' @ (case fr' of Some f \<Rightarrow> ''#'' @ f | None \<Rightarrow> [])"
      "CHR ''#'' \<notin> set t" "CHR ''#'' \<notin> set t'" for t t' fr fr'
  proof (cases fr; cases fr')
    fix f f' assume "fr = Some f" "fr' = Some f'"
    with that show ?thesis using delimited_inject [of t "CHR ''#''" f t' f'] by simp
  qed (use that in \<open>auto simp: append_eq_append_conv2 split: option.splits\<close>)
  from assms have t: "CHR ''#'' \<notin> set (loc_target (ref_locator r))" "CHR ''#'' \<notin> set (loc_target (ref_locator r'))"
    by (simp_all add: reference_wf_def)
  have "loc_scheme (ref_locator r) = loc_scheme (ref_locator r')"
    using assms(3) by (cases "loc_scheme (ref_locator r)"; cases "loc_scheme (ref_locator r')")
      (simp_all add: reference_text_def locator_text_def)
  moreover from this assms(3)
  have "loc_target (ref_locator r) @ (case ref_fragment r of Some f \<Rightarrow> ''#'' @ f | None \<Rightarrow> [])
      = loc_target (ref_locator r') @ (case ref_fragment r' of Some f \<Rightarrow> ''#'' @ f | None \<Rightarrow> [])"
    by (simp add: reference_text_def locator_text_def)
  from tail [OF this t] have "ref_fragment r = ref_fragment r'" "loc_target (ref_locator r) = loc_target (ref_locator r')"
    by simp_all
  ultimately show ?thesis by simp
qed

section \<open>One fetch per document\<close>

definition group_refs :: "(string \<times> document_group) list \<Rightarrow> secret_reference set" where
  "group_refs m = (\<Union>(k, l, refs) \<in> set m. set refs)"

definition groups_ok :: "(string \<times> document_group) list \<Rightarrow> bool" where
  "groups_ok m \<longleftrightarrow> sorted_wrt (<) (map fst m)
     \<and> (\<forall>(k, l, refs) \<in> set m. k = locator_text l \<and> refs \<noteq> []
          \<and> (\<forall>r \<in> set refs. ref_locator r = l \<and> reference_wf r))"

lemma group_reference_keys: "fst ` set (group_reference r m) = insert (locator_text (ref_locator r)) (fst ` set m)"
  by (induction r m rule: group_reference.induct) (auto simp: Let_def)

lemma group_reference_eqs:
  "locator_text (ref_locator r) < k \<Longrightarrow>
     group_reference r ((k, l, rs) # m) = (locator_text (ref_locator r), ref_locator r, [r]) # (k, l, rs) # m"
  "locator_text (ref_locator r) = k \<Longrightarrow> group_reference r ((k, l, rs) # m) = (k, l, rs @ [r]) # m"
  "k < locator_text (ref_locator r) \<Longrightarrow> group_reference r ((k, l, rs) # m) = (k, l, rs) # group_reference r m"
  by (auto simp: Let_def)

lemma groups_ok_Cons:
  "groups_ok ((k, l, refs) # m) \<longleftrightarrow> k = locator_text l \<and> refs \<noteq> [] \<and> (\<forall>r \<in> set refs. ref_locator r = l \<and> reference_wf r)
     \<and> (\<forall>x \<in> fst ` set m. k < x) \<and> groups_ok m"
  by (auto simp: groups_ok_def)

lemma group_refs_Cons [simp]: "group_refs ((k, l, refs) # m) = set refs \<union> group_refs m"
  by (simp add: group_refs_def)

lemma group_reference_ok:
  assumes "groups_ok m" "reference_wf r"
  shows "groups_ok (group_reference r m) \<and> group_refs (group_reference r m) = insert r (group_refs m)"
  using assms
proof (induction m)
  case Nil
  then show ?case by (simp add: groups_ok_def group_refs_def)
next
  case (Cons x m)
  obtain k l rs where x: "x = (k, l, rs)" by (cases x)
  from Cons.prems(1) have ok: "k = locator_text l" "\<forall>r \<in> set rs. ref_locator r = l \<and> reference_wf r"
    "\<forall>x \<in> fst ` set m. k < x" "groups_ok m" "rs \<noteq> []" unfolding x groups_ok_Cons by blast+
  consider "locator_text (ref_locator r) < k" | "locator_text (ref_locator r) = k" | "k < locator_text (ref_locator r)"
    by fastforce
  then show ?case
  proof cases
    case 1
    then have "\<forall>x \<in> fst ` set m. locator_text (ref_locator r) < x" using ok(3) by (meson less_trans)
    with 1 ok Cons.prems(2) show ?thesis by (simp add: x group_reference_eqs(1) groups_ok_Cons)
  next
    case 2
    with ok Cons.prems(2) show ?thesis by (simp only: x group_reference_eqs(2)) (auto simp: groups_ok_Cons)
  next
    case 3
    with Cons.IH [OF ok(4) Cons.prems(2)] ok show ?thesis
      by (simp only: x group_reference_eqs(3) groups_ok_Cons group_refs_Cons group_reference_keys) auto
  qed
qed

definition configured_references :: "string list \<Rightarrow> secret_reference set" where
  "configured_references values = {r. \<exists>v \<in> set values. parse_reference v = Inr (Some r)}"

lemma group_values_ok:
  assumes "group_values values m = Inr m'" "groups_ok m"
  shows "groups_ok m' \<and> group_refs m' = group_refs m \<union> configured_references values"
  using assms
proof (induction "values" m rule: group_values.induct)
  case (2 raw vs m)
  show ?case
  proof (cases "parse_reference raw")
    case (Inr o')
    show ?thesis
    proof (cases o')
      case None
      with 2 Inr show ?thesis by (auto simp: configured_references_def)
    next
      case (Some r)
      with Inr have "reference_wf r" by (simp add: parse_reference_Some)
      from group_reference_ok [OF "2.prems"(2) this] 2 Inr Some show ?thesis
        by (auto simp: configured_references_def)
    qed
  qed (use 2 in simp)
qed (auto simp: configured_references_def)

lemma take_references_keeps:
  "take_references pj src f refs entries = Inr out \<Longrightarrow> k \<notin> reference_text ` set refs \<Longrightarrow>
     map_of out k = map_of entries k"
proof (induction refs arbitrary: entries)
  case (Cons q refs)
  from Cons.prems(1) obtain w where
    "take_references pj src f refs (AList.update (reference_text q) (resolved_new w src (fetched_version f)) entries) = Inr out"
    by (auto simp: result_simps)
  from Cons.IH [OF this, unfolded update_conv'] Cons.prems(2) show ?case by simp
qed simp

lemma take_references_finds:
  assumes "take_references pj src f refs entries = Inr out" "r \<in> set refs" "\<forall>r \<in> set refs. reference_wf r"
  shows "\<exists>v. extract_value pj (fetched_document f) (ref_fragment r) = Inr v
    \<and> map_of out (reference_text r) = Some (resolved_new v src (fetched_version f))"
  using assms
proof (induction refs arbitrary: entries)
  case (Cons q refs)
  from Cons.prems(1) obtain w where w: "extract_value pj (fetched_document f) (ref_fragment q) = Inr w"
    "take_references pj src f refs (AList.update (reference_text q) (resolved_new w src (fetched_version f)) entries) = Inr out"
    by (auto simp: result_simps)
  show ?case
  proof (cases "r \<in> set refs")
    case True
    with Cons w(2) show ?thesis by auto
  next
    case False
    with Cons.prems(2) have "r = q" by simp
    moreover have "reference_text q \<notin> reference_text ` set refs"
    proof
      assume "reference_text q \<in> reference_text ` set refs"
      then obtain r' where r': "r' \<in> set refs" "reference_text q = reference_text r'" by (rule imageE)
      with Cons.prems(3) have "q = r'" by (intro reference_text_inject) simp_all
      with False \<open>r = q\<close> r'(1) show False by simp
    qed
    ultimately show ?thesis using w(1) take_references_keeps [OF w(2), unfolded update_conv'] by simp
  qed
qed simp

lemma take_references_dom:
  "take_references pj src f refs entries = Inr out \<Longrightarrow>
     dom (map_of out) = dom (map_of entries) \<union> reference_text ` set refs"
proof (induction refs arbitrary: entries)
  case (Cons q refs)
  from Cons.prems obtain w where
    "take_references pj src f refs (AList.update (reference_text q) (resolved_new w src (fetched_version f)) entries) = Inr out"
    by (auto simp: result_simps)
  from Cons.IH [OF this, unfolded update_conv'] show ?case by (simp only: dom_fun_upd) simp
qed simp

lemma take_documents_keeps:
  "take_documents pj ds entries = Inr out \<Longrightarrow> k \<notin> (\<Union>((l, refs), d) \<in> set ds. reference_text ` set refs) \<Longrightarrow>
     map_of out k = map_of entries k"
proof (induction pj ds entries rule: take_documents.induct)
  case (2 pj l refs document ds entries)
  from "2.prems"(1) obtain f entries' where f: "document = Inr f"
    "take_references pj (scheme_str (loc_scheme l)) f refs entries = Inr entries'" "take_documents pj ds entries' = Inr out"
    by (auto simp: result_simps)
  from "2.IH" [OF f] take_references_keeps [OF f(2)] "2.prems"(2) show ?case by simp
qed simp

lemma take_documents_dom:
  "take_documents pj ds entries = Inr out \<Longrightarrow>
     dom (map_of out) = dom (map_of entries) \<union> (\<Union>((l, refs), d) \<in> set ds. reference_text ` set refs)"
proof (induction pj ds entries rule: take_documents.induct)
  case (2 pj l refs document ds entries)
  from "2.prems" obtain f entries' where f: "document = Inr f"
    "take_references pj (scheme_str (loc_scheme l)) f refs entries = Inr entries'" "take_documents pj ds entries' = Inr out"
    by (auto simp: result_simps)
  from "2.IH" [OF f] take_references_dom [OF f(2)] show ?case by (simp add: Un_assoc)
qed simp

lemma take_documents_finds:
  assumes "take_documents pj ds entries = Inr out" "((l, refs), d) \<in> set ds"
    and "distinct (map (fst \<circ> fst) ds)"
    and "\<forall>((l, refs), d) \<in> set ds. \<forall>r \<in> set refs. ref_locator r = l \<and> reference_wf r"
  shows "\<exists>f. d = Inr f \<and> (\<forall>r \<in> set refs. \<exists>v. extract_value pj (fetched_document f) (ref_fragment r) = Inr v
    \<and> map_of out (reference_text r) = Some (resolved_new v (scheme_str (loc_scheme l)) (fetched_version f)))"
  using assms
proof (induction pj ds entries rule: take_documents.induct)
  case (2 pj l' refs' document ds entries)
  from "2.prems"(1) obtain f entries' where f: "document = Inr f"
    "take_references pj (scheme_str (loc_scheme l')) f refs' entries = Inr entries'" "take_documents pj ds entries' = Inr out"
    by (auto simp: result_simps)
  show ?case
  proof (cases "((l, refs), d) \<in> set ds")
    case True
    then show ?thesis using "2.IH" [OF f(1) f(2) f(3) True] "2.prems"(3,4) by simp
  next
    case False
    with "2.prems"(2) have eq: "l = l'" "refs = refs'" "d = document" by auto
    have "reference_text r \<notin> (\<Union>((l, refs), d) \<in> set ds. reference_text ` set refs)" if "r \<in> set refs" for r
    proof
      assume "reference_text r \<in> (\<Union>((l, refs), d) \<in> set ds. reference_text ` set refs)"
      then obtain l2 refs2 d2 r2 where r2: "((l2, refs2), d2) \<in> set ds" "r2 \<in> set refs2" "reference_text r = reference_text r2"
        by auto
      with "2.prems"(4) that eq have "reference_wf r" "reference_wf r2" "ref_locator r = l'" "ref_locator r2 = l2" by auto
      with r2(3) have "l2 = l'" using reference_text_inject by blast
      with r2(1) "2.prems"(3) show False by force
    qed
    then have "map_of out (reference_text r) = map_of entries' (reference_text r)" if "r \<in> set refs" for r
      using that take_documents_keeps [OF f(3)] by blast
    moreover have "\<forall>r \<in> set refs. reference_wf r" using "2.prems"(4) eq by auto
    ultimately show ?thesis using take_references_finds [OF f(2)] f(1) eq by simp
  qed
qed simp

lemma fetch_group_Inr:
  "fetch_group rs n (l, refs) = Inr f \<Longrightarrow> \<exists>source. source_for rs (loc_scheme l) = Some source \<and> source n l = Inr f"
  by (auto simp: fetch_group_def split: option.splits)

lemma groups_ok_distinct: "groups_ok m \<Longrightarrow> distinct (map (fst \<circ> snd) m)"
proof -
  assume ok: "groups_ok m"
  then have "distinct (map fst m)" by (simp add: groups_ok_def strict_sorted_iff)
  moreover have "map fst m = map (locator_text \<circ> (fst \<circ> snd)) m"
    using ok by (intro map_cong) (auto simp: groups_ok_def)
  ultimately show ?thesis by (metis distinct_map map_map)
qed

lemma resolve_groups:
  assumes "resolve parse_json rs values = (Inr snapshot, fetched)"
  obtains m where "groups_ok m" "group_refs m = configured_references values"
    "take_documents parse_json (zip (map snd m) (map (\<lambda>(n, g). fetch_group rs n g) (zip [0..<length m] (map snd m)))) [] = Inr snapshot"
    "fetched = filter (\<lambda>l. source_for rs (loc_scheme l) \<noteq> None) (map (fst \<circ> snd) m)"
proof -
  from assms obtain m where m: "group_values values [] = Inr m" by (auto simp: resolve_def split: sum.splits)
  have "groups_ok m \<and> group_refs m = configured_references values"
    using group_values_ok [OF m] by (simp add: groups_ok_def group_refs_def)
  with m assms that [of m] show thesis by (auto simp: resolve_def Let_def split: if_splits)
qed

lemma resolved_groups:
  assumes "groups_ok m"
    and "take_documents pj (zip (map snd m) (map (\<lambda>(n, g). fetch_group rs n g) (zip [0..<length m] (map snd m)))) [] = Inr out"
    and "(k, l, refs) \<in> set m"
  shows "\<exists>f n source. source_for rs (loc_scheme l) = Some source \<and> source n l = Inr f
    \<and> (\<forall>r \<in> set refs. \<exists>v. extract_value pj (fetched_document f) (ref_fragment r) = Inr v
        \<and> map_of out (reference_text r) = Some (resolved_new v (scheme_str (loc_scheme l)) (fetched_version f)))"
proof -
  let ?ds = "zip (map snd m) (map (\<lambda>(n, g). fetch_group rs n g) (zip [0..<length m] (map snd m)))"
  from assms(3) obtain i where i: "i < length m" "m ! i = (k, l, refs)" by (meson in_set_conv_nth)
  then have "?ds ! i = ((l, refs), fetch_group rs i (l, refs))" by simp
  then have mem: "((l, refs), fetch_group rs i (l, refs)) \<in> set ?ds"
    using i by (metis (no_types, lifting) length_map length_zip map_fst_zip min.idem nth_mem length_upt diff_zero)
  have len: "length ?ds = length m" by simp
  have locs: "map (fst \<circ> fst) ?ds = map (fst \<circ> snd) m"
    by (rule nth_equalityI) simp_all
  have "\<forall>((l, refs), d) \<in> set ?ds. \<forall>r \<in> set refs. ref_locator r = l \<and> reference_wf r"
    using assms(1) by (fastforce simp: groups_ok_def dest!: set_zip_leftD)
  from take_documents_finds [OF assms(2) mem _ this] groups_ok_distinct [OF assms(1)] locs
  obtain f where f: "fetch_group rs i (l, refs) = Inr f"
    "\<forall>r \<in> set refs. \<exists>v. extract_value pj (fetched_document f) (ref_fragment r) = Inr v
        \<and> map_of out (reference_text r) = Some (resolved_new v (scheme_str (loc_scheme l)) (fetched_version f))"
    by auto
  with fetch_group_Inr [OF f(1)] show ?thesis by blast
qed

lemma groups_locators:
  assumes "groups_ok m"
  shows "set (map (fst \<circ> snd) m) = ref_locator ` group_refs m"
proof
  show "set (map (fst \<circ> snd) m) \<subseteq> ref_locator ` group_refs m"
  proof
    fix l assume "l \<in> set (map (fst \<circ> snd) m)"
    then obtain k refs where g: "(k, l, refs) \<in> set m" by auto
    with assms have hd: "hd refs \<in> set refs" "ref_locator (hd refs) = l" by (auto simp: groups_ok_def)
    with g have "hd refs \<in> group_refs m" by (auto simp: group_refs_def)
    with hd(2) show "l \<in> ref_locator ` group_refs m" by blast
  qed
  show "ref_locator ` group_refs m \<subseteq> set (map (fst \<circ> snd) m)"
    using assms by (force simp: groups_ok_def group_refs_def)
qed

lemma resolved_dom:
  assumes "take_documents pj (zip (map snd m) (map (\<lambda>(n, g). fetch_group rs n g) (zip [0..<length m] (map snd m)))) [] = Inr out"
  shows "dom (map_of out) = reference_text ` group_refs m"
proof -
  let ?ds = "zip (map snd m) (map (\<lambda>(n, g). fetch_group rs n g) (zip [0..<length m] (map snd m)))"
  have "dom (map_of out) = (\<Union>((l, refs), d) \<in> set ?ds. reference_text ` set refs)"
    using take_documents_dom [OF assms] by simp
  also have "\<dots> = (\<Union>(l, refs) \<in> set (map fst ?ds). reference_text ` set refs)"
    unfolding set_map by (simp add: case_prod_unfold)
  also have "\<dots> = reference_text ` group_refs m"
    by (subst map_fst_zip) (force simp: group_refs_def)+
  finally show ?thesis .
qed

definition answered ::
  "(string \<Rightarrow> json option) \<Rightarrow> secret_resolver \<Rightarrow> secret_snapshot \<Rightarrow> secret_locator \<Rightarrow> fetched_secret
     \<Rightarrow> secret_reference \<Rightarrow> bool" where
  "answered pj rs out l f r \<longleftrightarrow>
     (\<exists>source n. source_for rs (loc_scheme l) = Some source \<and> source n l = Inr f)
     \<and> (\<exists>v. extract_value pj (fetched_document f) (ref_fragment r) = Inr v
          \<and> map_of out (reference_text r) = Some (resolved_new v (scheme_str (loc_scheme l)) (fetched_version f)))"

lemma resolved_answers:
  assumes "groups_ok m"
    and "take_documents pj (zip (map snd m) (map (\<lambda>(n, g). fetch_group rs n g) (zip [0..<length m] (map snd m)))) [] = Inr out"
  shows "\<exists>answer. \<forall>r \<in> group_refs m. answered pj rs out (ref_locator r) (answer (ref_locator r)) r"
proof -
  have "\<forall>l. \<exists>f. \<forall>r \<in> group_refs m. ref_locator r = l \<longrightarrow> answered pj rs out l f r"
  proof
    fix l
    show "\<exists>f. \<forall>r \<in> group_refs m. ref_locator r = l \<longrightarrow> answered pj rs out l f r"
    proof (cases "\<exists>k refs. (k, l, refs) \<in> set m")
      case True
      then obtain k refs where g: "(k, l, refs) \<in> set m" by blast
      have "r \<in> set refs" if "r \<in> group_refs m" "ref_locator r = l" for r
      proof -
        from that(1) obtain k' l' refs' where g': "(k', l', refs') \<in> set m" "r \<in> set refs'" by (auto simp: group_refs_def)
        with assms(1) that(2) have "l' = l" by (fastforce simp: groups_ok_def)
        then have "(k', l', refs') = (k, l, refs)"
          using groups_ok_distinct [OF assms(1)] g g'(1) by (fastforce simp: distinct_map inj_on_def)
        with g'(2) show ?thesis by simp
      qed
      with resolved_groups [OF assms g] show ?thesis by (fastforce simp: answered_def)
    next
      case False
      then have "ref_locator r \<noteq> l" if "r \<in> group_refs m" for r
        using that assms(1) by (fastforce simp: group_refs_def groups_ok_def)
      then show ?thesis by blast
    qed
  qed
  then obtain answer where "\<forall>l. \<forall>r \<in> group_refs m. ref_locator r = l \<longrightarrow> answered pj rs out l (answer l) r"
    by (rule choice [THEN exE])
  then show ?thesis by blast
qed

lemma group_values_parsed: "group_values values m = Inr m' \<Longrightarrow> v \<in> set values \<Longrightarrow> \<not> isl (parse_reference v)"
  by (induction "values" m rule: group_values.induct) (auto split: sum.splits option.splits)

lemma extract_value_nonblank: "extract_value pj document fragment = Inr v \<Longrightarrow> trim v \<noteq> []"
  by (auto simp: extract_value_def result_simps split: if_splits)

lemma resolve_entry:
  assumes "resolve pj rs values = (Inr snapshot, fetched)" "v \<in> set values" "is_reference (trim v)"
  obtains r f x where "parse_reference v = Inr (Some r)" "extract_value pj (fetched_document (f :: fetched_secret)) (ref_fragment r) = Inr x"
    "snapshot_get snapshot (trim v) = Some (resolved_new x (scheme_str (loc_scheme (ref_locator r))) (fetched_version f))"
proof -
  from assms(1) obtain m where "group_values values [] = Inr m" by (auto simp: resolve_def split: sum.splits)
  then have "\<not> isl (parse_reference v)" using group_values_parsed assms(2) by blast
  moreover have "parse_reference v \<noteq> Inr None"
    using assms(3) by (auto simp: parse_reference_def is_reference_def Let_def split: option.splits if_splits)
  ultimately obtain r where r: "parse_reference v = Inr (Some r)"
    by (cases "parse_reference v"; cases "projr (parse_reference v)") simp_all
  obtain m where m: "groups_ok m" "group_refs m = configured_references values"
    "take_documents pj (zip (map snd m) (map (\<lambda>(n, g). fetch_group rs n g) (zip [0..<length m] (map snd m)))) [] = Inr snapshot"
    by (rule resolve_groups [OF assms(1)])
  have "r \<in> group_refs m" using r assms(2) m(2) by (auto simp: configured_references_def)
  with resolved_answers [OF m(1,3)] obtain f where "answered pj rs snapshot (ref_locator r) f r" by blast
  moreover have "trim v = reference_text r" using r by (simp add: parse_reference_Some)
  ultimately show thesis using that [OF r, of f] by (auto simp: answered_def snapshot_get_def)
qed

section \<open>Properties\<close>

text \<open>A value parses as a reference exactly when its trimmed text is the printed form of a
  well-formed reference, and then it parses to that reference: printing what was parsed gives the
  trimmed text back, and parsing what was printed gives the reference back. So the text under which
  the resolver stores a secret is the text under which the configuration looks it up.\<close>

theorem reference_roundtrip:
  "parse_reference raw = Inr (Some r) \<longleftrightarrow> trim raw = reference_text r \<and> reference_wf r"
  by (rule parse_reference_Some)

text \<open>C29. The resolver is atomic per document. When it succeeds, it asked for every document that some
  configured value refers to, for each exactly once and for nothing else, and there is one answer
  per document such that every reference into it holds the value found under its key in that answer
  with the version of that answer; the snapshot has an entry for every configured reference, under
  its trimmed text, and no other.\<close>

theorem resolve_atomic:
  assumes "resolve parse_json rs values = (Inr snapshot, fetched)"
  shows "distinct fetched \<and> set fetched = ref_locator ` configured_references values
    \<and> dom (snapshot_get snapshot) = reference_text ` configured_references values
    \<and> (\<exists>answer. \<forall>v r. v \<in> set values \<longrightarrow> parse_reference v = Inr (Some r) \<longrightarrow>
         (\<exists>source n. source_for rs (loc_scheme (ref_locator r)) = Some source
            \<and> source n (ref_locator r) = Inr (answer (ref_locator r)))
       \<and> (\<exists>x. extract_value parse_json (fetched_document (answer (ref_locator r))) (ref_fragment r) = Inr x
            \<and> snapshot_get snapshot (trim v) = Some (resolved_new x (scheme_str (loc_scheme (ref_locator r)))
                (fetched_version (answer (ref_locator r))))))"
proof -
  obtain m where m: "groups_ok m" "group_refs m = configured_references values"
    "take_documents parse_json (zip (map snd m) (map (\<lambda>(n, g). fetch_group rs n g) (zip [0..<length m] (map snd m)))) [] = Inr snapshot"
    "fetched = filter (\<lambda>l. source_for rs (loc_scheme l) \<noteq> None) (map (fst \<circ> snd) m)"
    by (rule resolve_groups [OF assms])
  have "filter (\<lambda>l. source_for rs (loc_scheme l) \<noteq> None) (map (fst \<circ> snd) m) = map (fst \<circ> snd) m"
    using resolved_groups [OF m(1,3)] by (intro filter_True) fastforce
  with m(4) have fetched: "fetched = map (fst \<circ> snd) m" by simp
  obtain answer where "\<forall>r \<in> configured_references values. answered parse_json rs snapshot (ref_locator r) (answer (ref_locator r)) r"
    using resolved_answers [OF m(1,3)] m(2) by auto
  then have "(\<exists>source n. source_for rs (loc_scheme (ref_locator r)) = Some source
            \<and> source n (ref_locator r) = Inr (answer (ref_locator r)))
       \<and> (\<exists>x. extract_value parse_json (fetched_document (answer (ref_locator r))) (ref_fragment r) = Inr x
            \<and> snapshot_get snapshot (trim v) = Some (resolved_new x (scheme_str (loc_scheme (ref_locator r)))
                (fetched_version (answer (ref_locator r)))))"
    if "v \<in> set values" "parse_reference v = Inr (Some r)" for v r
    using that parse_reference_Some [of v r] by (auto simp: configured_references_def answered_def snapshot_get_def)
  moreover have "dom (snapshot_get snapshot) = reference_text ` configured_references values"
    using resolved_dom [OF m(3)] m(2) by (simp add: snapshot_get_def [abs_def])
  ultimately show ?thesis
    using groups_ok_distinct [OF m(1)] groups_locators [OF m(1)] m(2) fetched by (intro conjI exI [of _ answer] allI impI) simp_all
qed

definition sample_documents :: "nat \<Rightarrow> secret_locator \<Rightarrow> secret_source_error + fetched_secret" where
  "sample_documents n l = Inr (fetched_new ''{..}'' (''v'' @ dec_string n))"

definition sample_resolver :: secret_resolver where
  "sample_resolver = \<lparr>rs_sources = [(SchemeFile, sample_documents)], rs_vault_feature = True\<rparr>"

definition sample_object_json :: "string \<Rightarrow> json option" where
  "sample_object_json text = Some (JObject [(''email'', JString ''a@x''), (''token'', JString ''t1'')])"

theorem resolve_atomic_witness:
  "\<exists>snapshot fetched. resolve sample_object_json sample_resolver
       [''file:///atlassian#email'', ''literal'', '' file:///atlassian#token''] = (Inr snapshot, fetched)
     \<and> distinct fetched \<and> set fetched = {\<lparr>loc_scheme = SchemeFile, loc_target = ''/atlassian''\<rparr>}"
proof -
  let ?vs = "[''file:///atlassian#email'', ''literal'', '' file:///atlassian#token'']"
  have run: "\<not> isl (fst (resolve sample_object_json sample_resolver ?vs))"
    "map parse_reference ?vs = [
       Inr (Some \<lparr>ref_locator = \<lparr>loc_scheme = SchemeFile, loc_target = ''/atlassian''\<rparr>, ref_fragment = Some ''email''\<rparr>),
       Inr None,
       Inr (Some \<lparr>ref_locator = \<lparr>loc_scheme = SchemeFile, loc_target = ''/atlassian''\<rparr>, ref_fragment = Some ''token''\<rparr>)]"
    by code_simp+
  then obtain snapshot fetched where r: "resolve sample_object_json sample_resolver ?vs = (Inr snapshot, fetched)"
    by (cases "resolve sample_object_json sample_resolver ?vs"; cases "fst (resolve sample_object_json sample_resolver ?vs)") auto
  have "configured_references ?vs =
      {\<lparr>ref_locator = \<lparr>loc_scheme = SchemeFile, loc_target = ''/atlassian''\<rparr>, ref_fragment = Some ''email''\<rparr>,
       \<lparr>ref_locator = \<lparr>loc_scheme = SchemeFile, loc_target = ''/atlassian''\<rparr>, ref_fragment = Some ''token''\<rparr>}"
    using run(2) by (auto simp: configured_references_def)
  then have "ref_locator ` configured_references ?vs = {\<lparr>loc_scheme = SchemeFile, loc_target = ''/atlassian''\<rparr>}"
    by simp
  with resolve_atomic [OF r] r show ?thesis by (intro exI [of _ snapshot] exI [of _ fetched]) simp
qed

end
