(* ===== verification/Vendor_Registry.thy ===== *)
theory Vendor_Registry
  imports Policy_Types
begin

text \<open>
  The registry of secrets, \<^verbatim>\<open>src/auth/secrets.rs\<close>, with the kinds of
  \<^verbatim>\<open>src/auth/keychain.rs\<close> and the vendor names of \<^verbatim>\<open>src/config/mod.rs\<close>: which
  configuration keys hold a secret, whose account it belongs to, which keychain slot it maps to and
  whether it acts on the request path.
\<close>

section \<open>Vendors\<close>

definition VENDOR_BITBUCKET :: string where "VENDOR_BITBUCKET = ''bitbucket''"
definition VENDOR_JIRA :: string where "VENDOR_JIRA = ''jira''"
definition VENDOR_CONFLUENCE :: string where "VENDOR_CONFLUENCE = ''confluence''"
definition VENDOR_ZOOM :: string where "VENDOR_ZOOM = ''zoom''"
definition VENDOR_CIRCLECI :: string where "VENDOR_CIRCLECI = ''circleci''"
definition VENDOR_SLACK :: string where "VENDOR_SLACK = ''slack''"
definition VENDOR_POSTMAN :: string where "VENDOR_POSTMAN = ''postman''"
definition VENDOR_EDX :: string where "VENDOR_EDX = ''edx''"
definition VENDOR_NEWRELIC :: string where "VENDOR_NEWRELIC = ''newrelic''"
definition VENDOR_GRAFANA :: string where "VENDOR_GRAFANA = ''grafana''"
definition VENDOR_SONARQUBE :: string where "VENDOR_SONARQUBE = ''sonarqube''"
definition VENDOR_TEAMCITY :: string where "VENDOR_TEAMCITY = ''teamcity''"
definition VENDOR_GITHUB :: string where "VENDOR_GITHUB = ''github''"
definition VENDOR_GITLAB :: string where "VENDOR_GITLAB = ''gitlab''"
definition VENDOR_FIGMA :: string where "VENDOR_FIGMA = ''figma''"
definition VENDOR_VERCEL :: string where "VENDOR_VERCEL = ''vercel''"
definition VENDOR_SENTRY :: string where "VENDOR_SENTRY = ''sentry''"
definition VENDOR_ARTIFACTORY :: string where "VENDOR_ARTIFACTORY = ''artifactory''"
definition VENDOR_SNYK :: string where "VENDOR_SNYK = ''snyk''"
definition VENDOR_MEND :: string where "VENDOR_MEND = ''mend''"
definition VENDOR_SPLUNK :: string where "VENDOR_SPLUNK = ''splunk''"
definition VENDOR_NINJAONE :: string where "VENDOR_NINJAONE = ''ninjaone''"
definition VENDOR_WRDS :: string where "VENDOR_WRDS = ''wrds''"

lemmas vendor_names =
  VENDOR_BITBUCKET_def VENDOR_JIRA_def VENDOR_CONFLUENCE_def VENDOR_ZOOM_def VENDOR_CIRCLECI_def VENDOR_SLACK_def
  VENDOR_POSTMAN_def VENDOR_EDX_def VENDOR_NEWRELIC_def VENDOR_GRAFANA_def VENDOR_SONARQUBE_def VENDOR_TEAMCITY_def
  VENDOR_GITHUB_def VENDOR_GITLAB_def VENDOR_FIGMA_def VENDOR_VERCEL_def VENDOR_SENTRY_def VENDOR_ARTIFACTORY_def
  VENDOR_SNYK_def VENDOR_MEND_def VENDOR_SPLUNK_def VENDOR_NINJAONE_def VENDOR_WRDS_def

section \<open>Kinds of secret\<close>

datatype secret_kind = ApiToken | AppPassword | Password | TotpSecret | Token

fun kind_label :: "secret_kind \<Rightarrow> string" where
  "kind_label ApiToken = ''api-token''"
| "kind_label AppPassword = ''app-password''"
| "kind_label Password = ''password''"
| "kind_label TotpSecret = ''totp-secret''"
| "kind_label Token = ''token''"

fun service_prefix :: "secret_kind \<Rightarrow> string" where
  "service_prefix ApiToken = ''mcp-server-devtools.api-token''"
| "service_prefix AppPassword = ''mcp-server-devtools.app-password''"
| "service_prefix Password = ''mcp-server-devtools.password''"
| "service_prefix TotpSecret = ''mcp-server-devtools.totp-secret''"
| "service_prefix Token = ''mcp-server-devtools.token''"

definition service_for :: "secret_kind \<Rightarrow> string \<Rightarrow> string" where
  "service_for kind vendor = service_prefix kind @ ''.'' @ vendor"

text \<open>\<open>replacen(.., 1)\<close> of the one prefix every service name starts with.\<close>

definition legacy_service_for :: "secret_kind \<Rightarrow> string \<Rightarrow> string" where
  "legacy_service_for kind vendor =
     (case strip_prefix ''mcp-server-devtools'' (service_for kind vendor) of
        Some rest \<Rightarrow> ''mcp-server-atlassian'' @ rest
      | None \<Rightarrow> service_for kind vendor)"

section \<open>The registry\<close>

datatype slot_role = RequestCredential | LoginInput

record vendor_secret_row =
  vs_vendor :: string
  vs_secret_key :: string
  vs_principal_key :: "string option"
  vs_kind :: secret_kind
  vs_role :: slot_role

definition slot_principal :: "vendor_secret_row \<Rightarrow> string option \<Rightarrow> string" where
  "slot_principal row configured =
     (case (vs_principal_key row, configured) of
        (Some _, Some p) \<Rightarrow> if p \<noteq> [] then p else vs_secret_key row
      | _ \<Rightarrow> vs_secret_key row)"

definition token_row :: "string \<Rightarrow> string \<Rightarrow> vendor_secret_row" where
  "token_row vendor secret_key =
     \<lparr>vs_vendor = vendor, vs_secret_key = secret_key, vs_principal_key = None, vs_kind = Token,
      vs_role = RequestCredential\<rparr>"

definition owned_row :: "string \<Rightarrow> string \<Rightarrow> string \<Rightarrow> secret_kind \<Rightarrow> vendor_secret_row" where
  "owned_row vendor secret_key principal_key kind =
     \<lparr>vs_vendor = vendor, vs_secret_key = secret_key, vs_principal_key = Some principal_key, vs_kind = kind,
      vs_role = RequestCredential\<rparr>"

definition login_input_row :: "string \<Rightarrow> string \<Rightarrow> string \<Rightarrow> secret_kind \<Rightarrow> vendor_secret_row" where
  "login_input_row vendor secret_key principal_key kind =
     \<lparr>vs_vendor = vendor, vs_secret_key = secret_key, vs_principal_key = Some principal_key, vs_kind = kind,
      vs_role = LoginInput\<rparr>"

definition VENDOR_SECRETS :: "vendor_secret_row list" where
  "VENDOR_SECRETS =
     [owned_row VENDOR_BITBUCKET ''ATLASSIAN_API_TOKEN'' ''ATLASSIAN_USER_EMAIL'' ApiToken,
      owned_row VENDOR_JIRA ''ATLASSIAN_API_TOKEN'' ''ATLASSIAN_USER_EMAIL'' ApiToken,
      owned_row VENDOR_CONFLUENCE ''ATLASSIAN_API_TOKEN'' ''ATLASSIAN_USER_EMAIL'' ApiToken,
      owned_row VENDOR_BITBUCKET ''ATLASSIAN_BITBUCKET_APP_PASSWORD'' ''ATLASSIAN_BITBUCKET_USERNAME'' AppPassword,
      owned_row VENDOR_ZOOM ''ZOOM_CLIENT_SECRET'' ''ZOOM_CLIENT_ID'' Token,
      token_row VENDOR_SLACK ''SLACK_TOKEN'',
      token_row VENDOR_CIRCLECI ''CIRCLECI_TOKEN'',
      token_row VENDOR_POSTMAN ''POSTMAN_API_KEY'',
      token_row VENDOR_NEWRELIC ''NEW_RELIC_API_KEY'',
      token_row VENDOR_GRAFANA ''GRAFANA_TOKEN'',
      token_row VENDOR_SONARQUBE ''SONARQUBE_TOKEN'',
      token_row VENDOR_TEAMCITY ''TEAMCITY_TOKEN'',
      token_row VENDOR_GITHUB ''GITHUB_TOKEN'',
      token_row VENDOR_GITLAB ''GITLAB_TOKEN'',
      token_row VENDOR_FIGMA ''FIGMA_TOKEN'',
      token_row VENDOR_VERCEL ''VERCEL_TOKEN'',
      token_row VENDOR_SENTRY ''SENTRY_TOKEN'',
      token_row VENDOR_ARTIFACTORY ''ARTIFACTORY_TOKEN'',
      token_row VENDOR_SNYK ''SNYK_TOKEN'',
      login_input_row VENDOR_MEND ''MEND_USER_KEY'' ''MEND_EMAIL'' Password,
      token_row VENDOR_SPLUNK ''SPLUNK_TOKEN'',
      token_row VENDOR_EDX ''EDX_ACCESS_TOKEN'',
      owned_row VENDOR_WRDS ''WRDS_PASSWORD'' ''WRDS_USERNAME'' Password,
      login_input_row VENDOR_NINJAONE ''NINJAONE_PASSWORD'' ''NINJAONE_EMAIL'' Password,
      login_input_row VENDOR_NINJAONE ''NINJAONE_TOTP_SECRET'' ''NINJAONE_EMAIL'' TotpSecret,
      token_row VENDOR_NINJAONE ''NINJAONE_ACCESS_TOKEN'',
      token_row VENDOR_NINJAONE ''NINJAONE_SESSION_KEY'',
      token_row VENDOR_NINJAONE ''NINJAONE_SESSION_COOKIE'']"

definition lookup_secret :: "string \<Rightarrow> string \<Rightarrow> vendor_secret_row option" where
  "lookup_secret vendor secret_key =
     find (\<lambda>row. vs_vendor row = vendor \<and> vs_secret_key row = secret_key) VENDOR_SECRETS"

definition lookup_by_key :: "string \<Rightarrow> vendor_secret_row option" where
  "lookup_by_key secret_key = find (\<lambda>row. vs_secret_key row = secret_key) VENDOR_SECRETS"

definition secrets_for_vendor :: "string \<Rightarrow> vendor_secret_row list" where
  "secrets_for_vendor vendor = filter (\<lambda>row. vs_vendor row = vendor) VENDOR_SECRETS"

definition resolution_is_observable :: "string \<Rightarrow> bool" where
  "resolution_is_observable vendor \<longleftrightarrow> vendor \<noteq> VENDOR_NINJAONE"

definition kind_supported_by :: "secret_kind \<Rightarrow> string \<Rightarrow> bool" where
  "kind_supported_by kind vendor \<longleftrightarrow> list_ex (\<lambda>row. vs_kind row = kind \<and> vs_vendor row = vendor) VENDOR_SECRETS"

definition vendors_with_secrets :: "string list" where
  "vendors_with_secrets =
     fold (\<lambda>row vendors. if vs_vendor row \<in> set vendors then vendors else vendors @ [vs_vendor row]) VENDOR_SECRETS []"

definition kind_parse :: "string \<Rightarrow> secret_kind option" where
  "kind_parse s =
     (if s = ''api-token'' \<or> s = ''ATLASSIAN_API_TOKEN'' then Some ApiToken
      else if s = ''app-password'' \<or> s = ''ATLASSIAN_BITBUCKET_APP_PASSWORD'' then Some AppPassword
      else if s = ''password'' \<or> s = ''NINJAONE_PASSWORD'' then Some Password
      else if s = ''totp-secret'' \<or> s = ''NINJAONE_TOTP_SECRET'' then Some TotpSecret
      else if s = ''token'' then Some Token
      else map_option vs_kind (lookup_by_key s))"

section \<open>Slots do not collide\<close>

lemma service_for_inject: "service_for kind vendor = service_for kind' vendor' \<longleftrightarrow> kind = kind' \<and> vendor = vendor'"
  by (cases kind; cases kind') (auto simp: service_for_def)

lemma kind_parse_label [simp]: "kind_parse (kind_label kind) = Some kind"
  by (cases kind) (simp_all add: kind_parse_def)

lemma registry_rows: "distinct (map (\<lambda>row. (vs_vendor row, vs_secret_key row)) VENDOR_SECRETS)"
  by code_simp

lemma lookup_secret_row:
  "row \<in> set VENDOR_SECRETS \<Longrightarrow> lookup_secret (vs_vendor row) (vs_secret_key row) = Some row"
proof -
  assume row: "row \<in> set VENDOR_SECRETS"
  have "list_all (\<lambda>row. lookup_secret (vs_vendor row) (vs_secret_key row) = Some row) VENDOR_SECRETS"
    by code_simp
  with row show ?thesis by (simp add: list_all_iff)
qed

text \<open>The rows of the Atlassian vendors, the ones the shared resolver serves.\<close>

lemma atlassian_rows:
  "secrets_for_vendor VENDOR_BITBUCKET =
     [owned_row VENDOR_BITBUCKET ''ATLASSIAN_API_TOKEN'' ''ATLASSIAN_USER_EMAIL'' ApiToken,
      owned_row VENDOR_BITBUCKET ''ATLASSIAN_BITBUCKET_APP_PASSWORD'' ''ATLASSIAN_BITBUCKET_USERNAME'' AppPassword]"
  "secrets_for_vendor VENDOR_JIRA = [owned_row VENDOR_JIRA ''ATLASSIAN_API_TOKEN'' ''ATLASSIAN_USER_EMAIL'' ApiToken]"
  "secrets_for_vendor VENDOR_CONFLUENCE = [owned_row VENDOR_CONFLUENCE ''ATLASSIAN_API_TOKEN'' ''ATLASSIAN_USER_EMAIL'' ApiToken]"
  by code_simp+

end
