(* ===== verification/Config.thy ===== *)
theory Config
  imports Secrets Vendor_Registry
begin

text \<open>
  The configuration, \<^verbatim>\<open>src/config/mod.rs\<close> and \<^verbatim>\<open>src/config/global.rs\<close>: the
  vendor-neutral overlay of process environment and \<^verbatim>\<open>.env\<close>, one section per vendor from
  the global file, and the snapshot of resolved secret references, with the lookups over them and
  the typed readings of single keys. Maps are association lists, a \<open>BTreeMap\<close> sorted by key.
  Reading files, parsing JSON and reading the environment are arguments.
\<close>

section \<open>The snapshot\<close>

type_synonym env_map = "(string \<times> string) list"

record configuration =
  cfg_shared :: env_map
  cfg_by_vendor :: "(string \<times> env_map) list"
  cfg_secrets :: secret_snapshot

datatype resolved = Missing | Resolved string | Ambiguous "(string \<times> string) list"

definition from_map :: "env_map \<Rightarrow> configuration" where
  "from_map values = \<lparr>cfg_shared = values, cfg_by_vendor = [], cfg_secrets = []\<rparr>"

definition with_secrets :: "configuration \<Rightarrow> secret_snapshot \<Rightarrow> configuration" where
  "with_secrets c secrets = c\<lparr>cfg_secrets := secrets\<rparr>"

definition configured_values :: "configuration \<Rightarrow> string list" where
  "configured_values c = map snd (cfg_shared c) @ concat (map (\<lambda>(_, m). map snd m) (cfg_by_vendor c))"

definition secret_references :: "configuration \<Rightarrow> string list" where
  "secret_references c = filter is_reference (map trim (configured_values c))"

definition vendor_value :: "configuration \<Rightarrow> string \<Rightarrow> string \<Rightarrow> string option" where
  "vendor_value c vendor key = Option.bind (map_of (cfg_by_vendor c) vendor) (\<lambda>m. map_of m key)"

definition raw_for :: "configuration \<Rightarrow> string \<Rightarrow> string \<Rightarrow> string option" where
  "raw_for c vendor key =
     (case map_of (cfg_shared c) key of Some v \<Rightarrow> Some v | None \<Rightarrow> vendor_value c vendor key)"

definition secret_provenance_for :: "configuration \<Rightarrow> string \<Rightarrow> string \<Rightarrow> secret_provenance option" where
  "secret_provenance_for c vendor key =
     Option.bind (map_option trim (raw_for c vendor key)) (\<lambda>raw.
       if is_reference raw then map_option resolved_provenance (snapshot_get (cfg_secrets c) raw) else None)"

definition expand :: "configuration \<Rightarrow> string \<Rightarrow> string" where
  "expand c raw =
     (let trimmed = trim raw in
      if \<not> is_reference trimmed then raw
      else (case snapshot_get (cfg_secrets c) trimmed of None \<Rightarrow> raw | Some s \<Rightarrow> resolved_value s))"

definition resolve_key :: "configuration \<Rightarrow> string \<Rightarrow> resolved" where
  "resolve_key c key =
     (case map_of (cfg_shared c) key of
        Some v \<Rightarrow> Resolved (expand c v)
      | None \<Rightarrow>
          (let hits = List.map_filter (\<lambda>(vendor, m). map_option (\<lambda>v. (vendor, expand c v)) (map_of m key)) (cfg_by_vendor c) in
           case hits of
             [] \<Rightarrow> Missing
           | [(_, single)] \<Rightarrow> Resolved single
           | first # _ \<Rightarrow> if list_all (\<lambda>(_, v). v = snd first) hits then Resolved (snd first) else Ambiguous hits))"

definition get :: "configuration \<Rightarrow> string \<Rightarrow> string option" where
  "get c key = (case resolve_key c key of Resolved v \<Rightarrow> Some v | Missing \<Rightarrow> None | Ambiguous _ \<Rightarrow> None)"

definition get_for :: "configuration \<Rightarrow> string \<Rightarrow> string \<Rightarrow> string option" where
  "get_for c vendor key = map_option (expand c) (raw_for c vendor key)"

definition get_for_with_fallback :: "configuration \<Rightarrow> string \<Rightarrow> string list \<Rightarrow> string \<Rightarrow> string option" where
  "get_for_with_fallback c primary fallbacks key =
     (case map_of (cfg_shared c) key of
        Some v \<Rightarrow> Some (expand c v)
      | None \<Rightarrow>
          (case vendor_value c primary key of
             Some v \<Rightarrow> Some (expand c v)
           | None \<Rightarrow>
               (case find (\<lambda>vendor. vendor_value c vendor key \<noteq> None) fallbacks of
                  Some vendor \<Rightarrow> map_option (expand c) (vendor_value c vendor key)
                | None \<Rightarrow> None)))"

definition present :: "string \<Rightarrow> bool" where
  "present v \<longleftrightarrow> trim v \<noteq> []"

definition vendor_is_configured :: "configuration \<Rightarrow> string \<Rightarrow> bool" where
  "vendor_is_configured c vendor \<longleftrightarrow>
     (case map_of (cfg_by_vendor c) vendor of Some m \<Rightarrow> list_ex (present \<circ> snd) m | None \<Rightarrow> False)
     \<or> list_ex (\<lambda>slot. case raw_for c vendor (vs_secret_key slot) of Some v \<Rightarrow> trim v \<noteq> [] | None \<Rightarrow> False)
         (secrets_for_vendor vendor)
     \<or> (let prefix = (if vendor = ''newrelic'' then ''NEW_RELIC_'' else to_ascii_uppercase vendor @ ''_'') in
        list_ex (\<lambda>(key, v). starts_with key prefix \<and> present v) (cfg_shared c))"

definition get_or :: "configuration \<Rightarrow> string \<Rightarrow> string \<Rightarrow> string" where
  "get_or c key dflt = (case get c key of Some v \<Rightarrow> v | None \<Rightarrow> dflt)"

definition get_bool :: "configuration \<Rightarrow> string \<Rightarrow> bool \<Rightarrow> bool" where
  "get_bool c key dflt = (case get c key of None \<Rightarrow> dflt | Some v \<Rightarrow> eq_ignore_ascii_case v ''true'')"

definition get_int :: "configuration \<Rightarrow> string \<Rightarrow> int \<Rightarrow> int" where
  "get_int c key dflt = (case Option.bind (get c key) parse_i64 of Some n \<Rightarrow> n | None \<Rightarrow> dflt)"

definition cfg_len :: "configuration \<Rightarrow> nat" where
  "cfg_len c = length (cfg_shared c) + sum_list (map (\<lambda>(_, m). length m) (cfg_by_vendor c))"

definition cfg_is_empty :: "configuration \<Rightarrow> bool" where
  "cfg_is_empty c \<longleftrightarrow> cfg_shared c = [] \<and> list_all (\<lambda>(_, m). m = []) (cfg_by_vendor c)"

section \<open>Bounded settings\<close>

definition MAX_UPLOAD_BYTES_CEILING :: nat where
  "MAX_UPLOAD_BYTES_CEILING = 256 * 1024 * 1024"

definition DEFAULT_UPLOAD_MAX_FILE_BYTES :: nat where
  "DEFAULT_UPLOAD_MAX_FILE_BYTES = 10 * 1024 * 1024"

definition DEFAULT_UPLOAD_MAX_TOTAL_BYTES :: nat where
  "DEFAULT_UPLOAD_MAX_TOTAL_BYTES = 25 * 1024 * 1024"

definition DEFAULT_HTTP_REQUEST_BODY_LIMIT_BYTES :: nat where
  "DEFAULT_HTTP_REQUEST_BODY_LIMIT_BYTES = 1000000"

definition MAX_HTTP_REQUEST_BODY_LIMIT_BYTES :: nat where
  "MAX_HTTP_REQUEST_BODY_LIMIT_BYTES = 512 * 1024 * 1024"

definition MAX_TIME_PARTITIONS :: nat where
  "MAX_TIME_PARTITIONS = 16"

definition DEFAULT_PARALLEL_TIME_PARTITIONS :: nat where
  "DEFAULT_PARALLEL_TIME_PARTITIONS = 4"

definition bounded_upload_bytes :: "string option \<Rightarrow> nat \<Rightarrow> nat" where
  "bounded_upload_bytes raw dflt =
     min (case Option.bind raw (\<lambda>v. parse_u64 (trim v)) of
            Some n \<Rightarrow> if 0 < n then n else dflt
          | None \<Rightarrow> dflt) MAX_UPLOAD_BYTES_CEILING"

definition bounded_duration_seconds :: "string option \<Rightarrow> nat \<Rightarrow> nat \<Rightarrow> nat \<Rightarrow> nat" where
  "bounded_duration_seconds configured dflt minimum maximum =
     (case Option.bind configured parse_u64 of
        Some n \<Rightarrow> if minimum \<le> n \<and> n \<le> maximum then n else dflt
      | None \<Rightarrow> dflt)"

definition streaming_partition_concurrency :: "configuration \<Rightarrow> nat" where
  "streaming_partition_concurrency c =
     (case Option.bind (get c ''STREAMING_PARTITION_CONCURRENCY'') parse_u64 of
        Some n \<Rightarrow> if 1 \<le> n \<and> n \<le> MAX_TIME_PARTITIONS then n else DEFAULT_PARALLEL_TIME_PARTITIONS
      | None \<Rightarrow> DEFAULT_PARALLEL_TIME_PARTITIONS)"

definition streaming_artifact_retention :: "configuration \<Rightarrow> nat" where
  "streaming_artifact_retention c =
     bounded_duration_seconds (get c ''STREAMING_ARTIFACT_RETENTION_SECONDS'') (60 * 60) (5 * 60) (24 * 7 * 60 * 60)"

definition streaming_artifact_sweep_interval :: "configuration \<Rightarrow> nat" where
  "streaming_artifact_sweep_interval c =
     bounded_duration_seconds (get c ''STREAMING_ARTIFACT_SWEEP_INTERVAL_SECONDS'') 60 5 (60 * 60)"

definition http_request_body_limit_bytes :: "configuration \<Rightarrow> nat" where
  "http_request_body_limit_bytes c =
     (let n = (case Option.bind (get c ''HTTP_REQUEST_BODY_LIMIT_BYTES'') (\<lambda>v. parse_u64 (trim v)) of
                 Some n \<Rightarrow> n | None \<Rightarrow> DEFAULT_HTTP_REQUEST_BODY_LIMIT_BYTES)
      in max DEFAULT_HTTP_REQUEST_BODY_LIMIT_BYTES (min n MAX_HTTP_REQUEST_BODY_LIMIT_BYTES))"

definition upload_max_file_bytes :: "configuration \<Rightarrow> string \<Rightarrow> nat" where
  "upload_max_file_bytes c vendor =
     bounded_upload_bytes (get_for c vendor ''UPLOAD_MAX_FILE_BYTES'') DEFAULT_UPLOAD_MAX_FILE_BYTES"

definition upload_max_total_bytes :: "configuration \<Rightarrow> string \<Rightarrow> nat" where
  "upload_max_total_bytes c vendor =
     bounded_upload_bytes (get_for c vendor ''UPLOAD_MAX_TOTAL_BYTES'') DEFAULT_UPLOAD_MAX_TOTAL_BYTES"

section \<open>The global file\<close>

definition PACKAGE_NAME :: string where
  "PACKAGE_NAME = ''@huskercane/mcp-server-devtools''"

definition LEGACY_PACKAGE_NAME :: string where
  "LEGACY_PACKAGE_NAME = ''@huskercane/mcp-server-atlassian''"

definition LEGACY_UNSCOPED_PACKAGE_NAME :: string where
  "LEGACY_UNSCOPED_PACKAGE_NAME = ''mcp-server-atlassian''"

definition unscoped :: "string \<Rightarrow> string" where
  "unscoped package_name = (case split_once CHR ''/'' package_name of None \<Rightarrow> package_name | Some (_, rest) \<Rightarrow> rest)"

definition candidate_keys :: "string \<Rightarrow> string list" where
  "candidate_keys package_name =
     fold (\<lambda>legacy keys. if legacy \<in> set keys then keys else keys @ [legacy])
       [LEGACY_PACKAGE_NAME, LEGACY_UNSCOPED_PACKAGE_NAME]
       [''bitbucket'', ''atlassian-bitbucket'', package_name, unscoped package_name]"

definition bitbucket_aliases :: "string \<Rightarrow> string list" where
  "bitbucket_aliases package_name =
     (let v = [''bitbucket'', ''atlassian-bitbucket'', package_name];
          v' = (if unscoped package_name \<in> set v then v else v @ [unscoped package_name])
      in v' @ [LEGACY_PACKAGE_NAME, LEGACY_UNSCOPED_PACKAGE_NAME,
               ''@aashari/mcp-server-atlassian-bitbucket'', ''mcp-server-atlassian-bitbucket''])"

definition native_vendor_aliases :: "(string \<times> string list) list" where
  "native_vendor_aliases =
     [(VENDOR_GITHUB, [''github'', ''mcp-server-github'']),
      (VENDOR_GITLAB, [''gitlab'', ''mcp-server-gitlab'']),
      (VENDOR_FIGMA, [''figma'', ''mcp-server-figma'']),
      (VENDOR_VERCEL, [''vercel'', ''mcp-server-vercel'']),
      (VENDOR_SENTRY, [''sentry'', ''mcp-server-sentry'']),
      (VENDOR_ARTIFACTORY, [''artifactory'', ''jfrog'', ''mcp-server-artifactory'']),
      (VENDOR_SNYK, [''snyk'', ''mcp-server-snyk'']),
      (VENDOR_MEND, [''mend'', ''whitesource'', ''mcp-server-mend''])]"

definition vendor_aliases :: "string \<Rightarrow> (string \<times> string list) list" where
  "vendor_aliases package_name =
     [(VENDOR_BITBUCKET, bitbucket_aliases package_name),
      (VENDOR_JIRA, [''jira'', ''atlassian-jira'', ''@aashari/mcp-server-atlassian-jira'', ''mcp-server-atlassian-jira'']),
      (VENDOR_CONFLUENCE, [''confluence'', ''atlassian-confluence'', ''@aashari/mcp-server-atlassian-confluence'',
         ''mcp-server-atlassian-confluence'']),
      (VENDOR_ZOOM, [''zoom'', ''mcp-server-zoom'']),
      (VENDOR_CIRCLECI, [''circleci'', ''circle-ci'', ''mcp-server-circleci'']),
      (VENDOR_SLACK, [''slack'', ''mcp-server-slack'']),
      (VENDOR_POSTMAN, [''postman'', ''mcp-server-postman'']),
      (VENDOR_EDX, [''edx'', ''openedx'', ''open-edx'', ''mcp-server-edx'']),
      (VENDOR_NEWRELIC, [''newrelic'', ''new-relic'', ''mcp-server-newrelic'']),
      (VENDOR_GRAFANA, [''grafana'', ''mcp-server-grafana'']),
      (VENDOR_SONARQUBE, [''sonarqube'', ''sonar'', ''sonarcloud'', ''mcp-server-sonarqube'']),
      (VENDOR_TEAMCITY, [''teamcity'', ''team-city'', ''mcp-server-teamcity'']),
      (VENDOR_SPLUNK, [''splunk'', ''mcp-server-splunk'']),
      (VENDOR_NINJAONE, [''ninjaone'', ''ninja-one'', ''ninjarmm'', ''mcp-server-ninjaone'']),
      (VENDOR_WRDS, [''wrds'', ''mcp-server-wrds''])]
     @ native_vendor_aliases"

text \<open>\<open>Number::to_string\<close> and the coercion of one environment value.\<close>

definition coerce_value :: "(json \<Rightarrow> string option) \<Rightarrow> string \<Rightarrow> json \<Rightarrow> string option" where
  "coerce_value show_json k v =
     (case v of
        JString s \<Rightarrow> Some s
      | JBool b \<Rightarrow> Some (if b then ''true'' else ''false'')
      | JUint n \<Rightarrow> Some (dec_string n)
      | JInt i \<Rightarrow> Some (if i < 0 then ''-'' @ dec_string (nat (- i)) else dec_string (nat i))
      | JFloat f \<Rightarrow> Some f
      | JObject _ \<Rightarrow> if k = ''NINJAONE_DB_ENVIRONMENTS'' then show_json v else None
      | _ \<Rightarrow> None)"

definition read_environments_at :: "(json \<Rightarrow> string option) \<Rightarrow> json \<Rightarrow> string \<Rightarrow> env_map option" where
  "read_environments_at show_json root key =
     Option.bind (Option.bind (json_get root key) as_object) (\<lambda>fields.
     Option.bind (Option.bind (map_of fields ''environments'') as_object) (\<lambda>env.
     Some (List.map_filter (\<lambda>(k, v). map_option (Pair k) (coerce_value show_json k v)) env)))"

fun extract_first :: "(json \<Rightarrow> string option) \<Rightarrow> json \<Rightarrow> string list \<Rightarrow> env_map" where
  "extract_first show_json root [] = []"
| "extract_first show_json root (key # keys) =
     (case read_environments_at show_json root key of
        Some env \<Rightarrow> env
      | None \<Rightarrow> extract_first show_json root keys)"

definition extract_environments_for :: "(json \<Rightarrow> string option) \<Rightarrow> json \<Rightarrow> string \<Rightarrow> env_map" where
  "extract_environments_for show_json root package_name = extract_first show_json root (candidate_keys package_name)"

text \<open>\<open>HashMap::extend\<close>, and \<open>BTreeMap::insert\<close> on the sorted list.\<close>

definition extend :: "env_map \<Rightarrow> env_map \<Rightarrow> env_map" where
  "extend m entries = fold (\<lambda>(k, v). AList.update k v) entries m"

fun btree_insert :: "string \<Rightarrow> 'v \<Rightarrow> (string \<times> 'v) list \<Rightarrow> (string \<times> 'v) list" where
  "btree_insert k v [] = [(k, v)]"
| "btree_insert k v ((k', v') # m) =
     (if k < k' then (k, v) # (k', v') # m else if k = k' then (k, v) # m else (k', v') # btree_insert k v m)"

definition merge_aliases :: "(json \<Rightarrow> string option) \<Rightarrow> json \<Rightarrow> string list \<Rightarrow> env_map" where
  "merge_aliases show_json root aliases =
     fold (\<lambda>alias merged. case read_environments_at show_json root alias of
         Some env \<Rightarrow> extend merged env
       | None \<Rightarrow> merged) (rev aliases) []"

definition extract_all_vendor_sections ::
  "(json \<Rightarrow> string option) \<Rightarrow> json \<Rightarrow> string \<Rightarrow> (string \<times> env_map) list" where
  "extract_all_vendor_sections show_json root package_name =
     fold (\<lambda>(canonical, aliases) out.
         (let merged = merge_aliases show_json root aliases in
          if merged \<noteq> [] then btree_insert canonical merged out else out))
       (vendor_aliases package_name) []"

section \<open>Loading\<close>

text \<open>What a path holds: nothing, bytes, or a read that fails. The readers of \<^verbatim>\<open>global.rs\<close>
  answer with the text of the failure.\<close>

type_synonym source_file = "(string + string) option"

definition parse_file :: "(string \<Rightarrow> string + json) \<Rightarrow> string + string \<Rightarrow> string + json" where
  "parse_file parse_json contents = and_then contents parse_json"

definition global_read ::
  "(string \<Rightarrow> string + json) \<Rightarrow> (json \<Rightarrow> string option) \<Rightarrow> string + string \<Rightarrow> string \<Rightarrow> string + env_map" where
  "global_read parse_json show_json contents package_name =
     and_then (parse_file parse_json contents) (\<lambda>root. Inr (extract_environments_for show_json root package_name))"

definition read_all_vendors ::
  "(string \<Rightarrow> string + json) \<Rightarrow> (json \<Rightarrow> string option) \<Rightarrow> string + string \<Rightarrow> string
     \<Rightarrow> string + (string \<times> env_map) list" where
  "read_all_vendors parse_json show_json contents package_name =
     and_then (parse_file parse_json contents) (\<lambda>root. Inr (extract_all_vendor_sections show_json root package_name))"

text \<open>The entries of a \<^verbatim>\<open>.env\<close> file come from \<^verbatim>\<open>dotenvy\<close>, one result each.\<close>

fun load_dotenv :: "(string + string \<times> string) list \<Rightarrow> env_map \<Rightarrow> string + env_map" where
  "load_dotenv [] m = Inr m"
| "load_dotenv (entry # rest) m = and_then entry (\<lambda>(k, v). load_dotenv rest (AList.update k v m))"

definition load_from_sources ::
  "(string \<Rightarrow> string + json) \<Rightarrow> (json \<Rightarrow> string option) \<Rightarrow> source_file
     \<Rightarrow> (string + (string + string \<times> string) list) option \<Rightarrow> env_map \<Rightarrow> configuration" where
  "load_from_sources parse_json show_json global dotenv process_env =
     \<lparr>cfg_shared =
        extend
          (case dotenv of
             None \<Rightarrow> []
           | Some opened \<Rightarrow>
               (case and_then opened (\<lambda>entries. load_dotenv entries []) of Inr entries \<Rightarrow> extend [] entries | Inl _ \<Rightarrow> []))
          process_env,
      cfg_by_vendor =
        (case global of
           None \<Rightarrow> []
         | Some contents \<Rightarrow>
             (case read_all_vendors parse_json show_json contents PACKAGE_NAME of Inr m \<Rightarrow> m | Inl _ \<Rightarrow> [])),
      cfg_secrets = []\<rparr>"

definition load_from_global_bytes ::
  "(string \<Rightarrow> string + json) \<Rightarrow> (json \<Rightarrow> string option) \<Rightarrow> string option
     \<Rightarrow> (string + (string + string \<times> string) list) option \<Rightarrow> env_map \<Rightarrow> string + configuration" where
  "load_from_global_bytes parse_json show_json contents dotenv process_env =
     and_then
       (case contents of
          None \<Rightarrow> Inr []
        | Some bytes \<Rightarrow> and_then (parse_json bytes) (\<lambda>root. Inr (extract_all_vendor_sections show_json root PACKAGE_NAME)))
       (\<lambda>by_vendor. Inr ((load_from_sources parse_json show_json None dotenv process_env)\<lparr>cfg_by_vendor := by_vendor\<rparr>))"

section \<open>Authentication mode\<close>

datatype oidc_keys = OidcKeys | OktaKeys

datatype auth_mode = AuthOff | AuthOidc oidc_keys

definition auth_mode_parse :: "(string \<Rightarrow> string) \<Rightarrow> string option \<Rightarrow> string + auth_mode" where
  "auth_mode_parse debug raw =
     (case map_option trim raw of
        None \<Rightarrow> Inr AuthOff
      | Some v \<Rightarrow>
          if v = [] then Inr AuthOff
          else if eq_ignore_ascii_case v ''off'' then Inr AuthOff
          else if eq_ignore_ascii_case v ''oidc'' then Inr (AuthOidc OidcKeys)
          else if eq_ignore_ascii_case v ''okta'' then Inr (AuthOidc OktaKeys)
          else Inl (''unrecognised MCP_AUTH_MODE '' @ debug v @ '' (expected \"off\", \"oidc\", or its ''
            @ ''alias \"okta\"); refusing to guess an authentication mode''))"

definition requires_inbound_auth :: "auth_mode \<Rightarrow> bool" where
  "requires_inbound_auth m = (case m of AuthOidc _ \<Rightarrow> True | AuthOff \<Rightarrow> False)"

fun oidc_mode :: "oidc_keys \<Rightarrow> string" where
  "oidc_mode OidcKeys = ''oidc''"
| "oidc_mode OktaKeys = ''okta''"

fun oidc_issuer :: "oidc_keys \<Rightarrow> string" where
  "oidc_issuer OidcKeys = ''MCP_OIDC_ISSUER''"
| "oidc_issuer OktaKeys = ''MCP_OKTA_ISSUER''"

fun oidc_audience :: "oidc_keys \<Rightarrow> string" where
  "oidc_audience OidcKeys = ''MCP_OIDC_AUDIENCE''"
| "oidc_audience OktaKeys = ''MCP_OKTA_AUDIENCE''"

fun oidc_jwks_url :: "oidc_keys \<Rightarrow> string" where
  "oidc_jwks_url OidcKeys = ''MCP_OIDC_JWKS_URL''"
| "oidc_jwks_url OktaKeys = ''MCP_OKTA_JWKS_URL''"

fun oidc_groups_claim :: "oidc_keys \<Rightarrow> string" where
  "oidc_groups_claim OidcKeys = ''MCP_OIDC_GROUPS_CLAIM''"
| "oidc_groups_claim OktaKeys = ''MCP_OKTA_GROUPS_CLAIM''"

fun oidc_clock_skew_seconds :: "oidc_keys \<Rightarrow> string" where
  "oidc_clock_skew_seconds OidcKeys = ''MCP_OIDC_CLOCK_SKEW_SECONDS''"
| "oidc_clock_skew_seconds OktaKeys = ''MCP_OKTA_CLOCK_SKEW_SECONDS''"

fun oidc_all :: "oidc_keys \<Rightarrow> string list" where
  "oidc_all OidcKeys =
     [''MCP_OIDC_ISSUER'', ''MCP_OIDC_AUDIENCE'', ''MCP_OIDC_JWKS_URL'', ''MCP_OIDC_JWKS_FILE'', ''MCP_OIDC_GROUPS_CLAIM'',
      ''MCP_OIDC_CLOCK_SKEW_SECONDS'', ''MCP_OIDC_PROFILE'', ''MCP_OIDC_SUBJECT_CLAIM'', ''MCP_OIDC_MACHINE_CLAIM'',
      ''MCP_OIDC_HUMAN_CLAIM'']"
| "oidc_all OktaKeys =
     [''MCP_OKTA_ISSUER'', ''MCP_OKTA_AUDIENCE'', ''MCP_OKTA_JWKS_URL'', ''MCP_OKTA_GROUPS_CLAIM'', ''MCP_OKTA_CLOCK_SKEW_SECONDS'']"

fun oidc_other :: "oidc_keys \<Rightarrow> oidc_keys" where
  "oidc_other OidcKeys = OktaKeys"
| "oidc_other OktaKeys = OidcKeys"

section \<open>Lookups\<close>

lemma map_filter_set: "set (List.map_filter f xs) = {y. \<exists>x \<in> set xs. f x = Some y}"
  by (induction xs) (auto simp: map_filter_simps split: option.splits)

definition section_hits :: "configuration \<Rightarrow> string \<Rightarrow> (string \<times> string) list" where
  "section_hits c key =
     List.map_filter (\<lambda>(vendor, m). map_option (\<lambda>v. (vendor, expand c v)) (map_of m key)) (cfg_by_vendor c)"

lemma section_hits_mem:
  "(vendor, v) \<in> set (section_hits c key) \<longleftrightarrow>
     (\<exists>m raw. (vendor, m) \<in> set (cfg_by_vendor c) \<and> map_of m key = Some raw \<and> v = expand c raw)"
  by (force simp: section_hits_def map_filter_set)

lemma get_Some:
  "get c key = Some v \<longleftrightarrow>
     (case map_of (cfg_shared c) key of
        Some raw \<Rightarrow> v = expand c raw
      | None \<Rightarrow> section_hits c key \<noteq> [] \<and> (\<forall>(vendor, w) \<in> set (section_hits c key). w = v))"
proof (cases "map_of (cfg_shared c) key")
  case None
  show ?thesis
  proof (cases "section_hits c key")
    case Nil
    with None show ?thesis by (simp add: get_def resolve_key_def section_hits_def Let_def)
  next
    case (Cons h hs)
    obtain vendor w where h: "h = (vendor, w)" by (cases h)
    have "resolve_key c key = (case hs of [] \<Rightarrow> Resolved w
        | _ \<Rightarrow> if list_all (\<lambda>(_, u). u = w) (h # hs) then Resolved w else Ambiguous (h # hs))"
      using None Cons h by (simp add: resolve_key_def section_hits_def Let_def split: list.split)
    then show ?thesis using None Cons h by (auto simp: get_def list_all_iff split: list.splits)
  qed
qed (auto simp: get_def resolve_key_def)

lemma get_for_vendor_only:
  assumes "cfg_shared c = cfg_shared c'" "cfg_secrets c = cfg_secrets c'"
    and "map_of (cfg_by_vendor c) vendor = map_of (cfg_by_vendor c') vendor"
  shows "get_for c vendor key = get_for c' vendor key"
proof -
  have "expand c = expand c'" using assms(2) by (intro ext) (simp add: expand_def Let_def)
  then show ?thesis using assms(1,3) by (simp add: get_for_def raw_for_def vendor_value_def split: option.split)
qed

section \<open>Aliases\<close>

lemma extend_lookup: "distinct (map fst entries) \<Longrightarrow> map_of (extend m entries) k = (map_of m ++ map_of entries) k"
proof (induction entries arbitrary: m)
  case (Cons e entries)
  obtain a b where e: "e = (a, b)" by (cases e)
  have "extend m (e # entries) = extend (AList.update a b m) entries" by (simp add: extend_def e)
  with Cons have "map_of (extend m (e # entries)) k = (map_of (AList.update a b m) ++ map_of entries) k" by simp
  moreover have "map_of entries a = None" using Cons.prems e by (simp add: map_of_eq_None_iff)
  ultimately show ?case by (auto simp: e update_conv' map_add_def split: option.split)
qed (simp add: extend_def)

lemma extend_empty: "extend m entries = [] \<longleftrightarrow> m = [] \<and> entries = []"
proof (induction entries arbitrary: m)
  case (Cons e entries)
  obtain a b where e: "e = (a, b)" by (cases e)
  have "AList.update a b m \<noteq> []" by (cases m) auto
  then show ?case using Cons.IH [of "AList.update a b m"] by (simp add: extend_def e)
qed (simp add: extend_def)

text \<open>The first alias, in order of priority, that defines a key decides it.\<close>

fun first_alias :: "(json \<Rightarrow> string option) \<Rightarrow> json \<Rightarrow> string list \<Rightarrow> string \<Rightarrow> string option" where
  "first_alias show_json root [] key = None"
| "first_alias show_json root (a # as) key =
     (case Option.bind (read_environments_at show_json root a) (\<lambda>env. map_of env key) of
        Some v \<Rightarrow> Some v
      | None \<Rightarrow> first_alias show_json root as key)"

definition json_objects_distinct :: "json \<Rightarrow> bool" where
  "json_objects_distinct root \<longleftrightarrow>
     (\<forall>a fields env. Option.bind (json_get root a) as_object = Some fields \<longrightarrow>
        Option.bind (map_of fields ''environments'') as_object = Some env \<longrightarrow> distinct (map fst env))"

lemma map_filter_keys_distinct:
  "distinct (map fst env) \<Longrightarrow> distinct (map fst (List.map_filter (\<lambda>(k, v). map_option (Pair k) (f k v)) env))"
proof (induction env)
  case (Cons e env)
  obtain k v where e: "e = (k, v)" by (cases e)
  have "k \<notin> fst ` set (List.map_filter (\<lambda>(k, v). map_option (Pair k) (f k v)) env)"
    using Cons.prems e by (auto simp: map_filter_set image_iff)
  then show ?case using Cons by (auto simp: e map_filter_simps split: option.split)
qed (simp add: map_filter_simps)

lemma read_environments_distinct:
  "json_objects_distinct root \<Longrightarrow> read_environments_at show_json root a = Some env \<Longrightarrow> distinct (map fst env)"
  by (auto simp: read_environments_at_def json_objects_distinct_def bind_eq_Some_conv intro!: map_filter_keys_distinct)

lemma merge_aliases_lookup:
  assumes "json_objects_distinct root"
  shows "map_of (merge_aliases show_json root aliases) key = first_alias show_json root aliases key"
proof (induction aliases)
  case (Cons a as)
  have step: "merge_aliases show_json root (a # as) =
      (case read_environments_at show_json root a of Some env \<Rightarrow> extend (merge_aliases show_json root as) env
       | None \<Rightarrow> merge_aliases show_json root as)" by (simp add: merge_aliases_def split: option.split)
  show ?case
  proof (cases "read_environments_at show_json root a")
    case None
    then show ?thesis using Cons by (simp add: step)
  next
    case (Some env)
    with read_environments_distinct [OF assms] have "distinct (map fst env)" by blast
    then show ?thesis using Cons Some by (simp add: step extend_lookup map_add_def split: option.split)
  qed
qed (simp add: merge_aliases_def)

lemma btree_insert_keys: "fst ` set (btree_insert k v m) = insert k (fst ` set m)"
  by (induction k v m rule: btree_insert.induct) auto

lemma btree_insert_lookup:
  assumes "sorted_wrt (<) (map fst m)"
  shows "map_of (btree_insert k v m) = (map_of m)(k \<mapsto> v)"
    and "sorted_wrt (<) (map fst (btree_insert k v m))"
proof -
  show "map_of (btree_insert k v m) = (map_of m)(k \<mapsto> v)"
    by (induction k v m rule: btree_insert.induct) auto
  show "sorted_wrt (<) (map fst (btree_insert k v m))"
    using assms
  proof (induction k v m rule: btree_insert.induct)
    case (2 k v k' v' m)
    consider "k < k'" | "k = k'" | "k' < k" by fastforce
    then show ?case
    proof cases
      case 1
      with "2.prems" show ?thesis by (auto intro: less_trans)
    next
      case 3
      then have "\<not> k < k'" "k \<noteq> k'" by auto
      moreover have "\<forall>x \<in> fst ` set (btree_insert k v m). k' < x" unfolding btree_insert_keys using 3 "2.prems" by auto
      ultimately show ?thesis using 2 by simp
    qed (use "2.prems" in auto)
  qed simp
qed

lemma vendor_fold_lookup:
  assumes "json_objects_distinct root" "sorted_wrt (<) (map fst out)" "distinct (map fst vs)"
    and "\<forall>vendor \<in> fst ` set vs. map_of out vendor = None"
  shows "Option.bind (map_of (fold (\<lambda>(canonical, aliases) out.
         (let merged = merge_aliases show_json root aliases in
          if merged \<noteq> [] then btree_insert canonical merged out else out)) vs out) vendor) (\<lambda>m. map_of m key)
    = (case map_of vs vendor of Some aliases \<Rightarrow> first_alias show_json root aliases key
       | None \<Rightarrow> Option.bind (map_of out vendor) (\<lambda>m. map_of m key))"
  using assms
proof (induction vs arbitrary: out)
  case (Cons x vs)
  obtain canonical aliases where x: "x = (canonical, aliases)" by (cases x)
  let ?m = "merge_aliases show_json root aliases"
  let ?out = "if ?m \<noteq> [] then btree_insert canonical ?m out else out"
  have sorted: "sorted_wrt (<) (map fst ?out)" using Cons.prems(2) btree_insert_lookup(2) by auto
  have look: "map_of ?out vendor = (if vendor = canonical \<and> ?m \<noteq> [] then Some ?m else map_of out vendor)" for vendor
    using btree_insert_lookup(1) [OF Cons.prems(2)] by simp
  have fresh: "\<forall>vendor \<in> fst ` set vs. map_of ?out vendor = None"
    using Cons.prems(3,4) by (auto simp: look x)
  have canon: "map_of vs canonical = None" using Cons.prems(3) by (simp add: x map_of_eq_None_iff)
  have here: "map_of ?m key = first_alias show_json root aliases key" by (rule merge_aliases_lookup [OF assms(1)])
  have "Option.bind (map_of ?out canonical) (\<lambda>m. map_of m key) = first_alias show_json root aliases key"
    using here Cons.prems(4) by (auto simp: look x)
  with Cons.IH [OF assms(1) sorted _ fresh] Cons.prems(3) canon show ?case
    by (auto simp: x Let_def btree_insert_lookup(1) [OF Cons.prems(2)] split: option.split)
qed simp

lemma vendor_aliases_distinct: "distinct (map fst (vendor_aliases package_name))"
  unfolding vendor_aliases_def native_vendor_aliases_def by (simp add: vendor_names)

lemma raw_for_listed:
  assumes "raw_for c vendor key = Some raw"
  shows "raw \<in> set (configured_values c)"
proof (cases "map_of (cfg_shared c) key")
  case None
  with assms obtain m where m: "map_of (cfg_by_vendor c) vendor = Some m" "map_of m key = Some raw"
    by (auto simp: raw_for_def vendor_value_def bind_eq_Some_conv)
  from map_of_SomeD [OF m(2)] have "raw \<in> set (map snd m)" by force
  moreover have "map snd m \<in> set (map (\<lambda>(_, m). map snd m) (cfg_by_vendor c))"
    using map_of_SomeD [OF m(1)] by force
  ultimately show ?thesis by (auto simp: configured_values_def simp del: set_map)
next
  case (Some v)
  with assms have "(key, raw) \<in> set (cfg_shared c)" by (simp add: raw_for_def map_of_SomeD)
  then have "raw \<in> set (map snd (cfg_shared c))" by force
  then show ?thesis by (simp add: configured_values_def)
qed

lemma expand_reference:
  "snapshot_get snapshot (trim raw) = Some s \<Longrightarrow> is_reference (trim raw) \<Longrightarrow>
     expand (with_secrets c snapshot) raw = resolved_value s"
  "\<not> is_reference (trim raw) \<Longrightarrow> expand (with_secrets c snapshot) raw = raw"
  by (simp_all add: expand_def with_secrets_def Let_def)

lemma raw_for_with_secrets [simp]: "raw_for (with_secrets c snapshot) vendor key = raw_for c vendor key"
  by (simp add: raw_for_def with_secrets_def vendor_value_def split: option.split)

section \<open>Properties\<close>

text \<open>The value of a key in a vendor's section is decided by the highest-priority alias of that
  vendor that defines it in the global file, whatever the lower ones say; a vendor without a section
  has no values. So a section under the crate's own name, a legacy name or an upstream package name
  is read exactly when no better name defines the key.\<close>

theorem alias_priority:
  assumes "json_objects_distinct root"
  shows "Option.bind (map_of (extract_all_vendor_sections show_json root package_name) vendor) (\<lambda>m. map_of m key)
    = (case map_of (vendor_aliases package_name) vendor of
         Some aliases \<Rightarrow> first_alias show_json root aliases key
       | None \<Rightarrow> None)"
  using vendor_fold_lookup [OF assms, of "[]" "vendor_aliases package_name"] vendor_aliases_distinct
  by (simp add: extract_all_vendor_sections_def split: option.split)

definition sample_root :: json where
  "sample_root = JObject
     [(''atlassian-jira'', JObject [(''environments'', JObject [(''A'', JString ''low''), (''B'', JBool True)])]),
      (''jira'', JObject [(''environments'', JObject [(''A'', JString ''high''), (''C'', JNull)])])]"

theorem alias_priority_witness:
  "Option.bind (map_of (extract_all_vendor_sections (\<lambda>_. None) sample_root PACKAGE_NAME) ''jira'') (\<lambda>m. map_of m ''A'') = Some ''high''
   \<and> Option.bind (map_of (extract_all_vendor_sections (\<lambda>_. None) sample_root PACKAGE_NAME) ''jira'') (\<lambda>m. map_of m ''B'') = Some ''true''"
proof -
  have ok: "json_objects_distinct sample_root"
    by (auto simp: json_objects_distinct_def sample_root_def as_object_def bind_eq_Some_conv split: if_splits)
  have "(case map_of (vendor_aliases PACKAGE_NAME) ''jira'' of Some aliases \<Rightarrow> first_alias (\<lambda>_. None) sample_root aliases ''A'' | None \<Rightarrow> None)
      = Some ''high''"
    "(case map_of (vendor_aliases PACKAGE_NAME) ''jira'' of Some aliases \<Rightarrow> first_alias (\<lambda>_. None) sample_root aliases ''B'' | None \<Rightarrow> None)
      = Some ''true''"
    by code_simp+
  then show ?thesis using alias_priority [OF ok, of "\<lambda>_. None" PACKAGE_NAME "''jira''"] by simp
qed

text \<open>What the lookups read. The vendor-neutral lookup answers exactly when the overlay defines the
  key or some section does and all that do agree after expansion, with that value; the scoped lookup
  reads the overlay and the section of its vendor and nothing else, so no other vendor's section can
  change what it returns.\<close>

theorem lookups_exact:
  "(get c key = Some v \<longleftrightarrow>
      (case map_of (cfg_shared c) key of
         Some raw \<Rightarrow> v = expand c raw
       | None \<Rightarrow> (\<exists>(vendor, m) \<in> set (cfg_by_vendor c). map_of m key \<noteq> None)
           \<and> (\<forall>(vendor, m) \<in> set (cfg_by_vendor c). \<forall>raw. map_of m key = Some raw \<longrightarrow> expand c raw = v)))
   \<and> (\<forall>sections. map_of sections vendor = map_of (cfg_by_vendor c) vendor \<longrightarrow>
        get_for (c\<lparr>cfg_by_vendor := sections\<rparr>) vendor key = get_for c vendor key)"
proof -
  have "section_hits c key \<noteq> [] \<longleftrightarrow> (\<exists>p. p \<in> set (section_hits c key))"
    by (cases "section_hits c key") auto
  then have "section_hits c key \<noteq> [] \<longleftrightarrow> (\<exists>(vendor, m) \<in> set (cfg_by_vendor c). map_of m key \<noteq> None)"
    using section_hits_mem [of _ _ c key] by fastforce
  moreover have "(\<forall>(vendor, w) \<in> set (section_hits c key). w = v)
      \<longleftrightarrow> (\<forall>(vendor, m) \<in> set (cfg_by_vendor c). \<forall>raw. map_of m key = Some raw \<longrightarrow> expand c raw = v)"
    using section_hits_mem [of _ _ c key] by fastforce
  moreover have "get_for (c\<lparr>cfg_by_vendor := sections\<rparr>) vendor key = get_for c vendor key"
    if "map_of sections vendor = map_of (cfg_by_vendor c) vendor" for sections
    using that by (intro get_for_vendor_only) simp_all
  ultimately show ?thesis by (auto simp: get_Some split: option.split)
qed

definition sample_config :: configuration where
  "sample_config =
     \<lparr>cfg_shared = [(''MODE'', ''strict'')],
      cfg_by_vendor = [(''confluence'', [(''SITE'', ''acme''), (''EMAIL'', ''b@x'')]),
        (''jira'', [(''SITE'', ''acme''), (''EMAIL'', '' file:///atlassian#email'')])],
      cfg_secrets = []\<rparr>"

theorem lookups_exact_witness:
  "get sample_config ''SITE'' = Some ''acme'' \<and> get sample_config ''EMAIL'' \<noteq> Some ''b@x''
   \<and> get_for (sample_config\<lparr>cfg_by_vendor := [(''jira'', [(''SITE'', ''acme''), (''EMAIL'', '' file:///atlassian#email'')])]\<rparr>) ''jira'' ''EMAIL''
       = get_for sample_config ''jira'' ''EMAIL''"
proof -
  have literal: "expand sample_config ''acme'' = ''acme''" "expand sample_config ''b@x'' = ''b@x''"
      "expand sample_config '' file:///atlassian#email'' = '' file:///atlassian#email''"
    by code_simp+
  have none: "map_of (cfg_shared sample_config) ''SITE'' = None" "map_of (cfg_shared sample_config) ''EMAIL'' = None"
    by (simp_all add: sample_config_def)
  have sections: "cfg_by_vendor sample_config = [(''confluence'', [(''SITE'', ''acme''), (''EMAIL'', ''b@x'')]),
        (''jira'', [(''SITE'', ''acme''), (''EMAIL'', '' file:///atlassian#email'')])]"
    by (simp add: sample_config_def)
  have "get sample_config ''SITE'' = Some ''acme''"
    using lookups_exact [of sample_config "''SITE''" "''acme''" "''jira''", THEN conjunct1]
    by (simp add: none sections literal)
  moreover have "get sample_config ''EMAIL'' \<noteq> Some ''b@x''"
    using lookups_exact [of sample_config "''EMAIL''" "''b@x''" "''jira''", THEN conjunct1]
    by (simp add: none sections literal)
  moreover have "get_for (sample_config\<lparr>cfg_by_vendor := [(''jira'', [(''SITE'', ''acme''), (''EMAIL'', '' file:///atlassian#email'')])]\<rparr>) ''jira'' ''EMAIL''
       = get_for sample_config ''jira'' ''EMAIL''"
    using lookups_exact [of sample_config "''EMAIL''" "''b@x''" "''jira''", THEN conjunct2, rule_format,
        of "[(''jira'', [(''SITE'', ''acme''), (''EMAIL'', '' file:///atlassian#email'')])]"]
    by (simp add: sections)
  ultimately show ?thesis by (intro conjI)
qed

text \<open>After a successful resolution of all its references, a configuration has no holes: whatever
  vendor and key are asked for, a configured reference reads as the resolved value, never as its own
  text, with the provenance of the same fetch, and everything that is not a reference reads exactly as
  it was written.\<close>

theorem references_resolved:
  assumes "resolve parse_json rs (secret_references c) = (Inr snapshot, fetched)"
    and "raw_for c vendor key = Some raw"
  shows "if is_reference (trim raw)
    then (\<exists>s. snapshot_get snapshot (trim raw) = Some s
        \<and> get_for (with_secrets c snapshot) vendor key = Some (resolved_value s) \<and> trim (resolved_value s) \<noteq> []
        \<and> secret_provenance_for (with_secrets c snapshot) vendor key = Some (resolved_provenance s))
    else get_for (with_secrets c snapshot) vendor key = Some raw
        \<and> secret_provenance_for (with_secrets c snapshot) vendor key = None"
proof (cases "is_reference (trim raw)")
  case True
  have listed: "trim raw \<in> set (secret_references c)"
    using True raw_for_listed [OF assms(2)] by (simp add: secret_references_def)
  obtain r f x where "parse_reference (trim raw) = Inr (Some r)"
    and x: "extract_value parse_json (fetched_document (f :: fetched_secret)) (ref_fragment r) = Inr x"
    and s: "snapshot_get snapshot (trim raw) = Some (resolved_new x (scheme_str (loc_scheme (ref_locator r))) (fetched_version f))"
    by (rule resolve_entry [OF assms(1) listed, unfolded trim_idem, OF True])
  have "secret_provenance_for (with_secrets c snapshot) vendor key
       = Some (resolved_provenance (resolved_new x (scheme_str (loc_scheme (ref_locator r))) (fetched_version f)))"
    using True s assms(2) by (simp add: secret_provenance_for_def) (simp add: with_secrets_def)
  with True s assms(2) extract_value_nonblank [OF x] expand_reference(1) [OF s True] show ?thesis
    by (simp add: get_for_def) (simp add: resolved_new_def)
next
  case False
  with assms(2) show ?thesis by (simp add: get_for_def expand_reference(2) secret_provenance_for_def)
qed

theorem references_resolved_witness:
  "\<exists>snapshot s. snapshot_get snapshot ''file:///atlassian#email'' = Some s
     \<and> get_for (with_secrets sample_config snapshot) ''jira'' ''EMAIL'' = Some (resolved_value s)"
proof -
  have "\<not> isl (fst (resolve sample_object_json sample_resolver (secret_references sample_config)))"
    and raw: "raw_for sample_config ''jira'' ''EMAIL'' = Some '' file:///atlassian#email''"
    and spelled: "trim '' file:///atlassian#email'' = ''file:///atlassian#email''" "is_reference ''file:///atlassian#email''"
    by code_simp+
  then obtain snapshot fetched where run: "resolve sample_object_json sample_resolver (secret_references sample_config) = (Inr snapshot, fetched)"
    by (cases "resolve sample_object_json sample_resolver (secret_references sample_config)";
        cases "fst (resolve sample_object_json sample_resolver (secret_references sample_config))") auto
  from references_resolved [OF run raw] show ?thesis by (simp only: spelled if_True) blast
qed

end
