(* ===== verification/Credentials.thy ===== *)
theory Credentials
  imports Config Errors
begin

text \<open>
  Credential resolution, \<^verbatim>\<open>src/auth/mod.rs\<close>, and the credential broker that predicts it for
  the audit record, \<^verbatim>\<open>src/auth/credential_broker.rs\<close>. A keychain backend is the function its
  \<open>get\<close> is; its log deduplication is not modelled. Base64 and the syntax check of a header name
  are arguments.
\<close>

section \<open>The keychain\<close>

datatype keychain_error = KeychainNotFound | KeychainUnavailable string | KeychainBackend string

fun keychain_error_text :: "keychain_error \<Rightarrow> string" where
  "keychain_error_text KeychainNotFound = ''keychain entry not found''"
| "keychain_error_text (KeychainUnavailable msg) = ''keychain unavailable: '' @ msg"
| "keychain_error_text (KeychainBackend msg) = ''keychain backend error: '' @ msg"

type_synonym keychain = "secret_kind \<Rightarrow> string \<Rightarrow> string \<Rightarrow> keychain_error + string option"

definition keychain_contains :: "keychain \<Rightarrow> secret_kind \<Rightarrow> string \<Rightarrow> string \<Rightarrow> bool" where
  "keychain_contains kc kind vendor account =
     (case kc kind vendor account of Inr (Some v) \<Rightarrow> v \<noteq> [] | _ \<Rightarrow> False)"

definition no_keychain :: keychain where
  "no_keychain kind vendor account = Inr None"

text \<open>\<open>backend::get\<close> over the entries of the operating system: the current service name first,
  then the legacy one.\<close>

datatype os_failure = NoEntry | OsFailure string

definition os_keychain_get :: "(string \<Rightarrow> string \<Rightarrow> os_failure + string) \<Rightarrow> keychain" where
  "os_keychain_get entries kind vendor account =
     (case entries (service_for kind vendor) account of
        Inr s \<Rightarrow> Inr (Some s)
      | Inl NoEntry \<Rightarrow>
          (case entries (legacy_service_for kind vendor) account of
             Inr s \<Rightarrow> Inr (Some s)
           | Inl NoEntry \<Rightarrow> Inr None
           | Inl (OsFailure e) \<Rightarrow> Inl (KeychainBackend e))
      | Inl (OsFailure e) \<Rightarrow> Inl (KeychainBackend e))"

definition os_keychain_delete :: "os_failure + unit \<Rightarrow> os_failure + unit \<Rightarrow> keychain_error + unit" where
  "os_keychain_delete current legacy =
     (case (current, legacy) of
        (Inl NoEntry, Inl NoEntry) \<Rightarrow> Inl KeychainNotFound
      | (Inl (OsFailure e), _) \<Rightarrow> Inl (KeychainBackend e)
      | (_, Inl (OsFailure e)) \<Rightarrow> Inl (KeychainBackend e)
      | _ \<Rightarrow> Inr ())"

text \<open>The keychain of the tests, a map from the slot to its secret.\<close>

type_synonym memory_keychain = "((secret_kind \<times> string \<times> string) \<times> string) list"

definition memory_get :: "memory_keychain \<Rightarrow> keychain" where
  "memory_get m kind vendor account = Inr (map_of m (kind, vendor, account))"

definition memory_set :: "memory_keychain \<Rightarrow> secret_kind \<Rightarrow> string \<Rightarrow> string \<Rightarrow> string \<Rightarrow> memory_keychain" where
  "memory_set m kind vendor account secret = AList.update (kind, vendor, account) secret m"

definition memory_delete ::
  "memory_keychain \<Rightarrow> secret_kind \<Rightarrow> string \<Rightarrow> string \<Rightarrow> (keychain_error + unit) \<times> memory_keychain" where
  "memory_delete m kind vendor account =
     ((case map_of m (kind, vendor, account) of Some _ \<Rightarrow> Inr () | None \<Rightarrow> Inl KeychainNotFound),
      AList.delete (kind, vendor, account) m)"

section \<open>The cascade\<close>

definition unresolved_reference :: "string \<Rightarrow> string \<Rightarrow> string \<Rightarrow> mcp_error" where
  "unresolved_reference vendor label reference =
     auth_missing (''vendor `'' @ vendor @ ''`: '' @ label @ '' references '' @ reference
       @ '', but the reference is not resolved in this process. The MCP server resolves secret references before it ''
       @ ''starts (docs/configuration.md, \"Secret references\"); this path did not.'')"

definition sentinel_missing :: "secret_kind \<Rightarrow> string \<Rightarrow> string \<Rightarrow> string \<Rightarrow> mcp_error" where
  "sentinel_missing kind vendor account secret_label =
     auth_missing (''vendor `'' @ vendor @ ''` sets '' @ secret_label @ ''=\"keychain\" but no keychain entry exists for kind=''
       @ kind_label kind @ '', vendor='' @ vendor @ '', principal='' @ account
       @ ''. Run `mcp-devtools creds set --kind '' @ kind_label kind @ '' --vendor '' @ vendor
       @ '' --principal '' @ account @ ''` or remove the sentinel.'')"

definition sentinel_failed :: "secret_kind \<Rightarrow> string \<Rightarrow> string \<Rightarrow> keychain_error \<Rightarrow> mcp_error" where
  "sentinel_failed kind vendor account e =
     auth_missing (''keychain lookup failed for kind='' @ kind_label kind @ '', vendor='' @ vendor
       @ '', principal='' @ account @ '': '' @ keychain_error_text e)"

definition resolve_configured_secret ::
  "keychain \<Rightarrow> secret_kind \<Rightarrow> string \<Rightarrow> string \<Rightarrow> string option \<Rightarrow> string \<Rightarrow> mcp_error + string option" where
  "resolve_configured_secret kc kind vendor account raw secret_label =
     (case map_option trim raw of
        Some v \<Rightarrow>
          if is_keychain_sentinel v then
            (case kc kind vendor account of
               Inr (Some s) \<Rightarrow> if s \<noteq> [] then Inr (Some s) else Inl (sentinel_missing kind vendor account secret_label)
             | Inr None \<Rightarrow> Inl (sentinel_missing kind vendor account secret_label)
             | Inl e \<Rightarrow> Inl (sentinel_failed kind vendor account e))
          else if is_reference v then Inl (unresolved_reference vendor secret_label v)
          else if v \<noteq> [] then Inr (Some v)
          else Inr None
      | None \<Rightarrow>
          (case kc kind vendor account of
             Inr (Some s) \<Rightarrow> if s \<noteq> [] then Inr (Some s) else Inr None
           | Inr None \<Rightarrow> Inr None
           | Inl _ \<Rightarrow> Inr None))"

definition resolve_kind_with_principal ::
  "configuration \<Rightarrow> keychain \<Rightarrow> string \<Rightarrow> secret_kind \<Rightarrow> string \<Rightarrow> string \<Rightarrow> mcp_error + (string \<times> string) option" where
  "resolve_kind_with_principal c kc vendor kind account secret_key =
     and_then (resolve_configured_secret kc kind vendor account (get_for c vendor secret_key) secret_key)
       (\<lambda>secret. Inr (map_option (Pair account) secret))"

definition try_resolve_kind ::
  "configuration \<Rightarrow> keychain \<Rightarrow> string \<Rightarrow> secret_kind \<Rightarrow> string \<Rightarrow> string \<Rightarrow> mcp_error + (string \<times> string) option" where
  "try_resolve_kind c kc vendor kind principal_key secret_key =
     (let absent =
        (if (case map_option trim (get_for c vendor secret_key) of Some v \<Rightarrow> is_keychain_sentinel v | None \<Rightarrow> False)
         then Inl (auth_missing (''vendor `'' @ vendor @ ''` sets '' @ secret_key @ ''=\"keychain\" but ''
                @ principal_key @ '' is missing''))
         else Inr None)
      in case get_for c vendor principal_key of
           Some p \<Rightarrow>
             if is_reference (trim p) then Inl (unresolved_reference vendor principal_key (trim p))
             else if p \<noteq> [] then resolve_kind_with_principal c kc vendor kind p secret_key
             else absent
         | None \<Rightarrow> absent)"

datatype credentials =
    AtlassianApiToken string string
  | BitbucketAppPassword string string
  | Bearer string
  | ApiKeyHeader string string

definition resolve_with_for :: "configuration \<Rightarrow> keychain \<Rightarrow> string \<Rightarrow> mcp_error + credentials option" where
  "resolve_with_for c kc vendor =
     and_then (try_resolve_kind c kc vendor ApiToken ''ATLASSIAN_USER_EMAIL'' ''ATLASSIAN_API_TOKEN'') (\<lambda>first.
     case first of
       Some (email, token) \<Rightarrow> Inr (Some (AtlassianApiToken email token))
     | None \<Rightarrow>
         if vendor = VENDOR_BITBUCKET then
           and_then (try_resolve_kind c kc vendor AppPassword ''ATLASSIAN_BITBUCKET_USERNAME'' ''ATLASSIAN_BITBUCKET_APP_PASSWORD'')
             (\<lambda>second. Inr (map_option (\<lambda>(username, password). BitbucketAppPassword username password) second))
         else Inr None)"

definition require_for :: "configuration \<Rightarrow> keychain \<Rightarrow> string \<Rightarrow> mcp_error + credentials" where
  "require_for c kc vendor =
     and_then (resolve_with_for c kc vendor) (ok_or
       (auth_missing (''Authentication credentials are missing for vendor `'' @ vendor
          @ ''`. Set ATLASSIAN_USER_EMAIL + ATLASSIAN_API_TOKEN in the `'' @ vendor
          @ ''` section, or (Bitbucket only) ATLASSIAN_BITBUCKET_USERNAME + ATLASSIAN_BITBUCKET_APP_PASSWORD.'')))"

definition basic_auth_payload :: "(string \<Rightarrow> string) \<Rightarrow> credentials \<Rightarrow> string" where
  "basic_auth_payload base64 cred =
     base64 (case cred of
        AtlassianApiToken email token \<Rightarrow> email @ '':'' @ token
      | BitbucketAppPassword username password \<Rightarrow> username @ '':'' @ password
      | _ \<Rightarrow> [])"

definition auth_header :: "(string \<Rightarrow> string) \<Rightarrow> credentials \<Rightarrow> string" where
  "auth_header base64 cred =
     (case cred of
        Bearer token \<Rightarrow> ''Bearer '' @ token
      | ApiKeyHeader _ key \<Rightarrow> key
      | _ \<Rightarrow> ''Basic '' @ basic_auth_payload base64 cred)"

definition auth_header_name :: "(string \<Rightarrow> string option) \<Rightarrow> (string \<Rightarrow> string) \<Rightarrow> credentials \<Rightarrow> mcp_error + string" where
  "auth_header_name header_name_from debug cred =
     (case cred of
        ApiKeyHeader name _ \<Rightarrow> ok_or (auth_invalid (''Invalid auth header name: '' @ debug name)) (header_name_from name)
      | _ \<Rightarrow> Inr ''authorization'')"

fun credentials_principal :: "credentials \<Rightarrow> string" where
  "credentials_principal (AtlassianApiToken email _) = email"
| "credentials_principal (BitbucketAppPassword username _) = username"
| "credentials_principal (Bearer _) = ''bearer''"
| "credentials_principal (ApiKeyHeader _ _) = ''api-key''"

section \<open>Registered vendor secrets\<close>

definition non_blank :: "configuration \<Rightarrow> string \<Rightarrow> string \<Rightarrow> string option" where
  "non_blank c vendor key =
     (case map_option trim (get_for c vendor key) of Some v \<Rightarrow> if v \<noteq> [] then Some v else None | None \<Rightarrow> None)"

definition vendor_secret_with :: "configuration \<Rightarrow> keychain \<Rightarrow> string \<Rightarrow> string \<Rightarrow> mcp_error + string option" where
  "vendor_secret_with c kc vendor secret_key =
     (case lookup_secret vendor secret_key of
        None \<Rightarrow> Inr (non_blank c vendor secret_key)
      | Some registered \<Rightarrow>
          (let configured = Option.bind (vs_principal_key registered) (non_blank c vendor);
               account = slot_principal registered configured
           in and_then (resolve_kind_with_principal c kc vendor (vs_kind registered) account secret_key)
                (\<lambda>resolved. Inr (map_option snd resolved))))"

text \<open>The forms of the request path: plaintext and unresolved references are answered at once, the
  rest by a task of the blocking pool, which may panic.\<close>

definition blocking_task :: "string option \<Rightarrow> mcp_error + 'a \<Rightarrow> mcp_error + 'a" where
  "blocking_task panic r =
     (case panic of
        Some e \<Rightarrow> Inl (unexpected (''credential resolution task panicked: '' @ e) None)
      | None \<Rightarrow> r)"

definition require_for_async :: "string option \<Rightarrow> configuration \<Rightarrow> keychain \<Rightarrow> string \<Rightarrow> mcp_error + credentials" where
  "require_for_async panic c kc vendor = blocking_task panic (require_for c kc vendor)"

definition resolve_configured_secret_async ::
  "string option \<Rightarrow> keychain \<Rightarrow> secret_kind \<Rightarrow> string \<Rightarrow> string \<Rightarrow> string option \<Rightarrow> string
     \<Rightarrow> mcp_error + string option" where
  "resolve_configured_secret_async panic kc kind vendor account raw secret_label =
     (let pooled = blocking_task panic (resolve_configured_secret kc kind vendor account raw secret_label)
      in case map_option trim raw of
           None \<Rightarrow> pooled
         | Some v \<Rightarrow>
             if is_keychain_sentinel v then pooled
             else if v = [] then Inr None
             else if is_reference v then Inl (unresolved_reference vendor secret_label v)
             else Inr (Some v))"

definition vendor_secret ::
  "string option \<Rightarrow> configuration \<Rightarrow> keychain \<Rightarrow> string \<Rightarrow> string \<Rightarrow> mcp_error + string option" where
  "vendor_secret panic c kc vendor secret_key =
     (case non_blank c vendor secret_key of
        Some v \<Rightarrow>
          if \<not> is_keychain_sentinel v
          then (if is_reference v then Inl (unresolved_reference vendor secret_key v) else Inr (Some v))
          else blocking_task panic (vendor_secret_with c kc vendor secret_key)
      | None \<Rightarrow> blocking_task panic (vendor_secret_with c kc vendor secret_key))"

section \<open>The broker\<close>

definition ENVIRONMENT_KEY :: string where
  "ENVIRONMENT_KEY = ''MCP_VENDOR_ENVIRONMENT''"

definition identity ::
  "string \<Rightarrow> string \<Rightarrow> environment_class \<Rightarrow> secret_provenance option \<Rightarrow> upstream_identity" where
  "identity label vendor environment provenance =
     \<lparr>up_label = label, up_vendor = vendor, up_environment = environment, up_authority = Shared,
      up_provenance = provenance\<rparr>"

datatype attribution = Slot string "secret_provenance option" | Indeterminate | NothingResolves

fun slot_loop :: "configuration \<Rightarrow> keychain \<Rightarrow> string \<Rightarrow> bool \<Rightarrow> vendor_secret_row list \<Rightarrow> attribution" where
  "slot_loop c kc vendor observable [] = (if observable then NothingResolves else Indeterminate)"
| "slot_loop c kc vendor observable (row # rows) =
     (if vs_role row = LoginInput then slot_loop c kc vendor observable rows
      else
        (let configured_principal =
           (case Option.bind (vs_principal_key row) (get_for c vendor) of
              Some v \<Rightarrow> if trim v \<noteq> [] then Some v else None
            | None \<Rightarrow> None)
         in if vs_principal_key row \<noteq> None \<and> configured_principal = None
            then slot_loop c kc vendor observable rows
            else
              (let resolves =
                 (case map_option trim (get_for c vendor (vs_secret_key row)) of
                    Some v \<Rightarrow> v \<noteq> []
                  | None \<Rightarrow> keychain_contains kc (vs_kind row) vendor (slot_principal row configured_principal))
               in if resolves
                  then Slot
                    (case configured_principal of
                       Some p \<Rightarrow> label_principal_slot (vs_vendor row) (vs_secret_key row) p
                     | None \<Rightarrow> label_slot (vs_vendor row) (vs_secret_key row))
                    (secret_provenance_for c vendor (vs_secret_key row))
                  else if \<not> observable then Indeterminate
                  else slot_loop c kc vendor observable rows)))"

definition slot_label :: "configuration \<Rightarrow> keychain \<Rightarrow> string \<Rightarrow> attribution" where
  "slot_label c kc vendor = slot_loop c kc vendor (resolution_is_observable vendor) (secrets_for_vendor vendor)"

text \<open>The probe of the real keychain runs as a blocking task, which may panic.\<close>

definition upstream_identity_for :: "keychain \<Rightarrow> bool \<Rightarrow> configuration \<Rightarrow> string \<Rightarrow> upstream_identity" where
  "upstream_identity_for kc panics c vendor =
     (let environment =
        (case Option.bind (get_for c vendor ENVIRONMENT_KEY) environment_parse of Some e \<Rightarrow> e | None \<Rightarrow> Unclassified)
      in case slot_label c no_keychain vendor of
           Slot label provenance \<Rightarrow> identity label vendor environment provenance
         | Indeterminate \<Rightarrow> identity (label_indeterminate vendor) vendor environment None
         | NothingResolves \<Rightarrow>
             (case (if panics then NothingResolves else slot_label c kc vendor) of
                Slot label provenance \<Rightarrow> identity label vendor environment provenance
              | Indeterminate \<Rightarrow> identity (label_indeterminate vendor) vendor environment None
              | NothingResolves \<Rightarrow> identity (label_unconfigured vendor) vendor environment None))"

definition static_identity_for :: "(string \<times> upstream_identity) list \<Rightarrow> string \<Rightarrow> upstream_identity" where
  "static_identity_for identities vendor =
     (case map_of identities vendor of
        Some i \<Rightarrow> i
      | None \<Rightarrow> identity (label_unconfigured vendor) vendor Unclassified None)"

section \<open>What the resolver makes of a row\<close>

lemma keychain_contains_none [simp]: "keychain_contains no_keychain kind vendor account \<longleftrightarrow> False"
  by (simp add: keychain_contains_def no_keychain_def)

lemma resolve_configured_secret_Some:
  assumes "resolve_configured_secret kc kind vendor account raw label = Inr (Some s)"
  shows "s \<noteq> []"
    and "case map_option trim raw of
           Some v \<Rightarrow> v \<noteq> [] \<and> \<not> (is_reference v \<and> \<not> is_keychain_sentinel v)
         | None \<Rightarrow> keychain_contains kc kind vendor account"
  using assms
  by (auto simp: resolve_configured_secret_def keychain_contains_def is_keychain_sentinel_def
      split: option.splits sum.splits if_splits)

lemma resolve_configured_secret_None:
  assumes "resolve_configured_secret kc kind vendor account raw label = Inr None"
  shows "case map_option trim raw of Some v \<Rightarrow> v = [] | None \<Rightarrow> \<not> keychain_contains kc kind vendor account"
  using assms
  by (auto simp: resolve_configured_secret_def keychain_contains_def
      split: option.splits sum.splits if_splits)

text \<open>An account name is read by the resolver unless it is empty and by the broker unless it is blank.\<close>

definition accounts_written :: "configuration \<Rightarrow> string \<Rightarrow> string \<Rightarrow> bool" where
  "accounts_written c vendor key \<longleftrightarrow>
     (case get_for c vendor key of Some p \<Rightarrow> p = [] \<or> trim p \<noteq> [] | None \<Rightarrow> True)"

lemma slot_loop_row:
  assumes "try_resolve_kind c kc vendor kind pk sk = Inr r" and "accounts_written c vendor pk"
  shows "slot_loop c kc vendor True (owned_row vendor sk pk kind # rows) =
    (case r of
       Some (p, _) \<Rightarrow> Slot (label_principal_slot vendor sk p) (secret_provenance_for c vendor sk)
     | None \<Rightarrow> slot_loop c kc vendor True rows)"
proof (cases "get_for c vendor pk")
  case None
  with assms show ?thesis
    by (auto simp: try_resolve_kind_def owned_row_def Let_def split: if_splits)
next
  case (Some p)
  show ?thesis
  proof (cases "p = []")
    case True
    with Some assms show ?thesis
      by (auto simp: try_resolve_kind_def owned_row_def Let_def split: if_splits)
  next
    case False
    with Some assms(2) have p: "trim p \<noteq> []" by (simp add: accounts_written_def)
    have "resolve_kind_with_principal c kc vendor kind p sk = Inr r"
      using assms(1) Some False by (simp add: try_resolve_kind_def Let_def split: if_splits)
    then obtain s where s: "resolve_configured_secret kc kind vendor p (get_for c vendor sk) sk = Inr s"
        "r = map_option (Pair p) s"
      by (auto simp: resolve_kind_with_principal_def and_then_eq_Inr)
    have account: "slot_principal (owned_row vendor sk pk kind) (Some p) = p"
      using False by (simp add: slot_principal_def owned_row_def)
    show ?thesis
    proof (cases s)
      case None
      from resolve_configured_secret_None [OF s(1) [unfolded None]] Some p s(2) None account show ?thesis
        by (cases "get_for c vendor sk") (simp_all add: owned_row_def)
    next
      case (Some secret)
      from resolve_configured_secret_Some(2) [OF s(1) [unfolded Some]] \<open>get_for c vendor pk = Some p\<close> p s(2) Some account
      show ?thesis
        by (cases "get_for c vendor sk") (simp_all add: owned_row_def)
    qed
  qed
qed


section \<open>The broker's prediction\<close>

definition slot_key :: "credentials \<Rightarrow> string" where
  "slot_key cred =
     (case cred of BitbucketAppPassword _ _ \<Rightarrow> ''ATLASSIAN_BITBUCKET_APP_PASSWORD'' | _ \<Rightarrow> ''ATLASSIAN_API_TOKEN'')"

definition acting_slot :: "configuration \<Rightarrow> string \<Rightarrow> credentials option \<Rightarrow> attribution" where
  "acting_slot c vendor r =
     (case r of
        Some cred \<Rightarrow> Slot (label_principal_slot vendor (slot_key cred) (credentials_principal cred))
                       (secret_provenance_for c vendor (slot_key cred))
      | None \<Rightarrow> NothingResolves)"

definition ATLASSIAN_VENDORS :: "string list" where
  "ATLASSIAN_VENDORS = [VENDOR_BITBUCKET, VENDOR_JIRA, VENDOR_CONFLUENCE]"

lemma atlassian_observable: "vendor \<in> set ATLASSIAN_VENDORS \<Longrightarrow> resolution_is_observable vendor"
proof -
  have "list_all resolution_is_observable ATLASSIAN_VENDORS" by code_simp
  then show "vendor \<in> set ATLASSIAN_VENDORS \<Longrightarrow> ?thesis" by (simp add: list_all_iff)
qed

lemma atlassian_secrets:
  assumes "vendor \<in> set ATLASSIAN_VENDORS"
  shows "secrets_for_vendor vendor =
    owned_row vendor ''ATLASSIAN_API_TOKEN'' ''ATLASSIAN_USER_EMAIL'' ApiToken
    # (if vendor = VENDOR_BITBUCKET
       then [owned_row vendor ''ATLASSIAN_BITBUCKET_APP_PASSWORD'' ''ATLASSIAN_BITBUCKET_USERNAME'' AppPassword] else [])"
proof -
  have ne: "VENDOR_JIRA \<noteq> VENDOR_BITBUCKET" "VENDOR_CONFLUENCE \<noteq> VENDOR_BITBUCKET" by (simp_all add: vendor_names)
  from assms consider "vendor = VENDOR_BITBUCKET" | "vendor = VENDOR_JIRA" | "vendor = VENDOR_CONFLUENCE"
    by (auto simp: ATLASSIAN_VENDORS_def)
  then show ?thesis by cases (simp_all only: ne atlassian_rows if_True if_False refl)
qed

lemma slot_label_acting:
  assumes "vendor \<in> set ATLASSIAN_VENDORS" and "resolve_with_for c kc vendor = Inr r"
    and "accounts_written c vendor ''ATLASSIAN_USER_EMAIL''" "accounts_written c vendor ''ATLASSIAN_BITBUCKET_USERNAME''"
  shows "slot_label c kc vendor = acting_slot c vendor r"
proof -
  let ?last = "slot_loop c kc vendor True (if vendor = VENDOR_BITBUCKET
    then [owned_row vendor ''ATLASSIAN_BITBUCKET_APP_PASSWORD'' ''ATLASSIAN_BITBUCKET_USERNAME'' AppPassword] else [])"
  obtain first where first: "try_resolve_kind c kc vendor ApiToken ''ATLASSIAN_USER_EMAIL'' ''ATLASSIAN_API_TOKEN'' = Inr first"
    using assms(2) by (auto simp: resolve_with_for_def and_then_eq_Inr)
  have label: "slot_label c kc vendor =
      (case first of
         Some (p, _) \<Rightarrow> Slot (label_principal_slot vendor ''ATLASSIAN_API_TOKEN'' p) (secret_provenance_for c vendor ''ATLASSIAN_API_TOKEN'')
       | None \<Rightarrow> ?last)"
    by (simp only: slot_label_def atlassian_observable [OF assms(1)] atlassian_secrets [OF assms(1)]
        slot_loop_row [OF first assms(3)])
  show ?thesis
  proof (cases first)
    case (Some ps)
    obtain p s where "ps = (p, s)" by (cases ps)
    with Some first assms(2) label show ?thesis
      by (simp add: resolve_with_for_def acting_slot_def) (auto simp: slot_key_def)
  next
    case None
    show ?thesis
    proof (cases "vendor = VENDOR_BITBUCKET")
      case True
      with assms(2) first None obtain second where
        second: "try_resolve_kind c kc vendor AppPassword ''ATLASSIAN_BITBUCKET_USERNAME'' ''ATLASSIAN_BITBUCKET_APP_PASSWORD'' = Inr second"
        and r: "r = map_option (\<lambda>(username, password). BitbucketAppPassword username password) second"
        by (auto simp: resolve_with_for_def and_then_eq_Inr)
      from label None True slot_loop_row [OF second assms(4), of "[]"] r show ?thesis
        by (cases second) (auto simp: acting_slot_def slot_key_def)
    next
      case False
      with assms(2) first None label show ?thesis
        by (simp add: resolve_with_for_def) (auto simp: acting_slot_def)
    qed
  qed
qed

text \<open>The pass without the keychain settles the answer unless a later row is configured while an
  earlier one is left to the keychain.\<close>

definition config_decides :: "configuration \<Rightarrow> string \<Rightarrow> bool" where
  "config_decides c vendor \<longleftrightarrow>
     vendor = VENDOR_BITBUCKET \<longrightarrow> get_for c vendor ''ATLASSIAN_API_TOKEN'' \<noteq> None
       \<or> get_for c vendor ''ATLASSIAN_BITBUCKET_APP_PASSWORD'' = None"

lemma slot_loop_configured:
  assumes "get_for c vendor (vs_secret_key row) \<noteq> None"
    and "slot_loop c kc vendor b rows = slot_loop c kc' vendor b rows"
  shows "slot_loop c kc vendor b (row # rows) = slot_loop c kc' vendor b (row # rows)"
  using assms by (auto simp: Let_def)

lemma slot_loop_silent:
  assumes "get_for c vendor (vs_secret_key row) = None"
  shows "slot_loop c no_keychain vendor True (row # rows) = slot_loop c no_keychain vendor True rows"
  using assms by (simp add: Let_def)

lemma config_pass:
  assumes "vendor \<in> set ATLASSIAN_VENDORS" "config_decides c vendor"
  shows "slot_label c no_keychain vendor \<in> {NothingResolves, slot_label c kc vendor}"
proof -
  let ?first = "owned_row vendor ''ATLASSIAN_API_TOKEN'' ''ATLASSIAN_USER_EMAIL'' ApiToken"
  let ?second = "owned_row vendor ''ATLASSIAN_BITBUCKET_APP_PASSWORD'' ''ATLASSIAN_BITBUCKET_USERNAME'' AppPassword"
  let ?rest = "if vendor = VENDOR_BITBUCKET then [?second] else []"
  have keys: "vs_secret_key ?first = ''ATLASSIAN_API_TOKEN''" "vs_secret_key ?second = ''ATLASSIAN_BITBUCKET_APP_PASSWORD''"
    by (simp_all add: owned_row_def)
  have rest: "slot_loop c no_keychain vendor True ?rest \<in> {NothingResolves, slot_loop c kc vendor True ?rest}"
  proof (cases "get_for c vendor ''ATLASSIAN_BITBUCKET_APP_PASSWORD''")
    case None
    then have "slot_loop c no_keychain vendor True ?rest = NothingResolves"
      using slot_loop_silent [of c vendor ?second "[]"] keys(2) by (auto simp del: slot_loop.simps(2))
    then show ?thesis by simp
  next
    case (Some v)
    then have "slot_loop c no_keychain vendor True ?rest = slot_loop c kc vendor True ?rest"
      using slot_loop_configured [of c vendor ?second no_keychain True "[]" kc] keys(2) by (auto simp del: slot_loop.simps(2))
    then show ?thesis by simp
  qed
  have "slot_loop c no_keychain vendor True (?first # ?rest) \<in> {NothingResolves, slot_loop c kc vendor True (?first # ?rest)}"
  proof (cases "get_for c vendor ''ATLASSIAN_API_TOKEN''")
    case None
    with assms(2) have "vendor = VENDOR_BITBUCKET \<longrightarrow> get_for c vendor ''ATLASSIAN_BITBUCKET_APP_PASSWORD'' = None"
      by (auto simp: config_decides_def)
    then have "slot_loop c no_keychain vendor True ?rest = NothingResolves"
      using slot_loop_silent [of c vendor ?second "[]"] keys(2) by (auto simp del: slot_loop.simps(2))
    with slot_loop_silent [of c vendor ?first ?rest] None keys(1) show ?thesis by (simp del: slot_loop.simps(2))
  next
    case (Some v)
    from rest Some keys(1) show ?thesis by (auto simp: Let_def simp del: slot_loop.simps(1) split: if_split_asm)
  qed
  then show ?thesis
    by (simp only: slot_label_def atlassian_observable [OF assms(1)] atlassian_secrets [OF assms(1)])
qed


section \<open>Properties\<close>

text \<open>C23. For the vendors of the shared Atlassian resolver, the credential the broker names in the
  audit record is the one the resolver hands to the request: same slot, same account, provenance of
  the same value; and it says the vendor is unconfigured exactly when the resolver finds nothing. This
  holds whenever the resolver does not fail, accounts are not blank, and no Bitbucket app password is
  configured next to an API token that lives in the keychain only.\<close>

theorem broker_predicts:
  assumes "vendor \<in> set ATLASSIAN_VENDORS" and "resolve_with_for c kc vendor = Inr r"
    and "accounts_written c vendor ''ATLASSIAN_USER_EMAIL''" "accounts_written c vendor ''ATLASSIAN_BITBUCKET_USERNAME''"
    and "config_decides c vendor"
  shows "up_label (upstream_identity_for kc False c vendor) =
      (case r of
         Some cred \<Rightarrow> label_principal_slot vendor (slot_key cred) (credentials_principal cred)
       | None \<Rightarrow> label_unconfigured vendor)
    \<and> up_provenance (upstream_identity_for kc False c vendor) =
      (case r of Some cred \<Rightarrow> secret_provenance_for c vendor (slot_key cred) | None \<Rightarrow> None)
    \<and> up_vendor (upstream_identity_for kc False c vendor) = vendor"
proof -
  note acting = slot_label_acting [OF assms(1-4)]
  from config_pass [OF assms(1) assms(5), of kc] acting
  consider "slot_label c no_keychain vendor = NothingResolves" | "slot_label c no_keychain vendor = acting_slot c vendor r"
    by auto
  then have "upstream_identity_for kc False c vendor =
    (case acting_slot c vendor r of
       Slot label provenance \<Rightarrow> identity label vendor
         (case Option.bind (get_for c vendor ENVIRONMENT_KEY) environment_parse of Some e \<Rightarrow> e | None \<Rightarrow> Unclassified) provenance
     | _ \<Rightarrow> identity (label_unconfigured vendor) vendor
         (case Option.bind (get_for c vendor ENVIRONMENT_KEY) environment_parse of Some e \<Rightarrow> e | None \<Rightarrow> Unclassified) None)"
    by cases (cases r; simp add: upstream_identity_for_def acting acting_slot_def)+
  then show ?thesis by (cases r) (simp_all add: acting_slot_def identity_def)
qed

definition sample_accounts :: configuration where
  "sample_accounts = from_map
     [(''ATLASSIAN_USER_EMAIL'', ''ops@example.com''),
      (''ATLASSIAN_BITBUCKET_USERNAME'', ''ops''), (''ATLASSIAN_BITBUCKET_APP_PASSWORD'', ''app-secret'')]"

definition sample_tokens :: memory_keychain where
  "sample_tokens = memory_set [] ApiToken ''bitbucket'' ''ops@example.com'' ''stored-token''"

theorem broker_predicts_witness:
  "up_label (upstream_identity_for (memory_get []) False sample_accounts ''jira'') = label_unconfigured ''jira''"
proof -
  have "''jira'' \<in> set ATLASSIAN_VENDORS" "resolve_with_for sample_accounts (memory_get []) ''jira'' = Inr None"
    "accounts_written sample_accounts ''jira'' ''ATLASSIAN_USER_EMAIL''"
    "accounts_written sample_accounts ''jira'' ''ATLASSIAN_BITBUCKET_USERNAME''"
    "config_decides sample_accounts ''jira''"
    by code_simp+
  from broker_predicts [OF this] show ?thesis by simp
qed

text \<open>C38. The broker's shortcut names the wrong credential when an app password is configured and the
  API token lives in the keychain only: the resolver sends the API token, the audit record names the
  app password.\<close>

theorem broker_overlooks_keychain_token:
  assumes "get_for c VENDOR_BITBUCKET ''ATLASSIAN_USER_EMAIL'' = Some email" "trim email \<noteq> []" "\<not> is_reference (trim email)"
    and "get_for c VENDOR_BITBUCKET ''ATLASSIAN_API_TOKEN'' = None"
    and "kc ApiToken VENDOR_BITBUCKET email = Inr (Some token)" "token \<noteq> []"
    and "get_for c VENDOR_BITBUCKET ''ATLASSIAN_BITBUCKET_USERNAME'' = Some username" "trim username \<noteq> []"
    and "get_for c VENDOR_BITBUCKET ''ATLASSIAN_BITBUCKET_APP_PASSWORD'' = Some password" "trim password \<noteq> []"
  shows "resolve_with_for c kc VENDOR_BITBUCKET = Inr (Some (AtlassianApiToken email token))
    \<and> up_label (upstream_identity_for kc False c VENDOR_BITBUCKET)
        = label_principal_slot VENDOR_BITBUCKET ''ATLASSIAN_BITBUCKET_APP_PASSWORD'' username"
proof
  have "email \<noteq> []" using assms(2) by (cases email) simp_all
  with assms show "resolve_with_for c kc VENDOR_BITBUCKET = Inr (Some (AtlassianApiToken email token))"
    by (simp add: resolve_with_for_def try_resolve_kind_def resolve_kind_with_principal_def resolve_configured_secret_def)
  have "VENDOR_BITBUCKET \<in> set ATLASSIAN_VENDORS" by (simp add: ATLASSIAN_VENDORS_def)
  note rows = atlassian_observable [OF this] atlassian_rows(1)
  have "slot_label c no_keychain VENDOR_BITBUCKET =
    Slot (label_principal_slot VENDOR_BITBUCKET ''ATLASSIAN_BITBUCKET_APP_PASSWORD'' username)
      (secret_provenance_for c VENDOR_BITBUCKET ''ATLASSIAN_BITBUCKET_APP_PASSWORD'')"
    using assms by (simp add: slot_label_def rows, simp add: owned_row_def)
  then show "up_label (upstream_identity_for kc False c VENDOR_BITBUCKET)
      = label_principal_slot VENDOR_BITBUCKET ''ATLASSIAN_BITBUCKET_APP_PASSWORD'' username"
    by (simp add: upstream_identity_for_def identity_def)
qed

theorem broker_overlooks_keychain_token_witness:
  "resolve_with_for sample_accounts (memory_get sample_tokens) VENDOR_BITBUCKET
     = Inr (Some (AtlassianApiToken ''ops@example.com'' ''stored-token''))
   \<and> up_label (upstream_identity_for (memory_get sample_tokens) False sample_accounts VENDOR_BITBUCKET)
     = label_principal_slot VENDOR_BITBUCKET ''ATLASSIAN_BITBUCKET_APP_PASSWORD'' ''ops''"
proof (rule broker_overlooks_keychain_token [of _ _ _ _ _ "''app-secret''"])
qed code_simp+

text \<open>The shortcuts of the request path change nothing but where the work runs: as long as the
  pooled task does not panic, a configured secret resolves the same with and without the shortcut, and
  so does every registered vendor secret, keychain entries, references and blank values included.\<close>

theorem shortcuts_agree:
  assumes "lookup_secret vendor secret_key = Some row"
  shows "vendor_secret None c kc vendor secret_key = vendor_secret_with c kc vendor secret_key
    \<and> resolve_configured_secret_async None kc kind vendor account raw label
        = resolve_configured_secret kc kind vendor account raw label"
proof
  have blank: "\<not> is_keychain_sentinel []" "\<not> is_reference []" by code_simp+
  show "vendor_secret None c kc vendor secret_key = vendor_secret_with c kc vendor secret_key"
    using assms
    by (auto simp: vendor_secret_def blocking_task_def non_blank_def vendor_secret_with_def Let_def
        resolve_kind_with_principal_def resolve_configured_secret_def split: option.splits if_splits)
  show "resolve_configured_secret_async None kc kind vendor account raw label
      = resolve_configured_secret kc kind vendor account raw label"
    using blank
    by (auto simp: resolve_configured_secret_async_def blocking_task_def resolve_configured_secret_def Let_def
        split: option.splits)
qed

theorem shortcuts_agree_witness:
  "vendor_secret None sample_accounts no_keychain ''slack'' ''SLACK_TOKEN''
     = vendor_secret_with sample_accounts no_keychain ''slack'' ''SLACK_TOKEN''"
proof -
  have "lookup_secret ''slack'' ''SLACK_TOKEN'' = Some (token_row ''slack'' ''SLACK_TOKEN'')" by code_simp
  from shortcuts_agree [OF this] show ?thesis by (rule conjunct1)
qed

text \<open>Where an account and its secret may come from: the account is configured in plain text; the secret is
  the configured text, neither blank nor a reference, or what the keychain holds for that very account,
  when the configuration says so or says nothing.\<close>

definition supplied ::
  "configuration \<Rightarrow> keychain \<Rightarrow> string \<Rightarrow> secret_kind \<Rightarrow> string \<Rightarrow> string \<Rightarrow> string \<Rightarrow> string \<Rightarrow> bool" where
  "supplied c kc vendor kind principal_key secret_key account secret \<longleftrightarrow>
     get_for c vendor principal_key = Some account \<and> account \<noteq> [] \<and> \<not> is_reference (trim account) \<and> secret \<noteq> []
     \<and> (case get_for c vendor secret_key of
          Some raw \<Rightarrow>
            if is_keychain_sentinel (trim raw) then kc kind vendor account = Inr (Some secret)
            else secret = trim raw \<and> \<not> is_reference secret
        | None \<Rightarrow> kc kind vendor account = Inr (Some secret))"

lemma try_resolve_kind_supplied:
  "try_resolve_kind c kc vendor kind pk sk = Inr (Some (account, secret)) \<longleftrightarrow> supplied c kc vendor kind pk sk account secret"
  by (auto simp: try_resolve_kind_def resolve_kind_with_principal_def resolve_configured_secret_def supplied_def Let_def
      and_then_eq_Inr split: option.splits if_splits sum.splits)

text \<open>C30. Which credential a request of the shared Atlassian resolver carries. It carries the API token of
  the configured account exactly when configuration and keychain supply one; an app password is used for
  Bitbucket only, when they supply one for the configured user and no API token; nothing else is ever
  used. So the account is never empty or a reference, the secret is never empty, a configured secret is
  never sent as the text of a reference or as the keychain sentinel, and a stored one is that of the same
  account.\<close>

theorem credential_sources:
  "(resolve_with_for c kc vendor = Inr (Some (AtlassianApiToken email token)) \<longleftrightarrow>
      supplied c kc vendor ApiToken ''ATLASSIAN_USER_EMAIL'' ''ATLASSIAN_API_TOKEN'' email token)
   \<and> (resolve_with_for c kc vendor = Inr (Some (BitbucketAppPassword username password)) \<longrightarrow>
        vendor = VENDOR_BITBUCKET
        \<and> supplied c kc vendor AppPassword ''ATLASSIAN_BITBUCKET_USERNAME'' ''ATLASSIAN_BITBUCKET_APP_PASSWORD'' username password
        \<and> (\<nexists>e t. supplied c kc vendor ApiToken ''ATLASSIAN_USER_EMAIL'' ''ATLASSIAN_API_TOKEN'' e t))
   \<and> resolve_with_for c kc vendor \<noteq> Inr (Some (Bearer key)) \<and> resolve_with_for c kc vendor \<noteq> Inr (Some (ApiKeyHeader name key))"
proof (cases "try_resolve_kind c kc vendor ApiToken ''ATLASSIAN_USER_EMAIL'' ''ATLASSIAN_API_TOKEN''")
  case (Inl e)
  then show ?thesis
    using try_resolve_kind_supplied [of c kc vendor ApiToken "''ATLASSIAN_USER_EMAIL''" "''ATLASSIAN_API_TOKEN''"]
    by (simp add: resolve_with_for_def)
next
  case (Inr first)
  note api = try_resolve_kind_supplied [of c kc vendor ApiToken "''ATLASSIAN_USER_EMAIL''" "''ATLASSIAN_API_TOKEN''", unfolded Inr]
  show ?thesis
  proof (cases first)
    case None
    have "resolve_with_for c kc vendor \<noteq> Inr (Some (AtlassianApiToken email token))"
      "resolve_with_for c kc vendor \<noteq> Inr (Some (Bearer key))" "resolve_with_for c kc vendor \<noteq> Inr (Some (ApiKeyHeader name key))"
      using Inr None by (auto simp: resolve_with_for_def and_then_eq_Inr)
    moreover have "vendor = VENDOR_BITBUCKET
        \<and> supplied c kc vendor AppPassword ''ATLASSIAN_BITBUCKET_USERNAME'' ''ATLASSIAN_BITBUCKET_APP_PASSWORD'' username password"
      if "resolve_with_for c kc vendor = Inr (Some (BitbucketAppPassword username password))"
      using that Inr None by (auto simp: resolve_with_for_def and_then_eq_Inr try_resolve_kind_supplied [symmetric] split: if_splits)
    ultimately show ?thesis using api None by simp
  next
    case (Some ps)
    then show ?thesis using Inr api by (cases ps) (auto simp: resolve_with_for_def)
  qed
qed

theorem credential_sources_witness:
  "resolve_with_for sample_accounts (memory_get sample_tokens) ''bitbucket''
     = Inr (Some (AtlassianApiToken ''ops@example.com'' ''stored-token''))
   \<and> get_for sample_accounts ''bitbucket'' ''ATLASSIAN_USER_EMAIL'' = Some ''ops@example.com''
   \<and> memory_get sample_tokens ApiToken ''bitbucket'' ''ops@example.com'' = Inr (Some ''stored-token'')"
proof -
  have run: "resolve_with_for sample_accounts (memory_get sample_tokens) ''bitbucket''
      = Inr (Some (AtlassianApiToken ''ops@example.com'' ''stored-token''))"
    and unset: "get_for sample_accounts ''bitbucket'' ''ATLASSIAN_API_TOKEN'' = None"
    by code_simp+
  have "supplied sample_accounts (memory_get sample_tokens) ''bitbucket'' ApiToken ''ATLASSIAN_USER_EMAIL'' ''ATLASSIAN_API_TOKEN''
      ''ops@example.com'' ''stored-token''"
    using conjunct1 [OF credential_sources] run by blast
  then show ?thesis using run unset by (simp add: supplied_def)
qed

end
