(* ===== verification/Secret_Lifecycle.thy ===== *)
theory Secret_Lifecycle
  imports Config Errors
begin

text \<open>
  Secret references in the running server: resolution at startup and the background refresher,
  \<^verbatim>\<open>src/bootstrap/secrets.rs\<close>, the watcher that reloads the global configuration,
  \<^verbatim>\<open>src/bootstrap/watcher.rs\<close>, the handle they both write, \<^verbatim>\<open>src/bootstrap/config_handle.rs\<close>, and
  the cache of the default workspace a reload clears, \<^verbatim>\<open>src/workspace.rs\<close>. A refresh reads its
  configuration before the fetch and writes after it, so a reload may fall in between: the two halves
  are two steps of the server. A tick of the watcher is one step: what it reads is its own, and the
  configuration it installs at the end is the one it resolved itself. The providers may answer
  differently at every step.
\<close>

section \<open>State\<close>

text \<open>The configuration in force, the health signal, the interval of the refresher if one was
  spawned, its last early refresh, the configuration the refresh under way has read, the bytes the
  watcher saw last, and the workspace cache.\<close>

record secret_server =
  srv_config :: configuration
  srv_degraded :: "string option"
  srv_refreshes :: nat
  srv_refresher :: "nat option"
  srv_last_early :: "nat option"
  srv_refreshing :: "configuration option"
  srv_contents :: "string option"
  srv_workspace :: "string option"

text \<open>The server \<open>ServerBuilder::build\<close> returns: no snapshot is attached and no task runs.\<close>

definition server_new :: "configuration \<Rightarrow> string option \<Rightarrow> secret_server" where
  "server_new c contents =
     \<lparr>srv_config = c, srv_degraded = None, srv_refreshes = 0, srv_refresher = None, srv_last_early = None,
      srv_refreshing = None, srv_contents = contents, srv_workspace = None\<rparr>"

section \<open>Resolution and refresh\<close>

definition REFRESH_INTERVAL_KEY :: string where
  "REFRESH_INTERVAL_KEY = ''MCP_SECRET_REFRESH_INTERVAL_SECONDS''"

definition DEFAULT_REFRESH_INTERVAL :: nat where "DEFAULT_REFRESH_INTERVAL = 30"
definition MIN_REFRESH_INTERVAL :: nat where "MIN_REFRESH_INTERVAL = 1"
definition MAX_REFRESH_INTERVAL :: nat where "MAX_REFRESH_INTERVAL = 60 * 60"
definition EARLY_REFRESH_MIN_GAP :: nat where "EARLY_REFRESH_MIN_GAP = 10"

definition refresh_interval :: "configuration \<Rightarrow> nat" where
  "refresh_interval c =
     (let configured =
        (case Option.bind (get c REFRESH_INTERVAL_KEY) (\<lambda>v. parse_u64 (trim v)) of
           Some n \<Rightarrow> n | None \<Rightarrow> DEFAULT_REFRESH_INTERVAL)
      in max MIN_REFRESH_INTERVAL (min configured MAX_REFRESH_INTERVAL))"

definition attach :: "secret_server \<Rightarrow> secret_snapshot \<Rightarrow> secret_server" where
  "attach srv snapshot =
     srv\<lparr>srv_config := with_secrets (srv_config srv) (merged_with (cfg_secrets (srv_config srv)) snapshot)\<rparr>"

definition resolve_startup ::
  "(string \<Rightarrow> json option) \<Rightarrow> secret_resolver \<Rightarrow> secret_server \<Rightarrow> mcp_error + secret_server" where
  "resolve_startup parse_json rs srv =
     (let c = srv_config srv in
      if secret_references c = [] then Inr srv
      else and_then
        (map_err (\<lambda>e. unexpected (resolve_error_text e @ ''; refusing to start (fail closed, plan ''
             @ [CHR 0xC2, CHR 0xA7] @ ''1.2)'') None)
          (fst (resolve parse_json rs (secret_references c))))
        (\<lambda>snapshot. Inr ((attach srv snapshot)\<lparr>srv_refresher := Some (refresh_interval c)\<rparr>)))"

text \<open>What the refresher does when its ticker or a request wakes it: an early request may be dropped.\<close>

definition refresher_wakes :: "nat \<Rightarrow> bool \<Rightarrow> secret_server \<Rightarrow> secret_server option" where
  "refresher_wakes now early srv =
     (if early then
        (if (case srv_last_early srv of Some at_time \<Rightarrow> now - at_time < EARLY_REFRESH_MIN_GAP | None \<Rightarrow> False) then None
         else Some (srv\<lparr>srv_last_early := Some now\<rparr>))
      else Some srv)"

text \<open>The two halves of \<open>refresh_once\<close>: the configuration it reads, and what it does with the answer.\<close>

definition refresh_begins :: "secret_server \<Rightarrow> secret_server" where
  "refresh_begins srv = srv\<lparr>srv_refreshing := Some (srv_config srv)\<rparr>"

definition refresh_ends ::
  "(string \<Rightarrow> json option) \<Rightarrow> secret_resolver \<Rightarrow> configuration \<Rightarrow> secret_server \<Rightarrow> secret_server" where
  "refresh_ends parse_json rs c srv =
     (if secret_references c = []
      then srv\<lparr>srv_degraded := None, srv_refreshes := srv_refreshes srv + 1, srv_refreshing := None\<rparr>
      else
        (case fst (resolve parse_json rs (secret_references c)) of
           Inr snapshot \<Rightarrow>
             (if differs_from (cfg_secrets c) snapshot then attach srv snapshot else srv)
               \<lparr>srv_degraded := None, srv_refreshes := srv_refreshes srv + 1, srv_refreshing := None\<rparr>
         | Inl e \<Rightarrow>
             srv\<lparr>srv_degraded := Some (cause_category (sre_cause e)),
                 srv_refreshes := srv_refreshes srv + 1, srv_refreshing := None\<rparr>))"

section \<open>Reload\<close>

definition resolve_reloaded ::
  "(string \<Rightarrow> json option) \<Rightarrow> secret_resolver \<Rightarrow> configuration \<Rightarrow> secret_resolve_error + configuration" where
  "resolve_reloaded parse_json rs c =
     (if secret_references c = [] then Inr c
      else and_then (fst (resolve parse_json rs (secret_references c))) (\<lambda>snapshot. Inr (with_secrets c snapshot)))"

text \<open>What a tick of the watcher meets: the file, unreadable, absent or with contents, the other sources
  of the loader, and whether the loader's task panics.\<close>

record watch_input =
  in_disk :: "unit + string option"
  in_parse_text :: "string \<Rightarrow> string + json"
  in_show_json :: "json \<Rightarrow> string option"
  in_dotenv :: "(string + (string + string \<times> string) list) option"
  in_process_env :: env_map
  in_panics :: bool

definition watch_config ::
  "(string \<Rightarrow> json option) \<Rightarrow> secret_resolver \<Rightarrow> watch_input \<Rightarrow> secret_server \<Rightarrow> secret_server" where
  "watch_config parse_json rs i srv =
     (case in_disk i of
        Inl _ \<Rightarrow> srv
      | Inr contents \<Rightarrow>
          if contents = srv_contents srv then srv
          else if in_panics i then srv
          else
            (let seen = srv\<lparr>srv_contents := contents\<rparr> in
             case load_from_global_bytes (in_parse_text i) (in_show_json i) contents (in_dotenv i) (in_process_env i) of
               Inl _ \<Rightarrow> seen
             | Inr c \<Rightarrow>
                 (case resolve_reloaded parse_json rs c of
                    Inl _ \<Rightarrow> seen
                  | Inr reloaded \<Rightarrow> seen\<lparr>srv_config := reloaded, srv_workspace := None\<rparr>)))"

section \<open>The default workspace\<close>

definition extract_first_slug :: "json \<Rightarrow> string option" where
  "extract_first_slug v =
     Option.bind (json_get v ''values'') (\<lambda>vs.
     Option.bind (as_array vs) (\<lambda>arr.
     Option.bind (case arr of [] \<Rightarrow> None | first # _ \<Rightarrow> Some first) (\<lambda>first.
     Option.bind (json_get first ''workspace'') (\<lambda>ws.
     Option.bind (json_get ws ''slug'') as_str))))"

text \<open>\<open>answer\<close> is the outcome of the request for the caller's workspaces under the configuration of
  the call: an error, a body that is not JSON, or one that is.\<close>

definition fetch_first_workspace :: "mcp_error + json option \<Rightarrow> mcp_error + string option" where
  "fetch_first_workspace answer =
     and_then answer (\<lambda>body. Inr (Option.bind body extract_first_slug))"

definition resolve_default_workspace ::
  "(configuration \<Rightarrow> mcp_error + json option) \<Rightarrow> configuration \<Rightarrow> secret_server \<Rightarrow> string option \<times> secret_server" where
  "resolve_default_workspace answer c srv =
     (case srv_workspace srv of
        Some cached \<Rightarrow> (Some cached, srv)
      | None \<Rightarrow>
          (case (case get_for c VENDOR_BITBUCKET ''BITBUCKET_DEFAULT_WORKSPACE'' of
                   Some slug \<Rightarrow> if slug \<noteq> [] then Some slug else None
                 | None \<Rightarrow> None) of
             Some slug \<Rightarrow> (Some slug, srv\<lparr>srv_workspace := Some slug\<rparr>)
           | None \<Rightarrow>
               (case fetch_first_workspace (answer c) of
                  Inr (Some slug) \<Rightarrow> (Some slug, srv\<lparr>srv_workspace := Some slug\<rparr>)
                | Inr None \<Rightarrow> (None, srv)
                | Inl _ \<Rightarrow> (None, srv))))"

section \<open>Runs\<close>

text \<open>Refresher, watcher and requests interleave; every rule picks the providers, the clock, the disk
  and the sources of the loader it meets.\<close>

inductive server_step :: "(string \<Rightarrow> json option) \<Rightarrow> secret_server \<Rightarrow> secret_server \<Rightarrow> bool"
  for parse_json :: "string \<Rightarrow> json option" where
  refresh_started: "srv_refresher srv = Some interval \<Longrightarrow> srv_refreshing srv = None \<Longrightarrow>
    refresher_wakes now early srv = Some woken \<Longrightarrow> server_step parse_json srv (refresh_begins woken)"
| refresh_finished: "srv_refreshing srv = Some c \<Longrightarrow> server_step parse_json srv (refresh_ends parse_json rs c srv)"
| config_watched: "server_step parse_json srv (watch_config parse_json rs i srv)"
| workspace_resolved: "server_step parse_json srv (snd (resolve_default_workspace answer c srv))"

abbreviation server_run :: "(string \<Rightarrow> json option) \<Rightarrow> secret_server \<Rightarrow> secret_server \<Rightarrow> bool" where
  "server_run parse_json \<equiv> (server_step parse_json)\<^sup>*\<^sup>*"

section \<open>Snapshots\<close>

definition snapshot_ok :: "secret_snapshot \<Rightarrow> bool" where
  "snapshot_ok s \<longleftrightarrow> distinct (map fst s) \<and> list_all (\<lambda>(_, v). trim (resolved_value v) \<noteq> []) s"

text \<open>No configured reference without a usable value.\<close>

definition no_holes :: "configuration \<Rightarrow> bool" where
  "no_holes c \<longleftrightarrow> snapshot_ok (cfg_secrets c) \<and> set (secret_references c) \<subseteq> fst ` set (cfg_secrets c)"

lemma fold_update_distinct:
  "distinct (map fst m) \<Longrightarrow> distinct (map fst (fold (\<lambda>(k, v). AList.update k v) newer m))"
  by (induction newer arbitrary: m) (auto simp: distinct_update)

lemma fold_update_lookup:
  "distinct (map fst newer) \<Longrightarrow>
     map_of (fold (\<lambda>(k, v). AList.update k v) newer m) = map_of m ++ map_of newer"
proof (induction newer arbitrary: m)
  case (Cons e newer)
  obtain k v where e: "e = (k, v)" by (cases e)
  have fresh: "map_of newer k = None" using Cons.prems e by (simp add: map_of_eq_None_iff)
  have "map_of (fold (\<lambda>(k, v). AList.update k v) (e # newer) m) = (map_of m)(k \<mapsto> v) ++ map_of newer"
    using Cons e by (simp add: update_conv')
  also have "\<dots> = map_of m ++ map_of (e # newer)"
    using fresh e by (auto simp: fun_eq_iff map_add_def split: option.split)
  finally show ?case .
qed simp

lemma snapshot_ok_lookup:
  assumes "distinct (map fst s)"
  shows "snapshot_ok s \<longleftrightarrow> (\<forall>k v. map_of s k = Some v \<longrightarrow> trim (resolved_value v) \<noteq> [])"
  using assms by (auto simp: snapshot_ok_def list_all_iff)

lemma merged_with_lookup:
  "snapshot_ok s \<Longrightarrow> snapshot_ok newer \<Longrightarrow> map_of (merged_with s newer) = map_of s ++ map_of newer"
  by (simp add: merged_with_def fold_update_lookup snapshot_ok_def)

lemma merged_with_ok:
  assumes "snapshot_ok s" "snapshot_ok newer"
  shows "snapshot_ok (merged_with s newer)"
proof -
  have d: "distinct (map fst (merged_with s newer))"
    by (simp add: merged_with_def fold_update_distinct)
  have "distinct (map fst s)" "distinct (map fst newer)" using assms by (simp_all add: snapshot_ok_def)
  with assms show ?thesis
    by (auto simp: snapshot_ok_lookup [OF d] merged_with_lookup [OF assms] snapshot_ok_lookup map_add_Some_iff)
qed

lemma merged_with_keys:
  assumes "snapshot_ok s" "snapshot_ok newer"
  shows "fst ` set (merged_with s newer) = fst ` set s \<union> fst ` set newer"
  using arg_cong [OF merged_with_lookup [OF assms], of dom] by (simp add: dom_map_of_conv_image_fst Un_commute)

lemma take_references_ok:
  "take_references pj source f refs entries = Inr out \<Longrightarrow> snapshot_ok entries \<Longrightarrow> snapshot_ok out"
proof (induction refs arbitrary: entries)
  case (Cons r refs)
  then obtain v where v: "extract_value pj (fetched_document f) (ref_fragment r) = Inr v"
    and rest: "take_references pj source f refs
      (AList.update (reference_text r) (resolved_new v source (fetched_version f)) entries) = Inr out"
    by (auto simp: result_simps)
  have d: "distinct (map fst entries)" using Cons.prems(2) by (simp add: snapshot_ok_def)
  have "snapshot_ok (AList.update (reference_text r) (resolved_new v source (fetched_version f)) entries)"
    using Cons.prems(2) extract_value_nonblank [OF v] d
    by (auto simp: snapshot_ok_lookup distinct_update update_conv' resolved_new_def split: if_splits)
  from Cons.IH [OF rest this] show ?case .
qed simp

lemma take_documents_ok:
  "take_documents pj ds entries = Inr out \<Longrightarrow> snapshot_ok entries \<Longrightarrow> snapshot_ok out"
  by (induction pj ds entries rule: take_documents.induct) (auto simp: result_simps dest: take_references_ok)

lemma resolve_ok:
  assumes "fst (resolve pj rs values) = Inr snapshot"
  shows "snapshot_ok snapshot"
proof -
  have "snapshot_ok []" by (simp add: snapshot_ok_def)
  with assms show ?thesis
    by (auto simp: resolve_def Let_def dest: take_documents_ok split: sum.splits if_splits)
qed

lemma resolve_keys:
  assumes "fst (resolve pj rs (secret_references c)) = Inr snapshot"
  shows "set (secret_references c) \<subseteq> fst ` set snapshot"
proof
  fix r assume r: "r \<in> set (secret_references c)"
  then have "is_reference (trim r)" by (auto simp: secret_references_def)
  moreover obtain fetched where "resolve pj rs (secret_references c) = (Inr snapshot, fetched)"
    using assms by (cases "resolve pj rs (secret_references c)") simp
  ultimately obtain s where "snapshot_get snapshot (trim r) = Some s"
    using r by (elim resolve_entry) 
  moreover have "trim r = r" using r by (auto simp: secret_references_def)
  ultimately show "r \<in> fst ` set snapshot"
    by (simp add: snapshot_get_def) (metis map_of_SomeD fst_conv image_eqI)
qed

section \<open>The invariant of a run\<close>

lemma with_secrets_references [simp]: "secret_references (with_secrets c s) = secret_references c"
  by (simp add: with_secrets_def secret_references_def configured_values_def)

lemma no_holes_fresh:
  "snapshot_ok s \<Longrightarrow> set (secret_references c) \<subseteq> fst ` set s \<Longrightarrow> no_holes (with_secrets c s)"
  by (simp add: no_holes_def) (simp add: with_secrets_def)

lemma no_holes_attach:
  assumes "snapshot_ok (cfg_secrets (srv_config srv))" "snapshot_ok snapshot"
    and "set (secret_references (srv_config srv)) \<subseteq> fst ` set (cfg_secrets (srv_config srv)) \<union> fst ` set snapshot"
  shows "no_holes (srv_config (attach srv snapshot))"
  using assms by (simp add: attach_def no_holes_fresh merged_with_ok merged_with_keys)

lemma load_no_snapshot:
  "load_from_global_bytes pt sj contents dotenv env = Inr c \<Longrightarrow> cfg_secrets c = []"
  by (auto simp: load_from_global_bytes_def load_from_sources_def Let_def result_simps)

lemma resolve_reloaded_no_holes:
  assumes "resolve_reloaded pj rs c = Inr reloaded" "cfg_secrets c = []"
  shows "no_holes reloaded"
proof (cases "secret_references c = []")
  case True
  with assms show ?thesis by (simp add: resolve_reloaded_def no_holes_def snapshot_ok_def)
next
  case False
  with assms(1) obtain snapshot where "fst (resolve pj rs (secret_references c)) = Inr snapshot" "reloaded = with_secrets c snapshot"
    by (auto simp: resolve_reloaded_def result_simps)
  then show ?thesis using no_holes_fresh [OF resolve_ok resolve_keys] by simp
qed

lemma resolve_startup_no_holes:
  assumes "resolve_startup pj rs srv = Inr started" "cfg_secrets (srv_config srv) = []"
  shows "no_holes (srv_config started)"
proof (cases "secret_references (srv_config srv) = []")
  case True
  with assms show ?thesis by (simp add: resolve_startup_def no_holes_def snapshot_ok_def)
next
  case False
  with assms(1) obtain snapshot where run: "fst (resolve pj rs (secret_references (srv_config srv))) = Inr snapshot"
      and started: "srv_config started = srv_config (attach srv snapshot)"
    by (auto simp: resolve_startup_def Let_def result_simps)
  have "snapshot_ok (cfg_secrets (srv_config srv))" using assms(2) by (simp add: snapshot_ok_def)
  then show ?thesis
    unfolding started by (rule no_holes_attach [OF _ resolve_ok [OF run]]) (use resolve_keys [OF run] in blast)
qed

lemma refresh_ends_no_holes:
  assumes "no_holes (srv_config srv)"
  shows "no_holes (srv_config (refresh_ends pj rs c srv))"
proof -
  have "no_holes (srv_config (attach srv snapshot))" if "fst (resolve pj rs (secret_references c)) = Inr snapshot" for snapshot
    using assms unfolding no_holes_def [of "srv_config srv"]
    by (intro no_holes_attach [OF _ resolve_ok [OF that]]) blast+
  with assms show ?thesis by (simp add: refresh_ends_def split: sum.split)
qed

lemma watch_config_no_holes:
  assumes "no_holes (srv_config srv)"
  shows "no_holes (srv_config (watch_config pj rs i srv))"
  using assms resolve_reloaded_no_holes load_no_snapshot
  by (simp add: watch_config_def Let_def split: sum.split)

lemma resolve_default_workspace_frame:
  "srv_config (snd (resolve_default_workspace answer c srv)) = srv_config srv"
  "srv_refresher (snd (resolve_default_workspace answer c srv)) = srv_refresher srv"
  "srv_refreshing (snd (resolve_default_workspace answer c srv)) = srv_refreshing srv"
  "srv_degraded (snd (resolve_default_workspace answer c srv)) = srv_degraded srv"
  by (simp_all add: resolve_default_workspace_def split: option.split sum.split)

lemma watch_config_frame:
  "srv_refresher (watch_config pj rs i srv) = srv_refresher srv"
  "srv_refreshing (watch_config pj rs i srv) = srv_refreshing srv"
  "srv_degraded (watch_config pj rs i srv) = srv_degraded srv"
  by (simp_all add: watch_config_def Let_def split: sum.split)

lemma refresher_wakes_config: "refresher_wakes now early srv = Some woken \<Longrightarrow> srv_config woken = srv_config srv"
  by (auto simp: refresher_wakes_def split: if_splits)

lemma server_step_no_holes: "server_step pj srv srv' \<Longrightarrow> no_holes (srv_config srv) \<Longrightarrow> no_holes (srv_config srv')"
  by (induction rule: server_step.induct)
    (simp_all add: refresh_begins_def refresher_wakes_config refresh_ends_no_holes watch_config_no_holes resolve_default_workspace_frame)

lemma server_run_no_holes: "server_run pj srv srv' \<Longrightarrow> no_holes (srv_config srv) \<Longrightarrow> no_holes (srv_config srv')"
  by (induction rule: rtranclp_induct) (auto intro: server_step_no_holes)

lemma no_holes_get_for:
  assumes "no_holes c" "raw_for c vendor key = Some raw" "is_reference (trim raw)"
  shows "\<exists>s. snapshot_get (cfg_secrets c) (trim raw) = Some s
    \<and> get_for c vendor key = Some (resolved_value s) \<and> trim (resolved_value s) \<noteq> []"
proof -
  have "trim raw \<in> set (secret_references c)"
    using assms(3) raw_for_listed [OF assms(2)] by (simp add: secret_references_def)
  with assms(1) have "trim raw \<in> fst ` set (cfg_secrets c)" by (auto simp: no_holes_def)
  then obtain s where s: "map_of (cfg_secrets c) (trim raw) = Some s"
    by (metis weak_map_of_SomeI imageE prod.collapse)
  then have "trim (resolved_value s) \<noteq> []"
    using assms(1) map_of_SomeD [OF s] by (auto simp: no_holes_def snapshot_ok_def list_all_iff)
  with s assms(2,3) show ?thesis by (simp add: snapshot_get_def get_for_def) (simp add: expand_def snapshot_get_def)
qed

definition no_refresher :: "secret_server \<Rightarrow> bool" where
  "no_refresher srv \<longleftrightarrow> srv_refresher srv = None \<and> srv_refreshing srv = None \<and> srv_degraded srv = None"

lemma no_refresher_step: "server_step pj srv srv' \<Longrightarrow> no_refresher srv \<Longrightarrow> no_refresher srv'"
  by (induction rule: server_step.induct)
    (simp_all add: no_refresher_def watch_config_frame resolve_default_workspace_frame)

lemma no_refresher_run: "server_run pj srv srv' \<Longrightarrow> no_refresher srv \<Longrightarrow> no_refresher srv'"
  by (induction rule: rtranclp_induct) (auto dest: no_refresher_step)

lemma watch_config_same_bytes:
  "srv_contents (watch_config pj rs i srv) = srv_contents srv \<Longrightarrow> srv_config (watch_config pj rs i srv) = srv_config srv"
  by (auto simp: watch_config_def Let_def split: sum.splits if_splits)

lemma no_refresher_config:
  "server_step pj srv srv' \<Longrightarrow> no_refresher srv \<Longrightarrow> srv_contents srv' = srv_contents srv \<Longrightarrow> srv_config srv' = srv_config srv"
  by (induction rule: server_step.induct)
    (simp_all add: no_refresher_def watch_config_same_bytes resolve_default_workspace_frame)

section \<open>Properties\<close>

text \<open>C22. A server that started never reads a secret reference as its own text: whatever refreshes,
  failed refreshes, reloads and requests interleave, whichever way the providers answer, every
  configured reference of the configuration in force has a resolved value that is not blank, and that
  value is what a lookup returns.\<close>

theorem no_credential_holes:
  assumes "cfg_secrets c = []" and "resolve_startup pj rs (server_new c contents) = Inr started"
    and "server_run pj started srv"
    and "raw_for (srv_config srv) vendor key = Some raw" "is_reference (trim raw)"
  shows "\<exists>s. snapshot_get (cfg_secrets (srv_config srv)) (trim raw) = Some s
    \<and> get_for (srv_config srv) vendor key = Some (resolved_value s) \<and> trim (resolved_value s) \<noteq> []"
proof (rule no_holes_get_for [OF _ assms(4,5)])
  have "no_holes (srv_config started)"
    using resolve_startup_no_holes [OF assms(2)] assms(1) by (simp add: server_new_def)
  with assms(3) show "no_holes (srv_config srv)" by (rule server_run_no_holes)
qed

definition sample_watch :: watch_input where
  "sample_watch =
     \<lparr>in_disk = Inr None, in_parse_text = (\<lambda>_. Inl ''unused''), in_show_json = (\<lambda>_. None), in_dotenv = None,
      in_process_env = [(''EMAIL'', ''file:///atlassian#email'')], in_panics = False\<rparr>"

definition sample_server :: secret_server where
  "sample_server = server_new (from_map []) (Some ''{}'')"

definition sample_reloaded :: secret_server where
  "sample_reloaded = watch_config sample_object_json sample_resolver sample_watch sample_server"

lemma sample_runs:
  "cfg_secrets (from_map []) = []" "secret_references (from_map []) = []"
  "resolve_startup sample_object_json sample_resolver (server_new (from_map []) (Some ''{}'')) = Inr sample_server"
  "server_run sample_object_json sample_server sample_reloaded"
  "raw_for (srv_config sample_reloaded) ''jira'' ''EMAIL'' = Some ''file:///atlassian#email''"
  "is_reference (trim ''file:///atlassian#email'')" "trim ''file:///atlassian#email'' = ''file:///atlassian#email''"
  "\<not> isl (fst (resolve sample_object_json sample_resolver (secret_references (srv_config sample_reloaded))))"
  "secret_references (srv_config sample_reloaded) = [''file:///atlassian#email'']"
proof -
  show "server_run sample_object_json sample_server sample_reloaded"
    unfolding sample_reloaded_def by (rule r_into_rtranclp) (rule config_watched)
qed (simp add: from_map_def, code_simp+)

theorem no_credential_holes_witness:
  "\<exists>s :: resolved_secret. get_for (srv_config sample_reloaded) ''jira'' ''EMAIL'' = Some (resolved_value s) \<and> trim (resolved_value s) \<noteq> []"
  using no_credential_holes [OF sample_runs(1,3,4,5,6)] by (elim exE conjE) (rule exI, rule conjI, assumption, assumption)

text \<open>C34. A refresh of the configuration in force is all or nothing. When every reference resolves,
  each one reads as the new answer and the health signal is clear, changed or not; when one does
  not, the whole configuration stays as it was and the health signal names the category of the
  failure.\<close>

theorem refresh_all_or_nothing:
  assumes "no_holes (srv_config srv)" and "r \<in> set (secret_references (srv_config srv))"
  shows "case fst (resolve pj rs (secret_references (srv_config srv))) of
      Inr snapshot \<Rightarrow>
        srv_degraded (refresh_ends pj rs (srv_config srv) srv) = None
        \<and> snapshot_get (cfg_secrets (srv_config (refresh_ends pj rs (srv_config srv) srv))) r = snapshot_get snapshot r
        \<and> snapshot_get snapshot r \<noteq> None
    | Inl e \<Rightarrow>
        srv_config (refresh_ends pj rs (srv_config srv) srv) = srv_config srv
        \<and> srv_degraded (refresh_ends pj rs (srv_config srv) srv) = Some (cause_category (sre_cause e))"
proof (cases "fst (resolve pj rs (secret_references (srv_config srv)))")
  case (Inl e)
  with assms(2) show ?thesis by (auto simp: refresh_ends_def)
next
  case (Inr snapshot)
  have ne: "secret_references (srv_config srv) \<noteq> []" using assms(2) by auto
  have ok: "snapshot_ok (cfg_secrets (srv_config srv))" using assms(1) by (simp add: no_holes_def)
  from resolve_keys [OF Inr] assms(2) have "r \<in> fst ` set snapshot" by blast
  then obtain s where s: "map_of snapshot r = Some s" by (metis weak_map_of_SomeI imageE prod.collapse)
  show ?thesis
  proof (cases "differs_from (cfg_secrets (srv_config srv)) snapshot")
    case True
    have "map_of (merged_with (cfg_secrets (srv_config srv)) snapshot) r = Some s"
      using s by (simp add: merged_with_lookup [OF ok resolve_ok [OF Inr]])
    with True ne s Inr show ?thesis by (simp add: refresh_ends_def attach_def snapshot_get_def) (simp add: with_secrets_def)
  next
    case False
    then have "map_of (cfg_secrets (srv_config srv)) r = Some s"
      using map_of_SomeD [OF s] by (auto simp: differs_from_def list_ex_iff snapshot_get_def)
    with False ne s Inr show ?thesis by (simp add: refresh_ends_def snapshot_get_def)
  qed
qed

theorem refresh_all_or_nothing_witness:
  "\<exists>snapshot. snapshot_get (cfg_secrets (srv_config
      (refresh_ends sample_object_json sample_resolver (srv_config sample_reloaded) sample_reloaded))) ''file:///atlassian#email''
    = snapshot_get snapshot ''file:///atlassian#email'' \<and> snapshot_get snapshot ''file:///atlassian#email'' \<noteq> None"
proof -
  have "no_holes (srv_config sample_reloaded)" "''file:///atlassian#email'' \<in> set (secret_references (srv_config sample_reloaded))"
    by code_simp+
  note outcome = refresh_all_or_nothing [OF this, of sample_object_json sample_resolver]
  obtain snapshot where run: "fst (resolve sample_object_json sample_resolver (secret_references (srv_config sample_reloaded))) = Inr snapshot"
    using sample_runs(8) by (cases "fst (resolve sample_object_json sample_resolver (secret_references (srv_config sample_reloaded)))") simp_all
  from outcome [unfolded run sum.case] show ?thesis by (elim conjE) (rule exI, rule conjI, assumption, assumption)
qed

text \<open>C40. The refresher is spawned at startup or never. When the configuration holds no secret reference
  at startup, the values in force afterwards change only in a step of the watcher that meets other
  bytes of the configuration file than it saw last. A reference that a reload introduces therefore
  keeps the value of that reload for as long as the file stays the same, however often the provider
  rotates it, and the health signal never reports it.\<close>

theorem late_references_frozen:
  assumes "secret_references c = []" and "resolve_startup pj rs (server_new c contents) = Inr started"
    and "server_run pj started srv" and "server_step pj srv srv'"
  shows "srv_degraded srv' = None \<and> (srv_contents srv' = srv_contents srv \<longrightarrow> srv_config srv' = srv_config srv)"
proof -
  have idle: "no_refresher started" using assms(1,2) by (auto simp: resolve_startup_def server_new_def no_refresher_def)
  note srv = no_refresher_run [OF assms(3) idle]
  from no_refresher_run [OF r_into_rtranclp [of "server_step pj", OF assms(4)] srv]
  have "srv_degraded srv' = None" by (simp add: no_refresher_def)
  with no_refresher_config [OF assms(4) srv] show ?thesis by blast
qed

definition sample_unchanged :: watch_input where
  "sample_unchanged = sample_watch\<lparr>in_disk := Inr (srv_contents sample_reloaded)\<rparr>"

theorem late_references_frozen_witness:
  "secret_references (srv_config sample_reloaded) = [''file:///atlassian#email'']
    \<and> (\<forall>rs :: secret_resolver. srv_config (watch_config sample_object_json rs sample_unchanged sample_reloaded) = srv_config sample_reloaded)"
proof (intro conjI allI)
  fix rs :: secret_resolver
  have same: "srv_contents (watch_config sample_object_json rs sample_unchanged sample_reloaded) = srv_contents sample_reloaded"
    by (simp add: watch_config_def sample_unchanged_def Let_def split: sum.split)
  from late_references_frozen [OF sample_runs(2,3,4) config_watched] same
  show "srv_config (watch_config sample_object_json rs sample_unchanged sample_reloaded) = srv_config sample_reloaded"
    by blast
qed (rule sample_runs(9))

end
