(* ===== verification/Oidc.thy ===== *)
theory Oidc
  imports Inbound_Auth Config
begin

text \<open>
  The token validator of the enterprise mode, \<^verbatim>\<open>src/auth/oidc.rs\<close>, with the actor chain it reads
  from \<^verbatim>\<open>src/auth/ema.rs\<close>: settings and provider profiles, the fetch and admission of signing keys,
  the cache of validated tokens, and the mapping of claims to a principal. The JWT library, SHA-256,
  the parsers of URLs and of the two JSON documents, the network and the file are arguments. Time is
  in nanoseconds; the clock of the JWT library is the same clock in whole seconds.
\<close>

section \<open>Libraries\<close>

record jwt_header =
  jh_alg :: string
  jh_typ :: "string option"
  jh_kid :: "string option"

datatype jwt_error =
    ExpiredSignature | ImmatureSignature | InvalidIssuer | InvalidAudience | JwtInvalidSignature
  | InvalidAlgorithm | InvalidAlgorithmName | MissingRequiredClaim string | OtherJwtError

record jwt_validation =
  jv_issuers :: "string list"
  jv_audience :: "string list"
  jv_required :: "string list"
  jv_validate_nbf :: bool
  jv_leeway :: nat

datatype jwk_parameters = RsaParameters string string | OtherParameters

record jwk =
  jwk_kid :: "string option"
  jwk_parameters :: jwk_parameters
  jwk_use :: "string option"
  jwk_alg :: "string option"

type_synonym json_object = "(string \<times> json) list"

text \<open>The claims the validator reads, the rest of the token in \<open>cl_rest\<close>.\<close>

record claims =
  cl_exp :: "nat option"
  cl_iat :: "nat option"
  cl_jti :: "string option"
  cl_scp :: "string list"
  cl_scope :: "string list"
  cl_rest :: json_object

record discovery =
  dc_issuer :: "string option"
  dc_jwks_uri :: "string option"
  dc_authorization_endpoint :: "string option"
  dc_token_endpoint :: "string option"

record oidc_libs =
  ol_decode_header :: "string \<Rightarrow> jwt_header option"
  ol_decode :: "(json_object \<Rightarrow> claims option) \<Rightarrow> jwt_validation \<Rightarrow> nat \<Rightarrow> string \<Rightarrow> string \<Rightarrow> jwt_error + claims"
  ol_from_jwk :: "jwk \<Rightarrow> string option"
  ol_sha256 :: "string \<Rightarrow> string"
  ol_parse_jwks :: "string \<Rightarrow> jwk list option"
  ol_parse_discovery :: "string \<Rightarrow> discovery option"
  ol_parse_url :: "string \<Rightarrow> string + parsed_url"
  ol_host_str :: "parsed_url \<Rightarrow> string option"
  ol_debug :: "string \<Rightarrow> string"

section \<open>Profiles\<close>

definition PROFILE_KEY :: string where "PROFILE_KEY = ''MCP_OIDC_PROFILE''"
definition SUBJECT_CLAIM_KEY :: string where "SUBJECT_CLAIM_KEY = ''MCP_OIDC_SUBJECT_CLAIM''"
definition TENANT_KEY :: string where "TENANT_KEY = ''MCP_TENANT''"
definition MACHINE_CLAIM_KEY :: string where "MACHINE_CLAIM_KEY = ''MCP_OIDC_MACHINE_CLAIM''"
definition HUMAN_CLAIM_KEY :: string where "HUMAN_CLAIM_KEY = ''MCP_OIDC_HUMAN_CLAIM''"
definition DEFAULT_CLOCK_SKEW :: nat where "DEFAULT_CLOCK_SKEW = 60"
definition MAX_CLOCK_SKEW :: nat where "MAX_CLOCK_SKEW = 5 * 60"
definition NANOS :: nat where "NANOS = 1000000000"
definition VALIDATED_TTL :: nat where "VALIDATED_TTL = 5 * 60"
definition VALIDATED_CAPACITY :: nat where "VALIDATED_CAPACITY = 4096"
definition JWKS_MAX_BYTES :: nat where "JWKS_MAX_BYTES = 256 * 1024"
definition DISCOVERY_MAX_BYTES :: nat where "DISCOVERY_MAX_BYTES = 64 * 1024"

datatype profile = Okta | Entra | Keycloak | Auth0 | Generic

definition profile_parse :: "(string \<Rightarrow> string) \<Rightarrow> string \<Rightarrow> string + profile" where
  "profile_parse debug raw =
     (let raw = trim raw in
      if eq_ignore_ascii_case raw ''okta'' then Inr Okta
      else if eq_ignore_ascii_case raw ''entra'' then Inr Entra
      else if eq_ignore_ascii_case raw ''keycloak'' then Inr Keycloak
      else if eq_ignore_ascii_case raw ''auth0'' then Inr Auth0
      else if eq_ignore_ascii_case raw ''generic'' then Inr Generic
      else Inl (PROFILE_KEY @ '' is '' @ debug raw @ ''; expected one of okta, entra, keycloak, auth0, generic''))"

fun profile_name :: "profile \<Rightarrow> string" where
  "profile_name Okta = ''okta''"
| "profile_name Entra = ''entra''"
| "profile_name Keycloak = ''keycloak''"
| "profile_name Auth0 = ''auth0''"
| "profile_name Generic = ''generic''"

datatype jwks_location = JwksDirect string | JwksFile string | JwksDiscovery string

fun jwks_url :: "jwks_location \<Rightarrow> string" where
  "jwks_url (JwksDirect url) = url"
| "jwks_url (JwksDiscovery url) = url"
| "jwks_url (JwksFile path) = path"

fun default_jwks :: "profile \<Rightarrow> string \<Rightarrow> jwks_location" where
  "default_jwks Okta issuer = JwksDirect (issuer @ ''/v1/keys'')"
| "default_jwks Keycloak issuer = JwksDirect (issuer @ ''/protocol/openid-connect/certs'')"
| "default_jwks Auth0 issuer = JwksDirect (issuer @ ''/.well-known/jwks.json'')"
| "default_jwks Entra issuer = JwksDiscovery (issuer @ ''/.well-known/openid-configuration'')"
| "default_jwks Generic issuer = JwksDiscovery (issuer @ ''/.well-known/openid-configuration'')"

fun default_subject_claim :: "profile \<Rightarrow> string" where
  "default_subject_claim Entra = ''oid''"
| "default_subject_claim _ = ''sub''"

fun default_groups_claim :: "profile \<Rightarrow> string option" where
  "default_groups_claim Auth0 = None"
| "default_groups_claim _ = Some ''groups''"

fun normalise_group :: "profile \<Rightarrow> string \<Rightarrow> string" where
  "normalise_group Keycloak v = (case strip_prefix ''/'' v of Some rest \<Rightarrow> rest | None \<Rightarrow> v)"
| "normalise_group _ v = v"

definition profile_distinguishes_machines :: "profile \<Rightarrow> bool" where
  "profile_distinguishes_machines p \<longleftrightarrow> p \<noteq> Generic"

definition claim_present :: "json_object \<Rightarrow> string \<Rightarrow> bool" where
  "claim_present rest name = (case map_of rest name of Some v \<Rightarrow> v \<noteq> JNull | None \<Rightarrow> False)"

definition claim_equals :: "json_object \<Rightarrow> string \<Rightarrow> string \<Rightarrow> bool" where
  "claim_equals rest name expected \<longleftrightarrow> Option.bind (map_of rest name) as_str = Some expected"

definition profile_subject_kind :: "profile \<Rightarrow> json_object \<Rightarrow> subject_kind" where
  "profile_subject_kind p rest =
     (case p of
        Okta \<Rightarrow> if claim_present rest ''uid'' then Human else if claim_present rest ''cid'' then Machine else UnknownKind
      | Entra \<Rightarrow>
          if claim_equals rest ''idtyp'' ''app'' then Machine
          else if claim_equals rest ''idtyp'' ''user'' then Human else UnknownKind
      | Auth0 \<Rightarrow> if claim_equals rest ''gty'' ''client-credentials'' then Machine else UnknownKind
      | Keycloak \<Rightarrow>
          if list_ex (claim_present rest) [''clientId'', ''client_id'', ''clientHost'', ''clientAddress''] then Machine
          else UnknownKind
      | Generic \<Rightarrow> UnknownKind)"

section \<open>Claims by name\<close>

fun claim_path :: "json \<Rightarrow> string list \<Rightarrow> json option" where
  "claim_path current [] = Some current"
| "claim_path current (segment # segments) =
     Option.bind (as_object current) (\<lambda>fields.
     Option.bind (map_of fields segment) (\<lambda>next_value. claim_path next_value segments))"

definition lookup_claim :: "json_object \<Rightarrow> string \<Rightarrow> json option" where
  "lookup_claim rest name =
     (case map_of rest name of
        Some v \<Rightarrow> Some v
      | None \<Rightarrow>
          (case split_char CHR ''.'' name of
             [] \<Rightarrow> None
           | first # segments \<Rightarrow> Option.bind (map_of rest first) (\<lambda>current. claim_path current segments)))"

record claim_match =
  cm_name :: string
  cm_value :: "string option"

definition claim_match_parse :: "(string \<Rightarrow> string) \<Rightarrow> string \<Rightarrow> string \<Rightarrow> string + claim_match" where
  "claim_match_parse debug key raw =
     (let raw = trim raw;
          (name, v) = (case split_once CHR ''='' raw of Some (n, v) \<Rightarrow> (trim n, Some (trim v)) | None \<Rightarrow> (raw, None))
      in if name = [] then Inl (key @ '' must name a claim (`name`, or `name=value`), got '' @ debug raw)
         else if v = Some [] then Inl (key @ '' is '' @ debug raw
           @ '': a value after `=` must not be empty (drop the `=` to                  match on presence alone)'')
         else Inr \<lparr>cm_name = name, cm_value = v\<rparr>)"

definition claim_matches :: "claim_match \<Rightarrow> json_object \<Rightarrow> bool" where
  "claim_matches m rest =
     (case lookup_claim rest (cm_name m) of
        None \<Rightarrow> False
      | Some found \<Rightarrow>
          (case (cm_value m, found) of
             (_, JNull) \<Rightarrow> False
           | (None, _) \<Rightarrow> True
           | (Some expected, JString actual) \<Rightarrow> actual = expected
           | (Some expected, JBool actual) \<Rightarrow> expected = (if actual then ''true'' else ''false'')
           | (Some _, _) \<Rightarrow> False))"

section \<open>Settings\<close>

record oidc_settings =
  os_profile :: profile
  os_issuer :: string
  os_audience :: string
  os_jwks :: jwks_location
  os_subject_claim :: string
  os_groups_claim :: "string option"
  os_clock_skew :: nat
  os_tenant :: string
  os_jwks_refresh :: nat
  os_jwks_min_refetch_interval :: nat
  os_machine_claim :: "claim_match option"
  os_human_claim :: "claim_match option"

definition oidc_optional :: "configuration \<Rightarrow> string \<Rightarrow> string option" where
  "oidc_optional c key =
     (case map_option trim (get c key) of Some v \<Rightarrow> if v \<noteq> [] then Some v else None | None \<Rightarrow> None)"

definition oidc_required :: "configuration \<Rightarrow> oidc_keys \<Rightarrow> string \<Rightarrow> string + string" where
  "oidc_required c keys key =
     ok_or (key @ '' is required when MCP_AUTH_MODE='' @ oidc_mode keys) (oidc_optional c key)"

definition require_https_unless_loopback :: "parsed_url \<Rightarrow> string \<Rightarrow> string + unit" where
  "require_https_unless_loopback url key =
     (if url_scheme url = ''https'' then Inr ()
      else if url_scheme url = ''http'' \<and> url_loopback url then Inr ()
      else Inl (key @ '' must be an https URL (or http on loopback): tokens are only as trustworthy as the channel their keys arrive over''))"

definition jwks_from_config ::
  "oidc_libs \<Rightarrow> configuration \<Rightarrow> oidc_keys \<Rightarrow> profile \<Rightarrow> string \<Rightarrow> string + jwks_location" where
  "jwks_from_config libs c keys p issuer =
     (case oidc_optional c ''MCP_OIDC_JWKS_FILE'' of
        Some path \<Rightarrow>
          if keys \<noteq> OidcKeys \<or> oidc_optional c (oidc_jwks_url keys) \<noteq> None
          then Inl ''MCP_OIDC_JWKS_FILE requires oidc mode and excludes MCP_OIDC_JWKS_URL''
          else Inr (JwksFile path)
      | None \<Rightarrow>
          (let location = (case oidc_optional c (oidc_jwks_url keys) of
               Some url \<Rightarrow> JwksDirect url | None \<Rightarrow> default_jwks p issuer)
           in and_then (map_err (\<lambda>e. oidc_jwks_url keys @ '' is not a URL: '' @ e) (ol_parse_url libs (jwks_url location)))
             (\<lambda>parsed. and_then (require_https_unless_loopback parsed (oidc_jwks_url keys)) (\<lambda>_. Inr location))))"

definition clock_skew_from_config :: "(string \<Rightarrow> string) \<Rightarrow> configuration \<Rightarrow> oidc_keys \<Rightarrow> string + nat" where
  "clock_skew_from_config debug c keys =
     (let key = oidc_clock_skew_seconds keys in
      case oidc_optional c key of
        None \<Rightarrow> Inr DEFAULT_CLOCK_SKEW
      | Some raw \<Rightarrow>
          (case parse_u64 raw of
             None \<Rightarrow> Inl (key @ '' must be a whole number of seconds, got '' @ debug raw)
           | Some seconds \<Rightarrow>
               if MAX_CLOCK_SKEW < seconds
               then Inl (key @ '' is '' @ dec_string seconds @ ''s; more than '' @ dec_string MAX_CLOCK_SKEW
                 @ ''s of skew is a clock problem to fix, not a tolerance to configure'')
               else Inr seconds))"

definition marker_from_config ::
  "(string \<Rightarrow> string) \<Rightarrow> configuration \<Rightarrow> oidc_keys \<Rightarrow> string \<Rightarrow> string + claim_match option" where
  "marker_from_config debug c keys key =
     (case keys of
        OktaKeys \<Rightarrow> Inr None
      | OidcKeys \<Rightarrow>
          (case oidc_optional c key of
             None \<Rightarrow> Inr None
           | Some raw \<Rightarrow> and_then (claim_match_parse debug key raw) (\<lambda>m. Inr (Some m))))"

definition oidc_from_config :: "oidc_libs \<Rightarrow> configuration \<Rightarrow> oidc_keys \<Rightarrow> string + oidc_settings" where
  "oidc_from_config libs c keys =
     (case find (\<lambda>key. oidc_optional c key \<noteq> None) (oidc_all (oidc_other keys)) of
        Some stray \<Rightarrow>
          Inl (stray @ '' is set but MCP_AUTH_MODE='' @ oidc_mode keys @ '' reads ''
            @ (case strip_suffix ''_ISSUER'' (Config.oidc_issuer keys) of Some p \<Rightarrow> p | None \<Rightarrow> Config.oidc_issuer keys)
            @ ''_* keys only; a deployment configures one key family so that which issuer is in force is never a question (unset it, or switch MCP_AUTH_MODE to ''
            @ oidc_mode (oidc_other keys) @ '')'')
      | None \<Rightarrow>
          and_then (case keys of
              OktaKeys \<Rightarrow> Inr Okta
            | OidcKeys \<Rightarrow> and_then (oidc_required c keys PROFILE_KEY) (profile_parse (ol_debug libs))) (\<lambda>p.
          and_then (oidc_required c keys (Config.oidc_issuer keys)) (\<lambda>raw_issuer.
          let issuer = trim_end_matches CHR ''/'' raw_issuer in
          and_then (map_err (\<lambda>e. Config.oidc_issuer keys @ '' is not a URL: '' @ e) (ol_parse_url libs issuer)) (\<lambda>parsed.
          and_then (require_https_unless_loopback parsed (Config.oidc_issuer keys)) (\<lambda>_.
          and_then (ok_or (Config.oidc_issuer keys @ '' has no host'') (ol_host_str libs parsed)) (\<lambda>host.
          and_then (oidc_required c keys (oidc_audience keys)) (\<lambda>audience.
          and_then (jwks_from_config libs c keys p issuer) (\<lambda>jwks.
          and_then (clock_skew_from_config (ol_debug libs) c keys) (\<lambda>skew.
          and_then (marker_from_config (ol_debug libs) c keys MACHINE_CLAIM_KEY) (\<lambda>machine.
          and_then (marker_from_config (ol_debug libs) c keys HUMAN_CLAIM_KEY) (\<lambda>human.
          Inr \<lparr>os_profile = p, os_issuer = issuer, os_audience = audience, os_jwks = jwks,
               os_subject_claim =
                 (case (case keys of OktaKeys \<Rightarrow> None | OidcKeys \<Rightarrow> oidc_optional c SUBJECT_CLAIM_KEY) of
                    Some claim \<Rightarrow> claim | None \<Rightarrow> default_subject_claim p),
               os_groups_claim =
                 (case oidc_optional c (oidc_groups_claim keys) of
                    Some claim \<Rightarrow> Some claim | None \<Rightarrow> default_groups_claim p),
               os_clock_skew = skew,
               os_tenant = (case oidc_optional c TENANT_KEY of Some t \<Rightarrow> t | None \<Rightarrow> host),
               os_jwks_refresh = 10 * 60 * NANOS, os_jwks_min_refetch_interval = 30 * NANOS,
               os_machine_claim = machine, os_human_claim = human\<rparr>)))))))))))"

definition settings_subject_kind :: "oidc_settings \<Rightarrow> json_object \<Rightarrow> subject_kind" where
  "settings_subject_kind s rest =
     (let p = profile_subject_kind (os_profile s) rest in
      if p = Machine \<or> (case os_machine_claim s of Some m \<Rightarrow> claim_matches m rest | None \<Rightarrow> False) then Machine
      else if (case os_human_claim s of Some m \<Rightarrow> claim_matches m rest | None \<Rightarrow> False) then Human
      else p)"

definition distinguishes_machines :: "oidc_settings \<Rightarrow> bool" where
  "distinguishes_machines s \<longleftrightarrow> profile_distinguishes_machines (os_profile s) \<or> os_machine_claim s \<noteq> None"

section \<open>Documents over the network\<close>

datatype http_failure = Timeout | ConnectionFailed | ErrorStatus | BodyError | RequestError

fun redacted_transport_error :: "http_failure \<Rightarrow> string" where
  "redacted_transport_error Timeout = ''timeout''"
| "redacted_transport_error ConnectionFailed = ''connection failed''"
| "redacted_transport_error ErrorStatus = ''http error status''"
| "redacted_transport_error BodyError = ''body error''"
| "redacted_transport_error RequestError = ''request error''"

text \<open>An answer is a failure, or a status, the declared length and the chunks of the body, a \<open>None\<close>
  being a read that fails.\<close>

datatype http_answer = HttpFailed http_failure | HttpAnswered nat "nat option" "string option list"

fun read_chunks :: "nat \<Rightarrow> string \<Rightarrow> string option list \<Rightarrow> string \<Rightarrow> string + string" where
  "read_chunks max_bytes what [] bytes = Inr bytes"
| "read_chunks max_bytes what (None # chunks) bytes = Inl (what @ '' body could not be read'')"
| "read_chunks max_bytes what (Some chunk # chunks) bytes =
     (if max_bytes < length bytes + length chunk then Inl (what @ '' document too large'')
      else read_chunks max_bytes what chunks (bytes @ chunk))"

definition fetch_bounded :: "(string \<Rightarrow> http_answer) \<Rightarrow> string \<Rightarrow> nat \<Rightarrow> string \<Rightarrow> string + string" where
  "fetch_bounded net url max_bytes what =
     (case net url of
        HttpFailed e \<Rightarrow> Inl (what @ '' fetch failed: '' @ redacted_transport_error e)
      | HttpAnswered code content_length chunks \<Rightarrow>
          if code < 200 \<or> 300 \<le> code then Inl (what @ '' fetch returned HTTP '' @ dec_string code)
          else if (case content_length of Some n \<Rightarrow> max_bytes < n | None \<Rightarrow> False)
          then Inl (what @ '' document too large'')
          else read_chunks max_bytes what chunks [])"

definition discovered_issuer :: "discovery \<Rightarrow> string \<Rightarrow> string + unit" where
  "discovered_issuer document issuer =
     and_then (ok_or ''discovery document names no issuer'' (dc_issuer document)) (\<lambda>named.
       if trim_end_matches CHR ''/'' named \<noteq> issuer
       then Inl ''discovery document names a different issuer than the one configured'' else Inr ())"

definition discover :: "oidc_libs \<Rightarrow> oidc_settings \<Rightarrow> (string \<Rightarrow> http_answer) \<Rightarrow> string \<Rightarrow> string + string" where
  "discover libs s net discovery_url =
     and_then (fetch_bounded net discovery_url DISCOVERY_MAX_BYTES ''discovery'') (\<lambda>bytes.
     and_then (ok_or ''discovery document is not valid'' (ol_parse_discovery libs bytes)) (\<lambda>document.
     and_then (discovered_issuer document (os_issuer s)) (\<lambda>_.
     and_then (ok_or ''discovery document names no jwks_uri'' (dc_jwks_uri document)) (\<lambda>jwks_uri.
     and_then (map_err (\<lambda>_. ''discovery document's jwks_uri is not a URL'') (ol_parse_url libs jwks_uri)) (\<lambda>parsed.
     and_then (require_https_unless_loopback parsed ''the discovery document's jwks_uri'') (\<lambda>_. Inr jwks_uri))))))"

definition discovered_endpoint :: "oidc_libs \<Rightarrow> string option \<Rightarrow> string \<Rightarrow> string + string" where
  "discovered_endpoint libs v name =
     and_then (ok_or (''discovery document names no '' @ name) v) (\<lambda>url.
     and_then (map_err (\<lambda>_. ''discovery document's '' @ name @ '' is not a URL'') (ol_parse_url libs url)) (\<lambda>parsed.
     and_then (require_https_unless_loopback parsed (''the discovery document's '' @ name)) (\<lambda>_. Inr url)))"

definition discover_endpoints :: "oidc_libs \<Rightarrow> (string \<Rightarrow> http_answer) \<Rightarrow> string \<Rightarrow> string + string \<times> string" where
  "discover_endpoints libs net raw_issuer =
     (let issuer = trim_end_matches CHR ''/'' raw_issuer in
      and_then (fetch_bounded net (issuer @ ''/.well-known/openid-configuration'') DISCOVERY_MAX_BYTES ''discovery'') (\<lambda>bytes.
      and_then (ok_or ''discovery document is not valid'' (ol_parse_discovery libs bytes)) (\<lambda>document.
      and_then (discovered_issuer document issuer) (\<lambda>_.
      and_then (discovered_endpoint libs (dc_authorization_endpoint document) ''authorization_endpoint'') (\<lambda>authorization.
      and_then (discovered_endpoint libs (dc_token_endpoint document) ''token_endpoint'') (\<lambda>token.
      Inr (authorization, token)))))))"

section \<open>Signing keys\<close>

record admitted_key =
  ak_key :: string
  ak_fingerprint :: string

type_synonym key_table = "(string \<times> admitted_key) list"

definition is_rs256_signing_key :: "jwk \<Rightarrow> bool" where
  "is_rs256_signing_key k \<longleftrightarrow>
     (case jwk_parameters k of RsaParameters _ _ \<Rightarrow> True | OtherParameters \<Rightarrow> False)
     \<and> (case jwk_use k of None \<Rightarrow> True | Some purpose \<Rightarrow> purpose = ''sig'')
     \<and> (case jwk_alg k of None \<Rightarrow> True | Some algorithm \<Rightarrow> algorithm = ''RS256'')"

definition fingerprint_of :: "(string \<Rightarrow> string) \<Rightarrow> jwk \<Rightarrow> string option" where
  "fingerprint_of sha256 k =
     (case jwk_parameters k of
        RsaParameters n e \<Rightarrow> Some (sha256 (n @ CHR 0x00 # e))
      | OtherParameters \<Rightarrow> None)"

definition admissible :: "oidc_libs \<Rightarrow> jwk \<Rightarrow> (string \<times> admitted_key) option" where
  "admissible libs k =
     (case jwk_kid k of
        None \<Rightarrow> None
      | Some kid \<Rightarrow>
          if \<not> is_rs256_signing_key k then None
          else (case (ol_from_jwk libs k, fingerprint_of (ol_sha256 libs) k) of
              (Some key, Some fingerprint) \<Rightarrow> Some (kid, \<lparr>ak_key = key, ak_fingerprint = fingerprint\<rparr>)
            | _ \<Rightarrow> None))"

fun admit_loop :: "oidc_libs \<Rightarrow> jwk list \<Rightarrow> key_table \<Rightarrow> string list \<Rightarrow> key_table \<times> string list" where
  "admit_loop libs [] keys ambiguous = (keys, ambiguous)"
| "admit_loop libs (k # ks) keys ambiguous =
     (case admissible libs k of
        None \<Rightarrow> admit_loop libs ks keys ambiguous
      | Some (kid, admitted) \<Rightarrow>
          admit_loop libs ks (AList.update kid admitted keys)
            (if map_of keys kid = None then ambiguous else ambiguous @ [kid]))"

definition admit_keys :: "oidc_libs \<Rightarrow> jwk list \<Rightarrow> key_table" where
  "admit_keys libs set_keys =
     (case admit_loop libs set_keys [] [] of (keys, ambiguous) \<Rightarrow> fold AList.delete ambiguous keys)"

definition fetch_jwks :: "oidc_libs \<Rightarrow> (string \<Rightarrow> http_answer) \<Rightarrow> string \<Rightarrow> string + string" where
  "fetch_jwks libs net url =
     and_then (map_err (\<lambda>_. ''JWKS URL is invalid'') (ol_parse_url libs url)) (\<lambda>parsed.
     and_then (require_https_unless_loopback parsed ''JWKS URL'') (\<lambda>_.
     and_then (fetch_bounded net url JWKS_MAX_BYTES ''JWKS'') (\<lambda>bytes.
     and_then (ok_or ''JWKS document is not valid'' (ol_parse_jwks libs bytes)) (\<lambda>keys.
     if admit_keys libs keys = [] then Inl ''JWKS contains no usable signing keys'' else Inr bytes))))"

section \<open>The validator's state\<close>

record validated =
  va_authenticated :: authenticated
  va_expires_at :: nat
  va_kid :: string
  va_fingerprint :: string

record oidc_state =
  ov_keys :: key_table
  ov_fetched_at :: "nat option"
  ov_generation :: nat
  ov_last_refetch :: "nat option"
  ov_file_digest :: "string option"
  ov_refreshing :: bool
  ov_validated :: "(string \<times> validated) list"

definition oidc_new :: oidc_state where
  "oidc_new =
     \<lparr>ov_keys = [], ov_fetched_at = None, ov_generation = 0, ov_last_refetch = None, ov_file_digest = None,
      ov_refreshing = False, ov_validated = []\<rparr>"

definition oidc_validation :: "oidc_settings \<Rightarrow> jwt_validation" where
  "oidc_validation s =
     \<lparr>jv_issuers = [os_issuer s, os_issuer s @ ''/''], jv_audience = [os_audience s],
      jv_required = [''exp'', ''iss'', ''aud''], jv_validate_nbf = True, jv_leeway = os_clock_skew s\<rparr>"

definition install_keys :: "nat \<Rightarrow> key_table \<Rightarrow> oidc_state \<Rightarrow> oidc_state" where
  "install_keys now keys st =
     st\<lparr>ov_keys := keys, ov_fetched_at := Some now, ov_generation := ov_generation st + 1,
        ov_validated := filter (\<lambda>(_, entry).
          case map_of keys (va_kid entry) of
            Some admitted \<Rightarrow> ak_fingerprint admitted = va_fingerprint entry | None \<Rightarrow> False) (ov_validated st)\<rparr>"

text \<open>What the file system answers for the path within the timeout.\<close>

datatype jwks_file = FileTimedOut | FileUnavailable | NotRegular | FileBytes string

definition read_jwks_file ::
  "oidc_libs \<Rightarrow> nat \<Rightarrow> jwks_file \<Rightarrow> oidc_state \<Rightarrow> string + nat \<times> oidc_state" where
  "read_jwks_file libs now f st =
     (case f of
        FileTimedOut \<Rightarrow> Inl ''JWKS file read timed out''
      | FileUnavailable \<Rightarrow> Inl ''JWKS file unavailable''
      | NotRegular \<Rightarrow> Inl ''JWKS path must be a regular file''
      | FileBytes contents \<Rightarrow>
          (let bytes = take (JWKS_MAX_BYTES + 1) contents in
           if JWKS_MAX_BYTES < length bytes then Inl ''JWKS file too large''
           else if ov_file_digest st = Some (ol_sha256 libs bytes) then Inr (length (ov_keys st), st)
           else and_then (ok_or ''JWKS document is not valid'' (ol_parse_jwks libs bytes)) (\<lambda>keys.
             let admitted = admit_keys libs keys in
             Inr (length admitted, (install_keys now admitted st)\<lparr>ov_file_digest := Some (ol_sha256 libs bytes)\<rparr>))))"

definition load_file :: "oidc_libs \<Rightarrow> nat \<Rightarrow> jwks_file \<Rightarrow> oidc_state \<Rightarrow> (string + nat) \<times> oidc_state" where
  "load_file libs now f st =
     (case read_jwks_file libs now f st of
        Inr (count, st') \<Rightarrow> (Inr count, st')
      | Inl e \<Rightarrow> (Inl e, (install_keys now [] st)\<lparr>ov_file_digest := None\<rparr>))"

text \<open>What the outside answers during one operation: the network and the file.\<close>

record outside =
  out_net :: "string \<Rightarrow> http_answer"
  out_file :: jwks_file

definition fetch_and_store ::
  "oidc_libs \<Rightarrow> oidc_settings \<Rightarrow> nat \<Rightarrow> outside \<Rightarrow> oidc_state \<Rightarrow> (string + nat) \<times> oidc_state" where
  "fetch_and_store libs s now out st =
     (case os_jwks s of
        JwksFile _ \<Rightarrow> load_file libs now (out_file out) st
      | location \<Rightarrow>
          (case and_then (case location of JwksDiscovery url \<Rightarrow> discover libs s (out_net out) url | _ \<Rightarrow> Inr (jwks_url location)) (\<lambda>url.
                and_then (fetch_bounded (out_net out) url JWKS_MAX_BYTES ''JWKS'') (\<lambda>bytes.
                ok_or ''JWKS document is not valid'' (ol_parse_jwks libs bytes))) of
             Inl e \<Rightarrow> (Inl e, st)
           | Inr keys \<Rightarrow>
               (let admitted = admit_keys libs keys in (Inr (length admitted), install_keys now admitted st))))"

definition refresh_keys ::
  "oidc_libs \<Rightarrow> oidc_settings \<Rightarrow> nat \<Rightarrow> outside \<Rightarrow> oidc_state \<Rightarrow> (string + nat) \<times> oidc_state" where
  "refresh_keys libs s now out st = fetch_and_store libs s now out st"

record key_snapshot =
  ks_keys :: key_table
  ks_fetched_at :: "nat option"
  ks_generation :: nat

definition snapshot_keys :: "oidc_state \<Rightarrow> key_snapshot" where
  "snapshot_keys st = \<lparr>ks_keys = ov_keys st, ks_fetched_at = ov_fetched_at st, ks_generation = ov_generation st\<rparr>"

definition refetch_for_unknown_kid ::
  "oidc_libs \<Rightarrow> oidc_settings \<Rightarrow> nat \<Rightarrow> outside \<Rightarrow> oidc_state \<Rightarrow> oidc_state" where
  "refetch_for_unknown_kid libs s now out st =
     (if (case ov_last_refetch st of Some at_time \<Rightarrow> now - at_time < os_jwks_min_refetch_interval s | None \<Rightarrow> False)
      then st
      else snd (fetch_and_store libs s now out (st\<lparr>ov_last_refetch := Some now\<rparr>)))"

text \<open>The flag the background refresh takes; the refresh itself is a step of its own.\<close>

definition maybe_refresh_in_background :: "oidc_settings \<Rightarrow> nat \<Rightarrow> nat \<Rightarrow> oidc_state \<Rightarrow> oidc_state" where
  "maybe_refresh_in_background s now fetched_at st =
     (if (case os_jwks s of JwksFile _ \<Rightarrow> True | _ \<Rightarrow> False) \<or> now - fetched_at < os_jwks_refresh s then st
      else st\<lparr>ov_refreshing := True\<rparr>)"

definition background_refresh :: "oidc_libs \<Rightarrow> oidc_settings \<Rightarrow> nat \<Rightarrow> outside \<Rightarrow> oidc_state \<Rightarrow> oidc_state" where
  "background_refresh libs s now out st = (snd (refresh_keys libs s now out st))\<lparr>ov_refreshing := False\<rparr>"

definition oidc_cached :: "nat \<Rightarrow> string \<Rightarrow> oidc_state \<Rightarrow> authenticated option" where
  "oidc_cached now key st =
     (case map_of (ov_validated st) key of
        Some entry \<Rightarrow> if now < va_expires_at entry then Some (va_authenticated entry) else None
      | None \<Rightarrow> None)"

record verified =
  vf_authenticated :: authenticated
  vf_exp :: nat
  vf_kid :: string
  vf_fingerprint :: string
  vf_generation :: nat

definition remember :: "nat \<Rightarrow> string \<Rightarrow> verified \<Rightarrow> oidc_state \<Rightarrow> oidc_state" where
  "remember now key v st =
     (let ttl = min (vf_exp v - now div NANOS) VALIDATED_TTL in
      if ttl = 0 then st
      else if vf_generation v \<noteq> ov_generation st then st
      else
        (let kept =
           (if VALIDATED_CAPACITY \<le> length (ov_validated st)
            then (let live = filter (\<lambda>(_, entry). now < va_expires_at entry) (ov_validated st)
                  in if VALIDATED_CAPACITY \<le> length live then [] else live)
            else ov_validated st)
         in st\<lparr>ov_validated := AList.update key
             \<lparr>va_authenticated = vf_authenticated v, va_expires_at = now + ttl * NANOS,
              va_kid = vf_kid v, va_fingerprint = vf_fingerprint v\<rparr> kept\<rparr>))"

definition clear_validated :: "oidc_state \<Rightarrow> oidc_state" where
  "clear_validated st = st\<lparr>ov_validated := []\<rparr>"

section \<open>Claims to principals\<close>

lemma split_once_ws_shorter: "split_once_ws s = Some (a, b) \<Longrightarrow> length b < length s"
  by (induction s arbitrary: a b rule: split_once_ws.induct) (auto split: if_splits)

lemma trim_start_le: "length (trim_start s) \<le> length s"
proof (induction s rule: trim_start.induct)
  case (1 s)
  then show ?case by (subst trim_start.simps) (auto intro: order_trans)
qed

function split_whitespace :: "string \<Rightarrow> string list" where
  "split_whitespace s =
     (let t = trim_start s in
      if t = [] then []
      else (case split_once_ws t of None \<Rightarrow> [t] | Some (a, b) \<Rightarrow> a # split_whitespace b))"
  by pat_completeness auto
termination
proof (relation "measure length")
  fix s t :: string and p and a b :: string
  assume "t = trim_start s" "split_once_ws t = Some p" "(a, b) = p"
  then have "length b < length (trim_start s)" using split_once_ws_shorter by metis
  with trim_start_le [of s] show "(b, s) \<in> measure length" by simp
qed simp

declare split_whitespace.simps [simp del]

definition string_or_array :: "json option \<Rightarrow> string list" where
  "string_or_array v =
     (case v of
        Some (JString joined) \<Rightarrow> split_whitespace joined
      | Some (JArray items) \<Rightarrow> List.map_filter as_str items
      | _ \<Rightarrow> [])"

definition optional_field :: "(json \<Rightarrow> 'a option) \<Rightarrow> json option \<Rightarrow> 'a option option" where
  "optional_field read v =
     (case v of None \<Rightarrow> Some None | Some JNull \<Rightarrow> Some None | Some w \<Rightarrow> map_option Some (read w))"

text \<open>The deserializer derived for \<open>Claims\<close>: a field of the wrong shape fails the whole token.\<close>

definition read_claims :: "json_object \<Rightarrow> claims option" where
  "read_claims obj =
     Option.bind (optional_field as_u64 (map_of obj ''exp'')) (\<lambda>exp.
     Option.bind (optional_field as_u64 (map_of obj ''iat'')) (\<lambda>iat.
     Option.bind (optional_field as_str (map_of obj ''jti'')) (\<lambda>jti.
     Some \<lparr>cl_exp = exp, cl_iat = iat, cl_jti = jti, cl_scp = string_or_array (map_of obj ''scp''),
           cl_scope = string_or_array (map_of obj ''scope''),
           cl_rest = filter (\<lambda>(k, _). k \<notin> set [''exp'', ''iat'', ''jti'', ''scp'', ''scope'']) obj\<rparr>)))"

definition static_claim_name :: "string \<Rightarrow> string" where
  "static_claim_name name =
     (if name \<in> set [''sub'', ''oid'', ''email'', ''upn'', ''preferred_username''] then name else ''subject'')"

definition groups_are_overaged :: "json_object \<Rightarrow> string \<Rightarrow> bool" where
  "groups_are_overaged rest claim \<longleftrightarrow>
     (case Option.bind (map_of rest ''_claim_names'') as_object of
        Some names \<Rightarrow> map_of names claim \<noteq> None | None \<Rightarrow> False)
     \<or> map_of rest ''_claim_sources'' \<noteq> None
     \<or> Option.bind (map_of rest ''hasgroups'') as_bool = Some True"

text \<open>The actor chain of RFC 8693, at most eight deep. The recursion is on the nesting of the value,
  so a count of the remaining depth bounds it.\<close>

fun actor_chain :: "nat \<Rightarrow> json option \<Rightarrow> token_rejection + actor list" where
  "actor_chain depth None = Inr []"
| "actor_chain 0 (Some current) = Inl Malformed"
| "actor_chain (Suc depth) (Some current) =
     and_then (ok_or Malformed (as_object current)) (\<lambda>obj.
     and_then (ok_or Malformed (case Option.bind (map_of obj ''sub'') as_str of
         Some v \<Rightarrow> if trim v \<noteq> [] then Some v else None | None \<Rightarrow> None)) (\<lambda>sub.
     and_then (case map_of obj ''iss'' of
         None \<Rightarrow> Inr None
       | Some v \<Rightarrow> (case as_str v of Some i \<Rightarrow> if i \<noteq> [] then Inr (Some i) else Inl Malformed | None \<Rightarrow> Inl Malformed)) (\<lambda>iss.
     and_then (actor_chain depth (map_of obj ''act'')) (\<lambda>rest.
     Inr (\<lparr>actor_subject = sub, actor_issuer = iss\<rparr> # rest)))))"

definition actors :: "json option \<Rightarrow> token_rejection + actor list option" where
  "actors v = (case v of None \<Rightarrow> Inr None | Some _ \<Rightarrow> and_then (actor_chain 8 v) (\<lambda>chain. Inr (Some chain)))"

definition sorted_distinct :: "string list \<Rightarrow> string list" where
  "sorted_distinct xs = remdups_adj (sort xs)"

definition groups_from :: "oidc_settings \<Rightarrow> json_object \<Rightarrow> token_rejection + string list" where
  "groups_from s rest =
     (case os_groups_claim s of
        None \<Rightarrow> Inr []
      | Some claim \<Rightarrow>
          (case lookup_claim rest claim of
             Some v \<Rightarrow>
               Inr (case as_array v of
                      Some vs \<Rightarrow> map (normalise_group (os_profile s)) (List.map_filter as_str vs)
                    | None \<Rightarrow> [])
           | None \<Rightarrow> if groups_are_overaged rest claim then Inl GroupsOverage else Inr []))"

definition principal_from :: "oidc_settings \<Rightarrow> nat \<Rightarrow> claims \<Rightarrow> token_rejection + authenticated \<times> nat" where
  "principal_from s now_unix c =
     (let claim = os_subject_claim s in
      and_then (ok_or (MissingClaim (static_claim_name claim))
        (case map_option trim (Option.bind (map_of (cl_rest c) claim) as_str) of
           Some sub \<Rightarrow> if sub \<noteq> [] then Some sub else None | None \<Rightarrow> None)) (\<lambda>sub.
      and_then (ok_or (MissingClaim ''exp'') (cl_exp c)) (\<lambda>exp.
      if (case cl_iat c of Some iat \<Rightarrow> saturating_add_u64 now_unix (os_clock_skew s) < iat | None \<Rightarrow> False)
      then Inl NotYetValid
      else
      and_then (actors (map_of (cl_rest c) ''act'')) (\<lambda>chain.
      and_then (groups_from s (cl_rest c)) (\<lambda>gs.
      Inr (\<lparr>au_principal =
              \<lparr>tenant = os_tenant s, subject = sub, groups = sorted_distinct gs,
               scopes = sorted_distinct (cl_scp c @ cl_scope c), authority = Oidc (os_issuer s)\<rparr>,
            au_token =
              \<lparr>tf_issued_at = cl_iat c,
               tf_token_id = (case cl_jti c of Some jti \<Rightarrow> if trim jti \<noteq> [] then Some jti else None | None \<Rightarrow> None),
               tf_actors = chain, tf_subject_kind = settings_subject_kind s (cl_rest c)\<rparr>\<rparr>, exp))))))"

section \<open>Validation\<close>

definition rejection_of :: "jwt_error \<Rightarrow> token_rejection" where
  "rejection_of e =
     (case e of
        ExpiredSignature \<Rightarrow> Expired
      | ImmatureSignature \<Rightarrow> NotYetValid
      | InvalidIssuer \<Rightarrow> WrongIssuer
      | InvalidAudience \<Rightarrow> WrongAudience
      | JwtInvalidSignature \<Rightarrow> InvalidSignature
      | InvalidAlgorithm \<Rightarrow> UnsupportedAlgorithm
      | InvalidAlgorithmName \<Rightarrow> UnsupportedAlgorithm
      | MissingRequiredClaim claim \<Rightarrow>
          MissingClaim (if claim \<in> set [''iss'', ''aud'', ''sub'', ''exp''] then claim else ''claim'')
      | OtherJwtError \<Rightarrow> Malformed)"

text \<open>The second half of \<open>validate_uncached\<close>: the token is verified under the key of its name in the
  snapshot, at the time of the check.\<close>

definition verify_token ::
  "oidc_libs \<Rightarrow> oidc_settings \<Rightarrow> nat \<Rightarrow> string \<Rightarrow> string \<Rightarrow> key_snapshot \<Rightarrow> token_rejection + verified" where
  "verify_token libs s now token kid snap =
     and_then (ok_or UnknownKey (map_of (ks_keys snap) kid)) (\<lambda>admitted.
     and_then (map_err rejection_of (ol_decode libs read_claims (oidc_validation s) (now div NANOS) (ak_key admitted) token)) (\<lambda>c.
     and_then (principal_from s (now div NANOS) c) (\<lambda>(a, exp).
     Inr \<lparr>vf_authenticated = a, vf_exp = exp, vf_kid = kid, vf_fingerprint = ak_fingerprint admitted,
          vf_generation = ks_generation snap\<rparr>)))"

text \<open>\<open>authenticate\<close> and the \<open>validate_uncached\<close> it calls, cut where they await or take a lock: a
  validation stands at one of these places between its steps, and anything may happen to the
  validator meanwhile.\<close>

datatype flight_phase =
    Loading
  | LookingUp
  | Missed
  | FirstFetch string
  | UnknownKid string
  | Refetched string
  | Keyed string key_snapshot

definition arrival :: "oidc_settings \<Rightarrow> flight_phase" where
  "arrival s = (case os_jwks s of JwksFile _ \<Rightarrow> Loading | _ \<Rightarrow> LookingUp)"

definition named_key :: "oidc_libs \<Rightarrow> string \<Rightarrow> token_rejection + string" where
  "named_key libs token =
     and_then (ok_or Malformed (ol_decode_header libs token)) (\<lambda>header.
     if jh_alg header \<noteq> ''RS256'' then Inl UnsupportedAlgorithm
     else if jh_typ header = Some ''oauth-id-jag+jwt'' then Inl Malformed
     else ok_or UnknownKey (jh_kid header))"

definition with_snapshot :: "string \<Rightarrow> key_snapshot \<Rightarrow> flight_phase" where
  "with_snapshot kid snap = (if map_of (ks_keys snap) kid = None then UnknownKid kid else Keyed kid snap)"

text \<open>One step of a validation: its answer, or where it stands next.\<close>

fun flight_step ::
  "oidc_libs \<Rightarrow> oidc_settings \<Rightarrow> nat \<Rightarrow> outside \<Rightarrow> string \<Rightarrow> flight_phase \<Rightarrow> oidc_state
     \<Rightarrow> ((token_rejection + authenticated) + flight_phase) \<times> oidc_state" where
  "flight_step libs s now out token Loading st =
     (case refresh_keys libs s now out st of
        (Inl _, st') \<Rightarrow> (Inl (Inl KeysUnavailable), st')
      | (Inr _, st') \<Rightarrow> (Inr LookingUp, st'))"
| "flight_step libs s now out token LookingUp st =
     (case oidc_cached now (ol_sha256 libs token) st of
        Some a \<Rightarrow> (Inl (Inr a), st)
      | None \<Rightarrow> (Inr Missed, st))"
| "flight_step libs s now out token Missed st =
     (case named_key libs token of
        Inl e \<Rightarrow> (Inl (Inl e), st)
      | Inr kid \<Rightarrow>
          (case ov_fetched_at st of
             Some at_time \<Rightarrow> (Inr (with_snapshot kid (snapshot_keys st)), maybe_refresh_in_background s now at_time st)
           | None \<Rightarrow> (Inr (FirstFetch kid), st)))"
| "flight_step libs s now out token (FirstFetch kid) st =
     (case (if ov_fetched_at st = None then fetch_and_store libs s now out st else (Inr 0, st)) of
        (Inl _, st') \<Rightarrow> (Inl (Inl KeysUnavailable), st')
      | (Inr _, st') \<Rightarrow> (Inr (with_snapshot kid (snapshot_keys st')), st'))"
| "flight_step libs s now out token (UnknownKid kid) st =
     (Inr (Refetched kid), refetch_for_unknown_kid libs s now out st)"
| "flight_step libs s now out token (Refetched kid) st = (Inr (Keyed kid (snapshot_keys st)), st)"
| "flight_step libs s now out token (Keyed kid snap) st =
     (case verify_token libs s now token kid snap of
        Inl e \<Rightarrow> (Inl (Inl e), st)
      | Inr v \<Rightarrow> (Inl (Inr (vf_authenticated v)), remember now (ol_sha256 libs token) v st))"

fun phase_rank :: "flight_phase \<Rightarrow> nat" where
  "phase_rank Loading = 6"
| "phase_rank LookingUp = 5"
| "phase_rank Missed = 4"
| "phase_rank (FirstFetch _) = 3"
| "phase_rank (UnknownKid _) = 2"
| "phase_rank (Refetched _) = 1"
| "phase_rank (Keyed _ _) = 0"

lemma flight_step_rank:
  "flight_step libs s now out token ph st = (Inr ph', st') \<Longrightarrow> phase_rank ph' < phase_rank ph"
  by (cases ph) (auto simp: with_snapshot_def split: prod.splits sum.splits option.splits if_splits)

text \<open>A validation that nothing interrupts.\<close>

function run_flight ::
  "oidc_libs \<Rightarrow> oidc_settings \<Rightarrow> nat \<Rightarrow> outside \<Rightarrow> string \<Rightarrow> flight_phase \<Rightarrow> oidc_state
     \<Rightarrow> (token_rejection + authenticated) \<times> oidc_state" where
  "run_flight libs s now out token ph st =
     (case flight_step libs s now out token ph st of
        (Inl answer, st') \<Rightarrow> (answer, st')
      | (Inr ph', st') \<Rightarrow> run_flight libs s now out token ph' st')"
  by pat_completeness auto
termination
  by (relation "measure (\<lambda>(_, _, _, _, _, ph, _). phase_rank ph)") (auto dest: flight_step_rank [OF sym])

declare run_flight.simps [simp del]

definition oidc_authenticate ::
  "oidc_libs \<Rightarrow> oidc_settings \<Rightarrow> nat \<Rightarrow> outside \<Rightarrow> string \<Rightarrow> oidc_state
     \<Rightarrow> (token_rejection + authenticated) \<times> oidc_state" where
  "oidc_authenticate libs s now out token st = run_flight libs s now out token (arrival s) st"

section \<open>Runs\<close>

text \<open>Any number of validations in flight, refreshes and clearings of the cache, in any order. With each
  flight go the time and the key generation of its arrival, with each answer those of its delivery.
  The tables the validator ever had are kept by generation; the code keeps the last only.\<close>

record flight =
  fl_token :: string
  fl_arrived :: nat
  fl_since :: nat
  fl_phase :: flight_phase

record answer =
  an_token :: string
  an_arrived :: nat
  an_since :: nat
  an_at :: nat
  an_generation :: nat
  an_result :: "token_rejection + authenticated"

record oidc_world =
  ow_state :: oidc_state
  ow_clock :: nat
  ow_tables :: "key_table list"
  ow_flights :: "flight list"
  ow_answers :: "answer list"

definition note_tables :: "oidc_state \<Rightarrow> oidc_state \<Rightarrow> key_table list \<Rightarrow> key_table list" where
  "note_tables st st' tables = (if ov_generation st' = ov_generation st then tables else tables @ [ov_keys st'])"

definition moved_to :: "oidc_state \<Rightarrow> oidc_world \<Rightarrow> oidc_world" where
  "moved_to st w = w\<lparr>ow_state := st, ow_tables := note_tables (ow_state w) st (ow_tables w)\<rparr>"

inductive oidc_step :: "oidc_libs \<Rightarrow> oidc_settings \<Rightarrow> oidc_world \<Rightarrow> oidc_world \<Rightarrow> bool"
  for libs :: oidc_libs and s :: oidc_settings where
  time_passes: "ow_clock w \<le> now \<Longrightarrow> oidc_step libs s w (w\<lparr>ow_clock := now\<rparr>)"
| keys_refreshed: "oidc_step libs s w (moved_to (snd (refresh_keys libs s (ow_clock w) out (ow_state w))) w)"
| refreshed_in_background: "ov_refreshing (ow_state w) \<Longrightarrow>
    oidc_step libs s w (moved_to (background_refresh libs s (ow_clock w) out (ow_state w)) w)"
| validated_cleared: "oidc_step libs s w (moved_to (clear_validated (ow_state w)) w)"
| request_arrives: "oidc_step libs s w
    (w\<lparr>ow_flights := \<lparr>fl_token = token, fl_arrived = ow_clock w, fl_since = ov_generation (ow_state w),
       fl_phase = arrival s\<rparr> # ow_flights w\<rparr>)"
| flight_moves: "fl \<in> set (ow_flights w) \<Longrightarrow>
    flight_step libs s (ow_clock w) out (fl_token fl) (fl_phase fl) (ow_state w) = (Inr ph, st) \<Longrightarrow>
    oidc_step libs s w ((moved_to st w)\<lparr>ow_flights := fl\<lparr>fl_phase := ph\<rparr> # remove1 fl (ow_flights w)\<rparr>)"
| flight_answers: "fl \<in> set (ow_flights w) \<Longrightarrow>
    flight_step libs s (ow_clock w) out (fl_token fl) (fl_phase fl) (ow_state w) = (Inl r, st) \<Longrightarrow>
    oidc_step libs s w ((moved_to st w)\<lparr>ow_flights := remove1 fl (ow_flights w),
       ow_answers := \<lparr>an_token = fl_token fl, an_arrived = fl_arrived fl, an_since = fl_since fl, an_at = ow_clock w,
         an_generation = ov_generation st, an_result = r\<rparr> # ow_answers w\<rparr>)"
| flight_dropped: "oidc_step libs s w (w\<lparr>ow_flights := remove1 fl (ow_flights w)\<rparr>)"

definition oidc_start :: "nat \<Rightarrow> oidc_world" where
  "oidc_start now =
     \<lparr>ow_state = oidc_new, ow_clock = now, ow_tables = [ov_keys oidc_new], ow_flights = [], ow_answers = []\<rparr>"

abbreviation oidc_reachable :: "oidc_libs \<Rightarrow> oidc_settings \<Rightarrow> nat \<Rightarrow> oidc_world \<Rightarrow> bool" where
  "oidc_reachable libs s start \<equiv> (oidc_step libs s)\<^sup>*\<^sup>* (oidc_start start)"

section \<open>Admission of keys\<close>

definition offered :: "oidc_libs \<Rightarrow> jwk list \<Rightarrow> string \<Rightarrow> admitted_key list" where
  "offered libs ks kid = map snd (filter (\<lambda>e. fst e = kid) (List.map_filter (admissible libs) ks))"

lemma offered_Cons:
  "offered libs (k # ks) kid =
     (case admissible libs k of
        Some (kid', admitted) \<Rightarrow> (if kid' = kid then [admitted] else []) @ offered libs ks kid
      | None \<Rightarrow> offered libs ks kid)"
  by (simp add: offered_def map_filter_simps split: option.split)

lemma admit_loop_keys:
  "admit_loop libs ks keys ambiguous = (keys', ambiguous') \<Longrightarrow>
     map_of keys' kid = (if offered libs ks kid = [] then map_of keys kid else Some (last (offered libs ks kid)))"
proof (induction libs ks keys ambiguous rule: admit_loop.induct)
  case (2 libs k ks keys ambiguous)
  show ?case
  proof (cases "admissible libs k")
    case None
    with 2 show ?thesis by (simp add: offered_Cons)
  next
    case (Some e)
    obtain kid0 admitted where e: "e = (kid0, admitted)" by (cases e)
    from 2 Some e show ?thesis by (simp add: offered_Cons update_conv' split: if_splits)
  qed
qed (simp add: offered_def map_filter_simps)

lemma admit_loop_ambiguous:
  "admit_loop libs ks keys ambiguous = (keys', ambiguous') \<Longrightarrow>
     kid \<in> set ambiguous' \<longleftrightarrow>
       kid \<in> set ambiguous \<or> (map_of keys kid \<noteq> None \<and> offered libs ks kid \<noteq> []) \<or> 2 \<le> length (offered libs ks kid)"
proof (induction libs ks keys ambiguous rule: admit_loop.induct)
  case (2 libs k ks keys ambiguous)
  show ?case
  proof (cases "admissible libs k")
    case None
    with 2 show ?thesis by (simp add: offered_Cons)
  next
    case (Some e)
    obtain kid0 admitted where e: "e = (kid0, admitted)" by (cases e)
    have "kid \<in> set ambiguous' \<longleftrightarrow>
        kid \<in> set (if map_of keys kid0 = None then ambiguous else ambiguous @ [kid0])
        \<or> (map_of (AList.update kid0 admitted keys) kid \<noteq> None \<and> offered libs ks kid \<noteq> [])
        \<or> 2 \<le> length (offered libs ks kid)"
      using 2(2) 2(3) Some e by simp
    then show ?thesis
      by (cases "kid = kid0"; cases "offered libs ks kid")
        (auto simp: offered_Cons Some e update_conv' split: if_splits)
  qed
qed (simp add: offered_def map_filter_simps)

lemma fold_delete_lookup: "map_of (fold AList.delete ks m) k = (if k \<in> set ks then None else map_of m k)"
  by (induction ks arbitrary: m) (auto simp: delete_conv')

lemma admit_keys_lookup: "map_of (admit_keys libs ks) kid = Some admitted \<longleftrightarrow> offered libs ks kid = [admitted]"
proof -
  obtain keys ambiguous where loop: "admit_loop libs ks [] [] = (keys, ambiguous)" by fastforce
  have "offered libs ks kid = [admitted]"
    if "offered libs ks kid \<noteq> []" "\<not> 2 \<le> length (offered libs ks kid)" "last (offered libs ks kid) = admitted"
    using that by (cases "offered libs ks kid"; cases "tl (offered libs ks kid)") auto
  then show ?thesis
    by (auto simp: admit_keys_def loop fold_delete_lookup admit_loop_keys [OF loop] admit_loop_ambiguous [OF loop])
qed

section \<open>The cache and the keys\<close>

definition jwt_header_ok :: "oidc_libs \<Rightarrow> string \<Rightarrow> string \<Rightarrow> bool" where
  "jwt_header_ok libs token kid \<longleftrightarrow>
     (\<exists>h. ol_decode_header libs token = Some h \<and> jh_alg h = ''RS256''
        \<and> jh_typ h \<noteq> Some ''oauth-id-jag+jwt'' \<and> jh_kid h = Some kid)"

text \<open>At time \<open>t\<close> the token was verified under the key its header names, as the table has it, for this
  holder.\<close>

definition verified_at ::
  "oidc_libs \<Rightarrow> oidc_settings \<Rightarrow> key_table \<Rightarrow> string \<Rightarrow> string \<Rightarrow> admitted_key \<Rightarrow> authenticated \<Rightarrow> nat \<Rightarrow> nat \<Rightarrow> bool" where
  "verified_at libs s keys token kid admitted a expiry t \<longleftrightarrow>
     jwt_header_ok libs token kid \<and> map_of keys kid = Some admitted
     \<and> (\<exists>c. ol_decode libs read_claims (oidc_validation s) (t div NANOS) (ak_key admitted) token = Inr c
          \<and> principal_from s (t div NANOS) c = Inr (a, expiry))"

definition entry_ok :: "oidc_libs \<Rightarrow> oidc_settings \<Rightarrow> key_table list \<Rightarrow> nat \<Rightarrow> string \<Rightarrow> validated \<Rightarrow> bool" where
  "entry_ok libs s tables now d e \<longleftrightarrow>
     (\<exists>token admitted expiry t g. ol_sha256 libs token = d \<and> t \<le> now \<and> g < length tables
        \<and> verified_at libs s (tables ! g) token (va_kid e) admitted (va_authenticated e) expiry t
        \<and> ak_fingerprint admitted = va_fingerprint e
        \<and> va_expires_at e \<le> t + VALIDATED_TTL * NANOS \<and> va_expires_at e \<le> (expiry + 1) * NANOS)"

definition published :: "key_table \<Rightarrow> string \<Rightarrow> string \<Rightarrow> bool" where
  "published keys kid fingerprint \<longleftrightarrow> map_option ak_fingerprint (map_of keys kid) = Some fingerprint"

definition cache_ok :: "oidc_libs \<Rightarrow> oidc_settings \<Rightarrow> key_table list \<Rightarrow> nat \<Rightarrow> oidc_state \<Rightarrow> bool" where
  "cache_ok libs s tables now st \<longleftrightarrow>
     distinct (map fst (ov_validated st)) \<and> length (ov_validated st) \<le> VALIDATED_CAPACITY
     \<and> (\<forall>(d, e) \<in> set (ov_validated st).
          published (ov_keys st) (va_kid e) (va_fingerprint e) \<and> entry_ok libs s tables now d e)"

definition tables_ok :: "key_table list \<Rightarrow> oidc_state \<Rightarrow> bool" where
  "tables_ok tables st \<longleftrightarrow> length tables = Suc (ov_generation st) \<and> tables ! ov_generation st = ov_keys st"

fun phase_ok :: "oidc_libs \<Rightarrow> key_table list \<Rightarrow> string \<Rightarrow> nat \<Rightarrow> flight_phase \<Rightarrow> bool" where
  "phase_ok libs tables token since (FirstFetch kid) = jwt_header_ok libs token kid"
| "phase_ok libs tables token since (UnknownKid kid) = jwt_header_ok libs token kid"
| "phase_ok libs tables token since (Refetched kid) = jwt_header_ok libs token kid"
| "phase_ok libs tables token since (Keyed kid snap) =
     (jwt_header_ok libs token kid \<and> since \<le> ks_generation snap \<and> ks_generation snap < length tables
      \<and> ks_keys snap = tables ! ks_generation snap)"
| "phase_ok libs tables token since _ = True"

definition flight_ok :: "oidc_libs \<Rightarrow> key_table list \<Rightarrow> nat \<Rightarrow> flight \<Rightarrow> bool" where
  "flight_ok libs tables now fl \<longleftrightarrow>
     fl_arrived fl \<le> now \<and> fl_since fl < length tables \<and> phase_ok libs tables (fl_token fl) (fl_since fl) (fl_phase fl)"

text \<open>What stands behind an answer: the token was verified while its request was being served, under keys
  in force since it arrived; or a token of the same digest was, not long ago, and the key is still
  published when the answer is given.\<close>

definition served :: "answer \<Rightarrow> string \<Rightarrow> nat \<Rightarrow> nat \<Rightarrow> bool" where
  "served an token g t \<longleftrightarrow> token = an_token an \<and> an_arrived an \<le> t \<and> an_since an \<le> g"

definition recalled :: "key_table list \<Rightarrow> answer \<Rightarrow> string \<Rightarrow> admitted_key \<Rightarrow> nat \<Rightarrow> nat \<Rightarrow> bool" where
  "recalled tables an kid admitted expiry t \<longleftrightarrow>
     published (tables ! an_generation an) kid (ak_fingerprint admitted)
     \<and> an_at an < t + VALIDATED_TTL * NANOS \<and> an_at an < (expiry + 1) * NANOS"

definition backed :: "oidc_libs \<Rightarrow> oidc_settings \<Rightarrow> key_table list \<Rightarrow> answer \<Rightarrow> authenticated \<Rightarrow> bool" where
  "backed libs s tables an a \<longleftrightarrow>
     (\<exists>token kid admitted expiry t g. ol_sha256 libs token = ol_sha256 libs (an_token an)
        \<and> g \<le> an_generation an \<and> t \<le> an_at an
        \<and> verified_at libs s (tables ! g) token kid admitted a expiry t
        \<and> (served an token g t \<or> recalled tables an kid admitted expiry t))"

definition answer_ok :: "oidc_libs \<Rightarrow> oidc_settings \<Rightarrow> key_table list \<Rightarrow> answer \<Rightarrow> bool" where
  "answer_ok libs s tables an \<longleftrightarrow>
     an_generation an < length tables \<and> (\<forall>a. an_result an = Inr a \<longrightarrow> backed libs s tables an a)"

definition world_ok :: "oidc_libs \<Rightarrow> oidc_settings \<Rightarrow> oidc_world \<Rightarrow> bool" where
  "world_ok libs s w \<longleftrightarrow>
     tables_ok (ow_tables w) (ow_state w) \<and> cache_ok libs s (ow_tables w) (ow_clock w) (ow_state w)
     \<and> (\<forall>fl \<in> set (ow_flights w). flight_ok libs (ow_tables w) (ow_clock w) fl)
     \<and> (\<forall>an \<in> set (ow_answers w). answer_ok libs s (ow_tables w) an)"

text \<open>Keys change by installation only, and by one at a time.\<close>

definition same_core :: "oidc_state \<Rightarrow> oidc_state \<Rightarrow> bool" where
  "same_core st st' \<longleftrightarrow>
     ov_keys st' = ov_keys st \<and> ov_generation st' = ov_generation st \<and> ov_validated st' = ov_validated st"

definition key_change :: "oidc_state \<Rightarrow> oidc_state \<Rightarrow> bool" where
  "key_change st st' \<longleftrightarrow> same_core st st' \<or> (\<exists>now keys. same_core (install_keys now keys st) st')"

lemma same_core_refl [simp]: "same_core st st" by (simp add: same_core_def)

lemma key_change_refl [simp]: "key_change st st" by (simp add: key_change_def)

lemma key_change_before: "same_core st st' \<Longrightarrow> key_change st' st'' \<Longrightarrow> key_change st st''"
  unfolding key_change_def same_core_def install_keys_def by auto

lemma key_change_after: "key_change st st' \<Longrightarrow> same_core st' st'' \<Longrightarrow> key_change st st''"
  unfolding key_change_def same_core_def by auto

lemma key_change_install: "key_change st (install_keys now keys st)"
  unfolding key_change_def by (meson same_core_refl)

lemma fetch_and_store_change: "key_change st (snd (fetch_and_store libs s now out st))"
proof -
  have digest: "key_change st ((install_keys now keys st)\<lparr>ov_file_digest := d\<rparr>)" for keys d
    by (rule key_change_after [OF key_change_install]) (simp add: same_core_def)
  have from_file: "key_change st (snd (load_file libs now f st))" for f
    by (simp add: load_file_def read_jwks_file_def Let_def and_then_def ok_or_def digest
        split: jwks_file.split option.split)
  show ?thesis
    by (cases "os_jwks s")
      (auto simp: fetch_and_store_def Let_def from_file intro: key_change_install split: sum.split)
qed

lemma refetch_change: "key_change st (refetch_for_unknown_kid libs s now out st)"
proof -
  have "same_core st (st\<lparr>ov_last_refetch := Some now\<rparr>)" by (simp add: same_core_def)
  from key_change_before [OF this fetch_and_store_change] show ?thesis
    by (simp add: refetch_for_unknown_kid_def)
qed

lemma background_change: "key_change st (background_refresh libs s now out st)"
  by (auto simp: background_refresh_def refresh_keys_def same_core_def
      intro: key_change_after [OF fetch_and_store_change])

lemma maybe_refresh_core: "same_core st (maybe_refresh_in_background s now fetched_at st)"
  by (simp add: maybe_refresh_in_background_def same_core_def)

section \<open>The invariant\<close>

lemma install_keys_core:
  "ov_keys (install_keys now keys st) = keys"
  "ov_generation (install_keys now keys st) = Suc (ov_generation st)"
  "ov_validated (install_keys now keys st) =
     filter (\<lambda>(_, e). published keys (va_kid e) (va_fingerprint e)) (ov_validated st)"
  by (auto simp: install_keys_def published_def intro!: filter_cong split: option.split)

text \<open>The history of tables grows at its end; what was said about earlier generations stays true.\<close>

lemma entry_ok_grows: "entry_ok libs s tables now d e \<Longrightarrow> entry_ok libs s (tables @ rest_tables) now d e"
  unfolding entry_ok_def by (metis nth_append trans_less_add1 length_append)

lemma phase_ok_grows: "phase_ok libs tables token since ph \<Longrightarrow> phase_ok libs (tables @ rest_tables) token since ph"
  by (cases ph) (auto simp: nth_append)

lemma flight_ok_grows: "flight_ok libs tables now fl \<Longrightarrow> flight_ok libs (tables @ rest_tables) now fl"
  by (auto simp: flight_ok_def phase_ok_grows)

lemma backed_cong:
  assumes "backed libs s tables an a" "\<And>g. g \<le> an_generation an \<Longrightarrow> tables' ! g = tables ! g"
  shows "backed libs s tables' an a"
proof -
  from assms(1) obtain token kid admitted expiry t g where
      b: "ol_sha256 libs token = ol_sha256 libs (an_token an)" "g \<le> an_generation an" "t \<le> an_at an"
        "verified_at libs s (tables ! g) token kid admitted a expiry t"
        "served an token g t \<or> recalled tables an kid admitted expiry t"
    unfolding backed_def by blast
  have "recalled tables' an kid admitted expiry t \<longleftrightarrow> recalled tables an kid admitted expiry t"
    by (simp add: recalled_def assms(2))
  with b assms(2) [OF b(2)] show ?thesis unfolding backed_def by metis
qed

lemma answer_ok_grows:
  assumes "answer_ok libs s tables an"
  shows "answer_ok libs s (tables @ rest_tables) an"
  using assms by (auto simp: answer_ok_def nth_append intro: backed_cong)

lemma note_tables_grows: "\<exists>rest_tables. note_tables st st' tables = tables @ rest_tables"
  by (simp add: note_tables_def)

lemma note_tables_ok: "tables_ok tables st \<Longrightarrow> key_change st st' \<Longrightarrow> tables_ok (note_tables st st' tables) st'"
  by (auto simp: tables_ok_def note_tables_def key_change_def same_core_def install_keys_core nth_append)

lemma cache_ok_change:
  assumes "cache_ok libs s tables now st" "key_change st st'"
  shows "cache_ok libs s (note_tables st st' tables) now st'"
proof -
  obtain rest_tables where rest_tables: "note_tables st st' tables = tables @ rest_tables" using note_tables_grows by blast
  have "entry_ok libs s (tables @ rest_tables) now d e" if "(d, e) \<in> set (ov_validated st)" for d e
    using that assms(1) entry_ok_grows by (auto simp: cache_ok_def)
  then show ?thesis
    using assms
    by (auto simp: rest_tables key_change_def same_core_def cache_ok_def install_keys_core distinct_map_filter
        intro: order_trans [OF length_filter_le])
qed

lemma world_ok_moved:
  assumes "world_ok libs s w" "key_change (ow_state w) st"
  shows "world_ok libs s (moved_to st w)"
proof -
  obtain rest_tables where "note_tables (ow_state w) st (ow_tables w) = ow_tables w @ rest_tables" using note_tables_grows by blast
  moreover have "tables_ok (note_tables (ow_state w) st (ow_tables w)) st"
    "cache_ok libs s (note_tables (ow_state w) st (ow_tables w)) (ow_clock w) st"
    using assms note_tables_ok cache_ok_change by (auto simp: world_ok_def)
  ultimately show ?thesis
    using assms(1) by (auto simp: world_ok_def moved_to_def flight_ok_grows answer_ok_grows)
qed

lemma entry_ok_later:
  assumes "entry_ok libs s tables now d e" "now \<le> later"
  shows "entry_ok libs s tables later d e"
proof -
  from assms(1) obtain token admitted expiry t g where "ol_sha256 libs token = d" "t \<le> now" "g < length tables"
    "verified_at libs s (tables ! g) token (va_kid e) admitted (va_authenticated e) expiry t"
    "ak_fingerprint admitted = va_fingerprint e"
    "va_expires_at e \<le> t + VALIDATED_TTL * NANOS" "va_expires_at e \<le> (expiry + 1) * NANOS"
    by (auto simp: entry_ok_def)
  with assms(2) show ?thesis
    unfolding entry_ok_def
    by (intro exI [of _ token] exI [of _ admitted] exI [of _ expiry] exI [of _ t] exI [of _ g]) simp
qed

lemma named_key_Inr: "named_key libs token = Inr kid \<longleftrightarrow> jwt_header_ok libs token kid"
  by (auto simp: named_key_def jwt_header_ok_def result_simps ok_or_def split: option.splits)

lemma verify_token_Inr:
  assumes "verify_token libs s now token kid snap = Inr v" "jwt_header_ok libs token kid"
  obtains admitted where "vf_kid v = kid" "vf_generation v = ks_generation snap" "vf_fingerprint v = ak_fingerprint admitted"
    "verified_at libs s (ks_keys snap) token kid admitted (vf_authenticated v) (vf_exp v) now"
  using assms by (auto simp: verify_token_def result_simps ok_or_def verified_at_def split: option.splits)

lemma verified_at_published:
  "verified_at libs s keys token kid admitted a expiry t \<Longrightarrow> published keys kid (ak_fingerprint admitted)"
  by (simp add: verified_at_def published_def)

lemma ttl_bounds:
  fixes now expiry :: nat
  assumes "ttl = min (expiry - now div NANOS) VALIDATED_TTL" "ttl \<noteq> 0"
  shows "now + ttl * NANOS \<le> now + VALIDATED_TTL * NANOS" "now + ttl * NANOS \<le> (expiry + 1) * NANOS"
proof -
  show "now + ttl * NANOS \<le> now + VALIDATED_TTL * NANOS" using assms(1) by simp
  have "now \<le> (now div NANOS + 1) * NANOS"
    using div_mult_mod_eq [of now NANOS] mod_less_divisor [of NANOS now] by (simp add: NANOS_def)
  moreover have "ttl \<le> expiry - now div NANOS" "now div NANOS \<le> expiry" using assms by auto
  then have "(now div NANOS + 1) * NANOS + ttl * NANOS \<le> (expiry + 1) * NANOS"
    unfolding distrib_right [symmetric] by (intro mult_le_mono1) simp
  ultimately show "now + ttl * NANOS \<le> (expiry + 1) * NANOS" by linarith
qed

lemma remember_ok:
  assumes "cache_ok libs s tables now st" "tables_ok tables st" "phase_ok libs tables token since (Keyed kid snap)"
    and "verify_token libs s now token kid snap = Inr v"
  shows "cache_ok libs s tables now (remember now (ol_sha256 libs token) v st)"
proof (cases "min (vf_exp v - now div NANOS) VALIDATED_TTL = 0 \<or> vf_generation v \<noteq> ov_generation st")
  case True
  with assms(1) show ?thesis by (auto simp: remember_def Let_def)
next
  case False
  define ttl where "ttl = min (vf_exp v - now div NANOS) VALIDATED_TTL"
  define kept where "kept =
     (if VALIDATED_CAPACITY \<le> length (ov_validated st)
      then (let live = filter (\<lambda>(_, entry). now < va_expires_at entry) (ov_validated st)
            in if VALIDATED_CAPACITY \<le> length live then [] else live)
      else ov_validated st)"
  define e where "e = \<lparr>va_authenticated = vf_authenticated v, va_expires_at = now + ttl * NANOS,
      va_kid = vf_kid v, va_fingerprint = vf_fingerprint v\<rparr>"
  have st': "remember now (ol_sha256 libs token) v st = st\<lparr>ov_validated := AList.update (ol_sha256 libs token) e kept\<rparr>"
    using False unfolding remember_def Let_def kept_def e_def ttl_def [symmetric] by simp
  obtain admitted where v: "vf_kid v = kid" "vf_generation v = ks_generation snap" "vf_fingerprint v = ak_fingerprint admitted"
      "verified_at libs s (ks_keys snap) token kid admitted (vf_authenticated v) (vf_exp v) now"
    using assms(3) verify_token_Inr [OF assms(4)] by auto
  have snap: "ks_generation snap < length tables" "ks_keys snap = tables ! ks_generation snap" "ks_keys snap = ov_keys st"
    using assms(2,3) v(2) False by (auto simp: tables_ok_def)
  have "published (ov_keys st) (va_kid e) (va_fingerprint e)"
    using verified_at_published [OF v(4)] v(1,3) snap(3) by (simp add: e_def)
  moreover have "entry_ok libs s tables now (ol_sha256 libs token) e"
    unfolding entry_ok_def using v snap ttl_bounds [of ttl "vf_exp v" now] False
    by (intro exI [of _ token] exI [of _ admitted] exI [of _ "vf_exp v"] exI [of _ now] exI [of _ "ks_generation snap"])
      (simp add: e_def ttl_def)
  moreover have "set kept \<subseteq> set (ov_validated st)" "length kept < VALIDATED_CAPACITY" "distinct (map fst kept)"
    using assms(1) by (auto simp: kept_def Let_def VALIDATED_CAPACITY_def cache_ok_def distinct_map_filter)
  ultimately show ?thesis
    using assms(1) update_length_le [of "ol_sha256 libs token" e kept]
    unfolding st' cache_ok_def
    by (fastforce simp: distinct_update dest: update_entries)
qed

lemma remember_core: "ov_keys (remember now key v st) = ov_keys st" "ov_generation (remember now key v st) = ov_generation st"
  by (simp_all add: remember_def Let_def)

text \<open>What one step of a validation does to the keys and where it leads.\<close>

lemma flight_step_change:
  assumes "flight_step libs s now out token ph st = (r, st')" "\<not> (\<exists>kid snap. ph = Keyed kid snap)"
  shows "key_change st st'"
  using assms fetch_and_store_change [of st libs s now out] refetch_change [of st libs s now out] maybe_refresh_core [of st s now]
  by (cases ph) (auto simp: refresh_keys_def key_change_def split: prod.splits sum.splits option.splits if_splits)

lemma with_snapshot_ok:
  assumes "jwt_header_ok libs token kid" "tables_ok tables st" "since \<le> ov_generation st"
  shows "phase_ok libs tables token since (with_snapshot kid (snapshot_keys st))"
    and "phase_ok libs tables token since (Keyed kid (snapshot_keys st))"
  using assms by (auto simp: with_snapshot_def snapshot_keys_def tables_ok_def)

lemma key_change_generation: "key_change st st' \<Longrightarrow> ov_generation st \<le> ov_generation st'"
  by (auto simp: key_change_def same_core_def install_keys_core)

lemma flight_step_phase:
  assumes "flight_step libs s now out token ph st = (Inr ph', st')" "phase_ok libs tables token since ph"
    and "tables_ok tables st" "since \<le> ov_generation st"
  shows "phase_ok libs (note_tables st st' tables) token since ph'"
proof -
  have change: "key_change st st'" using assms(1) flight_step_change [OF assms(1)] by (cases ph) (auto split: sum.splits)
  note tables = note_tables_ok [OF assms(3) change]
  have since: "since \<le> ov_generation st'" using assms(4) key_change_generation [OF change] by simp
  have same: "snapshot_keys (maybe_refresh_in_background s now t st) = snapshot_keys st" for t
    by (simp add: maybe_refresh_in_background_def snapshot_keys_def)
  show ?thesis
    using assms(1,2) with_snapshot_ok [OF _ tables since] same
    by (cases ph) (auto simp: named_key_Inr [symmetric] split: prod.splits sum.splits option.splits if_splits)
qed

lemma oidc_cached_entry:
  assumes "cache_ok libs s tables now st" "oidc_cached now d st = Some a"
  obtains token kid admitted expiry t g where "ol_sha256 libs token = d" "t \<le> now" "g < length tables"
    "verified_at libs s (tables ! g) token kid admitted a expiry t" "published (ov_keys st) kid (ak_fingerprint admitted)"
    "now < t + VALIDATED_TTL * NANOS" "now < (expiry + 1) * NANOS"
proof -
  from assms(2) obtain e where e: "(d, e) \<in> set (ov_validated st)" "now < va_expires_at e" "va_authenticated e = a"
    by (auto simp: oidc_cached_def split: option.splits if_splits dest: map_of_SomeD)
  with assms(1) have "published (ov_keys st) (va_kid e) (va_fingerprint e)" "entry_ok libs s tables now d e"
    by (auto simp: cache_ok_def)
  moreover from this(2) obtain token admitted expiry t g where "ol_sha256 libs token = d" "t \<le> now" "g < length tables"
    "verified_at libs s (tables ! g) token (va_kid e) admitted (va_authenticated e) expiry t"
    "ak_fingerprint admitted = va_fingerprint e"
    "va_expires_at e \<le> t + VALIDATED_TTL * NANOS" "va_expires_at e \<le> (expiry + 1) * NANOS"
    by (auto simp: entry_ok_def)
  ultimately show thesis using e(2,3) by (intro that [of token t g "va_kid e" admitted expiry]) auto
qed

definition answer_of :: "oidc_world \<Rightarrow> flight \<Rightarrow> oidc_state \<Rightarrow> token_rejection + authenticated \<Rightarrow> answer" where
  "answer_of w fl st r =
     \<lparr>an_token = fl_token fl, an_arrived = fl_arrived fl, an_since = fl_since fl, an_at = ow_clock w,
      an_generation = ov_generation st, an_result = r\<rparr>"

lemma flight_answer_backed:
  assumes "world_ok libs s w" "fl \<in> set (ow_flights w)"
    and "flight_step libs s (ow_clock w) out (fl_token fl) (fl_phase fl) (ow_state w) = (Inl (Inr a), st)"
  shows "backed libs s (ow_tables w) (answer_of w fl st (Inr a)) a"
    and "ov_generation st = ov_generation (ow_state w)"
proof -
  let ?an = "answer_of w fl st (Inr a)"
  have tables: "tables_ok (ow_tables w) (ow_state w)" and cache: "cache_ok libs s (ow_tables w) (ow_clock w) (ow_state w)"
    and fl: "flight_ok libs (ow_tables w) (ow_clock w) fl"
    using assms(1,2) by (auto simp: world_ok_def)
  consider (hit) "oidc_cached (ow_clock w) (ol_sha256 libs (fl_token fl)) (ow_state w) = Some a" "st = ow_state w"
    | (fresh) kid snap v where "fl_phase fl = Keyed kid snap" "a = vf_authenticated v"
        "verify_token libs s (ow_clock w) (fl_token fl) kid snap = Inr v"
        "st = remember (ow_clock w) (ol_sha256 libs (fl_token fl)) v (ow_state w)"
    using assms(3) by (cases "fl_phase fl") (auto split: prod.splits sum.splits option.splits)
  then have "backed libs s (ow_tables w) ?an a \<and> ov_generation st = ov_generation (ow_state w)"
  proof cases
    case hit
    obtain token kid admitted expiry t g where e: "ol_sha256 libs token = ol_sha256 libs (fl_token fl)" "t \<le> ow_clock w"
      "g < length (ow_tables w)" "verified_at libs s (ow_tables w ! g) token kid admitted a expiry t"
      "published (ov_keys (ow_state w)) kid (ak_fingerprint admitted)"
      "ow_clock w < t + VALIDATED_TTL * NANOS" "ow_clock w < (expiry + 1) * NANOS"
      by (rule oidc_cached_entry [OF cache hit(1)])
    then have "recalled (ow_tables w) ?an kid admitted expiry t"
      using tables hit(2) by (simp add: recalled_def answer_of_def tables_ok_def)
    with e tables hit(2) show ?thesis
      unfolding backed_def by (intro conjI exI [of _ token] exI [of _ kid] exI [of _ admitted] exI [of _ expiry] exI [of _ t] exI [of _ g])
        (auto simp: answer_of_def tables_ok_def)
  next
    case fresh
    have ok: "phase_ok libs (ow_tables w) (fl_token fl) (fl_since fl) (Keyed kid snap)" "fl_arrived fl \<le> ow_clock w"
      using fl fresh(1) by (simp_all add: flight_ok_def)
    then obtain admitted where v: "verified_at libs s (ks_keys snap) (fl_token fl) kid admitted a (vf_exp v) (ow_clock w)"
      using verify_token_Inr [OF fresh(3)] fresh(2) by auto
    have "served ?an (fl_token fl) (ks_generation snap) (ow_clock w)" using ok by (simp add: served_def answer_of_def)
    with ok v tables fresh(4) show ?thesis
      unfolding backed_def
      by (intro conjI exI [of _ "fl_token fl"] exI [of _ kid] exI [of _ admitted] exI [of _ "vf_exp v"] exI [of _ "ow_clock w"]
          exI [of _ "ks_generation snap"])
        (auto simp: answer_of_def remember_core tables_ok_def)
  qed
  then show "backed libs s (ow_tables w) ?an a" "ov_generation st = ov_generation (ow_state w)" by simp_all
qed

lemma flight_step_moved:
  assumes "world_ok libs s w" "fl \<in> set (ow_flights w)"
    and "flight_step libs s (ow_clock w) out (fl_token fl) (fl_phase fl) (ow_state w) = (r, st)"
  shows "world_ok libs s (moved_to st w)"
proof (cases "\<exists>kid snap. fl_phase fl = Keyed kid snap")
  case False
  from world_ok_moved [OF assms(1) flight_step_change [OF assms(3) False]] show ?thesis .
next
  case True
  then obtain kid snap where keyed: "fl_phase fl = Keyed kid snap" by blast
  have ok: "tables_ok (ow_tables w) (ow_state w)" "cache_ok libs s (ow_tables w) (ow_clock w) (ow_state w)"
    "phase_ok libs (ow_tables w) (fl_token fl) (fl_since fl) (Keyed kid snap)"
    using assms(1,2) keyed by (auto simp: world_ok_def flight_ok_def)
  show ?thesis
  proof (cases "verify_token libs s (ow_clock w) (fl_token fl) kid snap")
    case (Inl e)
    with assms(3) keyed world_ok_moved [OF assms(1), of st] show ?thesis by simp
  next
    case (Inr v)
    with assms(3) keyed have st: "st = remember (ow_clock w) (ol_sha256 libs (fl_token fl)) v (ow_state w)" by simp
    have "moved_to st w = w\<lparr>ow_state := st\<rparr>" by (simp add: moved_to_def note_tables_def st remember_core)
    moreover have "cache_ok libs s (ow_tables w) (ow_clock w) st" unfolding st by (rule remember_ok [OF ok(2,1,3) Inr])
    moreover have "tables_ok (ow_tables w) st" using ok(1) by (simp add: tables_ok_def st remember_core)
    ultimately show ?thesis using assms(1) by (simp add: world_ok_def)
  qed
qed

lemma world_ok_step: "oidc_step libs s w w' \<Longrightarrow> world_ok libs s w \<Longrightarrow> world_ok libs s w'"
proof (induction rule: oidc_step.induct)
  case (time_passes w now)
  then show ?case
    unfolding world_ok_def cache_ok_def flight_ok_def using entry_ok_later [of libs s "ow_tables w" "ow_clock w" _ _ now] by fastforce
next
  case (keys_refreshed w out)
  then show ?case using fetch_and_store_change by (simp add: refresh_keys_def world_ok_moved)
next
  case (refreshed_in_background w out)
  then show ?case by (simp add: world_ok_moved background_change)
next
  case (validated_cleared w)
  then show ?case
    by (auto simp: world_ok_def cache_ok_def clear_validated_def moved_to_def note_tables_def tables_ok_def)
next
  case (request_arrives w token)
  then show ?case by (auto simp: world_ok_def flight_ok_def tables_ok_def arrival_def split: jwks_location.split)
next
  case (flight_moves fl w out ph st)
  have fl: "flight_ok libs (ow_tables w) (ow_clock w) fl" and tables: "tables_ok (ow_tables w) (ow_state w)"
    using flight_moves by (auto simp: world_ok_def)
  then have "phase_ok libs (note_tables (ow_state w) st (ow_tables w)) (fl_token fl) (fl_since fl) ph"
    by (intro flight_step_phase [OF flight_moves.hyps(2)]) (auto simp: flight_ok_def tables_ok_def)
  moreover obtain rest_tables where "note_tables (ow_state w) st (ow_tables w) = ow_tables w @ rest_tables"
    using note_tables_grows by blast
  ultimately have "flight_ok libs (ow_tables (moved_to st w)) (ow_clock (moved_to st w)) (fl\<lparr>fl_phase := ph\<rparr>)"
    using fl by (simp add: flight_ok_def moved_to_def)
  with flight_step_moved [OF flight_moves.prems flight_moves.hyps] show ?case
    by (auto simp: world_ok_def moved_to_def dest: notin_set_remove1 [rotated] subsetD [OF set_remove1_subset])
next
  case (flight_answers fl w out r st)
  note ok = flight_step_moved [OF flight_answers.prems flight_answers.hyps]
  have "answer_ok libs s (ow_tables (moved_to st w)) (answer_of w fl st r)"
  proof (cases r)
    case (Inr a)
    note backed = flight_answer_backed [OF flight_answers.prems flight_answers.hyps(1), of out a st]
    have "ow_tables (moved_to st w) = ow_tables w"
      using backed(2) flight_answers.hyps(2) Inr by (simp add: moved_to_def note_tables_def)
    with backed flight_answers Inr show ?thesis
      by (auto simp: answer_ok_def answer_of_def world_ok_def tables_ok_def)
  next
    case (Inl e)
    with ok show ?thesis by (simp add: answer_ok_def answer_of_def world_ok_def tables_ok_def moved_to_def)
  qed
  with ok show ?case
    unfolding answer_of_def [symmetric]
    by (auto simp: world_ok_def moved_to_def dest: subsetD [OF set_remove1_subset])
next
  case (flight_dropped w fl)
  then show ?case by (auto simp: world_ok_def dest: subsetD [OF set_remove1_subset])
qed

lemma world_ok_reachable: "oidc_reachable libs s start w \<Longrightarrow> world_ok libs s w"
proof (induction rule: rtranclp_induct)
  case base
  show ?case by (simp add: world_ok_def tables_ok_def cache_ok_def oidc_start_def oidc_new_def)
qed (rule world_ok_step)

section \<open>Properties\<close>

text \<open>The documented behaviour of the JWT library: a token it accepts is signed under the key it was
  given, its claims deserialize, and its issuer, audience, expiry and start are those the validation
  asks for at the time of the check.\<close>

definition claim_strings :: "json option \<Rightarrow> string list" where
  "claim_strings v =
     (case v of Some (JString x) \<Rightarrow> [x] | Some (JArray vs) \<Rightarrow> List.map_filter as_str vs | _ \<Rightarrow> [])"

definition claims_accepted :: "jwt_validation \<Rightarrow> nat \<Rightarrow> json_object \<Rightarrow> bool" where
  "claims_accepted v now obj \<longleftrightarrow>
     list_ex (\<lambda>i. i \<in> set (jv_issuers v)) (claim_strings (map_of obj ''iss''))
     \<and> list_ex (\<lambda>a. a \<in> set (jv_audience v)) (claim_strings (map_of obj ''aud''))
     \<and> (case Option.bind (map_of obj ''exp'') as_u64 of Some expiry \<Rightarrow> now \<le> expiry + jv_leeway v | None \<Rightarrow> False)
     \<and> (case Option.bind (map_of obj ''nbf'') as_u64 of Some nbf \<Rightarrow> nbf \<le> now + jv_leeway v | None \<Rightarrow> True)"

definition jwt_contract :: "oidc_libs \<Rightarrow> (string \<Rightarrow> string \<Rightarrow> json_object \<Rightarrow> bool) \<Rightarrow> bool" where
  "jwt_contract libs signs \<longleftrightarrow>
     (\<forall>read v now key token c. ol_decode libs read v now key token = Inr c \<longrightarrow>
        (\<exists>obj. signs key token obj \<and> read obj = Some c \<and> claims_accepted v now obj))"

lemma verified_at_claims:
  assumes "jwt_contract libs signs" "verified_at libs s keys token kid admitted a expiry t"
  obtains obj c where "signs (ak_key admitted) token obj" "claims_accepted (oidc_validation s) (t div NANOS) obj"
    "read_claims obj = Some c" "principal_from s (t div NANOS) c = Inr (a, expiry)"
    "jwt_header_ok libs token kid" "map_of keys kid = Some admitted"
  using assms unfolding jwt_contract_def verified_at_def by blast

definition vouched ::
  "oidc_libs \<Rightarrow> (string \<Rightarrow> string \<Rightarrow> json_object \<Rightarrow> bool) \<Rightarrow> oidc_settings \<Rightarrow> key_table list \<Rightarrow> answer \<Rightarrow> authenticated
     \<Rightarrow> bool" where
  "vouched libs signs s tables an a \<longleftrightarrow>
     (\<exists>token kid (admitted :: admitted_key) obj c t expiry g.
      ol_sha256 libs token = ol_sha256 libs (an_token an) \<and> jwt_header_ok libs token kid
    \<and> g \<le> an_generation an \<and> an_generation an < length tables \<and> map_of (tables ! g) kid = Some admitted
    \<and> signs (ak_key admitted) token obj \<and> claims_accepted (oidc_validation s) (t div NANOS) obj
    \<and> read_claims obj = Some c \<and> principal_from s (t div NANOS) c = Inr (a, expiry) \<and> t \<le> an_at an
    \<and> (token = an_token an \<and> an_arrived an \<le> t \<and> an_since an \<le> g
       \<or> published (tables ! an_generation an) kid (ak_fingerprint admitted)
         \<and> an_at an < t + VALIDATED_TTL * NANOS \<and> an_at an < (expiry + 1) * NANOS))"

lemma answer_vouched:
  assumes "jwt_contract libs signs" "oidc_reachable libs s start w" "an \<in> set (ow_answers w)" "an_result an = Inr a"
  shows "vouched libs signs s (ow_tables w) an a"
proof -
  have ok: "an_generation an < length (ow_tables w)" "backed libs s (ow_tables w) an a"
    using world_ok_reachable [OF assms(2)] assms(3,4) by (auto simp: world_ok_def answer_ok_def)
  from ok(2) obtain token kid admitted expiry t g where
      b: "ol_sha256 libs token = ol_sha256 libs (an_token an)" "g \<le> an_generation an" "t \<le> an_at an"
        "verified_at libs s (ow_tables w ! g) token kid admitted a expiry t"
        "served an token g t \<or> recalled (ow_tables w) an kid admitted expiry t"
    unfolding backed_def by blast
  obtain obj c where "signs (ak_key admitted) token obj" "claims_accepted (oidc_validation s) (t div NANOS) obj"
    "read_claims obj = Some c" "principal_from s (t div NANOS) c = Inr (a, expiry)"
    "jwt_header_ok libs token kid" "map_of (ow_tables w ! g) kid = Some admitted"
    by (rule verified_at_claims [OF assms(1) b(4)])
  with b(1-3) b(5) ok(1) show ?thesis
    unfolding vouched_def served_def recalled_def
    by (intro exI [of _ token] exI [of _ kid] exI [of _ admitted] exI [of _ obj] exI [of _ c] exI [of _ t] exI [of _ expiry]
        exI [of _ g] conjI) assumption+
qed

text \<open>A validation that nothing interrupts is one of the runs.\<close>

lemma flight_run:
  assumes "fl \<in> set (ow_flights w)"
    and "run_flight libs s (ow_clock w) out (fl_token fl) (fl_phase fl) (ow_state w) = (r, st)"
  shows "\<exists>w' an. (oidc_step libs s)\<^sup>*\<^sup>* w w' \<and> an \<in> set (ow_answers w') \<and> an_token an = fl_token fl \<and> an_result an = r
    \<and> ow_state w' = st"
  using assms
proof (induction "phase_rank (fl_phase fl)" arbitrary: fl w rule: less_induct)
  case less
  obtain next_step st' where step:
    "flight_step libs s (ow_clock w) out (fl_token fl) (fl_phase fl) (ow_state w) = (next_step, st')" by fastforce
  show ?case
  proof (cases next_step)
    case (Inl answer)
    have done_now: "r = answer" "st = st'" using less.prems(2) step Inl by (simp_all add: run_flight.simps [of libs s])
    let ?w = "(moved_to st' w)\<lparr>ow_flights := remove1 fl (ow_flights w),
       ow_answers := \<lparr>an_token = fl_token fl, an_arrived = fl_arrived fl, an_since = fl_since fl, an_at = ow_clock w,
         an_generation = ov_generation st', an_result = answer\<rparr> # ow_answers w\<rparr>"
    have "oidc_step libs s w ?w" using flight_answers [OF less.prems(1)] step Inl by simp
    then show ?thesis using done_now
      by (intro exI [of _ ?w] exI [of _ "hd (ow_answers ?w)"]) (auto simp: moved_to_def)
  next
    case (Inr ph)
    let ?fl = "fl\<lparr>fl_phase := ph\<rparr>"
    let ?w = "(moved_to st' w)\<lparr>ow_flights := ?fl # remove1 fl (ow_flights w)\<rparr>"
    have one: "oidc_step libs s w ?w" using flight_moves [OF less.prems(1)] step Inr by simp
    have "run_flight libs s (ow_clock ?w) out (fl_token ?fl) (fl_phase ?fl) (ow_state ?w) = (r, st)"
      using less.prems(2) step Inr by (simp add: run_flight.simps [of libs s _ _ _ "fl_phase fl"] moved_to_def)
    with less.hyps [of ?fl ?w] flight_step_rank step Inr
    obtain w' an where "(oidc_step libs s)\<^sup>*\<^sup>* ?w w'" "an \<in> set (ow_answers w')" "an_token an = fl_token fl"
      "an_result an = r" "ow_state w' = st" by auto
    with one show ?thesis by (blast intro: converse_rtranclp_into_rtranclp)
  qed
qed

lemma authenticate_run:
  assumes "oidc_authenticate libs s (ow_clock w) out token (ow_state w) = (r, st)"
  shows "\<exists>w' an. (oidc_step libs s)\<^sup>*\<^sup>* w w' \<and> an \<in> set (ow_answers w') \<and> an_token an = token \<and> an_result an = r
    \<and> ow_state w' = st"
proof -
  let ?fl = "\<lparr>fl_token = token, fl_arrived = ow_clock w, fl_since = ov_generation (ow_state w), fl_phase = arrival s\<rparr>"
  let ?w = "w\<lparr>ow_flights := ?fl # ow_flights w\<rparr>"
  have "\<exists>w' an. (oidc_step libs s)\<^sup>*\<^sup>* ?w w' \<and> an \<in> set (ow_answers w') \<and> an_token an = token \<and> an_result an = r
      \<and> ow_state w' = st"
    using flight_run [of ?fl ?w libs s out r st] assms by (simp add: oidc_authenticate_def)
  then show ?thesis using request_arrives [of libs s w token] by (blast intro: converse_rtranclp_into_rtranclp)
qed

text \<open>C12. Whatever the validator admits, in any interleaving of validations, refreshes, rotations and
  clearings, rests on a signature under the key the token names. Behind an answer stands a token with
  the digest of the one that came, whose header carries RS256 and a key name; that name had a key in a
  table the validator held, this very key signed the token, and its claims have the configured issuer
  and audience and times within the skew. Either the token that came was verified while its request was
  served, under a table in force since it arrived; or the verification is less than five minutes old,
  not a second past the expiry, and the key is published, with the same material under the same name,
  in the table in force when the answer is given.\<close>

theorem admitted_tokens_vouched:
  assumes "jwt_contract libs signs" and "oidc_reachable libs s start w"
    and "an \<in> set (ow_answers w)" "an_result an = Inr a"
  shows "\<exists>token kid (admitted :: admitted_key) obj c t expiry g.
      ol_sha256 libs token = ol_sha256 libs (an_token an) \<and> jwt_header_ok libs token kid
    \<and> g \<le> an_generation an \<and> an_generation an < length (ow_tables w) \<and> map_of (ow_tables w ! g) kid = Some admitted
    \<and> signs (ak_key admitted) token obj \<and> claims_accepted (oidc_validation s) (t div NANOS) obj
    \<and> read_claims obj = Some c \<and> principal_from s (t div NANOS) c = Inr (a, expiry) \<and> t \<le> an_at an
    \<and> (token = an_token an \<and> an_arrived an \<le> t \<and> an_since an \<le> g
       \<or> published (ow_tables w ! an_generation an) kid (ak_fingerprint admitted)
         \<and> an_at an < t + VALIDATED_TTL * NANOS \<and> an_at an < (expiry + 1) * NANOS)"
  using answer_vouched [OF assms] by (simp only: vouched_def)

definition sample_claims :: json_object where
  "sample_claims =
     [(''iss'', JString ''https://idp.example/''), (''aud'', JArray [JString ''api'']), (''exp'', JUint 100),
      (''sub'', JString ''alice''), (''scp'', JString ''mcp:tools read''), (''groups'', JArray [JString ''eng''])]"

definition sample_libs :: oidc_libs where
  "sample_libs =
     \<lparr>ol_decode_header = (\<lambda>_. Some \<lparr>jh_alg = ''RS256'', jh_typ = Some ''JWT'', jh_kid = Some ''k1''\<rparr>),
      ol_decode = (\<lambda>read v now key token.
        if token = ''jwt'' \<and> key = ''n'' \<and> claims_accepted v now sample_claims
        then (case read sample_claims of Some c \<Rightarrow> Inr c | None \<Rightarrow> Inl OtherJwtError)
        else Inl JwtInvalidSignature),
      ol_from_jwk = (\<lambda>k. case jwk_parameters k of RsaParameters n _ \<Rightarrow> Some n | OtherParameters \<Rightarrow> None),
      ol_sha256 = (\<lambda>x. x),
      ol_parse_jwks = (\<lambda>_. Some [\<lparr>jwk_kid = Some ''k0'', jwk_parameters = RsaParameters ''m'' ''e'', jwk_use = None, jwk_alg = None\<rparr>,
        \<lparr>jwk_kid = Some ''k1'', jwk_parameters = RsaParameters ''n'' ''e'', jwk_use = None, jwk_alg = None\<rparr>]),
      ol_parse_discovery = (\<lambda>_. None),
      ol_parse_url = (\<lambda>_. Inr \<lparr>url_scheme = ''https'', url_host = Some (HostDomain ''idp.example'')\<rparr>),
      ol_host_str = (\<lambda>_. Some ''idp.example''),
      ol_debug = (\<lambda>x. x)\<rparr>"

definition sample_oidc_settings :: oidc_settings where
  "sample_oidc_settings =
     \<lparr>os_profile = Keycloak, os_issuer = ''https://idp.example'', os_audience = ''api'',
      os_jwks = default_jwks Keycloak ''https://idp.example'', os_subject_claim = ''sub'', os_groups_claim = Some ''groups'',
      os_clock_skew = DEFAULT_CLOCK_SKEW, os_tenant = ''idp.example'', os_jwks_refresh = 0,
      os_jwks_min_refetch_interval = 0, os_machine_claim = None, os_human_claim = None\<rparr>"

definition sample_outside :: outside where
  "sample_outside = \<lparr>out_net = (\<lambda>_. HttpAnswered 200 None [Some ''{}'']), out_file = FileUnavailable\<rparr>"

definition sample_signs :: "string \<Rightarrow> string \<Rightarrow> json_object \<Rightarrow> bool" where
  "sample_signs key token obj \<longleftrightarrow> token = ''jwt'' \<and> key = ''n'' \<and> obj = sample_claims"

lemma sample_contract: "jwt_contract sample_libs sample_signs"
  by (auto simp: jwt_contract_def sample_libs_def sample_signs_def split: if_splits option.splits)

definition sample_table :: key_table where
  "sample_table = [(''k0'', \<lparr>ak_key = ''m'', ak_fingerprint = ''m'' @ CHR 0x00 # ''e''\<rparr>),
     (''k1'', \<lparr>ak_key = ''n'', ak_fingerprint = ''n'' @ CHR 0x00 # ''e''\<rparr>)]"

lemma sample_fetch:
  "fetch_and_store sample_libs sample_oidc_settings 0 sample_outside oidc_new = (Inr 2, install_keys 0 sample_table oidc_new)"
proof -
  have "admit_keys sample_libs (the (ol_parse_jwks sample_libs ''{}'')) = sample_table" by code_simp
  then show ?thesis
    by (simp add: fetch_and_store_def sample_oidc_settings_def sample_outside_def fetch_bounded_def JWKS_MAX_BYTES_def Let_def)
      (simp add: sample_libs_def ok_or_def sample_table_def)
qed

lemma sample_holder:
  "\<exists>au. fst (oidc_authenticate sample_libs sample_oidc_settings 0 sample_outside ''jwt'' oidc_new) = Inr au
     \<and> ''mcp:tools'' \<in> set (scopes (au_principal au))"
proof -
  let ?decoded = "ol_decode sample_libs read_claims (oidc_validation sample_oidc_settings) 0 ''n'' ''jwt''"
  let ?st = "install_keys 0 sample_table oidc_new"
  have "\<not> isl ?decoded" "\<not> isl (principal_from sample_oidc_settings 0 (projr ?decoded))"
    "''mcp:tools'' \<in> set (scopes (au_principal (fst (projr (principal_from sample_oidc_settings 0 (projr ?decoded))))))"
    by code_simp+
  then obtain c a expiry where found: "?decoded = Inr c" "principal_from sample_oidc_settings 0 c = Inr (a, expiry)"
      "''mcp:tools'' \<in> set (scopes (au_principal a))"
    by (cases ?decoded; cases "principal_from sample_oidc_settings 0 (projr ?decoded)") auto
  have key: "map_of (ov_keys ?st) ''k1'' = Some \<lparr>ak_key = ''n'', ak_fingerprint = ''n'' @ CHR 0x00 # ''e''\<rparr>"
    by (simp add: install_keys_core sample_table_def)
  have "\<exists>v. verify_token sample_libs sample_oidc_settings 0 ''jwt'' ''k1'' (snapshot_keys ?st) = Inr v \<and> vf_authenticated v = a"
    using found(1,2) key by (simp add: verify_token_def snapshot_keys_def ok_or_def)
  then have last: "fst (run_flight sample_libs sample_oidc_settings 0 sample_outside ''jwt'' (Keyed ''k1'' (snapshot_keys ?st)) ?st) = Inr a"
    by (auto simp: run_flight.simps)
  have named: "named_key sample_libs ''jwt'' = Inr ''k1''" by code_simp
  have "with_snapshot ''k1'' (snapshot_keys ?st) = Keyed ''k1'' (snapshot_keys ?st)"
    using key by (simp add: with_snapshot_def snapshot_keys_def)
  then have "fst (run_flight sample_libs sample_oidc_settings 0 sample_outside ''jwt'' (FirstFetch ''k1'') oidc_new) = Inr a"
    using last by (simp add: run_flight.simps [of _ _ _ _ _ "FirstFetch ''k1''"] sample_fetch) (simp add: oidc_new_def)
  moreover have "ov_fetched_at oidc_new = None" "oidc_cached 0 d oidc_new = None" for d
    by (simp_all add: oidc_cached_def oidc_new_def)
  moreover have "arrival sample_oidc_settings = LookingUp" by (simp add: arrival_def sample_oidc_settings_def)
  ultimately have "fst (oidc_authenticate sample_libs sample_oidc_settings 0 sample_outside ''jwt'' oidc_new) = Inr a"
    using named by (simp add: oidc_authenticate_def run_flight.simps [of _ _ _ _ _ LookingUp] run_flight.simps [of _ _ _ _ _ Missed])
  with found(3) show ?thesis by (intro exI [of _ a] conjI)
qed

lemma sample_answer:
  "\<exists>w (an :: answer) (a :: authenticated). oidc_reachable sample_libs sample_oidc_settings 0 w \<and> an \<in> set (ow_answers w) \<and> an_token an = ''jwt''
     \<and> an_result an = Inr a \<and> ''mcp:tools'' \<in> set (scopes (au_principal a))"
proof -
  obtain a st where a: "oidc_authenticate sample_libs sample_oidc_settings 0 sample_outside ''jwt'' oidc_new = (Inr a, st)"
      "''mcp:tools'' \<in> set (scopes (au_principal a))"
    using sample_holder by (cases "oidc_authenticate sample_libs sample_oidc_settings 0 sample_outside ''jwt'' oidc_new") auto
  then have "oidc_authenticate sample_libs sample_oidc_settings (ow_clock (oidc_start 0)) sample_outside ''jwt'' (ow_state (oidc_start 0))
      = (Inr a, st)"
    by (simp add: oidc_start_def)
  from authenticate_run [OF this] a(2) show ?thesis by blast
qed

theorem admitted_tokens_vouched_witness:
  "\<exists>(w :: oidc_world) (an :: answer) (a :: authenticated) g (admitted :: admitted_key). an \<in> set (ow_answers w) \<and> an_token an = ''jwt'' \<and> an_result an = Inr a
     \<and> map_of (ow_tables w ! g) ''k1'' = Some admitted \<and> sample_signs (ak_key admitted) ''jwt'' sample_claims"
proof -
  obtain w an and a :: authenticated where w: "oidc_reachable sample_libs sample_oidc_settings 0 w" "an \<in> set (ow_answers w)"
    "an_token an = ''jwt''" "an_result an = Inr a"
    using sample_answer by blast
  from admitted_tokens_vouched [OF sample_contract w(1,2,4)] obtain token kid and admitted :: admitted_key and obj g where
    "ol_sha256 sample_libs token = ol_sha256 sample_libs (an_token an)" "jwt_header_ok sample_libs token kid"
    "map_of (ow_tables w ! g) kid = Some admitted" "sample_signs (ak_key admitted) token obj"
    by blast
  then have "map_of (ow_tables w ! g) ''k1'' = Some admitted" "sample_signs (ak_key admitted) ''jwt'' sample_claims"
    using w(3) by (auto simp: sample_libs_def jwt_header_ok_def sample_signs_def)
  with w show ?thesis by blast
qed

text \<open>C36. Exactly the unambiguous signing keys are admitted: a name is in the table if and only if the
  document has one entry of that name that is an RSA key usable for RS256, and the table holds that
  entry's material; a name offered twice is in it under neither.\<close>

theorem admitted_keys_unambiguous:
  "map_of (admit_keys libs ks) kid = Some admitted \<longleftrightarrow>
     map snd (filter (\<lambda>e. fst e = kid) (List.map_filter (admissible libs) ks)) = [admitted]"
  using admit_keys_lookup [of libs ks kid admitted] by (simp add: offered_def)

text \<open>C37. What becomes of the keys when they cannot be read. A remote failure changes nothing, so cached
  keys keep serving; a file that cannot be read, is too large or is not a key set withdraws every key
  and every validated token and refuses the request.\<close>

theorem key_outage:
  "case os_jwks s of
     JwksFile path \<Rightarrow> isl (read_jwks_file libs now (out_file out) st) \<longrightarrow>
       fst (oidc_authenticate libs s now out token st) = Inl KeysUnavailable
       \<and> ov_keys (snd (oidc_authenticate libs s now out token st)) = []
       \<and> ov_validated (snd (oidc_authenticate libs s now out token st)) = []
   | _ \<Rightarrow> isl (fst (refresh_keys libs s now out st)) \<longrightarrow> snd (refresh_keys libs s now out st) = st"
proof (cases "os_jwks s")
  case (JwksFile path)
  show ?thesis
  proof (cases "read_jwks_file libs now (out_file out) st")
    case (Inl e)
    with JwksFile show ?thesis
      by (simp add: oidc_authenticate_def arrival_def run_flight.simps refresh_keys_def fetch_and_store_def load_file_def)
        (simp add: install_keys_def)
  qed (simp add: JwksFile)
qed (auto simp: refresh_keys_def fetch_and_store_def Let_def split: sum.splits)

theorem key_outage_witness:
  "fst (oidc_authenticate sample_libs (sample_oidc_settings\<lparr>os_jwks := JwksFile ''keys.json''\<rparr>) 0 sample_outside ''jwt'' oidc_new)
     = Inl KeysUnavailable"
  using key_outage [where s = "sample_oidc_settings\<lparr>os_jwks := JwksFile ''keys.json''\<rparr>" and libs = sample_libs and now = 0
    and out = sample_outside and st = oidc_new and token = "''jwt''"]
  by (simp add: read_jwks_file_def sample_outside_def)

lemma actor_chain_bounded: "actor_chain depth v = Inr chain \<Longrightarrow> length chain \<le> depth \<and> (v \<noteq> None \<longrightarrow> chain \<noteq> [])"
  by (induction depth v arbitrary: chain rule: actor_chain.induct) (auto simp: result_simps)

lemma sorted_distinct_ok: "sorted (sorted_distinct xs)" "distinct (sorted_distinct xs)" "set (sorted_distinct xs) = set xs"
  by (simp_all add: sorted_distinct_def sorted_remdups_adj distinct_remdups_adj_sorted)

lemma groups_from_Inr:
  assumes "groups_from s rest = Inr gs"
  shows "case os_groups_claim s of
      None \<Rightarrow> gs = []
    | Some claim \<Rightarrow>
        (case lookup_claim rest claim of
           Some (JArray vs) \<Rightarrow> set gs = {normalise_group (os_profile s) g |g. JString g \<in> set vs}
         | Some _ \<Rightarrow> gs = []
         | None \<Rightarrow> gs = [] \<and> \<not> groups_are_overaged rest claim)"
proof -
  have "set (List.map_filter as_str vs) = {g. JString g \<in> set vs}" for vs
    by (induction vs) (auto simp: map_filter_simps as_str_eq_Some split: option.splits)
  then show ?thesis using assms
    by (auto simp: groups_from_def as_array_def split: option.splits if_splits json.splits)
qed

text \<open>C32. The principal of a verified token is what its claims and the configuration say. The subject is
  the configured claim, a string, without surrounding white space and not blank; the groups are exactly
  the normalised strings of the configured claim and the scopes exactly those of the two scope claims,
  each sorted without duplicates; tenant and authority are the configured ones; issue time and token
  name come from their claims; the token is not dated beyond the skew; an actor chain has between one
  and eight actors; and a token whose groups were left out for their number is never read as one
  without groups.\<close>

theorem principal_well_formed:
  assumes "principal_from s now c = Inr (a, expiry)"
  shows "(\<exists>raw. map_of (cl_rest c) (os_subject_claim s) = Some (JString raw)
        \<and> subject (au_principal a) = trim raw \<and> trim raw \<noteq> [])
    \<and> tenant (au_principal a) = os_tenant s \<and> authority (au_principal a) = Oidc (os_issuer s)
    \<and> sorted (groups (au_principal a)) \<and> distinct (groups (au_principal a))
    \<and> (case os_groups_claim s of
         None \<Rightarrow> groups (au_principal a) = []
       | Some claim \<Rightarrow>
           (case lookup_claim (cl_rest c) claim of
              Some (JArray vs) \<Rightarrow> set (groups (au_principal a)) = {normalise_group (os_profile s) g |g. JString g \<in> set vs}
            | Some _ \<Rightarrow> groups (au_principal a) = []
            | None \<Rightarrow> groups (au_principal a) = [] \<and> \<not> groups_are_overaged (cl_rest c) claim))
    \<and> sorted (scopes (au_principal a)) \<and> distinct (scopes (au_principal a))
    \<and> set (scopes (au_principal a)) = set (cl_scp c) \<union> set (cl_scope c)
    \<and> cl_exp c = Some expiry \<and> tf_issued_at (au_token a) = cl_iat c
    \<and> (case cl_jti c of Some jti \<Rightarrow> tf_token_id (au_token a) = (if trim jti = [] then None else Some jti)
        | None \<Rightarrow> tf_token_id (au_token a) = None)
    \<and> (case cl_iat c of Some iat \<Rightarrow> iat \<le> now + os_clock_skew s | None \<Rightarrow> True)
    \<and> (case tf_actors (au_token a) of Some chain \<Rightarrow> 1 \<le> length chain \<and> length chain \<le> 8
        | None \<Rightarrow> map_of (cl_rest c) ''act'' = None)"
proof -
  from assms obtain sub chain gs where
      sub: "map_option trim (Option.bind (map_of (cl_rest c) (os_subject_claim s)) as_str) = Some sub" "sub \<noteq> []"
    and expiry: "cl_exp c = Some expiry"
    and iat: "\<not> (case cl_iat c of Some iat \<Rightarrow> saturating_add_u64 now (os_clock_skew s) < iat | None \<Rightarrow> False)"
    and chain: "actors (map_of (cl_rest c) ''act'') = Inr chain"
    and gs: "groups_from s (cl_rest c) = Inr gs"
    and a: "a = \<lparr>au_principal = \<lparr>tenant = os_tenant s, subject = sub, groups = sorted_distinct gs,
              scopes = sorted_distinct (cl_scp c @ cl_scope c), authority = Oidc (os_issuer s)\<rparr>,
            au_token = \<lparr>tf_issued_at = cl_iat c,
               tf_token_id = (case cl_jti c of Some jti \<Rightarrow> if trim jti \<noteq> [] then Some jti else None | None \<Rightarrow> None),
               tf_actors = chain, tf_subject_kind = settings_subject_kind s (cl_rest c)\<rparr>\<rparr>"
    by (auto simp: principal_from_def Let_def result_simps ok_or_def split: option.splits if_splits)
  have empty: "sorted_distinct xs = [] \<longleftrightarrow> xs = []" for xs
    using sorted_distinct_ok(3) [of xs] by auto
  have "\<exists>raw. map_of (cl_rest c) (os_subject_claim s) = Some (JString raw) \<and> sub = trim raw \<and> trim raw \<noteq> []"
    using sub by (auto simp: bind_eq_Some_conv as_str_eq_Some)
  moreover have "case cl_iat c of Some iat \<Rightarrow> iat \<le> now + os_clock_skew s | None \<Rightarrow> True"
    using iat by (auto simp: saturating_add_u64_def split: option.splits)
  moreover have "case chain of Some ch \<Rightarrow> 1 \<le> length ch \<and> length ch \<le> 8 | None \<Rightarrow> map_of (cl_rest c) ''act'' = None"
  proof (cases "map_of (cl_rest c) ''act''")
    case None
    with chain show ?thesis by (simp add: actors_def)
  next
    case (Some v)
    with chain obtain ch where ch: "actor_chain 8 (Some v) = Inr ch" "chain = Some ch"
      by (auto simp only: actors_def option.case and_then_eq_Inr sum.inject)
    from actor_chain_bounded [OF ch(1)] ch(2) show ?thesis by (simp add: Suc_le_eq)
  qed
  moreover have "case os_groups_claim s of
      None \<Rightarrow> sorted_distinct gs = []
    | Some claim \<Rightarrow>
        (case lookup_claim (cl_rest c) claim of
           Some (JArray vs) \<Rightarrow> set (sorted_distinct gs) = {normalise_group (os_profile s) g |g. JString g \<in> set vs}
         | Some _ \<Rightarrow> sorted_distinct gs = []
         | None \<Rightarrow> sorted_distinct gs = [] \<and> \<not> groups_are_overaged (cl_rest c) claim)"
    using groups_from_Inr [OF gs] unfolding sorted_distinct_ok(3) empty .
  moreover have "case cl_jti c of Some jti \<Rightarrow> tf_token_id (au_token a) = (if trim jti = [] then None else Some jti)
      | None \<Rightarrow> tf_token_id (au_token a) = None"
    by (simp add: a split: option.split)
  moreover have fields: "subject (au_principal a) = sub" "tenant (au_principal a) = os_tenant s"
    "authority (au_principal a) = Oidc (os_issuer s)" "groups (au_principal a) = sorted_distinct gs"
    "scopes (au_principal a) = sorted_distinct (cl_scp c @ cl_scope c)" "tf_issued_at (au_token a) = cl_iat c"
    "tf_actors (au_token a) = chain"
    by (simp_all add: a)
  ultimately show ?thesis
    using expiry unfolding fields
    by (intro conjI) (assumption | simp only: sorted_distinct_ok set_append)+
qed

theorem principal_well_formed_witness:
  "\<exists>(a :: authenticated) expiry. principal_from sample_oidc_settings 0
       \<lparr>cl_exp = Some 100, cl_iat = None, cl_jti = None, cl_scp = [''read''], cl_scope = [],
        cl_rest = [(''sub'', JString '' alice ''), (''groups'', JArray [JString ''/eng''])]\<rparr> = Inr (a, expiry)
     \<and> subject (au_principal a) = ''alice'' \<and> set (scopes (au_principal a)) = {''read''} \<and> expiry = 100"
proof -
  let ?c = "\<lparr>cl_exp = Some 100, cl_iat = None, cl_jti = None, cl_scp = [''read''], cl_scope = [],
        cl_rest = [(''sub'', JString '' alice ''), (''groups'', JArray [JString ''/eng''])]\<rparr>"
  have "\<not> isl (principal_from sample_oidc_settings 0 ?c)" by code_simp
  then obtain a expiry where run: "principal_from sample_oidc_settings 0 ?c = Inr (a, expiry)"
    by (cases "principal_from sample_oidc_settings 0 ?c") auto
  have "trim '' alice '' = ''alice''" by code_simp
  moreover have "os_subject_claim sample_oidc_settings = ''sub''" by (simp add: sample_oidc_settings_def)
  ultimately have "subject (au_principal a) = ''alice''" "set (scopes (au_principal a)) = {''read''}" "expiry = 100"
    using principal_well_formed [OF run] by (elim conjE; simp)+
  with run show ?thesis by blast
qed

definition channel_ok :: "oidc_libs \<Rightarrow> string \<Rightarrow> bool" where
  "channel_ok libs u =
     (case ol_parse_url libs u of
        Inr parsed \<Rightarrow> url_scheme parsed = ''https'' \<or> (url_scheme parsed = ''http'' \<and> url_loopback parsed)
      | Inl _ \<Rightarrow> False)"

lemma require_https_Inr:
  "require_https_unless_loopback parsed key = Inr u \<longleftrightarrow>
     url_scheme parsed = ''https'' \<or> (url_scheme parsed = ''http'' \<and> url_loopback parsed)"
  by (simp add: require_https_unless_loopback_def)

lemma jwks_from_config_Inr:
  assumes "jwks_from_config libs c keys p issuer = Inr loc"
  shows "case loc of JwksFile _ \<Rightarrow> keys = OidcKeys \<and> oidc_optional c (oidc_jwks_url keys) = None
    | _ \<Rightarrow> channel_ok libs (jwks_url loc)"
proof -
  have "default_jwks p issuer \<noteq> JwksFile path" for path by (cases p) simp_all
  with assms show ?thesis
    by (auto simp: jwks_from_config_def Let_def result_simps map_err_eq_Inr require_https_Inr channel_ok_def
        split: option.splits if_splits jwks_location.splits)
qed

lemma clock_skew_from_config_Inr: "clock_skew_from_config debug c keys = Inr skew \<Longrightarrow> skew \<le> MAX_CLOCK_SKEW"
  by (auto simp: clock_skew_from_config_def Let_def DEFAULT_CLOCK_SKEW_def MAX_CLOCK_SKEW_def split: option.splits if_splits)

lemma trim_end_matches_idem [simp]: "trim_end_matches d (trim_end_matches d s) = trim_end_matches d s"
  by (simp add: trim_end_matches_def)

text \<open>Settings that load are safe to trust: no key of the other family is set, the issuer has no
  trailing slash, issuer and remote key location are https or loopback, a key file excludes a key
  location and the original key family, and the skew is at most five minutes.\<close>

theorem settings_trustworthy:
  assumes "oidc_from_config libs c keys = Inr s"
  shows "list_all (\<lambda>key. oidc_optional c key = None) (oidc_all (oidc_other keys))
    \<and> trim_end_matches CHR ''/'' (os_issuer s) = os_issuer s \<and> channel_ok libs (os_issuer s)
    \<and> (case os_jwks s of JwksFile _ \<Rightarrow> keys = OidcKeys \<and> oidc_optional c (oidc_jwks_url keys) = None
        | _ \<Rightarrow> channel_ok libs (jwks_url (os_jwks s)))
    \<and> os_clock_skew s \<le> 300"
proof -
  have family: "find (\<lambda>key. oidc_optional c key \<noteq> None) (oidc_all (oidc_other keys)) = None"
    using assms by (auto simp: oidc_from_config_def split: option.splits)
  from assms obtain raw parsed p jwks skew where
      "os_issuer s = trim_end_matches CHR ''/'' raw" "ol_parse_url libs (trim_end_matches CHR ''/'' raw) = Inr parsed"
      "require_https_unless_loopback parsed (Config.oidc_issuer keys) = Inr ()"
      and jwks: "jwks_from_config libs c keys p (trim_end_matches CHR ''/'' raw) = Inr (os_jwks s)"
      and skew: "clock_skew_from_config (ol_debug libs) c keys = Inr (os_clock_skew s)"
    unfolding oidc_from_config_def family option.case Let_def
    by (auto simp: and_then_eq_Inr map_err_eq_Inr)
  then have "trim_end_matches CHR ''/'' (os_issuer s) = os_issuer s" "channel_ok libs (os_issuer s)"
    by (simp_all add: channel_ok_def require_https_Inr)
  moreover have "os_clock_skew s \<le> 300" using clock_skew_from_config_Inr [OF skew] by (simp add: MAX_CLOCK_SKEW_def)
  ultimately show ?thesis
    using family jwks_from_config_Inr [OF jwks] by (simp add: find_None_iff list_all_iff)
qed

definition sample_oidc_config :: configuration where
  "sample_oidc_config = from_map
     [(''MCP_OIDC_PROFILE'', ''keycloak''), (''MCP_OIDC_ISSUER'', ''https://idp.example/''), (''MCP_OIDC_AUDIENCE'', ''api'')]"

theorem settings_trustworthy_witness:
  "\<exists>s. oidc_from_config sample_libs sample_oidc_config OidcKeys = Inr s \<and> channel_ok sample_libs (os_issuer s)"
proof -
  have "find (\<lambda>key. oidc_optional sample_oidc_config key \<noteq> None) (oidc_all (oidc_other OidcKeys)) = None"
    "and_then (oidc_required sample_oidc_config OidcKeys PROFILE_KEY) (profile_parse (ol_debug sample_libs)) = Inr Keycloak"
    "oidc_required sample_oidc_config OidcKeys (Config.oidc_issuer OidcKeys) = Inr ''https://idp.example/''"
    "trim_end_matches CHR ''/'' ''https://idp.example/'' = ''https://idp.example''"
    "oidc_required sample_oidc_config OidcKeys (oidc_audience OidcKeys) = Inr ''api''"
    "jwks_from_config sample_libs sample_oidc_config OidcKeys Keycloak ''https://idp.example''
       = Inr (default_jwks Keycloak ''https://idp.example'')"
    "clock_skew_from_config (ol_debug sample_libs) sample_oidc_config OidcKeys = Inr DEFAULT_CLOCK_SKEW"
    "marker_from_config (ol_debug sample_libs) sample_oidc_config OidcKeys MACHINE_CLAIM_KEY = Inr None"
    "marker_from_config (ol_debug sample_libs) sample_oidc_config OidcKeys HUMAN_CLAIM_KEY = Inr None"
    "ol_parse_url sample_libs ''https://idp.example'' = Inr \<lparr>url_scheme = ''https'', url_host = Some (HostDomain ''idp.example'')\<rparr>"
    "ol_host_str sample_libs u = Some ''idp.example''" for u
    by code_simp+
  note parts = this
  have "\<exists>s. oidc_from_config sample_libs sample_oidc_config OidcKeys = Inr s"
    unfolding oidc_from_config_def parts(1) option.case oidc_keys.case parts(2) parts(3) and_then_simps Let_def parts(4,10)
    by (simp add: parts(5-11) [simplified] require_https_unless_loopback_def ok_or_def)
  then obtain s where "oidc_from_config sample_libs sample_oidc_config OidcKeys = Inr s" by (rule exE)
  with settings_trustworthy [OF this] show ?thesis by (intro exI [of _ s]) simp
qed

lemma map_of_filter_key: "map_of (filter (\<lambda>(k, _). P k) xs) k = (if P k then map_of xs k else None)"
  by (induction xs) auto

lemma read_claims_fields:
  assumes "read_claims obj = Some c"
  shows "cl_scp c = string_or_array (map_of obj ''scp'')" "cl_scope c = string_or_array (map_of obj ''scope'')"
    and "map_of (cl_rest c) k = Some v \<Longrightarrow> map_of obj k = Some v"
proof -
  have rest: "cl_rest c = filter (\<lambda>(k, _). k \<notin> set [''exp'', ''iat'', ''jti'', ''scp'', ''scope'']) obj"
    and "cl_scp c = string_or_array (map_of obj ''scp'')" "cl_scope c = string_or_array (map_of obj ''scope'')"
    using assms by (auto simp: read_claims_def bind_eq_Some_conv)
  then show "cl_scp c = string_or_array (map_of obj ''scp'')" "cl_scope c = string_or_array (map_of obj ''scope'')" by simp_all
  show "map_of (cl_rest c) k = Some v \<Longrightarrow> map_of obj k = Some v"
    unfolding rest map_of_filter_key by (simp split: if_splits)
qed

lemma principal_from_claims:
  assumes "principal_from s now c = Inr (a, expiry)" "read_claims obj = Some c"
  shows "\<exists>raw. map_of obj (os_subject_claim s) = Some (JString raw) \<and> subject (au_principal a) = trim raw"
    and "set (scopes (au_principal a)) = set (string_or_array (map_of obj ''scp'')) \<union> set (string_or_array (map_of obj ''scope''))"
    and "tenant (au_principal a) = os_tenant s"
proof -
  note fields = read_claims_fields [OF assms(2)]
  from assms(1) obtain sub where
      sub: "map_option trim (Option.bind (map_of (cl_rest c) (os_subject_claim s)) as_str) = Some sub"
      "subject (au_principal a) = sub"
    and rest: "scopes (au_principal a) = sorted_distinct (cl_scp c @ cl_scope c)" "tenant (au_principal a) = os_tenant s"
    by (auto simp: principal_from_def Let_def result_simps ok_or_def split: option.splits if_splits)
  from sub obtain raw where "map_of (cl_rest c) (os_subject_claim s) = Some (JString raw)" "sub = trim raw"
    by (auto simp: bind_eq_Some_conv as_str_eq_Some)
  with fields(3) sub(2)
  show "\<exists>raw. map_of obj (os_subject_claim s) = Some (JString raw) \<and> subject (au_principal a) = trim raw" by blast
  show "set (scopes (au_principal a)) = set (string_or_array (map_of obj ''scp'')) \<union> set (string_or_array (map_of obj ''scope''))"
    "tenant (au_principal a) = os_tenant s"
    using rest fields(1,2) by (simp_all add: sorted_distinct_ok)
qed

text \<open>C15. From the signature to the admitted request. Whatever interleaving the validator went through, and
  whichever of its answers the bearer boundary gets for the token of a request: if the request is
  admitted, then the key its token names, from a table the validator held, signed claims with the
  configured issuer and audience, the signed subject is the subject the request runs as, the signed
  scopes contain the scope of the boundary, and the revocation list in force does not name the holder.\<close>

theorem admitted_request_vouched:
  assumes "jwt_contract libs signs" and "oidc_reachable libs s start w" and "an \<in> set (ow_answers w)"
    and "Option.bind header bearer_token = Some (an_token an)" "validate (an_token an) = an_result an"
    and "require_bearer rnd text_ok app ack timestamp now validate auth header st = (Admitted p facts, st')"
  shows "\<exists>token kid (admitted :: admitted_key) obj t g raw.
      ol_sha256 libs token = ol_sha256 libs (an_token an) \<and> jwt_header_ok libs token kid
    \<and> g < length (ow_tables w) \<and> map_of (ow_tables w ! g) kid = Some admitted
    \<and> signs (ak_key admitted) token obj \<and> claims_accepted (oidc_validation s) (t div NANOS) obj \<and> t \<le> an_at an
    \<and> map_of obj (os_subject_claim s) = Some (JString raw) \<and> subject p = trim raw \<and> tenant p = os_tenant s
    \<and> required_scope (ia_settings auth) \<in>
        set (string_or_array (map_of obj ''scp'')) \<union> set (string_or_array (map_of obj ''scope''))
    \<and> revocation auth \<lparr>au_principal = p, au_token = facts\<rparr> = None"
proof -
  from assms(4-6) obtain au where au: "an_result an = Inr au" "revocation auth au = None"
      "p = au_principal au" "facts = au_token au" "required_scope (ia_settings auth) \<in> set (scopes p)"
    using admitted_iff [of rnd text_ok app ack timestamp now validate auth header st p facts] by fastforce
  from answer_vouched [OF assms(1-3) au(1)] obtain token kid and admitted :: admitted_key and obj c t expiry g where
      "ol_sha256 libs token = ol_sha256 libs (an_token an)" "jwt_header_ok libs token kid"
      "map_of (ow_tables w ! g) kid = Some admitted"
      "signs (ak_key admitted) token obj" "claims_accepted (oidc_validation s) (t div NANOS) obj" "t \<le> an_at an"
      and g: "g \<le> an_generation an" "an_generation an < length (ow_tables w)"
      and claims: "read_claims obj = Some c" "principal_from s (t div NANOS) c = Inr (au, expiry)"
    unfolding vouched_def by blast
  moreover have "g < length (ow_tables w)" using g by simp
  moreover obtain raw where "map_of obj (os_subject_claim s) = Some (JString raw)" "subject p = trim raw"
    using principal_from_claims(1) [OF claims(2,1)] au(3) by blast
  moreover have "tenant p = os_tenant s" "required_scope (ia_settings auth) \<in>
      set (string_or_array (map_of obj ''scp'')) \<union> set (string_or_array (map_of obj ''scope''))"
    using principal_from_claims(2,3) [OF claims(2,1)] au(3,5) by simp_all
  moreover have "au = \<lparr>au_principal = p, au_token = facts\<rparr>" using au(3,4) by simp
  with au(2) have "revocation auth \<lparr>au_principal = p, au_token = facts\<rparr> = None" by (simp only:)
  ultimately show ?thesis by blast
qed

theorem admitted_request_vouched_witness:
  "\<exists>(w :: oidc_world) (an :: answer) (p :: principal) (facts :: token_facts) st'. an \<in> set (ow_answers w)
     \<and> require_bearer (\<lambda>x. x) (\<lambda>_. True) sample_append InTime ''now'' 0 (\<lambda>_. an_result an)
         (inbound_auth_new \<lparr>public_url = ''https://mcp'', authorization_servers = [], required_scope = ''mcp:tools''\<rparr>)
         (Some ''Bearer jwt'') sample_state = (Admitted p facts, st')
     \<and> (\<exists>raw. map_of sample_claims ''sub'' = Some (JString raw) \<and> subject p = trim raw)"
proof -
  let ?auth = "inbound_auth_new \<lparr>public_url = ''https://mcp'', authorization_servers = [], required_scope = ''mcp:tools''\<rparr>"
  obtain w an and au :: authenticated where w: "oidc_reachable sample_libs sample_oidc_settings 0 w" "an \<in> set (ow_answers w)"
    "an_token an = ''jwt''" "an_result an = Inr au" "''mcp:tools'' \<in> set (scopes (au_principal au))"
    using sample_answer by blast
  have "bearer_token ''Bearer jwt'' = Some ''jwt''" by code_simp
  then have token: "Option.bind (Some ''Bearer jwt'') bearer_token = Some (an_token an)" using w(3) by simp
  have "\<exists>st'. require_bearer (\<lambda>x. x) (\<lambda>_. True) sample_append InTime ''now'' 0 (\<lambda>_. an_result an) ?auth (Some ''Bearer jwt'')
      sample_state = (Admitted (au_principal au) (au_token au), st')"
    unfolding admitted_iff using w(4,5) token
    by (intro conjI exI [of _ "an_token an"] exI [of _ au])
      (simp_all add: inbound_auth_new_def revocation_def limiter_check_def sample_state_def)
  then obtain st' where run: "require_bearer (\<lambda>x. x) (\<lambda>_. True) sample_append InTime ''now'' 0 (\<lambda>_. an_result an) ?auth
      (Some ''Bearer jwt'') sample_state = (Admitted (au_principal au) (au_token au), st')" by (rule exE)
  from admitted_request_vouched [OF sample_contract w(1,2) token refl run]
  obtain key token' obj raw where "sample_signs key token' obj"
    "map_of obj (os_subject_claim sample_oidc_settings) = Some (JString raw)" "subject (au_principal au) = trim raw"
    by blast
  then have "\<exists>raw. map_of sample_claims ''sub'' = Some (JString raw) \<and> subject (au_principal au) = trim raw"
    by (auto simp: sample_signs_def sample_oidc_settings_def)
  with w(2) run show ?thesis by blast
qed

end
