(* ===== verification/Passthrough.thy ===== *)
theory Passthrough
  imports Extractors Errors "HOL-Library.AList" "HOL-Library.Multiset"
begin

text \<open>
  The passthrough tools of Jira and Slack from their arguments to the request the transport hands to
  the policy: the argument structures of \<^verbatim>\<open>src/tools/args.rs\<close>, the handlers of \<^verbatim>\<open>src/tools/jira.rs\<close>
  and \<^verbatim>\<open>src/tools/slack.rs\<close>, the shared pipeline of \<^verbatim>\<open>src/controllers/api.rs\<close>, the path normalisation
  of the two vendors, and the part of \<open>fetch\<close> in \<^verbatim>\<open>src/transport/mod.rs\<close> that turns the path into a
  canonical target. What may end a call before that, a missing credential or an invalid base URL, sends
  nothing and is left out, as are the arguments that only shape the answer. The property says that
  the classification of the tool call, which works on the raw arguments, and the classification of
  this request are the same.
\<close>

section \<open>The code\<close>

text \<open>\<open>QueryParams\<close> is a \<open>BTreeMap<String, String>\<close>: sorted by key, a later entry replaces an earlier one.
  As a field it is an \<open>Option\<close>, absent when the argument is missing or null. \<open>None\<close> is the refusal of
  arguments that do not have the declared types.\<close>

type_synonym query_params = "(string \<times> string) list"

definition query_params_of :: "(string \<times> json) list \<Rightarrow> query_params option" where
  "query_params_of entries =
     (if list_all (\<lambda>(_, v). as_str v \<noteq> None) entries
      then Some (sort_key fst (fold (\<lambda>(k, v). AList.update k (the (as_str v))) entries []))
      else None)"

definition optional_query_params :: "arguments \<Rightarrow> query_params option option" where
  "optional_query_params args =
     (case argument args ''queryParams'' of
        None \<Rightarrow> Some None
      | Some JNull \<Rightarrow> Some None
      | Some v \<Rightarrow> Option.bind (as_object v) (\<lambda>entries. map_option Some (query_params_of entries)))"

record read_args =
  ra_path :: string
  ra_query_params :: "query_params option"

record write_args =
  wa_path :: string
  wa_body :: json
  wa_query_params :: "query_params option"

definition read_args_of :: "arguments \<Rightarrow> read_args option" where
  "read_args_of args =
     Option.bind (argument_text args ''path'') (\<lambda>path.
     Option.bind (optional_query_params args) (\<lambda>qp.
       Some \<lparr>ra_path = path, ra_query_params = qp\<rparr>))"

definition write_args_of :: "arguments \<Rightarrow> write_args option" where
  "write_args_of args =
     Option.bind (argument_text args ''path'') (\<lambda>path.
     Option.bind (argument args ''body'') (\<lambda>body.
     Option.bind (optional_query_params args) (\<lambda>qp.
       Some \<lparr>wa_path = path, wa_body = body, wa_query_params = qp\<rparr>)))"

definition jira_normalize_path :: "string \<Rightarrow> string" where
  "jira_normalize_path path = (if starts_with path ''/'' then path else CHR ''/'' # path)"

definition slack_normalize_path :: "string \<Rightarrow> string" where
  "slack_normalize_path path = (if starts_with path ''/'' then path else CHR ''/'' # path)"

definition normalize_and_append ::
  "(query_params \<Rightarrow> string) \<Rightarrow> (string \<Rightarrow> string) \<Rightarrow> string \<Rightarrow> query_params option \<Rightarrow> string" where
  "normalize_and_append form_urlencode normalize_path path query_params =
     (let normalized = normalize_path path in
      case query_params of
        Some qp \<Rightarrow>
          if qp \<noteq> [] then
            (let query = form_urlencode qp;
                 joiner = (if CHR ''?'' \<in> set normalized then CHR ''&'' else CHR ''?'')
             in normalized @ joiner # query)
          else normalized
      | None \<Rightarrow> normalized)"

definition canonicalize_error_text :: "canonicalize_error \<Rightarrow> string" where
  "canonicalize_error_text e =
     (case e of
        AbsoluteUrl \<Rightarrow> ''request path must be relative to the configured vendor base URL''
      | InvalidPercentEncoding \<Rightarrow> ''request path contains an invalid percent-escape''
      | ControlCharacter \<Rightarrow> ''request path contains a control character''
      | InvalidUtf8 \<Rightarrow> ''request query does not decode to UTF-8''
      | TooLong \<Rightarrow> ''request path is too long'')"

definition wire_target :: "string \<Rightarrow> mcp_error + canonical_target" where
  "wire_target path =
     map_err (\<lambda>e. api_error (''Invalid request path: '' @ canonicalize_error_text e) (Some 400) None) (parse_target path)"

text \<open>The facts \<open>fetch\<close> passes to \<open>authorize_egress_at\<close>, and then sends.\<close>

record wire_request =
  wr_method :: http_method
  wr_target :: canonical_target
  wr_body :: "json option"

definition dispatch_with_creds ::
  "(query_params \<Rightarrow> string) \<Rightarrow> (string \<Rightarrow> string) \<Rightarrow> http_method \<Rightarrow> string \<Rightarrow> query_params option \<Rightarrow> json option
     \<Rightarrow> mcp_error + wire_request" where
  "dispatch_with_creds form_urlencode normalize_path method path query_params body =
     and_then (wire_target (normalize_and_append form_urlencode normalize_path path query_params))
       (\<lambda>target. Inr \<lparr>wr_method = method, wr_target = target, wr_body = body\<rparr>)"

definition handle_read ::
  "(query_params \<Rightarrow> string) \<Rightarrow> (string \<Rightarrow> string) \<Rightarrow> http_method \<Rightarrow> read_args \<Rightarrow> mcp_error + wire_request" where
  "handle_read form_urlencode normalize_path method a =
     dispatch_with_creds form_urlencode normalize_path method (ra_path a) (ra_query_params a) None"

definition handle_write ::
  "(query_params \<Rightarrow> string) \<Rightarrow> (string \<Rightarrow> string) \<Rightarrow> http_method \<Rightarrow> write_args \<Rightarrow> mcp_error + wire_request" where
  "handle_write form_urlencode normalize_path method a =
     dispatch_with_creds form_urlencode normalize_path method (wa_path a) (wa_query_params a) (Some (wa_body a))"

text \<open>The five verb tools of a vendor: \<open>get\<close> and \<open>delete\<close> take \<open>ReadArgs\<close>, the others \<open>WriteArgs\<close>.\<close>

definition verb_request ::
  "(query_params \<Rightarrow> string) \<Rightarrow> (string \<Rightarrow> string) \<Rightarrow> http_method \<Rightarrow> arguments \<Rightarrow> (mcp_error + wire_request) option" where
  "verb_request form_urlencode normalize_path method args =
     (if method = Get \<or> method = Delete
      then map_option (handle_read form_urlencode normalize_path method) (read_args_of args)
      else map_option (handle_write form_urlencode normalize_path method) (write_args_of args))"

definition jira_request :: "(query_params \<Rightarrow> string) \<Rightarrow> http_method \<Rightarrow> arguments \<Rightarrow> (mcp_error + wire_request) option" where
  "jira_request form_urlencode = verb_request form_urlencode jira_normalize_path"

definition slack_request :: "(query_params \<Rightarrow> string) \<Rightarrow> http_method \<Rightarrow> arguments \<Rightarrow> (mcp_error + wire_request) option" where
  "slack_request form_urlencode = verb_request form_urlencode slack_normalize_path"

section \<open>Appending a query\<close>

text \<open>Both sides append encoded parameters to a path; the wire side has added a slash in front and
  sorted the parameters.\<close>

definition appended :: "string \<Rightarrow> query_params \<Rightarrow> string" where
  "appended path ps =
     (if ps = [] then path else path @ (if CHR ''?'' \<in> set path then CHR ''&'' else CHR ''?'') # form_pairs ps)"

lemma split_char_append: "split_char d (a @ d # b) = split_char d a @ split_char d b"
proof (induction a)
  case (Cons c a)
  obtain p ps where "split_char d a = p # ps" by (metis split_char_nonempty neq_Nil_conv)
  with Cons show ?case by auto
qed simp

lemma split_once_append_Some: "split_once d a = Some (x, y) \<Longrightarrow> split_once d (a @ b) = Some (x, y @ b)"
  by (induction a arbitrary: x) (auto split: if_splits option.splits)

lemma sort_key_append_sorted: "sort_key k (xs @ sort_key k ys) = sort_key k (xs @ ys)"
proof -
  have "sort_key k (sort_key k ys) = sort_key k ys" by (simp add: sort_key_id_if_sorted)
  then show ?thesis by (simp add: sort_key_def)
qed

definition query_of :: "string option \<Rightarrow> canonicalize_error + query_params" where
  "query_of q = (case q of None \<Rightarrow> Inr [] | Some raw \<Rightarrow> canonical_query raw)"

lemma parse_target_parts:
  "parse_target s =
     (if MAX_TARGET_BYTES < length s then Inl TooLong
      else if looks_absolute (fst (split_target s)) then Inl AbsoluteUrl
      else and_then (canonical_path (fst (split_target s)))
        (\<lambda>path. and_then (query_of (snd (split_target s))) (\<lambda>query. Inr \<lparr>target_path = path, target_query = query\<rparr>)))"
  by (simp add: parse_target_def query_of_def split: prod.split)

lemma split_form_pairs: "ps \<noteq> [] \<Longrightarrow> filter (\<lambda>p. p \<noteq> []) (split_char CHR ''&'' (form_pairs ps)) = map form_pair ps"
proof -
  assume "ps \<noteq> []"
  then have "split_char CHR ''&'' (form_pairs ps) = map form_pair ps"
    unfolding form_pairs_def using form_component_free by (intro split_join) (auto simp: form_pair_def)
  then show ?thesis by (auto simp: filter_id_conv form_pair_def)
qed

definition utf8_pairs :: "query_params \<Rightarrow> bool" where
  "utf8_pairs ps \<longleftrightarrow> list_all (\<lambda>(k, v). utf8_valid k \<and> utf8_valid v) ps"

lemma collect_form_pairs: "utf8_pairs ps \<Longrightarrow> collect_results decode_pair (map form_pair ps) = Inr ps"
  by (intro collect_results_map_id decode_form_pair) (auto simp: utf8_pairs_def list_all_iff)

lemma canonical_query_appended:
  assumes "ps \<noteq> []" "utf8_pairs ps"
  shows "canonical_query (form_pairs ps) = Inr (sort_key fst ps)"
    "canonical_query (q @ CHR ''&'' # form_pairs ps) =
       and_then (collect_results decode_pair (filter (\<lambda>p. p \<noteq> []) (split_char CHR ''&'' q)))
         (\<lambda>pairs. Inr (sort_key fst (pairs @ ps)))"
  using assms
  by (simp_all add: canonical_query_def split_char_append split_form_pairs collect_results_append
      collect_form_pairs and_then_assoc)

text \<open>The order of the parameters does not matter: the canonical query is sorted, and the sort is stable.\<close>

lemma query_of_appended_sorted:
  assumes "utf8_pairs ps" "ps \<noteq> []"
  shows "query_of (snd (split_target (appended path (sort_key fst ps)))) = query_of (snd (split_target (appended path ps)))"
proof -
  have sorted: "utf8_pairs (sort_key fst ps)" "sort_key fst ps \<noteq> []"
    using assms by (simp_all add: utf8_pairs_def list_all_iff) (metis length_0_conv length_sort)
  show ?thesis
  proof (cases "split_once CHR ''#'' path")
    case (Some xy)
    then obtain x y where "split_once CHR ''#'' path = Some (x, y)" by (cases xy) simp
    note cut = split_once_append_Some [OF this]
    from sorted(2) assms(2) show ?thesis by (simp add: appended_def split_target_def cut)
  next
    case None
    have whole: "split_once CHR ''#'' (path @ c # form_pairs qs) = None" if "c \<noteq> CHR ''#''" for c qs
      using None that form_pairs_free by (simp add: split_once_None_iff)
    show ?thesis
    proof (cases "split_once CHR ''?'' path")
      case (Some pq)
      then obtain p q where cut: "split_once CHR ''?'' path = Some (p, q)" by (cases pq) simp
      then have "CHR ''?'' \<in> set path" using split_once_None_iff by (metis option.distinct(1))
      with split_once_append_Some [OF cut] show ?thesis
        using assms sorted
        by (simp add: appended_def split_target_def whole query_of_def canonical_query_appended sort_key_append_sorted)
    next
      case None
      then have "CHR ''?'' \<notin> set path" by (simp add: split_once_None_iff)
      then show ?thesis
        using assms sorted sort_key_append_sorted [of fst "[]" ps]
        by (simp add: appended_def split_target_def whole split_once_append query_of_def canonical_query_appended)
    qed
  qed
qed

lemma split_target_appended: "fst (split_target (appended path ps)) = fst (split_target path)"
proof (cases "split_once CHR ''#'' path")
  case (Some xy)
  then obtain x y where cut: "split_once CHR ''#'' path = Some (x, y)" by (cases xy) simp
  show ?thesis by (simp add: appended_def split_target_def cut split_once_append_Some [OF cut])
next
  case None
  have whole: "split_once CHR ''#'' (path @ c # form_pairs qs) = None" if "c \<noteq> CHR ''#''" for c qs
    using None that form_pairs_free by (simp add: split_once_None_iff)
  show ?thesis
  proof (cases "split_once CHR ''?'' path")
    case (Some pq)
    then obtain p q where cut: "split_once CHR ''?'' path = Some (p, q)" by (cases pq) simp
    then have "CHR ''?'' \<in> set path" using split_once_None_iff by (metis option.distinct(1))
    with cut None show ?thesis
      by (simp add: appended_def split_target_def whole split_once_append_Some [OF cut])
  next
    case (None)
    then have "CHR ''?'' \<notin> set path" by (simp add: split_once_None_iff)
    with None \<open>split_once CHR ''#'' path = None\<close> show ?thesis
      by (simp add: appended_def split_target_def whole split_once_append)
  qed
qed

lemma length_form_pairs: "length (form_pairs ps) = sum_list (map (length \<circ> form_pair) ps) + (length ps - 1)"
proof (induction ps)
  case (Cons p ps)
  then show ?case by (cases ps) (simp_all add: form_pairs_def)
qed (simp add: form_pairs_def)

lemma length_appended_sorted: "length (appended path (sort_key fst ps)) = length (appended path ps)"
proof -
  have "sum_list (map f (sort_key fst ps)) = sum_list (map f ps)" for f :: "string \<times> string \<Rightarrow> nat"
    by (metis mset_sort mset_map sum_mset_sum_list)
  moreover have "sort_key fst ps = [] \<longleftrightarrow> ps = []" by (metis length_0_conv length_sort)
  ultimately show ?thesis by (simp add: appended_def length_form_pairs)
qed

lemma parse_target_appended_sorted:
  assumes "utf8_pairs ps"
  shows "parse_target (appended path (sort_key fst ps)) = parse_target (appended path ps)"
proof (cases "ps = []")
  case False
  with assms show ?thesis
    by (simp add: parse_target_parts length_appended_sorted split_target_appended query_of_appended_sorted)
qed simp

section \<open>The leading slash\<close>

lemma canonical_path_slash: "canonical_path (CHR ''/'' # raw) = canonical_path raw"
  by (simp add: canonical_path_def close_segment_def)

lemma split_target_slash: "split_target (CHR ''/'' # s) = (CHR ''/'' # fst (split_target s), snd (split_target s))"
  by (auto simp: split_target_def Let_def split: option.split prod.split)

lemma not_absolute_slash: "\<not> looks_absolute (CHR ''/'' # s)"
  by (simp add: looks_absolute_def ascii_simps)

lemma parse_target_slash:
  "parse_target (CHR ''/'' # s) = Inr t \<Longrightarrow>
     parse_target s = (if looks_absolute (fst (split_target s)) then Inl AbsoluteUrl else Inr t)"
  by (auto simp: parse_target_parts split_target_slash canonical_path_slash not_absolute_slash split: if_splits)

lemma parse_target_normalized:
  assumes "parse_target (appended (if starts_with path ''/'' then path else CHR ''/'' # path) ps) = Inr t"
  shows "parse_target (appended path ps) = (if looks_absolute (fst (split_target path)) then Inl AbsoluteUrl else Inr t)"
proof (cases "starts_with path ''/''")
  case True
  then obtain rest where "path = CHR ''/'' # rest" by (cases path) (auto simp: starts_with_def)
  with assms True show ?thesis by (simp add: split_target_slash not_absolute_slash)
next
  case False
  moreover have "appended (CHR ''/'' # path) ps = CHR ''/'' # appended path ps" by (simp add: appended_def)
  ultimately show ?thesis using assms by (simp add: parse_target_slash split_target_appended)
qed

section \<open>The arguments\<close>

definition text_pairs :: "(string \<times> json) list \<Rightarrow> query_params" where
  "text_pairs entries = List.map_filter (\<lambda>(key, v). map_option (\<lambda>s. (key, s)) (as_str v)) entries"

text \<open>What the types of the code guarantee of the arguments: the keys of a JSON object are distinct, and
  every string is UTF-8.\<close>

definition arguments_ok :: "arguments \<Rightarrow> bool" where
  "arguments_ok args \<longleftrightarrow>
     (case Option.bind (argument args ''queryParams'') as_object of
        None \<Rightarrow> True
      | Some entries \<Rightarrow> distinct (map fst entries) \<and> utf8_pairs (text_pairs entries))"

lemma update_new: "k \<notin> fst ` set m \<Longrightarrow> AList.update k v m = m @ [(k, v)]"
  by (induction m) auto

lemma query_params_of_sorted:
  assumes "distinct (map fst entries)" "query_params_of entries = Some qp"
  shows "qp = sort_key fst (text_pairs entries)"
proof -
  have "fold (\<lambda>(k, v). AList.update k (the (as_str v))) es m = m @ text_pairs es"
    if "list_all (\<lambda>(_, v). as_str v \<noteq> None) es" "distinct (map fst es)" "fst ` set es \<inter> fst ` set m = {}" for es m
    using that
  proof (induction es arbitrary: m)
    case (Cons e es)
    obtain k v where e: "e = (k, v)" by (cases e)
    with Cons.prems show ?case
      by (auto simp: Cons.IH update_new text_pairs_def map_filter_simps image_iff)
  qed (simp add: text_pairs_def map_filter_simps)
  from this [of entries "[]"] assms show ?thesis by (auto simp: query_params_of_def split: if_splits)
qed

lemma form_pairs_Nil [simp]: "form_pairs ps = [] \<longleftrightarrow> ps = []"
  by (cases ps rule: list.exhaust; cases "tl ps") (auto simp: form_pairs_def form_pair_def)

definition argument_pairs :: "arguments \<Rightarrow> query_params" where
  "argument_pairs args =
     (case Option.bind (argument args ''queryParams'') as_object of None \<Rightarrow> [] | Some entries \<Rightarrow> text_pairs entries)"

lemma passthrough_path_appended:
  assumes "form_urlencode_documented form"
  shows "passthrough_path form args = appended (text_or_default args ''path'') (argument_pairs args)"
  using assms
  by (auto simp: passthrough_path_def appended_def argument_pairs_def text_pairs_def form_urlencode_documented_def
      Let_def split: option.split)

lemma normalize_and_append_appended:
  assumes "form_urlencode_documented form" "arguments_ok args" "optional_query_params args = Some qp"
  shows "normalize_and_append form norm_path path qp = appended (norm_path path) (sort_key fst (argument_pairs args))"
proof (cases qp)
  case None
  with assms(3) have "argument_pairs args = []"
    by (auto simp: optional_query_params_def argument_pairs_def as_object_def split: option.splits json.splits)
  with None show ?thesis by (simp add: normalize_and_append_def appended_def)
next
  case (Some ps)
  with assms(3) obtain entries where e: "Option.bind (argument args ''queryParams'') as_object = Some entries"
    "query_params_of entries = Some ps"
    by (auto simp: optional_query_params_def as_object_def split: option.splits json.splits)
  with assms(2) have "ps = sort_key fst (argument_pairs args)"
    by (simp add: arguments_ok_def argument_pairs_def query_params_of_sorted)
  with Some assms(1) show ?thesis
    by (simp add: normalize_and_append_def appended_def form_urlencode_documented_def Let_def)
qed

definition slashed :: "string \<Rightarrow> string" where
  "slashed path = (if starts_with path ''/'' then path else CHR ''/'' # path)"

lemma normalize_slashed: "jira_normalize_path = slashed" "slack_normalize_path = slashed"
  by (simp_all add: fun_eq_iff jira_normalize_path_def slack_normalize_path_def slashed_def)

lemma dispatch_with_creds_Inr:
  "dispatch_with_creds form norm_path m path qp body = Inr r \<longleftrightarrow>
     wr_method r = m \<and> wr_body r = body \<and> parse_target (normalize_and_append form norm_path path qp) = Inr (wr_target r)"
  by (cases r) (auto simp: dispatch_with_creds_def wire_target_def map_err_def and_then_def split: sum.splits)

lemma verb_request_facts:
  assumes "form_urlencode_documented form" "arguments_ok args" "verb_request form slashed m args = Some (Inr r)"
  shows "wr_method r = m"
    "wr_body r = (if m = Get \<or> m = Delete then None else argument args ''body'')"
    "parse_target (passthrough_path form args) =
       (if looks_absolute (fst (split_target (text_or_default args ''path''))) then Inl AbsoluteUrl else Inr (wr_target r))"
proof -
  let ?path = "text_or_default args ''path''"
  obtain qp where qp: "optional_query_params args = Some qp" and
    run: "dispatch_with_creds form slashed m ?path qp (if m = Get \<or> m = Delete then None else argument args ''body'') = Inr r"
    using assms(3)
    by (auto simp: verb_request_def read_args_of_def write_args_of_def handle_read_def handle_write_def text_or_default_def
        split: if_splits option.splits bind_splits)
  have "utf8_pairs (argument_pairs args)" using assms(2)
    by (auto simp: arguments_ok_def argument_pairs_def utf8_pairs_def split: option.splits)
  then have "parse_target (appended (slashed ?path) (argument_pairs args)) = Inr (wr_target r)"
    using run by (simp add: dispatch_with_creds_Inr normalize_and_append_appended [OF assms(1,2) qp] parse_target_appended_sorted)
  then show "parse_target (passthrough_path form args) =
       (if looks_absolute (fst (split_target ?path)) then Inl AbsoluteUrl else Inr (wr_target r))"
    unfolding passthrough_path_appended [OF assms(1)] slashed_def by (rule parse_target_normalized)
  show "wr_method r = m" "wr_body r = (if m = Get \<or> m = Delete then None else argument args ''body'')"
    using run by (simp_all add: dispatch_with_creds_Inr)
qed

lemma jira_extract_body: "m \<noteq> Post \<Longrightarrow> jira_extract sha m path query body = jira_extract sha m path query body'"
  by (simp add: jira_extract_def)

section \<open>Properties\<close>

text \<open>C21. The decision on a passthrough tool and the decision on the wire are about the same facts. For
  every verb of the Jira and Slack tools, when the arguments get as far as a request that the transport
  puts to the policy, the classification of the tool call, made from the raw arguments, is the
  classification of the method, the canonical target and the body of that request, although the
  pipeline has decoded the arguments, sorted the parameters and put a slash in front of the path in
  between. The one exception is a path that starts like an absolute URL: there the tool call is
  unclassified.\<close>

theorem tool_and_wire_agree:
  assumes "form_urlencode_documented form" and "arguments_ok args"
    and "vendor = ''jira'' \<and> jira_request form m args = Some (Inr r)
      \<or> vendor = ''slack'' \<and> slack_request form m args = Some (Inr r)"
  shows "for_tool sha show_json form (vendor @ verb_suffix m) args risk =
    (if looks_absolute (fst (split_target (text_or_default args ''path''))) then details_unclassified m root_path
     else for_vendor sha vendor (wr_method r) (wr_target r) (wr_body r))"
proof -
  from assms(3) have "verb_request form slashed m args = Some (Inr r)"
    by (auto simp: jira_request_def slack_request_def normalize_slashed)
  note facts = verb_request_facts [OF assms(1,2) this]
  from assms(3) consider "vendor = ''jira''" | "vendor = ''slack''" by blast
  then show ?thesis
  proof cases
    case 1
    show ?thesis
      unfolding 1 for_tool_verb for_vendor_own passthrough_details_def facts
      using jira_extract_body [of m sha "target_path (wr_target r)" "target_query (wr_target r)" "argument args ''body''" None]
      by (cases m) simp_all
  next
    case 2
    show ?thesis
      unfolding 2 for_tool_verb for_vendor_own passthrough_details_def facts by simp
  qed
qed

definition sample_arguments :: arguments where
  "sample_arguments = Some [(''path'', JString ''rest/api/3/search/jql''),
     (''queryParams'', JObject [(''maxResults'', JString ''5''), (''jql'', JString ''project = PLAT'')])]"

theorem tool_and_wire_agree_witness:
  "\<exists>r :: wire_request. jira_request form_pairs Get sample_arguments = Some (Inr r)
    \<and> target_path (wr_target r) = ''/rest/api/3/search/jql''
    \<and> target_query (wr_target r) = [(''jql'', ''project = PLAT''), (''maxResults'', ''5'')]
    \<and> for_tool (\<lambda>s. s) (\<lambda>_. ''1'') form_pairs ''jira_get'' sample_arguments Write
      = for_vendor (\<lambda>s. s) ''jira'' Get (wr_target r) None"
proof -
  define r where "r = \<lparr>wr_method = Get, wr_target = \<lparr>target_path = ''/rest/api/3/search/jql'',
    target_query = [(''jql'', ''project = PLAT''), (''maxResults'', ''5'')]\<rparr>, wr_body = None\<rparr>"
  have form: "form_urlencode_documented form_pairs" by (simp add: form_urlencode_documented_def)
  have ok: "arguments_ok sample_arguments" by code_simp
  have run: "jira_request form_pairs Get sample_arguments = Some (Inr r)" unfolding r_def by code_simp
  have rel: "\<not> looks_absolute (fst (split_target (text_or_default sample_arguments ''path'')))" by code_simp
  from tool_and_wire_agree [OF form ok, of "''jira''" Get r] run rel
  have "for_tool (\<lambda>s. s) (\<lambda>_. ''1'') form_pairs ''jira_get'' sample_arguments Write = for_vendor (\<lambda>s. s) ''jira'' Get (wr_target r) None"
    by (simp add: verb_suffix_def r_def)
  with run show ?thesis by (auto simp: r_def)
qed

text \<open>The exception: the tool call with an absolute path is unclassified, and the pipeline, which would
  send the path under the configured host, has a target for it.\<close>

lemma absolute_path_requests:
  "map_option (map_sum (\<lambda>_. ()) (\<lambda>r. target_path (wr_target r)))
     (jira_request form_pairs Get (Some [(''path'', JString ''https://x'')])) = Some (Inr ''/https:/x'')"
  by code_simp

end
