(* ===== verification/Spec2Isabelle.thy ===== *)
theory Spec2Isabelle
  imports Engine Verify Sessions Inbound_Auth Errors Egress Disk_Quota Credentials Secret_Lifecycle Oidc Passthrough
begin

text \<open>
  Verification of the enforcing core of \<^verbatim>\<open>mcp-server-devtools\<close>, an MCP server that exposes some twenty
  developer services as tools. In its enterprise mode a request passes the bearer boundary, becomes a
  tool call, and every outbound request of that call passes one chokepoint, where it is brought to
  canonical form, classified, decided by the policy engine and, when denied, written to the audit
  journal. Policy and revocation list are signed documents that watchers reload; credentials come from
  the configuration, the keychain and secret references.

  \<^bold>\<open>Conventions.\<close> A Rust string or byte vector is a \<open>string\<close>, one \<open>char\<close> per byte; white space
  is Unicode white space in UTF-8. \<open>Result\<close> is a sum with the error on the left, \<open>u64\<close> is \<open>nat\<close> with
  the checks and saturations written out, a hash map is an association list, a \<open>BTreeMap\<close> a sorted one.
  State is a record passed along; concurrent tasks are inductive steps on such a record, one step per
  critical section or, where a theory says so, one for several that nothing else can come between. Third-party crates (JWT, Ed25519, SHA-256, YAML and JSON parsers, the URL parser),
  the network, the clock and the file system are arguments; what a theorem needs of them is a named
  hypothesis stating documented behaviour.

  \<^bold>\<open>Theories.\<close>
  \<^item> \<^verbatim>\<open>Prelude\<close>, \<^verbatim>\<open>Json\<close>: results, bytes, splitting, trimming, UTF-8, decimal and hexadecimal numbers;
    JSON values.
  \<^item> \<^verbatim>\<open>Canonical\<close> (\<^verbatim>\<open>policy/canonical.rs\<close>): the in-place path normaliser equals normalisation segment by
    segment, and every accepted target passes the checker of the fuzz target.
  \<^item> \<^verbatim>\<open>Policy_Types\<close> (\<^verbatim>\<open>policy/mod.rs\<close>, \<^verbatim>\<open>ports/policy.rs\<close>), \<^verbatim>\<open>Scope\<close> (\<^verbatim>\<open>policy/scope.rs\<close>): principals, labels,
    actions, decisions; the bounded log of a call's decisions accounts for each of them.
  \<^item> \<^verbatim>\<open>Engine\<close> (\<^verbatim>\<open>policy/engine.rs\<close>): a request is allowed if and only if its resource was classified, an
    allow rule applies and no deny rule does; decisions name the rule that made them; compilation yields well-formed policies; the
    two-pointer glob matcher decides the declarative relation.
  \<^item> \<^verbatim>\<open>Jql\<close>, \<^verbatim>\<open>Extractors\<close> (\<^verbatim>\<open>policy/extractors.rs\<close>): the resources and risk read off a request. The projects a JQL
    text is said to be confined to are sound, whatever boolean combination of clauses it is.
  \<^item> \<^verbatim>\<open>Passthrough\<close> (\<^verbatim>\<open>controllers/api.rs\<close>, \<^verbatim>\<open>tools/args.rs\<close>, \<^verbatim>\<open>tools/jira.rs\<close>, \<^verbatim>\<open>tools/slack.rs\<close>): the verb
    tools of Jira and Slack from their arguments to the request put to the policy. The raw arguments and
    that request classify alike.
  \<^item> \<^verbatim>\<open>Egress\<close> (\<^verbatim>\<open>policy/egress.rs\<close>): the chokepoint permits exactly what the decision point allows.
  \<^item> \<^verbatim>\<open>Audit_Sink\<close>, \<^verbatim>\<open>Chain\<close>, \<^verbatim>\<open>Journal\<close>, \<^verbatim>\<open>Verify\<close> (\<^verbatim>\<open>ports/audit_sink.rs\<close>, \<^verbatim>\<open>audit/\<close>): the locale
    \<open>sink_contract\<close> and the journal writer that meets it: acknowledged records are durable, every record
    is answered, a crash at any byte recovers; the offline verifier accepts what the writer wrote and an
    exported checkpoint pins the journal's history.
  \<^item> \<^verbatim>\<open>Signing\<close>, \<^verbatim>\<open>Bundle\<close>, \<^verbatim>\<open>Revocation\<close> (\<^verbatim>\<open>policy/signing.rs\<close>, \<^verbatim>\<open>policy/bundle.rs\<close>, \<^verbatim>\<open>auth/revocation.rs\<close>): what a poll of a
    signed document may change, with locales for a kind of document and for its client of a sink.
  \<^item> \<^verbatim>\<open>Rate_Limit\<close>, \<^verbatim>\<open>Sessions\<close>, \<^verbatim>\<open>Inbound_Auth\<close> (\<^verbatim>\<open>server/\<close>): bounded bursts; sessions that are not capabilities,
    and of which a revocation closes every one it finds; exactly which requests the boundary admits.
  \<^item> \<^verbatim>\<open>Oidc\<close> (\<^verbatim>\<open>auth/oidc.rs\<close>, \<^verbatim>\<open>auth/ema.rs\<close>): the token validator behind the boundary. Keys, cache and
    validations in flight interleave at every await; whatever is admitted was signed under the key its
    token names, and was verified while its request was served or within five minutes under a key that
    is still published. The principal is what the signed claims say.
  \<^item> \<^verbatim>\<open>Secrets\<close>, \<^verbatim>\<open>Vendor_Registry\<close>, \<^verbatim>\<open>Config\<close>, \<^verbatim>\<open>Credentials\<close>, \<^verbatim>\<open>Secret_Lifecycle\<close> (\<^verbatim>\<open>secrets/\<close>, \<^verbatim>\<open>auth/\<close>,
    \<^verbatim>\<open>config/\<close>, \<^verbatim>\<open>bootstrap/secrets.rs\<close>, \<^verbatim>\<open>bootstrap/watcher.rs\<close>): references resolve document by document, and the
    running server never reads a reference as its own text. Which account and secret the Atlassian
    resolver sends is characterised by what configuration and keychain supply. For the Atlassian vendors the broker's audit
    label names the credential the resolver sends, under stated conditions on accounts and slots; a case
    outside them where the label is wrong is proved too.
  \<^item> \<^verbatim>\<open>Disk_Quota\<close> (\<^verbatim>\<open>transport/mod.rs\<close>): the shared disk budget of streamed responses refines a ledger that
    recomputes every sum, stays within its limits and grants in order of arrival.
  \<^item> \<^verbatim>\<open>Errors\<close> (\<^verbatim>\<open>error.rs\<close>): the error type, its renderings and the classification of controller errors.

  This theory interprets the client locales on the journal writer and proves the two properties that
  span the watchers, the boundary or the engine, and the journal file.

  \<^bold>\<open>Bounds.\<close> Loops of the source are recursion with a termination proof; no model runs on fuel. The actor
  chain of a token recurses on a depth of eight because the source refuses a ninth actor. Runs of the
  concurrent components are reflexive transitive closures of a step relation, of any length.

  \<^bold>\<open>Not modelled.\<close> The development covers the enforcing core and leaves out parts that have state and logic
  of their own. Of the tool dispatcher, \<^verbatim>\<open>tools/mod.rs\<close>, neither the decision on a tool call nor the
  order of intent, dispatch and outcome records is modelled. The administrative interface with its
  mutation gate is out, and so are redirects, retries, the response cache and the artifact
  registry of the transport, the token and session caches of the Zoom, Mend and NinjaOne clients, the
  rotating log of \<^verbatim>\<open>audit/mod.rs\<close>, forwarding, rollups, metrics and ingestion. Vendor clients,
  the other controllers and argument schemas, result formats, the command line, start-up, HTTP routing and the Vault
  adapter are out as shapes over external services or the operating system. Serialization of audit
  events is an argument of the journal, log lines are left out, and timers are the choice of the next
  step.
\<close>

section \<open>The components on one journal\<close>

text \<open>
  The watchers of the two signed documents, the bearer boundary and the egress chokepoint are
  clients of the sink contract. Here each is joined with the journal writer itself, so what their
  lemmas call recorded is a line of the journal file.
\<close>

interpretation journaled_policy: audited_bundle "journal_append cr co pol ser" "journal_recorded ser"
  "journal_sink_ok cr co pol ser" cr' "policy_bundle cr' debug parse_yaml"
  for cr co pol ser cr' debug parse_yaml ..

interpretation journaled_revocation: audited_bundle "journal_append cr co pol ser" "journal_recorded ser"
  "journal_sink_ok cr co pol ser" cr' "revocation_bundle cr' debug rfc3339 parse_yaml"
  for cr co pol ser cr' debug rfc3339 parse_yaml ..

interpretation journaled_boundary: audited_boundary "journal_append cr co pol ser" "journal_recorded ser"
  "journal_sink_ok cr co pol ser"
  for cr co pol ser ..

interpretation journaled_egress: audited_egress "journal_append cr co pol ser" "journal_recorded ser"
  "journal_sink_ok cr co pol ser"
  for cr co pol ser ..

lemma change_recorded_line:
  "change_recorded doc (journal_recorded ser s) l \<longleftrightarrow>
     (\<exists>n e. 0 < n \<and> n \<le> length (lines_of (j_file (js_journal s)))
        \<and> lines_of (j_file (js_journal s)) ! (n - 1) = record_line n (ser e)
        \<and> ce_kind e = doc_changed_kind doc \<and> ce_version e = Some (doc_version doc (loaded_document l))
        \<and> ce_signature e = loaded_signature l)"
  by (auto simp: change_recorded_def journal_recorded_def)

lemma authorize_iff_permitted:
  assumes "enforcing e scope c" "enf_policy e = evaluate policy"
  shows "(\<exists>ticket. fst (authorize_at app sha form ch scope rq st) = Inr (Some ticket))
    \<longleftrightarrow> permitted policy (egress_context sha c e rq)"
  using permitted_iff [of policy sha c e rq] assms(2)
  by (cases rule: authorize_at_cases [OF assms(1), of sha rq form st app ch]) auto

section \<open>Properties\<close>

text \<open>C6. The policy that decides is a policy the journal names. Let the watcher poll the policy file
  any number of times, whatever the file system, the clock and the disk do, over the journal
  writer. Then the chokepoint of an enforcing call lets a request through exactly when the rules
  compiled from the bytes in force permit it, those bytes carry the signature the configured key
  asks for, the version every decision quotes is the label with the digest of those bytes, and
  unless they are the bytes the server started with, a line of the journal file records the
  change to that very version and signature.\<close>

theorem enforced_policy_is_journaled:
  assumes "(watch cr (policy_bundle cr debug parse_yaml) (journal_append cr' co pol ser))\<^sup>*\<^sup>* (s0, b0) (s, b)"
    and "journal_sink_ok cr' co pol ser s0" "bundle_ok cr (policy_bundle cr debug parse_yaml) b0"
    and "policy = loaded_document (bundle_current b)"
    and "enforcing e scope c" "enf_policy e = evaluate policy"
  shows "((\<exists>ticket. fst (authorize_at app sha form ch scope rq st) = Inr (Some ticket))
          \<longleftrightarrow> permitted policy (egress_context sha c e rq))
    \<and> compile cr parse_yaml (bundle_loaded_bytes b) = Inr policy
    \<and> authentic cr (policy_bundle cr debug parse_yaml) (bundle_verifier b) (bundle_loaded_bytes b) (bundle_current b)
    \<and> (\<exists>n. dec_policy_version (enf_policy e (egress_context sha c e rq)) = Some (version_label cr n (bundle_loaded_bytes b)))
    \<and> (bundle_current b = bundle_current b0
       \<or> change_recorded (policy_bundle cr debug parse_yaml) (journal_recorded ser s) (bundle_current b))"
proof -
  note run = journaled_policy.watch_evidence [OF assms(1-3)]
  then have ok: "bundle_ok cr (policy_bundle cr debug parse_yaml) b" by blast
  have auth: "authentic cr (policy_bundle cr debug parse_yaml) (bundle_verifier b) (bundle_loaded_bytes b) (bundle_current b)"
    using ok by (simp add: bundle_ok_def)
  then have comp: "compile cr parse_yaml (bundle_loaded_bytes b) = Inr policy"
    using assms(4) by (auto simp: authentic_def policy_bundle_def map_err_def split: sum.splits)
  have "\<exists>n. dec_policy_version (enf_policy e (egress_context sha c e rq)) = Some (version_label cr n (bundle_loaded_bytes b))"
    using compile_policy_wf [OF comp] assms(6) by (auto simp: file_policy.decision_version)
  with run auth comp authorize_iff_permitted [OF assms(5,6)] show ?thesis by blast
qed

text \<open>A journal on a healthy disk that seals every hundred records, and a policy file that changed.\<close>

definition sample_sealing :: checkpoint_policy where
  "sample_sealing = \<lparr>pol_every_records = 100, pol_every_seconds = 60, pol_signing_key = None, pol_export = False\<rparr>"

definition sample_journal :: journal_sink where
  "sample_journal = \<lparr>js_journal = w_journal (journal_new sample_crypto 0), js_envs = (\<lambda>_. sample_env)\<rparr>"

abbreviation sample_journal_append :: "(journal_sink, control_event) append_op" where
  "sample_journal_append \<equiv> journal_append sample_crypto sample_codec sample_sealing (\<lambda>_. sample_body)"

definition sample_rules :: "string \<Rightarrow> compiled_policy" where
  "sample_rules bytes = \<lparr>policy_version = version_label sample_crypto 3 bytes, policy_rules = []\<rparr>"

definition sample_yaml :: "string \<Rightarrow> string + policy_document" where
  "sample_yaml bytes = Inr \<lparr>pd_version = 3, pd_default = Some ''deny'', pd_rules = []\<rparr>"

lemma sample_journal_ok: "journal_sink_ok sample_crypto sample_codec sample_sealing (\<lambda>_. sample_body) sample_journal"
proof -
  obtain ls where "history_inv sample_crypto sample_codec {sample_sealing} ls (journal_new sample_crypto 0)"
    using journal_history_inv [OF sample_codec_documented history_new] by blast
  then have "journal_inv sample_crypto sample_codec {sample_sealing} ls (js_journal sample_journal)"
    by (simp add: history_inv_def sample_journal_def)
  then show ?thesis using sample_codec_documented sample_event_body by (auto simp: journal_sink_ok_def)
qed

definition sample_written :: "nat \<Rightarrow> journal_sink \<Rightarrow> bool" where
  "sample_written n s \<longleftrightarrow> js_envs s = (\<lambda>_. sample_env) \<and> j_poison (js_journal s) = None
     \<and> ws_last_seq (j_state (js_journal s)) = n \<and> ws_since_checkpoint (j_state (js_journal s)) = n"

lemma sample_written_new: "sample_written 0 sample_journal"
  by (simp add: sample_written_def sample_journal_def journal_new_def writer_start_def)

lemma sample_append:
  assumes "sample_written n s" "n < 50"
  obtains s' where "sample_journal_append s e = (Inr (Suc n), s')" "sample_written (Suc n) s'"
proof -
  have "\<exists>s'. sample_journal_append s e = (Inr (Suc n), s') \<and> sample_written (Suc n) s'"
    using assms
    by (simp add: sample_written_def journal_append_def sample_enqueue sample_env_def sample_sealing_def
        drain_room MAX_BATCH_def writer_batch_def checked_add_u64_def Let_def comp_def)
  then show thesis using that by (elim exE conjE)
qed

lemma sample_tick:
  assumes "stage_inner sample_crypto doc fs b = (Inr (Some st), digest)" "sample_written n s" "n < 50"
  obtains s' b' hook where "tick sample_crypto doc fs now (Some (append_bounded sample_journal_append InTime)) s b = (s', b', hook)"
    "sample_written (Suc n) s'" "bundle_current b' = staged_loaded st" "bundle_loaded_bytes b' = staged_bytes st"
proof -
  obtain s' where "sample_journal_append s (changed_event doc now st (note_reload (Inr (Some st)) b)) = (Inr (Suc n), s')"
    "sample_written (Suc n) s'"
    by (rule sample_append [OF assms(2,3)])
  then show thesis
    by (intro that [of s' "snd (commit doc st (note_reload (Inr (Some st)) b))"])
       (simp_all add: tick_def stage_with_digest_def assms(1) append_bounded_def commit_def Let_def)
qed

theorem enforced_policy_is_journaled_witness:
  "\<exists>s (b :: compiled_policy signed_bundle). bundle_loaded_bytes b = ''new''
     \<and> \<not> permitted (loaded_document (bundle_current b)) (egress_context (\<lambda>s. s) sample_scope
          (sample_enforcement\<lparr>enf_policy := evaluate (loaded_document (bundle_current b))\<rparr>) (sample_request ''loki-qa''))
     \<and> change_recorded (policy_bundle sample_crypto (\<lambda>s. s) sample_yaml) (journal_recorded (\<lambda>_. sample_body) s) (bundle_current b)"
proof -
  let ?doc = "policy_bundle sample_crypto (\<lambda>s. s) sample_yaml"
  let ?b = "new_bundle ''p'' None (sample_rules ''old'') None ''old''"
  let ?e = "sample_enforcement\<lparr>enf_policy := evaluate (sample_rules ''new'')\<rparr>"
  let ?st = "\<lparr>staged_loaded = \<lparr>loaded_document = sample_rules ''new'', loaded_signature = None\<rparr>, staged_bytes = ''new''\<rparr>"
  have stage: "stage_inner sample_crypto ?doc (sample_fs ''new'') ?b = (Inr (Some ?st), Some (digest_label sample_crypto ''new''))"
    by (simp add: stage_inner_def read_bytes_def sample_fs_def policy_bundle_def new_bundle_def verify_bytes_def
        sample_yaml_def sample_rules_def compile_def MAX_DOCUMENT_BYTES_def)
  obtain s b hook where t: "tick sample_crypto ?doc (sample_fs ''new'') ''t'' (Some (append_bounded sample_journal_append InTime))
       sample_journal ?b = (s, b, hook)"
    and b: "bundle_current b = staged_loaded ?st" "bundle_loaded_bytes b = staged_bytes ?st"
    by (rule sample_tick [OF stage sample_written_new]) simp
  have run: "(watch sample_crypto ?doc sample_journal_append)\<^sup>*\<^sup>* (sample_journal, ?b) (s, b)"
    by (rule r_into_rtranclp, rule watch_tick [OF t])
  have ok: "bundle_ok sample_crypto ?doc ?b"
    by (simp add: bundle_ok_def authentic_def new_bundle_def policy_bundle_def compile_def sample_yaml_def
        sample_rules_def MAX_DOCUMENT_BYTES_def)
  have enf: "enforcing ?e (Some (sample_scope\<lparr>cs_enforcement := Some ?e\<rparr>)) (sample_scope\<lparr>cs_enforcement := Some ?e\<rparr>)"
    by (simp add: enforcing_def)
  have differ: "bundle_current b \<noteq> bundle_current ?b"
    by (simp add: b new_bundle_def sample_rules_def version_label_def digest_label_def sample_crypto_def pad_to_def)
  have "change_recorded ?doc (journal_recorded (\<lambda>_. sample_body) s) (bundle_current b)"
    using enforced_policy_is_journaled [OF run sample_journal_ok ok refl enf, where app = memory_append and sha = "\<lambda>s. s"
        and form = "\<lambda>_. ''''" and ch = "\<lparr>ch_ack = InTime, ch_now = ''''\<rparr>" and rq = "sample_request ''loki-qa''"
        and st = "\<lparr>es_log = empty_log, es_sink = memory_new\<rparr>"] differ
    by (simp add: b)
  moreover have "\<not> permitted (sample_rules ''new'') c" for c
    by (simp add: permitted_def sample_rules_def)
  ultimately show ?thesis using b by (intro exI [of _ s] exI [of _ b]) simp
qed

text \<open>C9. Revocation, end to end over one journal. Let the watcher poll the revocation file any
  number of times, whatever the file system, the clock and the disk do. A request whose token the
  bytes in force name, by subject, token or time of issue, is answered 401 and not admitted; unless
  those bytes were there at the start, a line of the journal records the change to their version;
  and when the append of the refusal is acknowledged, the line with the acknowledged number is the
  record of the refusal with the version of the list.\<close>

theorem revocation_end_to_end:
  assumes "(watch cr (revocation_bundle cr debug rfc3339 parse_yaml) (journal_append cr' co pol ser))\<^sup>*\<^sup>* (s0, b0) (s, b)"
    and "journal_sink_ok cr' co pol ser s0" "bundle_ok cr (revocation_bundle cr debug rfc3339 parse_yaml) b0"
    and "ia_revocations auth = Some (loaded_document (bundle_current b))" "ia_audit auth"
    and "parse_yaml (bundle_loaded_bytes b) = Inr f" "names_token rfc3339 f au"
    and "Option.bind header bearer_token = Some token" "authenticate token = Inr au"
    and "as_sink st = s"
    and "require_bearer rnd header_ok (journal_append cr' co pol ser) a timestamp now authenticate auth header st = (out, st')"
  shows "(\<exists>r. out = Refused r \<and> status r = 401)
    \<and> (bundle_current b = bundle_current b0
       \<or> change_recorded (revocation_bundle cr debug rfc3339 parse_yaml) (journal_recorded ser (as_sink st')) (bundle_current b))
    \<and> (\<exists>reason. revocation_check (loaded_document (bundle_current b)) au = Some reason
         \<and> (\<forall>n sink. append_bounded (journal_append cr' co pol ser) a s
                (revoked_event timestamp au reason (rd_version (loaded_document (bundle_current b)))) = (Inr n, sink) \<longrightarrow>
              (n, revoked_event timestamp au reason (rd_version (loaded_document (bundle_current b))))
                \<in> journal_recorded ser (as_sink st')))"
proof -
  let ?doc = "revocation_bundle cr debug rfc3339 parse_yaml" and ?d = "loaded_document (bundle_current b)"
  have run: "journal_sink_ok cr' co pol ser s" "bundle_ok cr ?doc b"
      "bundle_current b = bundle_current b0 \<or> change_recorded ?doc (journal_recorded ser s) (bundle_current b)"
    using journaled_revocation.watch_evidence [OF assms(1-3)] by blast+
  have comp: "revocation_compile cr debug rfc3339 parse_yaml (bundle_loaded_bytes b) = Inr ?d"
    using run(2) by (simp add: bundle_ok_def authentic_def revocation_bundle_def)
  obtain reason where reason: "revocation_check ?d au = Some reason"
    using compiled_list_exact [OF comp assms(6), of au] assms(7) by fastforce
  have sink: "journal_sink_ok cr' co pol ser (as_sink st)" using run(1) assms(10) by simp
  note keeps = journaled_boundary.boundary_keeps_journal [OF sink assms(11)]
  have "revocation auth au = Some (reason, rd_version ?d)" using assms(4) reason by (simp add: revocation_def)
  then have "out = Refused (challenge_response header_ok auth 401 (Some (''invalid_token'', Revoked)) ''invalid_token'' ''the token has been revoked'')"
    using assms(8,9,11) by (simp add: require_bearer_def)
  then have "\<exists>r. out = Refused r \<and> status r = 401" by simp
  moreover have "bundle_current b = bundle_current b0 \<or> change_recorded ?doc (journal_recorded ser (as_sink st')) (bundle_current b)"
    using run(3)
  proof
    assume "change_recorded ?doc (journal_recorded ser s) (bundle_current b)"
    with keeps assms(10) show ?thesis by (intro disjI2) (simp add: change_recorded_mono)
  qed simp
  moreover have "(n, revoked_event timestamp au reason (rd_version ?d)) \<in> journal_recorded ser (as_sink st')"
    if "append_bounded (journal_append cr' co pol ser) a s (revoked_event timestamp au reason (rd_version ?d)) = (Inr n, sink)" for n sink
    using journaled_boundary.revoked_refusal_journaled [OF sink assms(5,4,8,9) reason _ assms(11), of n sink] that assms(10) by simp
  ultimately show ?thesis using reason by (intro conjI exI [of _ reason] allI impI)
qed

theorem revocation_end_to_end_witness:
  "\<exists>s (b :: revocation_document signed_bundle) r st'.
     require_bearer (\<lambda>x. x) (\<lambda>_. True) sample_journal_append InTime ''now'' 0 (\<lambda>_. Inr sample_authenticated)
        (sample_auth\<lparr>ia_audit := True\<rparr>) (Some ''Bearer tok'')
        \<lparr>as_observed = [], as_rate_limit = as_rate_limit sample_state, as_sink = s\<rparr> = (Refused r, st')
     \<and> status r = 401
     \<and> change_recorded (revocation_bundle sample_crypto (\<lambda>s. s) (\<lambda>_. Some 1788426000) (\<lambda>_. Inr sample_list))
         (journal_recorded (\<lambda>_. sample_body) (as_sink st')) (bundle_current b)
     \<and> (2, revoked_event ''now'' sample_authenticated ByNotBefore (rd_version sample_revocations))
         \<in> journal_recorded (\<lambda>_. sample_body) (as_sink st')"
proof -
  let ?doc = "revocation_bundle sample_crypto (\<lambda>s. s) (\<lambda>_. Some 1788426000) (\<lambda>_. Inr sample_list)"
  let ?old = "sample_revocations\<lparr>rd_version := version_label sample_crypto 1 ''v0''\<rparr>"
  let ?b = "new_bundle ''p'' None ?old None ''v0''"
  let ?st = "\<lparr>staged_loaded = \<lparr>loaded_document = sample_revocations, loaded_signature = None\<rparr>, staged_bytes = ''v1''\<rparr>"
  let ?auth = "sample_auth\<lparr>ia_audit := True\<rparr>"
  have comp: "revocation_compile sample_crypto (\<lambda>s. s) (\<lambda>_. Some 1788426000) (\<lambda>_. Inr sample_list) v
      = Inr (sample_revocations\<lparr>rd_version := version_label sample_crypto 1 v\<rparr>)" for v
    by (simp add: revocation_compile_def revocation_parse_def sample_list_def sample_revocations_def
        revocation_file_empty_def MAX_ENTRIES_def parse_rfc3339_def)
  have stage: "stage_inner sample_crypto ?doc (sample_fs ''v1'') ?b = (Inr (Some ?st), Some (digest_label sample_crypto ''v1''))"
    by (simp add: stage_inner_def read_bytes_def sample_fs_def revocation_bundle_def new_bundle_def verify_bytes_def
        sample_compiled MAX_DOCUMENT_BYTES_def)
  have ok: "bundle_ok sample_crypto ?doc ?b"
    by (simp add: bundle_ok_def authentic_def new_bundle_def revocation_bundle_def comp)
  obtain s b hook where t: "tick sample_crypto ?doc (sample_fs ''v1'') ''t'' (Some (append_bounded sample_journal_append InTime))
       sample_journal ?b = (s, b, hook)" and written: "sample_written (Suc 0) s"
    and b: "bundle_current b = staged_loaded ?st" "bundle_loaded_bytes b = staged_bytes ?st"
    by (rule sample_tick [OF stage sample_written_new]) simp
  have run: "(watch sample_crypto ?doc sample_journal_append)\<^sup>*\<^sup>* (sample_journal, ?b) (s, b)"
    by (rule r_into_rtranclp, rule watch_tick [OF t])
  let ?st0 = "\<lparr>as_observed = [], as_rate_limit = as_rate_limit sample_state, as_sink = s\<rparr>"
  obtain out st' where req: "require_bearer (\<lambda>x. x) (\<lambda>_. True) sample_journal_append InTime ''now'' 0
      (\<lambda>_. Inr sample_authenticated) ?auth (Some ''Bearer tok'') ?st0 = (out, st')" by fastforce
  obtain sink where ack: "append_bounded sample_journal_append InTime s
      (revoked_event ''now'' sample_authenticated ByNotBefore (rd_version sample_revocations)) = (Inr 2, sink)"
    by (rule sample_append [OF written, of "revoked_event ''now'' sample_authenticated ByNotBefore (rd_version sample_revocations)"])
       (simp_all add: append_bounded_def numeral_2_eq_2)
  have named: "names_token (\<lambda>_. Some 1788426000) sample_list sample_authenticated"
      "revocation_check sample_revocations sample_authenticated = Some ByNotBefore"
    by (simp_all add: names_token_def sample_list_def revocation_file_empty_def sample_authenticated_def revocation_check_def
        sample_revocations_def principal_local_def token_facts_default_def parse_rfc3339_def issued_before_def)
  have differ: "bundle_current b \<noteq> bundle_current ?b"
    by (simp add: b new_bundle_def sample_revocations_def version_label_def digest_label_def sample_crypto_def pad_to_def)
  have "(\<exists>r. out = Refused r \<and> status r = 401)
    \<and> change_recorded ?doc (journal_recorded (\<lambda>_. sample_body) (as_sink st')) (bundle_current b)
    \<and> (2, revoked_event ''now'' sample_authenticated ByNotBefore (rd_version sample_revocations))
         \<in> journal_recorded (\<lambda>_. sample_body) (as_sink st')"
    using revocation_end_to_end [OF run sample_journal_ok ok, where auth = ?auth and f = sample_list and au = sample_authenticated
        and header = "Some ''Bearer tok''" and token = "''tok''" and authenticate = "\<lambda>_. Inr sample_authenticated"
        and st = ?st0 and rnd = "\<lambda>x. x" and header_ok = "\<lambda>_. True" and a = InTime and timestamp = "''now''"
        and now = 0 and out = out and st' = st'] req ack named differ
    by (simp add: b sample_auth_def sample_bearer)
  then show ?thesis using req by (intro exI [of _ s] exI [of _ b] exI [of _ st']) auto
qed

end
